(* ===== verification/Prelude.thy ===== *)
theory Prelude
  imports Main "HOL-Library.Word" "HOL-Library.Sublist"
begin

text \<open>
  What every component of the relay server shares: the development's fact collections, 64-bit
  signed integers with Go's wrap-around, error values, the functions of Go's package
  \<^verbatim>\<open>strings\<close> the server calls (a Go string is a sequence of bytes, here a
  \<^typ>\<open>string\<close> whose characters are bytes), and tables: a SQLite table is the list of its rows,
  and the statements the server issues are functions on that list.
\<close>

named_theorems go_string \<open>facts about the string functions\<close>
named_theorems table_simps \<open>how the table operations change what a lookup returns\<close>
named_theorems keeps_inv \<open>operations that keep a component's invariant\<close>

section \<open>64-bit signed integers\<close>

text \<open>
  A Go \<^verbatim>\<open>int64\<close> is an \<^typ>\<open>int\<close> between \<open>min64\<close> and \<open>max64\<close>; an operation that can leave
  that range is followed by \<open>wrap64\<close>, two's-complement wrap-around.
\<close>

definition min64 :: int where "min64 = - (2 ^ 63)"

definition max64 :: int where "max64 = 2 ^ 63 - 1"

definition wrap64 :: "int \<Rightarrow> int" where
  "wrap64 x = (x + 2 ^ 63) mod 2 ^ 64 - 2 ^ 63"

definition is_int64 :: "int \<Rightarrow> bool" where
  "is_int64 x \<longleftrightarrow> min64 \<le> x \<and> x \<le> max64"

lemma wrap64_id [simp]: "is_int64 x \<Longrightarrow> wrap64 x = x"
  by (simp add: wrap64_def is_int64_def min64_def max64_def)

lemma is_int64_wrap64 [simp]: "is_int64 (wrap64 x)"
proof -
  have "0 \<le> (x + 2 ^ 63) mod 2 ^ 64" and "(x + 2 ^ 63) mod 2 ^ 64 < 2 ^ 64"
    by simp_all
  then show ?thesis
    by (simp add: wrap64_def is_int64_def min64_def max64_def)
qed

text \<open>\<open>wrap64\<close> is the reading of a 64-bit machine word as two's complement.\<close>

lemma wrap64_word: "wrap64 x = sint (word_of_int x :: 64 word)"
  by (simp add: wrap64_def signed_take_bit_eq_take_bit_shift take_bit_eq_mod sint_sbintrunc')

section \<open>Error values\<close>

text \<open>
  \<^verbatim>\<open>*common.APIError\<close> carries an HTTP status, a code and a message; every other Go error is
  \<open>Internal\<close> with the text it was wrapped with. A fallible operation returns \<open>Inl\<close> of an error
  or \<open>Inr\<close> of its result.
\<close>

record api_error =
  ae_status :: nat
  ae_code :: string
  ae_message :: string

datatype go_error = Api api_error | Internal string

definition is_ok :: "'e + 'a \<Rightarrow> bool" where
  "is_ok r \<longleftrightarrow> (case r of Inl _ \<Rightarrow> False | Inr _ \<Rightarrow> True)"

lemma is_ok_simps [simp]: "is_ok (Inr a)" "\<not> is_ok (Inl e)"
  by (simp_all add: is_ok_def)

lemma is_ok_iff: "is_ok r \<longleftrightarrow> (\<exists>a. r = Inr a)"
  by (cases r) simp_all

section \<open>Strings\<close>

definition has_prefix :: "string \<Rightarrow> string \<Rightarrow> bool" where
  "has_prefix s p \<longleftrightarrow> take (length p) s = p"

definition cut_prefix :: "string \<Rightarrow> string \<Rightarrow> string option" where
  "cut_prefix s p = (if has_prefix s p then Some (drop (length p) s) else None)"

text \<open>\<^verbatim>\<open>strings.Cut\<close> with a one-byte separator: the parts around its first occurrence.\<close>

fun str_cut :: "char \<Rightarrow> string \<Rightarrow> (string \<times> string) option" where
  "str_cut c [] = None"
| "str_cut c (x # xs) =
     (if x = c then Some ([], xs)
      else (case str_cut c xs of None \<Rightarrow> None | Some (a, b) \<Rightarrow> Some (x # a, b)))"

text \<open>\<^verbatim>\<open>strings.Contains\<close>.\<close>

fun contains :: "string \<Rightarrow> string \<Rightarrow> bool" where
  "contains [] p = has_prefix [] p"
| "contains (x # xs) p = (has_prefix (x # xs) p \<or> contains xs p)"

text \<open>\<^verbatim>\<open>strings.Split\<close> with a one-byte separator: never the empty list.\<close>

fun split_on :: "char \<Rightarrow> string \<Rightarrow> string list" where
  "split_on c [] = [[]]"
| "split_on c (x # xs) =
     (if x = c then [] # split_on c xs
      else (case split_on c xs of [] \<Rightarrow> [[x]] | w # ws \<Rightarrow> (x # w) # ws))"

text \<open>
  \<^verbatim>\<open>strings.Join\<close> with a one-byte separator.
\<close>

fun join_with :: "char \<Rightarrow> string list \<Rightarrow> string" where
  "join_with c [] = []"
| "join_with c [w] = w"
| "join_with c (w # v # ws) = w @ c # join_with c (v # ws)"

text \<open>
  \<^verbatim>\<open>strings.ToLower\<close> takes a fast path when every byte is ASCII; otherwise it maps the runes by
  the Unicode tables, which are the parameter \<open>ul\<close> of the definitions that need them.
\<close>

definition is_ascii :: "char \<Rightarrow> bool" where
  "is_ascii c \<longleftrightarrow> (of_char c :: nat) < 128"

definition lower_ascii :: "char \<Rightarrow> char" where
  "lower_ascii c =
     (let n = of_char c :: nat in if 65 \<le> n \<and> n \<le> 90 then char_of (n + 32) else c)"

definition upper_ascii :: "char \<Rightarrow> char" where
  "upper_ascii c =
     (let n = of_char c :: nat in if 97 \<le> n \<and> n \<le> 122 then char_of (n - 32) else c)"

definition to_lower :: "(string \<Rightarrow> string) \<Rightarrow> string \<Rightarrow> string" where
  "to_lower ul s = (if list_all is_ascii s then map lower_ascii s else ul s)"

definition to_upper :: "(string \<Rightarrow> string) \<Rightarrow> string \<Rightarrow> string" where
  "to_upper uu s = (if list_all is_ascii s then map upper_ascii s else uu s)"

text \<open>
  \<^verbatim>\<open>strings.EqualFold(s, t)\<close> for a lower-case ASCII \<open>t\<close>. Unicode case folding adds two pairs to
  the ASCII ones: the Kelvin sign (bytes E2 84 AA) folds with \<^verbatim>\<open>k\<close> and the long s (C5 BF) with
  \<^verbatim>\<open>s\<close>.
\<close>

fun equal_fold :: "string \<Rightarrow> string \<Rightarrow> bool" where
  "equal_fold s [] = (s = [])"
| "equal_fold s (t # ts) =
     (case s of
        [] \<Rightarrow> False
      | x # xs \<Rightarrow>
          if lower_ascii x = t then equal_fold xs ts
          else if t = CHR ''s'' \<and> has_prefix s [CHR 0xC5, CHR 0xBF]
          then equal_fold (drop 2 s) ts
          else if t = CHR ''k'' \<and> has_prefix s [CHR 0xE2, CHR 0x84, CHR 0xAA]
          then equal_fold (drop 3 s) ts
          else False)"

text \<open>
  \<^verbatim>\<open>strings.TrimSpace\<close> on bytes: the encodings of the runes with the Unicode property
  White\_Space, removed from both ends.
\<close>

definition space_runes :: "string list" where
  "space_runes =
     [[CHR 0x09], [CHR 0x0A], [CHR 0x0B], [CHR 0x0C], [CHR 0x0D], [CHR 0x20],
      [CHR 0xC2, CHR 0x85], [CHR 0xC2, CHR 0xA0], [CHR 0xE1, CHR 0x9A, CHR 0x80],
      [CHR 0xE2, CHR 0x80, CHR 0x80], [CHR 0xE2, CHR 0x80, CHR 0x81], [CHR 0xE2, CHR 0x80, CHR 0x82],
      [CHR 0xE2, CHR 0x80, CHR 0x83], [CHR 0xE2, CHR 0x80, CHR 0x84], [CHR 0xE2, CHR 0x80, CHR 0x85],
      [CHR 0xE2, CHR 0x80, CHR 0x86], [CHR 0xE2, CHR 0x80, CHR 0x87], [CHR 0xE2, CHR 0x80, CHR 0x88],
      [CHR 0xE2, CHR 0x80, CHR 0x89], [CHR 0xE2, CHR 0x80, CHR 0x8A], [CHR 0xE2, CHR 0x80, CHR 0xA8],
      [CHR 0xE2, CHR 0x80, CHR 0xA9], [CHR 0xE2, CHR 0x80, CHR 0xAF], [CHR 0xE2, CHR 0x81, CHR 0x9F],
      [CHR 0xE3, CHR 0x80, CHR 0x80]]"

text \<open>The trimming loop, with the table of prefixes as an argument; each round removes at least a byte.\<close>

function strip_any :: "string list \<Rightarrow> string \<Rightarrow> string" where
  "strip_any ps s =
     (case List.find (\<lambda>p. p \<noteq> [] \<and> has_prefix s p) ps of
        None \<Rightarrow> s
      | Some p \<Rightarrow> strip_any ps (drop (length p) s))"
  by pat_completeness auto
termination
proof (relation "measure (\<lambda>(ps, s). length s)", simp)
  fix ps s p
  assume "List.find (\<lambda>p. p \<noteq> [] \<and> has_prefix s p) ps = Some p"
  then have p: "p \<noteq> []" "has_prefix s p"
    by (auto simp: find_Some_iff)
  then have "s \<noteq> []" by (auto simp: has_prefix_def)
  with p show "((ps, drop (length p) s), ps, s) \<in> measure (\<lambda>(ps, s). length s)"
    by (cases s; cases p) auto
qed

declare strip_any.simps [simp del]

definition trim_space :: "string \<Rightarrow> string" where
  "trim_space s = rev (strip_any (map rev space_runes) (rev (strip_any space_runes s)))"

subsection \<open>Facts\<close>

lemma has_prefix_append [simp, go_string]: "has_prefix (p @ s) p"
  by (simp add: has_prefix_def)

lemma has_prefix_iff: "has_prefix s p \<longleftrightarrow> (\<exists>r. s = p @ r)"
  by (metis append_take_drop_id has_prefix_append has_prefix_def)

lemma cut_prefix_append [simp, go_string]: "cut_prefix (p @ s) p = Some s"
  by (simp add: cut_prefix_def)

lemma cut_prefix_Some: "cut_prefix s p = Some r \<longleftrightarrow> s = p @ r"
  by (auto simp: cut_prefix_def has_prefix_iff)

lemma str_cut_append [go_string]: "c \<notin> set a \<Longrightarrow> str_cut c (a @ c # b) = Some (a, b)"
  by (induction a) auto

lemma str_cut_Some_iff: "str_cut c s = Some (a, b) \<longleftrightarrow> s = a @ c # b \<and> c \<notin> set a"
proof
  show "str_cut c s = Some (a, b) \<Longrightarrow> s = a @ c # b \<and> c \<notin> set a"
    by (induction s arbitrary: a) (auto split: if_splits option.splits)
next
  show "s = a @ c # b \<and> c \<notin> set a \<Longrightarrow> str_cut c s = Some (a, b)"
    by (simp add: str_cut_append)
qed

lemma str_cut_None_iff: "str_cut c s = None \<longleftrightarrow> c \<notin> set s"
  by (induction s) (auto split: option.splits)

lemma contains_iff: "contains s p \<longleftrightarrow> (\<exists>a b. s = a @ p @ b)"
proof (induction s)
  case Nil
  show ?case by (auto simp: has_prefix_def)
next
  case (Cons x xs)
  have "(\<exists>a b. x # xs = a @ p @ b) \<longleftrightarrow> (\<exists>b. x # xs = p @ b) \<or> (\<exists>a b. xs = a @ p @ b)"
    by (metis append_Cons append_Nil list.exhaust_sel list.sel(3) list.sel(1))
  with Cons.IH show ?case by (simp add: has_prefix_iff)
qed

lemma split_on_not_Nil [simp]: "split_on c s \<noteq> []"
  by (cases s) (auto split: list.splits)

lemma split_on_no_sep: "w \<in> set (split_on c s) \<Longrightarrow> c \<notin> set w"
  by (induction s arbitrary: w) (auto split: if_splits list.splits)

lemma split_on_free [go_string]: "c \<notin> set w \<Longrightarrow> split_on c w = [w]"
  by (induction w) auto

lemma split_on_append [go_string]: "c \<notin> set w \<Longrightarrow> split_on c (w @ c # s) = w # split_on c s"
  by (induction w) auto

lemma split_join [go_string]:
  "ws \<noteq> [] \<Longrightarrow> \<forall>w \<in> set ws. c \<notin> set w \<Longrightarrow> split_on c (join_with c ws) = ws"
  by (induction c ws rule: join_with.induct) (auto simp: split_on_free split_on_append)

section \<open>Tables\<close>

text \<open>
  A table is a list of rows with a key function. \<^verbatim>\<open>INSERT OR REPLACE\<close> deletes the row that
  conflicts and inserts the new one; \<^verbatim>\<open>INSERT ... ON CONFLICT DO UPDATE\<close> rewrites the
  conflicting row in place or appends.
\<close>

definition tbl_find :: "('r \<Rightarrow> 'k) \<Rightarrow> 'k \<Rightarrow> 'r list \<Rightarrow> 'r option" where
  "tbl_find f k t = List.find (\<lambda>r. f r = k) t"

definition tbl_delete :: "('r \<Rightarrow> bool) \<Rightarrow> 'r list \<Rightarrow> 'r list" where
  "tbl_delete P t = filter (\<lambda>r. \<not> P r) t"

definition tbl_replace :: "('r \<Rightarrow> 'k) \<Rightarrow> 'r \<Rightarrow> 'r list \<Rightarrow> 'r list" where
  "tbl_replace f r t = filter (\<lambda>r'. f r' \<noteq> f r) t @ [r]"

definition tbl_upsert :: "('r \<Rightarrow> 'k) \<Rightarrow> ('r \<Rightarrow> 'r) \<Rightarrow> 'r \<Rightarrow> 'r list \<Rightarrow> 'r list" where
  "tbl_upsert f upd r t =
     (if \<exists>r' \<in> set t. f r' = f r then map (\<lambda>r'. if f r' = f r then upd r' else r') t
      else t @ [r])"

definition tbl_unique :: "('r \<Rightarrow> 'k) \<Rightarrow> 'r list \<Rightarrow> bool" where
  "tbl_unique f t \<longleftrightarrow> distinct (map f t)"

lemma find_SomeD: "List.find P xs = Some x \<Longrightarrow> x \<in> set xs \<and> P x"
  by (auto simp: find_Some_iff)

lemma find_append: "List.find P (xs @ ys) = (case List.find P xs of None \<Rightarrow> List.find P ys | Some x \<Rightarrow> Some x)"
  by (induction xs) auto

lemma find_filter_same: "(\<And>x. P x \<Longrightarrow> Q x) \<Longrightarrow> List.find P (filter Q xs) = List.find P xs"
  by (induction xs) auto

lemma find_map_same:
  "(\<And>x. P (g x) = P x) \<Longrightarrow> List.find P (map g xs) = map_option g (List.find P xs)"
  by (induction xs) auto

lemma tbl_find_Nil [simp]: "tbl_find f k [] = None"
  by (simp add: tbl_find_def)

lemma tbl_find_SomeD: "tbl_find f k t = Some r \<Longrightarrow> r \<in> set t \<and> f r = k"
  by (auto simp: tbl_find_def find_Some_iff)

lemma tbl_find_None_iff: "tbl_find f k t = None \<longleftrightarrow> (\<forall>r \<in> set t. f r \<noteq> k)"
  by (auto simp: tbl_find_def find_None_iff)

lemma tbl_find_unique:
  "tbl_unique f t \<Longrightarrow> r \<in> set t \<Longrightarrow> tbl_find f (f r) t = Some r"
  by (induction t) (auto simp: tbl_unique_def tbl_find_def rev_image_eqI)

lemma tbl_find_replace [table_simps]:
  "tbl_find f k (tbl_replace f r t) = (if k = f r then Some r else tbl_find f k t)"
proof (cases "k = f r")
  case True
  have "List.find (\<lambda>r'. f r' = f r) (filter (\<lambda>r'. f r' \<noteq> f r) t) = None"
    by (simp add: find_None_iff)
  with True show ?thesis by (simp add: tbl_find_def tbl_replace_def find_append)
next
  case False
  then have "List.find (\<lambda>r'. f r' = k) (filter (\<lambda>r'. f r' \<noteq> f r) t) = List.find (\<lambda>r'. f r' = k) t"
    by (intro find_filter_same) auto
  with False show ?thesis
    by (simp add: tbl_find_def tbl_replace_def find_append split: option.splits)
qed

lemma tbl_find_upsert [table_simps]:
  assumes "\<And>r'. f r' = f r \<Longrightarrow> f (upd r') = f r"
  shows "tbl_find f k (tbl_upsert f upd r t) =
     (if k = f r then (case tbl_find f k t of None \<Rightarrow> Some r | Some r' \<Rightarrow> Some (upd r'))
      else tbl_find f k t)"
proof (cases "\<exists>r' \<in> set t. f r' = f r")
  case True
  let ?g = "\<lambda>r'. if f r' = f r then upd r' else r'"
  have eq: "tbl_find f k (map ?g t) = map_option ?g (tbl_find f k t)"
    unfolding tbl_find_def by (rule find_map_same) (use assms in auto)
  from True have "tbl_find f (f r) t \<noteq> None" by (auto simp: tbl_find_None_iff)
  with True eq show ?thesis
    by (auto simp: tbl_upsert_def dest: tbl_find_SomeD split: option.splits)
      (cases "tbl_find f k t"; auto dest: tbl_find_SomeD)
next
  case False
  then have "tbl_find f (f r) t = None" by (auto simp: tbl_find_None_iff)
  with False show ?thesis
    by (auto simp: tbl_upsert_def tbl_find_def find_append split: option.splits)
qed

lemma tbl_find_delete_other:
  "(\<And>r. r \<in> set t \<Longrightarrow> f r = k \<Longrightarrow> \<not> P r) \<Longrightarrow> tbl_find f k (tbl_delete P t) = tbl_find f k t"
  by (induction t) (auto simp: tbl_find_def tbl_delete_def)

lemma tbl_find_delete [table_simps]:
  assumes "tbl_unique f t"
  shows "tbl_find f k (tbl_delete P t) =
     (case tbl_find f k t of None \<Rightarrow> None | Some r \<Rightarrow> if P r then None else Some r)"
  using assms by (induction t) (auto simp: tbl_find_def tbl_delete_def tbl_unique_def find_None_iff rev_image_eqI
      split: option.splits dest: find_SomeD)

lemma find_key_and:
  "tbl_unique f t \<Longrightarrow> List.find (\<lambda>r. f r = k \<and> P r) t =
     (case tbl_find f k t of None \<Rightarrow> None | Some r \<Rightarrow> if P r then Some r else None)"
proof (induction t)
  case Nil
  then show ?case by simp
next
  case (Cons x t)
  then have "tbl_unique f t" by (simp add: tbl_unique_def)
  note IH = Cons.IH [OF this]
  show ?case
  proof (cases "f x = k")
    case True
    have "List.find (\<lambda>r. f r = k \<and> P r) t = None"
      using Cons.prems True by (auto simp: tbl_unique_def find_None_iff image_iff)
    with True show ?thesis by (simp add: tbl_find_def)
  next
    case False
    with IH show ?thesis by (simp add: tbl_find_def)
  qed
qed

lemma set_tbl_delete [simp]: "set (tbl_delete P t) = {r \<in> set t. \<not> P r}"
  by (simp add: tbl_delete_def)

lemma set_tbl_replace [simp]: "set (tbl_replace f r t) = insert r {r' \<in> set t. f r' \<noteq> f r}"
  by (auto simp: tbl_replace_def)

lemma tbl_unique_Nil [simp]: "tbl_unique f []"
  by (simp add: tbl_unique_def)

lemma tbl_unique_filter [keeps_inv]: "tbl_unique f t \<Longrightarrow> tbl_unique f (filter P t)"
  by (simp add: tbl_unique_def distinct_map_filter)

lemma tbl_unique_delete [keeps_inv]: "tbl_unique f t \<Longrightarrow> tbl_unique f (tbl_delete P t)"
  by (simp add: tbl_delete_def tbl_unique_filter)

lemma tbl_unique_replace [keeps_inv]: "tbl_unique f t \<Longrightarrow> tbl_unique f (tbl_replace f r t)"
  by (auto simp: tbl_replace_def tbl_unique_def distinct_map_filter)

lemma tbl_unique_map:
  "(\<And>r. r \<in> set t \<Longrightarrow> f (g r) = f r) \<Longrightarrow> tbl_unique f (map g t) = tbl_unique f t"
  by (simp add: tbl_unique_def comp_def cong: map_cong)

lemma tbl_unique_upsert [keeps_inv]:
  assumes "tbl_unique f t" and "\<And>r'. f r' = f r \<Longrightarrow> f (upd r') = f r"
  shows "tbl_unique f (tbl_upsert f upd r t)"
proof (cases "\<exists>r' \<in> set t. f r' = f r")
  case True
  with assms show ?thesis by (auto simp: tbl_upsert_def tbl_unique_map)
next
  case False
  with assms show ?thesis by (auto simp: tbl_upsert_def tbl_unique_def)
qed

section \<open>Trimming\<close>

lemma strip_any_tail: "\<exists>a. s = a @ strip_any ps s"
proof (induction ps s rule: strip_any.induct)
  case (1 ps s)
  show ?case
  proof (cases "List.find (\<lambda>p. p \<noteq> [] \<and> has_prefix s p) ps")
    case None
    then show ?thesis by (subst strip_any.simps) simp
  next
    case (Some p)
    with "1.IH" obtain a where "drop (length p) s = a @ strip_any ps (drop (length p) s)" by blast
    then have "s = (take (length p) s @ a) @ strip_any ps (drop (length p) s)" by (metis append.assoc append_take_drop_id)
    moreover have "strip_any ps s = strip_any ps (drop (length p) s)" using Some by (subst strip_any.simps) simp
    ultimately show ?thesis by metis
  qed
qed

lemma strip_any_clean: "p \<in> set ps \<Longrightarrow> p \<noteq> [] \<Longrightarrow> \<not> has_prefix (strip_any ps s) p"
proof (induction ps s rule: strip_any.induct)
  case (1 ps s)
  then show ?case by (subst strip_any.simps) (auto split: option.split simp: find_None_iff)
qed

lemma strip_any_id: "\<forall>p \<in> set ps. p \<noteq> [] \<longrightarrow> \<not> has_prefix s p \<Longrightarrow> strip_any ps s = s"
  by (subst strip_any.simps) (auto split: option.split simp: find_Some_iff)

lemma trim_space_idem [simp]: "trim_space (trim_space s) = trim_space s"
proof -
  let ?u = "strip_any space_runes s" and ?ps = "map rev space_runes"
  let ?v = "strip_any ?ps (rev ?u)"
  obtain a where "rev ?u = a @ ?v" using strip_any_tail by blast
  then have u: "?u = rev ?v @ rev a" by (metis rev_append rev_rev_ident)
  have "\<not> has_prefix (rev ?v) p" if "p \<in> set space_runes" "p \<noteq> []" for p
    using strip_any_clean [OF that, of s] u by (metis append.assoc has_prefix_iff)
  then have "strip_any space_runes (rev ?v) = rev ?v" by (intro strip_any_id) blast
  moreover have "strip_any ?ps ?v = ?v" by (intro strip_any_id ballI impI) (rule strip_any_clean)
  ultimately show ?thesis by (simp add: trim_space_def)
qed

end
