(* ===== verification/Base64.thy ===== *)
theory Base64
  imports Strconv
begin

text \<open>
  Go's \<^verbatim>\<open>encoding/base64\<close> as the server uses it: \<^verbatim>\<open>StdEncoding\<close> (padded; relay bodies, the data
  key, cipher texts) and \<^verbatim>\<open>RawURLEncoding\<close> (not padded; cursors and opaque tokens). The decoder
  skips CR and LF and, as Go's does by default, ignores the unused low bits of the last group.
\<close>

definition std_alphabet :: string where
  "std_alphabet = ''ABCDEFGHIJKLMNOPQRSTUVWXYZabcdefghijklmnopqrstuvwxyz0123456789+/''"

definition url_alphabet :: string where
  "url_alphabet = ''ABCDEFGHIJKLMNOPQRSTUVWXYZabcdefghijklmnopqrstuvwxyz0123456789-_''"

definition sextet_char :: "string \<Rightarrow> nat \<Rightarrow> char" where
  "sextet_char al v = al ! (v mod 64)"

fun index_of :: "string \<Rightarrow> char \<Rightarrow> nat option" where
  "index_of [] c = None"
| "index_of (x # xs) c = (if x = c then Some 0 else map_option Suc (index_of xs c))"

section \<open>Encoding\<close>

fun b64_encode :: "string \<Rightarrow> bool \<Rightarrow> string \<Rightarrow> string" where
  "b64_encode al pad [] = []"
| "b64_encode al pad [a] =
     (let x = of_char a
      in [sextet_char al (x div 4), sextet_char al ((x mod 4) * 16)] @
         (if pad then ''=='' else []))"
| "b64_encode al pad [a, b] =
     (let x = of_char a; y = of_char b
      in [sextet_char al (x div 4), sextet_char al ((x mod 4) * 16 + y div 16),
          sextet_char al ((y mod 16) * 4)] @ (if pad then ''='' else []))"
| "b64_encode al pad (a # b # c # r) =
     (let x = of_char a; y = of_char b; z = of_char c
      in [sextet_char al (x div 4), sextet_char al ((x mod 4) * 16 + y div 16),
          sextet_char al ((y mod 16) * 4 + z div 64), sextet_char al (z mod 64)] @
         b64_encode al pad r)"

section \<open>Decoding\<close>

text \<open>Bytes of a full group, of one with two characters and of one with three.\<close>

definition group4 :: "nat \<Rightarrow> nat \<Rightarrow> nat \<Rightarrow> nat \<Rightarrow> string" where
  "group4 p q r s = [char_of (p * 4 + q div 16), char_of ((q mod 16) * 16 + r div 4),
     char_of ((r mod 4) * 64 + s)]"

definition group2 :: "nat \<Rightarrow> nat \<Rightarrow> string" where
  "group2 p q = [char_of (p * 4 + q div 16)]"

definition group3 :: "nat \<Rightarrow> nat \<Rightarrow> nat \<Rightarrow> string" where
  "group3 p q r = [char_of (p * 4 + q div 16), char_of ((q mod 16) * 16 + r div 4)]"

fun decode_groups :: "string \<Rightarrow> bool \<Rightarrow> string \<Rightarrow> string option" where
  "decode_groups al pad [] = Some []"
| "decode_groups al pad [a] = None"
| "decode_groups al pad [a, b] =
     (if pad then None
      else case (index_of al a, index_of al b) of
        (Some p, Some q) \<Rightarrow> Some (group2 p q)
      | _ \<Rightarrow> None)"
| "decode_groups al pad [a, b, c] =
     (if pad then None
      else case (index_of al a, index_of al b, index_of al c) of
        (Some p, Some q, Some r) \<Rightarrow> Some (group3 p q r)
      | _ \<Rightarrow> None)"
| "decode_groups al pad (a # b # c # d # rest) =
     (case (index_of al a, index_of al b) of
        (Some p, Some q) \<Rightarrow>
          if pad \<and> rest = [] \<and> c = CHR ''='' \<and> d = CHR ''='' then Some (group2 p q)
          else if pad \<and> rest = [] \<and> d = CHR ''='' then
            (case index_of al c of Some r \<Rightarrow> Some (group3 p q r) | None \<Rightarrow> None)
          else
            (case (index_of al c, index_of al d, decode_groups al pad rest) of
               (Some r, Some s, Some bs) \<Rightarrow> Some (group4 p q r s @ bs)
             | _ \<Rightarrow> None)
      | _ \<Rightarrow> None)"

definition not_newline :: "char \<Rightarrow> bool" where
  "not_newline c \<longleftrightarrow> c \<noteq> CHR 0x0A \<and> c \<noteq> CHR 0x0D"

definition b64_decode :: "string \<Rightarrow> bool \<Rightarrow> string \<Rightarrow> string option" where
  "b64_decode al pad s = decode_groups al pad (filter not_newline s)"

definition std_encode :: "string \<Rightarrow> string" where
  "std_encode = b64_encode std_alphabet True"

definition std_decode :: "string \<Rightarrow> string option" where
  "std_decode = b64_decode std_alphabet True"

definition rawurl_encode :: "string \<Rightarrow> string" where
  "rawurl_encode = b64_encode url_alphabet False"

definition rawurl_decode :: "string \<Rightarrow> string option" where
  "rawurl_decode = b64_decode url_alphabet False"

section \<open>Decoding undoes encoding\<close>

text \<open>
  What the two encodings need of their alphabet: 64 different characters, none of them the padding
  or a newline.
\<close>

definition good_alphabet :: "string \<Rightarrow> bool" where
  "good_alphabet al \<longleftrightarrow> length al = 64 \<and> distinct al \<and> CHR ''='' \<notin> set al \<and> list_all not_newline al"

lemma index_of_nth: "distinct al \<Longrightarrow> i < length al \<Longrightarrow> index_of al (al ! i) = Some i"
proof (induction al arbitrary: i)
  case Nil
  then show ?case by simp
next
  case (Cons x xs)
  then show ?case by (cases i) auto
qed

lemma of_char_less: "(of_char (c :: char) :: nat) < 256"
  by (metis mod_less_divisor of_char_mod_256 zero_less_numeral)

lemma char_of_eqI: "n = of_char c \<Longrightarrow> char_of n = (c :: char)"
  by simp

lemma of_char_parts [simp]:
  "(of_char (c :: char) :: nat) div 4 < 64" "(of_char (c :: char) :: nat) div 16 < 16"
  "(of_char (c :: char) :: nat) div 64 < 4"
  using of_char_less [of c] by (simp_all add: less_mult_imp_div_less)

lemma sextet_parts [simp]:
  "(m :: nat) mod 4 * 16 < 64" "m mod 16 * 4 < 64"
  "k < 16 \<Longrightarrow> m mod 4 * 16 + k < 64" "j < 4 \<Longrightarrow> m mod 16 * 4 + j < 64"
proof -
  have "m mod 4 < 4" "m mod 16 < 16" by simp_all
  then show "m mod 4 * 16 < 64" "m mod 16 * 4 < 64"
    "k < 16 \<Longrightarrow> m mod 4 * 16 + k < 64" "j < 4 \<Longrightarrow> m mod 16 * 4 + j < 64"
    by linarith+
qed

lemma group2_chars: "group2 (of_char a div 4) (of_char a mod 4 * 16) = [a]"
  by (simp add: group2_def char_of_eqI)

lemma group3_chars:
  "group3 (of_char a div 4) (of_char a mod 4 * 16 + of_char b div 16) (of_char b mod 16 * 4) = [a, b]"
  by (simp add: group3_def char_of_eqI)

lemma group4_chars:
  "group4 (of_char a div 4) (of_char a mod 4 * 16 + of_char b div 16)
     (of_char b mod 16 * 4 + of_char c div 64) (of_char c mod 64) = [a, b, c]"
proof -
  have "of_char c div 64 mod 4 * 64 + of_char c mod 64 = (of_char c :: nat)"
    by (simp add: mod_less)
  then show ?thesis
    by (simp add: group4_def char_of_eqI)
qed

text \<open>Induction three bytes at a time.\<close>

lemma triple_induct [case_names Nil one two more]:
  assumes "P []" and "\<And>a. P [a]" and "\<And>a b. P [a, b]" and "\<And>a b c r. P r \<Longrightarrow> P (a # b # c # r)"
  shows "P xs"
proof (induction xs rule: length_induct)
  case (1 xs)
  then show ?case
    using assms by (cases xs rule: remdups_adj.cases; cases "tl (tl xs)") auto
qed

locale b64_alphabet =
  fixes al :: string
  assumes al: "good_alphabet al"
begin

lemma index_sextet [simp]: "v < 64 \<Longrightarrow> index_of al (sextet_char al v) = Some v"
  using al by (simp add: good_alphabet_def sextet_char_def index_of_nth)

lemma sextet_in: "sextet_char al v \<in> set al"
  using al by (simp add: good_alphabet_def sextet_char_def)

lemma sextet_not_pad [simp]: "sextet_char al v \<noteq> CHR ''=''"
  using al sextet_in [of v] by (metis good_alphabet_def)

lemma sextet_not_newline [simp]: "not_newline (sextet_char al v)"
  using al sextet_in [of v] by (simp add: good_alphabet_def list_all_iff)

lemma filter_encode [simp]: "filter not_newline (b64_encode al pad bs) = b64_encode al pad bs"
proof -
  have "not_newline CHR ''=''" by (simp add: not_newline_def)
  then show ?thesis by (induction bs rule: triple_induct) (simp_all add: Let_def)
qed

lemma decode_groups_encode: "decode_groups al pad (b64_encode al pad bs) = Some bs"
  by (induction bs rule: triple_induct)
    (simp_all add: Let_def group2_chars group3_chars group4_chars)

lemma decode_encode: "b64_decode al pad (b64_encode al pad bs) = Some bs"
  by (simp add: b64_decode_def decode_groups_encode)

end

interpretation std: b64_alphabet std_alphabet
  by unfold_locales code_simp

interpretation rawurl: b64_alphabet url_alphabet
  by unfold_locales code_simp

lemma std_decode_encode [simp]: "std_decode (std_encode bs) = Some bs"
  by (simp add: std_decode_def std_encode_def std.decode_encode)

lemma rawurl_decode_encode [simp]: "rawurl_decode (rawurl_encode bs) = Some bs"
  by (simp add: rawurl_decode_def rawurl_encode_def rawurl.decode_encode)

end
