(* ===== verification/Json.thy ===== *)
theory Json
  imports Prelude
begin

text \<open>
  JSON values as Go's \<^verbatim>\<open>encoding/json\<close> decodes them into \<^verbatim>\<open>any\<close>. A number keeps its literal, an
  object is the list of the members of the decoded map (a Go map: each name once, in no order the
  server relies on). The decoder itself, \<^verbatim>\<open>json.Unmarshal\<close>, is the parameter \<open>unmarshal\<close> of the
  definitions that decode stored or received text.
\<close>

datatype json =
    JNull
  | JBool bool
  | JNum string
  | JStr string
  | JArr "json list"
  | JObj "(string \<times> json) list"

type_synonym unmarshal = "string \<Rightarrow> json option"

definition jget :: "string \<Rightarrow> (string \<times> json) list \<Rightarrow> json option" where
  "jget k kvs = map_of kvs k"

text \<open>Assignment to a key of a Go map.\<close>

definition jset :: "string \<Rightarrow> json \<Rightarrow> (string \<times> json) list \<Rightarrow> (string \<times> json) list" where
  "jset k v kvs = tbl_replace fst (k, v) kvs"

lemma map_of_filter_neq: "map_of (filter (\<lambda>p. fst p \<noteq> k) kvs) = (map_of kvs)(k := None)"
  by (induction kvs) (auto simp: fun_eq_iff)

lemma jget_jset [simp]: "jget k (jset k' v kvs) = (if k = k' then Some v else jget k kvs)"
  by (auto simp: jget_def jset_def tbl_replace_def map_of_filter_neq map_add_def split: option.splits)

text \<open>
  Decoding into \<^verbatim>\<open>any\<close> turns every number into a \<^verbatim>\<open>float64\<close> and encoding prints that float again.
  \<open>fl\<close> is this step on a literal: the text printed for the nearest float, or \<open>None\<close> where the
  literal is out of range and decoding fails.
\<close>

fun reencode :: "(string \<Rightarrow> string option) \<Rightarrow> json \<Rightarrow> json option"
  and reencode_list :: "(string \<Rightarrow> string option) \<Rightarrow> json list \<Rightarrow> json list option"
  and reencode_members :: "(string \<Rightarrow> string option) \<Rightarrow> (string \<times> json) list \<Rightarrow> (string \<times> json) list option"
where
  "reencode fl JNull = Some JNull"
| "reencode fl (JBool b) = Some (JBool b)"
| "reencode fl (JNum n) = map_option JNum (fl n)"
| "reencode fl (JStr s) = Some (JStr s)"
| "reencode fl (JArr vs) = map_option JArr (reencode_list fl vs)"
| "reencode fl (JObj kvs) = map_option JObj (reencode_members fl kvs)"
| "reencode_list fl [] = Some []"
| "reencode_list fl (v # vs) =
     (case (reencode fl v, reencode_list fl vs) of
        (Some v', Some vs') \<Rightarrow> Some (v' # vs')
      | _ \<Rightarrow> None)"
| "reencode_members fl [] = Some []"
| "reencode_members fl ((k, v) # kvs) =
     (case (reencode fl v, reencode_members fl kvs) of
        (Some v', Some kvs') \<Rightarrow> Some ((k, v') # kvs')
      | _ \<Rightarrow> None)"

lemma reencode_id:
  "(\<And>n. fl n = Some n) \<Longrightarrow> reencode fl v = Some v"
  "(\<And>n. fl n = Some n) \<Longrightarrow> reencode_list fl vs = Some vs"
  "(\<And>n. fl n = Some n) \<Longrightarrow> reencode_members fl kvs = Some kvs"
  by (induction fl v and fl vs and fl kvs rule: reencode_reencode_list_reencode_members.induct) auto

end
