(* ===== verification/Common.thy ===== *)
theory Common
  imports Base64 Json
begin

text \<open>
  Package \<^verbatim>\<open>internal/common\<close>: the uniform errors, the response envelope with its request id, field
  validation, cursors and page limits, log redaction, the client address behind trusted proxies
  and the keyed token-bucket limiter.
\<close>

section \<open>Errors (errors.go)\<close>

definition new_error :: "nat \<Rightarrow> string \<Rightarrow> string \<Rightarrow> api_error" where
  "new_error status code msg = \<lparr>ae_status = status, ae_code = code, ae_message = msg\<rparr>"

definition bad_request :: "string \<Rightarrow> go_error" where
  "bad_request msg = Api (new_error 400 ''VALIDATION_FAILED'' msg)"

definition unauthorized :: "string \<Rightarrow> go_error" where
  "unauthorized msg = Api (new_error 401 ''INVALID_TOKEN'' msg)"

definition forbidden :: "string \<Rightarrow> go_error" where
  "forbidden msg = Api (new_error 403 ''FORBIDDEN'' msg)"

definition not_found :: "string \<Rightarrow> go_error" where
  "not_found msg = Api (new_error 404 ''NOT_FOUND'' msg)"

definition rate_limited :: go_error where
  "rate_limited = Api (new_error 429 ''RATE_LIMITED'' ''rate limit exceeded'')"

definition bad_gateway :: "string \<Rightarrow> go_error" where
  "bad_gateway msg = Api (new_error 502 ''UPSTREAM_UNREACHABLE'' msg)"

lemmas api_errors = new_error_def bad_request_def unauthorized_def forbidden_def not_found_def
  rate_limited_def bad_gateway_def

definition error_status :: "go_error \<Rightarrow> nat" where
  "error_status e = (case e of Api ae \<Rightarrow> ae_status ae | Internal _ \<Rightarrow> 500)"

lemma error_status_simps [simp]:
  "error_status (bad_request m) = 400" "error_status (unauthorized m) = 401"
  "error_status (forbidden m) = 403" "error_status (not_found m) = 404"
  "error_status rate_limited = 429" "error_status (bad_gateway m) = 502"
  "error_status (Internal m) = 500" "error_status (Api (new_error n c m)) = n"
  by (simp_all add: error_status_def api_errors)

section \<open>Responses (response.go)\<close>

type_synonym headers = "(string \<times> string) list"

definition hdr_set :: "string \<Rightarrow> string \<Rightarrow> headers \<Rightarrow> headers" where
  "hdr_set k v h = tbl_replace fst (k, v) h"

definition hdr_get :: "string \<Rightarrow> headers \<Rightarrow> string" where
  "hdr_get k h = (case map_of h k of None \<Rightarrow> [] | Some v \<Rightarrow> v)"

lemma hdr_get_set [simp]: "hdr_get k (hdr_set k' v h) = (if k = k' then v else hdr_get k h)"
  by (auto simp: hdr_get_def hdr_set_def tbl_replace_def map_of_filter_neq map_add_def
      split: option.splits)

record json_response =
  jr_status :: nat
  jr_headers :: headers
  jr_body :: json

definition write_raw :: "headers \<Rightarrow> nat \<Rightarrow> (string \<times> json) list \<Rightarrow> json_response" where
  "write_raw h status body =
     \<lparr>jr_status = status,
      jr_headers = hdr_set ''Cache-Control'' ''no-store''
        (hdr_set ''X-Content-Type-Options'' ''nosniff''
          (hdr_set ''Content-Type'' ''application/json; charset=utf-8'' h)),
      jr_body = JObj body\<rparr>"

text \<open>Errors that are not \<^verbatim>\<open>*APIError\<close> become a 500 whose text does not leave the server.\<close>

definition write_error :: "headers \<Rightarrow> string \<Rightarrow> go_error \<Rightarrow> json_response" where
  "write_error h rid err =
     (let ae = (case err of Api ae \<Rightarrow> ae
                | Internal _ \<Rightarrow> new_error 500 ''INTERNAL'' ''internal error'')
      in write_raw h (ae_status ae)
           [(''error'', JObj [(''code'', JStr (ae_code ae)), (''message'', JStr (ae_message ae)),
                              (''requestId'', JStr rid)])])"

text \<open>
  \<^verbatim>\<open>WriteJSON\<close>: the payload is marshalled (\<open>None\<close>: marshalling fails), decoded again into a map
  and completed with the request id. A payload that does not decode into a map is wrapped. The
  payload \<open>null\<close> decodes into the nil map, and assigning to that panics: result \<open>None\<close>.
\<close>

definition write_json ::
  "(string \<Rightarrow> string option) \<Rightarrow> headers \<Rightarrow> string \<Rightarrow> nat \<Rightarrow> json option \<Rightarrow> json_response option" where
  "write_json fl h rid status payload =
     (case payload of
        None \<Rightarrow> Some (write_error h rid (Internal ''marshal''))
      | Some p \<Rightarrow>
          (if p = JNull then None
           else
             let body = (case p of
                   JObj kvs \<Rightarrow> (case reencode_members fl kvs of
                                  Some kvs' \<Rightarrow> kvs' | None \<Rightarrow> [(''data'', p)])
                 | _ \<Rightarrow> [(''data'', p)])
             in Some (write_raw h status (jset ''requestId'' (JStr rid) body))))"

definition body_of :: "json_response \<Rightarrow> (string \<times> json) list" where
  "body_of r = (case jr_body r of JObj kvs \<Rightarrow> kvs | _ \<Rightarrow> [])"

section \<open>Request ids (requestid.go)\<close>

definition request_id :: "string \<Rightarrow> string \<Rightarrow> string" where
  "request_id header fresh = (if header = [] then fresh else header)"

text \<open>\<^verbatim>\<open>newRequestID\<close>: milliseconds and six random bytes in hexadecimal.\<close>

definition new_request_id :: "int \<Rightarrow> string \<Rightarrow> string" where
  "new_request_id now_ms rnd = format_int now_ms @ CHR ''_'' # hex_encode rnd"

section \<open>Validation (validate.go)\<close>

definition required :: "string \<Rightarrow> string \<Rightarrow> go_error option" where
  "required field value =
     (if value = [] then Some (bad_request (''missing field: '' @ field)) else None)"

text \<open>
  \<^verbatim>\<open>DecodeJSON\<close>: the decoder (a parameter) sees at most the first 1 MB of the body and reads the
  first value in it; a value that does not end within that prefix fails to decode.
\<close>

definition max_body :: nat where "max_body = 1048576"

definition decode_json :: "(string \<Rightarrow> 'a option) \<Rightarrow> string \<Rightarrow> go_error + 'a" where
  "decode_json decode body =
     (case decode (take max_body body) of
             None \<Rightarrow> Inl (bad_request ''invalid JSON body'')
           | Some v \<Rightarrow> Inr v)"

section \<open>Pagination (pagination.go)\<close>

definition encode_cursor :: "int \<Rightarrow> string \<Rightarrow> string" where
  "encode_cursor ts i = rawurl_encode (format_int ts @ CHR '':'' # i)"

definition decode_cursor :: "string \<Rightarrow> go_error + (int \<times> string)" where
  "decode_cursor s =
     (case rawurl_decode s of
        None \<Rightarrow> Inl (bad_request ''invalid cursor'')
      | Some raw \<Rightarrow>
          (case str_cut CHR '':'' raw of
             None \<Rightarrow> Inl (bad_request ''invalid cursor'')
           | Some (ts_str, i) \<Rightarrow>
               if i = [] then Inl (bad_request ''invalid cursor'')
               else (case parse_int64 ts_str of
                       None \<Rightarrow> Inl (bad_request ''invalid cursor'')
                     | Some ts \<Rightarrow> Inr (ts, i))))"

definition parse_limit :: "string \<Rightarrow> int" where
  "parse_limit s =
     (if s = [] then 30
      else case atoi s of
             None \<Rightarrow> 30
           | Some n \<Rightarrow> if n < 1 then 30 else if n > 100 then 100 else n)"

lemma decode_encode_cursor:
  "is_int64 ts \<Longrightarrow> i \<noteq> [] \<Longrightarrow> decode_cursor (encode_cursor ts i) = Inr (ts, i)"
  by (simp add: decode_cursor_def encode_cursor_def str_cut_append)

lemma parse_limit_bounds: "1 \<le> parse_limit s \<and> parse_limit s \<le> 100"
  by (auto simp: parse_limit_def split: option.splits)

section \<open>Log redaction (logger.go)\<close>

text \<open>A log attribute: a key with a plain value, or a key with a group of attributes.\<close>

datatype attr = Plain string string | Group string "attr list"

definition sensitive_keys :: "string list" where
  "sensitive_keys =
     [''authorization'', ''password'', ''refresh_token'', ''refreshtoken'', ''accesstoken'',
      ''access_token'', ''token'', ''accountkey'', ''account_key'', ''invitecode'',
      ''invite_code'', ''body'', ''bodybase64'']"

definition is_sensitive :: "(string \<Rightarrow> string) \<Rightarrow> string \<Rightarrow> bool" where
  "is_sensitive ul k \<longleftrightarrow> List.member sensitive_keys (to_lower ul k)"

fun redact_attr :: "(string \<Rightarrow> string) \<Rightarrow> attr \<Rightarrow> attr" where
  "redact_attr ul (Plain k v) = (if is_sensitive ul k then Plain k ''[REDACTED]'' else Plain k v)"
| "redact_attr ul (Group k as) =
     (if is_sensitive ul k then Plain k ''[REDACTED]'' else Group k (map (redact_attr ul) as))"

text \<open>\<^verbatim>\<open>Handle\<close> and \<^verbatim>\<open>WithAttrs\<close> redact each attribute of a record and of a bound list.\<close>

definition redact_attrs :: "(string \<Rightarrow> string) \<Rightarrow> attr list \<Rightarrow> attr list" where
  "redact_attrs ul as = map (redact_attr ul) as"

text \<open>Every (key, value) pair a handler prints, through all groups.\<close>

fun leaves :: "attr \<Rightarrow> (string \<times> string) list" where
  "leaves (Plain k v) = [(k, v)]"
| "leaves (Group k as) = concat (map leaves as)"

text \<open>
  The pairs that are neither sensitive nor below a sensitive group, and the outermost sensitive
  keys.
\<close>

fun public_leaves :: "(string \<Rightarrow> string) \<Rightarrow> attr \<Rightarrow> (string \<times> string) list" where
  "public_leaves ul (Plain k v) = (if is_sensitive ul k then [] else [(k, v)])"
| "public_leaves ul (Group k as) =
     (if is_sensitive ul k then [] else concat (map (public_leaves ul) as))"

fun masked_keys :: "(string \<Rightarrow> string) \<Rightarrow> attr \<Rightarrow> string list" where
  "masked_keys ul (Plain k v) = (if is_sensitive ul k then [k] else [])"
| "masked_keys ul (Group k as) =
     (if is_sensitive ul k then [k] else concat (map (masked_keys ul) as))"

lemma leaves_redact_attr:
  "set (leaves (redact_attr ul a)) =
     set (public_leaves ul a) \<union> (\<lambda>k. (k, ''[REDACTED]'')) ` set (masked_keys ul a)"
  by (induction ul a rule: redact_attr.induct) auto

lemma masked_keys_sensitive: "k \<in> set (masked_keys ul a) \<Longrightarrow> is_sensitive ul k"
  by (induction ul a rule: masked_keys.induct) (auto split: if_splits)

lemma public_leaves_plain: "(k, v) \<in> set (public_leaves ul a) \<Longrightarrow> \<not> is_sensitive ul k"
  by (induction ul a rule: public_leaves.induct) (auto split: if_splits)

lemma redact_attr_idem [simp]: "redact_attr ul (redact_attr ul a) = redact_attr ul a"
  by (induction ul a rule: redact_attr.induct) auto

section \<open>Client address (ratelimit.go)\<close>

text \<open>
  \<^verbatim>\<open>net.SplitHostPort\<close>, \<^verbatim>\<open>net.ParseIP\<close>, \<^verbatim>\<open>IP.IsLoopback\<close> and \<^verbatim>\<open>IPNet.Contains\<close> are parameters, gathered
  in one record.
\<close>

record ('ip, 'net) net_ops =
  split_host_port :: "string \<Rightarrow> string option"
  parse_ip :: "string \<Rightarrow> 'ip option"
  is_loopback :: "'ip \<Rightarrow> bool"
  net_contains :: "'net \<Rightarrow> 'ip \<Rightarrow> bool"

definition is_trusted_proxy :: "('ip, 'net) net_ops \<Rightarrow> 'net list \<Rightarrow> 'ip \<Rightarrow> bool" where
  "is_trusted_proxy ops nets ip \<longleftrightarrow> is_loopback ops ip \<or> list_ex (\<lambda>n. net_contains ops n ip) nets"

definition before_comma :: "string \<Rightarrow> string" where
  "before_comma s = (case str_cut CHR '','' s of None \<Rightarrow> s | Some (a, _) \<Rightarrow> a)"

definition client_ip ::
  "('ip, 'net) net_ops \<Rightarrow> 'net list \<Rightarrow> string \<Rightarrow> string \<Rightarrow> string \<Rightarrow> string" where
  "client_ip ops nets remote_addr xff xri =
     (let host = (case split_host_port ops remote_addr of None \<Rightarrow> remote_addr | Some h \<Rightarrow> h);
          trusted = (case parse_ip ops host of None \<Rightarrow> False | Some ip \<Rightarrow> is_trusted_proxy ops nets ip)
      in if trusted \<and> xff \<noteq> [] \<and> trim_space (before_comma xff) \<noteq> [] then trim_space (before_comma xff)
         else if trusted \<and> trim_space xri \<noteq> [] then trim_space xri
         else host)"

section \<open>The keyed limiter (ratelimit.go)\<close>

text \<open>
  The token bucket itself is \<^verbatim>\<open>golang.org/x/time/rate\<close>: a parameter. \<open>'l\<close> is the type of its
  buckets and \<open>'r\<close> of its rates; \<open>rl_allow\<close> takes the time and returns the verdict and the new
  bucket.
\<close>

record ('r, 'l) rate_ops =
  rl_new :: "'r \<Rightarrow> int \<Rightarrow> 'l"
  rl_allow :: "int \<Rightarrow> 'l \<Rightarrow> bool \<times> 'l"
  rl_set_limit :: "int \<Rightarrow> 'r \<Rightarrow> 'l \<Rightarrow> 'l"
  rl_set_burst :: "int \<Rightarrow> int \<Rightarrow> 'l \<Rightarrow> 'l"

record 'l bucket =
  b_key :: string
  b_lim :: 'l
  b_last :: int

text \<open>Times are nanoseconds; the time to live of an idle bucket is ten minutes.\<close>

record ('r, 'l) limiter =
  l_buckets :: "'l bucket list"
  l_rate :: 'r
  l_burst :: int
  l_ttl :: int

definition new_limiter :: "'r \<Rightarrow> int \<Rightarrow> ('r, 'l) limiter" where
  "new_limiter r burst = \<lparr>l_buckets = [], l_rate = r, l_burst = burst, l_ttl = 10 * 60 * 1000000000\<rparr>"

definition sweep :: "int \<Rightarrow> ('r, 'l) limiter \<Rightarrow> ('r, 'l) limiter" where
  "sweep now l = l\<lparr>l_buckets := tbl_delete (\<lambda>b. b_last b < now - l_ttl l) (l_buckets l)\<rparr>"

text \<open>
  \<^verbatim>\<open>allow\<close>: \<open>retry_of\<close> is \<^verbatim>\<open>int(math.Ceil(1 / float64(r)))\<close>, the seconds one token takes to refill.
\<close>

definition allow ::
  "('r, 'l) rate_ops \<Rightarrow> ('r \<Rightarrow> int) \<Rightarrow> string \<Rightarrow> int \<Rightarrow> ('r, 'l) limiter \<Rightarrow> (bool \<times> int) \<times> ('r, 'l) limiter" where
  "allow ops retry_of key now l0 =
     (let l = (if length (l_buckets l0) > 1024 then sweep now l0 else l0);
          b = (case tbl_find b_key key (l_buckets l) of
                 Some b \<Rightarrow> b
               | None \<Rightarrow> \<lparr>b_key = key, b_lim = rl_new ops (l_rate l) (l_burst l), b_last = now\<rparr>);
          (ok, lim') = rl_allow ops now (b_lim b);
          l' = l\<lparr>l_buckets := tbl_replace b_key \<lparr>b_key = key, b_lim = lim', b_last = now\<rparr> (l_buckets l)\<rparr>
      in if ok then ((True, 0), l')
         else ((False, (let retry = retry_of (l_rate l) in if retry < 1 then 1 else retry)), l'))"

definition set_rate ::
  "('r, 'l) rate_ops \<Rightarrow> int \<Rightarrow> 'r \<Rightarrow> int \<Rightarrow> ('r, 'l) limiter \<Rightarrow> ('r, 'l) limiter" where
  "set_rate ops now r burst l =
     l\<lparr>l_rate := r, l_burst := burst,
       l_buckets := map (\<lambda>b. b\<lparr>b_lim := rl_set_burst ops now burst (rl_set_limit ops now r (b_lim b))\<rparr>)
                      (l_buckets l)\<rparr>"

text \<open>
  \<^verbatim>\<open>Middleware\<close>: the request goes on (\<open>Inr\<close>), or is answered with 429 and a \<^verbatim>\<open>Retry-After\<close> header.
\<close>

definition limit_request ::
  "('r, 'l) rate_ops \<Rightarrow> ('r \<Rightarrow> int) \<Rightarrow> headers \<Rightarrow> string \<Rightarrow> string \<Rightarrow> int \<Rightarrow> ('r, 'l) limiter
     \<Rightarrow> (json_response + unit) \<times> ('r, 'l) limiter" where
  "limit_request ops retry_of h rid key now l =
     (let ((ok, retry), l') = allow ops retry_of key now l
      in if ok then (Inr (), l')
         else (Inl (write_error (hdr_set ''Retry-After'' (format_int retry) h) rid rate_limited), l'))"

end
