(* ===== verification/Crypto.thy ===== *)
theory Crypto
  imports Common
begin

text \<open>
  Package \<^verbatim>\<open>internal/crypto\<close>: static encryption of user data. AES-256-GCM is a parameter, a record
  of its seal and open operations; \<open>aead_lawful\<close> is the documented law that opening what was sealed
  under the same nonce gives the plain text back. A \<^verbatim>\<open>nil\<close> cipher is \<open>None\<close>.
\<close>

record aead =
  nonce_size :: nat
  aead_seal :: "string \<Rightarrow> string \<Rightarrow> string"
  aead_open :: "string \<Rightarrow> string \<Rightarrow> string option"

definition aead_lawful :: "aead \<Rightarrow> bool" where
  "aead_lawful a \<longleftrightarrow> (\<forall>n p. length n = nonce_size a \<longrightarrow> aead_open a n (aead_seal a n p) = Some p)"

type_synonym cipher = "aead option"

definition enc_prefix :: string where "enc_prefix = ''enc:v1:''"

definition key_size :: nat where "key_size = 32"

text \<open>\<open>new_aead\<close> stands for \<^verbatim>\<open>aes.NewCipher\<close> followed by \<^verbatim>\<open>cipher.NewGCM\<close>.\<close>

definition load_key :: "(string \<Rightarrow> go_error + aead) \<Rightarrow> string \<Rightarrow> go_error + cipher" where
  "load_key new_aead key_b64 =
     (let k = trim_space key_b64
      in if k = [] then Inr None
         else case std_decode k of
                None \<Rightarrow> Inl (Internal ''crypto: DATA_ENC_KEY base64 decode'')
              | Some key \<Rightarrow>
                  if length key \<noteq> key_size
                  then Inl (Internal ''crypto: DATA_ENC_KEY must be 32 bytes after base64 decode'')
                  else (case new_aead key of Inl e \<Rightarrow> Inl e | Inr a \<Rightarrow> Inr (Some a)))"

text \<open>\<^verbatim>\<open>Seal\<close> appends the cipher text to the nonce; \<open>nonce\<close> is the random nonce of this call.\<close>

definition encrypt :: "cipher \<Rightarrow> string \<Rightarrow> string \<Rightarrow> string" where
  "encrypt c nonce plaintext =
     (case c of
        None \<Rightarrow> plaintext
      | Some a \<Rightarrow> enc_prefix @ std_encode (nonce @ aead_seal a nonce plaintext))"

definition decrypt :: "cipher \<Rightarrow> string \<Rightarrow> go_error + string" where
  "decrypt c s =
     (case cut_prefix s enc_prefix of
        None \<Rightarrow> Inr s
      | Some body \<Rightarrow>
          (case c of
             None \<Rightarrow> Inl (Internal ''crypto: data is encrypted but DATA_ENC_KEY is not configured'')
           | Some a \<Rightarrow>
               (case std_decode body of
                  None \<Rightarrow> Inl (Internal ''crypto: ciphertext base64 decode'')
                | Some raw \<Rightarrow>
                    if length raw < nonce_size a then Inl (Internal ''crypto: ciphertext too short'')
                    else (case aead_open a (take (nonce_size a) raw) (drop (nonce_size a) raw) of
                            None \<Rightarrow> Inl (Internal ''crypto: decrypt'')
                          | Some plain \<Rightarrow> Inr plain))))"

text \<open>
  What the clients rely on. \<open>cipher_ok c n\<close>: the cipher, if there is one, is lawful and the nonce has
  its size. Without a cipher a text that starts with the prefix cannot be stored: reading it back
  fails, so \<open>storable\<close> excludes it.
\<close>

definition cipher_ok :: "cipher \<Rightarrow> string \<Rightarrow> bool" where
  "cipher_ok c nonce \<longleftrightarrow> (case c of None \<Rightarrow> True | Some a \<Rightarrow> aead_lawful a \<and> length nonce = nonce_size a)"

definition storable :: "cipher \<Rightarrow> string \<Rightarrow> bool" where
  "storable c p \<longleftrightarrow> c \<noteq> None \<or> \<not> has_prefix p enc_prefix"

lemma decrypt_encrypt: "cipher_ok c n \<Longrightarrow> storable c p \<Longrightarrow> decrypt c (encrypt c n p) = Inr p"
  by (auto simp: cipher_ok_def storable_def decrypt_def encrypt_def cut_prefix_def aead_lawful_def
      split: option.splits)

lemma decrypt_plain [simp]: "\<not> has_prefix s enc_prefix \<Longrightarrow> decrypt c s = Inr s"
  by (simp add: decrypt_def cut_prefix_def)

lemma decrypt_nil_prefixed: "has_prefix s enc_prefix \<Longrightarrow> \<exists>m. decrypt None s = Inl (Internal m)"
  by (simp add: decrypt_def cut_prefix_def)

lemma encrypt_prefixed: "c \<noteq> None \<Longrightarrow> has_prefix (encrypt c n p) enc_prefix"
  by (auto simp: encrypt_def)

end
