(* ===== verification/Tokens.thy ===== *)
theory Tokens
  imports Common
begin

text \<open>
  \<^verbatim>\<open>internal/sync/token.go\<close>: the per-(account, domain) sync cursors. A token is
  \<^verbatim>\<open>st_<seq>_<6 hex>\<close>; its number is the largest sequence number of the push that made it. The
  store keeps the current token of every domain in memory and allocates sequence numbers from it.
\<close>

section \<open>The text of a token\<close>

text \<open>The three random bytes of a token, and \<^verbatim>\<open>randHex6\<close> of them.\<close>

type_synonym rnd3 = "char \<times> char \<times> char"

fun rand_hex6 :: "rnd3 \<Rightarrow> string" where
  "rand_hex6 (a, b, c) = hex_encode [a, b, c]"

definition format_token :: "int \<Rightarrow> rnd3 \<Rightarrow> string" where
  "format_token n r = ''st_'' @ format_int n @ CHR ''_'' # rand_hex6 r"

definition parse_token :: "string \<Rightarrow> int option" where
  "parse_token tok =
     (case cut_prefix tok ''st_'' of
        None \<Rightarrow> None
      | Some rest \<Rightarrow>
          (case str_cut CHR ''_'' rest of
             None \<Rightarrow> None
           | Some (ms_str, hx) \<Rightarrow> if length hx \<noteq> 6 then None else parse_int64 ms_str))"

lemma length_rand_hex6 [simp]: "length (rand_hex6 r) = 6"
  by (cases r) simp

lemma format_token_not_Nil [simp]: "format_token n r \<noteq> []"
  by (simp add: format_token_def)

lemma parse_format_token [simp]: "is_int64 n \<Longrightarrow> parse_token (format_token n r) = Some n"
  by (simp add: parse_token_def format_token_def str_cut_append cut_prefix_Some
      cut_prefix_append [of "''st_''", simplified])

lemma parse_token_range: "parse_token t = Some n \<Longrightarrow> is_int64 n"
  by (auto simp: parse_token_def dest: parse_int64_range split: option.splits if_splits)

section \<open>The store\<close>

type_synonym token_store = "string \<Rightarrow> string option"

definition token_key :: "int \<Rightarrow> string \<Rightarrow> string" where
  "token_key acc dmn = format_int acc @ CHR 0x00 # dmn"

text \<open>Different (account, domain) pairs never share a cursor: a decimal number holds no zero byte.\<close>

lemma token_key_inj:
  assumes "is_int64 a" and "is_int64 b" and "token_key a d = token_key b e"
  shows "a = b \<and> d = e"
proof -
  have "str_cut CHR 0x00 (token_key a d) = Some (format_int a, d)"
    and "str_cut CHR 0x00 (token_key b e) = Some (format_int b, e)"
    by (simp_all add: token_key_def str_cut_append)
  with assms show ?thesis by (auto dest: format_int_inj)
qed

record domain_row =
  dr_account :: int
  dr_domain :: string
  dr_token :: string
  dr_latest :: int

definition domain_key :: "domain_row \<Rightarrow> int \<times> string" where
  "domain_key r = (dr_account r, dr_domain r)"

text \<open>
  \<^verbatim>\<open>Load\<close>: at start the cursors come back from the table \<^verbatim>\<open>sync_domains\<close>; of two tokens for the same
  key the larger stays. \<open>ok\<close> is false where the query or the scan fails.
\<close>

definition load_row :: "token_store \<Rightarrow> domain_row \<Rightarrow> token_store" where
  "load_row cur row =
     (let k = token_key (dr_account row) (dr_domain row)
      in case cur k of
           None \<Rightarrow> cur(k \<mapsto> dr_token row)
         | Some c \<Rightarrow>
             (case (parse_token c, parse_token (dr_token row)) of
                (Some cur_ms, Some new_ms) \<Rightarrow>
                  if cur_ms \<ge> new_ms then cur else cur(k \<mapsto> dr_token row)
              | _ \<Rightarrow> cur(k \<mapsto> dr_token row)))"

definition load_tokens :: "bool \<Rightarrow> domain_row list \<Rightarrow> go_error + token_store" where
  "load_tokens ok rows =
     (if \<not> ok then Inl (Internal ''load sync tokens'')
      else Inr (foldl load_row Map.empty (filter (\<lambda>r. dr_token r \<noteq> []) rows)))"

definition token_current :: "token_store \<Rightarrow> int \<Rightarrow> string \<Rightarrow> string" where
  "token_current cur acc dmn = (case cur (token_key acc dmn) of None \<Rightarrow> [] | Some t \<Rightarrow> t)"

text \<open>The number the store's cursor stands at; 0 where there is no cursor or it does not parse.\<close>

definition token_level :: "token_store \<Rightarrow> int \<Rightarrow> string \<Rightarrow> int" where
  "token_level cur acc dmn =
     (case cur (token_key acc dmn) of
        None \<Rightarrow> 0
      | Some t \<Rightarrow> (case parse_token t of None \<Rightarrow> 0 | Some ms \<Rightarrow> ms))"

definition token_next ::
  "token_store \<Rightarrow> int \<Rightarrow> string \<Rightarrow> nat \<Rightarrow> int \<Rightarrow> rnd3 \<Rightarrow> (int \<times> string) \<times> token_store" where
  "token_next cur acc dmn n now_ms r =
     (let k = token_key acc dmn;
          prev = token_level cur acc dmn;
          start0 = wrap64 (prev + 1);
          start = (if now_ms > start0 then now_ms else start0);
          last = (if n > 0 then wrap64 (wrap64 (start + int n) - 1) else start);
          tok = format_token last r
      in ((start, tok), cur(k \<mapsto> tok)))"

section \<open>What the store promises\<close>

text \<open>
  \<open>room cur acc dmn n now\<close>: neither the cursor nor the clock is within \<open>n\<close> of the largest 64-bit
  integer (the year 292 million, for the clock), so that the next \<open>n\<close> numbers exist.
\<close>

definition room :: "token_store \<Rightarrow> int \<Rightarrow> string \<Rightarrow> nat \<Rightarrow> int \<Rightarrow> bool" where
  "room cur acc dmn n now_ms \<longleftrightarrow>
     0 \<le> now_ms \<and> now_ms + int n < max64 \<and> token_level cur acc dmn + int n + 1 < max64"

lemma token_level_range: "is_int64 (token_level cur acc dmn)"
proof -
  have "is_int64 0" by (simp add: is_int64_def min64_def max64_def)
  then show ?thesis
    by (auto simp: token_level_def dest: parse_token_range split: option.splits)
qed

lemma token_next_numbers:
  assumes room: "room cur acc dmn n now_ms"
    and next_eq: "token_next cur acc dmn n now_ms r = ((start, tok), cur')"
  obtains last where "start = max (token_level cur acc dmn + 1) now_ms"
    and "last = (if n > 0 then start + int n - 1 else start)"
    and "is_int64 last" and "tok = format_token last r" and "cur' = cur(token_key acc dmn \<mapsto> tok)"
proof -
  let ?p = "token_level cur acc dmn"
  let ?start = "max (?p + 1) now_ms"
  let ?last = "if n > 0 then ?start + int n - 1 else ?start"
  have p: "min64 \<le> ?p" using token_level_range [of cur acc dmn] by (simp add: is_int64_def)
  have r1: "is_int64 (?p + 1)" and r2: "is_int64 (?start + int n)"
    using room p by (auto simp: room_def is_int64_def min64_def max64_def)
  have r3: "is_int64 ?last"
    using room p by (auto simp: room_def is_int64_def min64_def max64_def)
  have st: "start = ?start"
    using next_eq r1 by (auto simp: token_next_def Let_def max_def)
  have r4: "n > 0 \<Longrightarrow> is_int64 (?start + int n - 1)" using r3 by simp
  have "tok = format_token ?last r" and "cur' = cur(token_key acc dmn \<mapsto> tok)"
    using next_eq r1 r2 r4 st by (auto simp: token_next_def Let_def max_def split: if_splits)
  with st r3 show ?thesis using that by blast
qed

text \<open>
  The interface the push relies on: a cursor level per (account, domain), and an allocation that
  returns the first of \<open>n\<close> fresh numbers and moves the level. \<open>ready\<close> is the condition under which
  the provider promises this.
\<close>

locale seq_allocator =
  fixes level :: "'s \<Rightarrow> int \<Rightarrow> string \<Rightarrow> int"
    and alloc :: "'s \<Rightarrow> int \<Rightarrow> string \<Rightarrow> nat \<Rightarrow> int \<Rightarrow> 'r \<Rightarrow> (int \<times> string) \<times> 's"
    and ready :: "'s \<Rightarrow> int \<Rightarrow> string \<Rightarrow> nat \<Rightarrow> int \<Rightarrow> bool"
    and number :: "string \<Rightarrow> int option"
  assumes alloc_start: "ready s a d n t \<Longrightarrow> alloc s a d n t r = ((b, k), s') \<Longrightarrow> level s a d < b \<and> t \<le> b"
    and alloc_level: "ready s a d n t \<Longrightarrow> alloc s a d n t r = ((b, k), s') \<Longrightarrow>
      level s' a d = (if n > 0 then b + int n - 1 else b)"
    and alloc_token: "ready s a d n t \<Longrightarrow> alloc s a d n t r = ((b, k), s') \<Longrightarrow>
      number k = Some (level s' a d)"
    and alloc_frame: "alloc s a d n t r = ((b, k), s') \<Longrightarrow> is_int64 a \<Longrightarrow> is_int64 a' \<Longrightarrow>
      (a', d') \<noteq> (a, d) \<Longrightarrow> level s' a' d' = level s a' d'"
begin

lemma alloc_monotone:
  "ready s a d n t \<Longrightarrow> alloc s a d n t r = ((b, k), s') \<Longrightarrow> level s a d < level s' a d"
  by (frule (1) alloc_start, frule (1) alloc_level) auto

lemma alloc_fresh:
  assumes "ready s a d n t" and "alloc s a d n t r = ((b, k), s')" and "i < n"
  shows "level s a d < b + int i \<and> b + int i \<le> level s' a d"
  using alloc_start [OF assms(1,2)] alloc_level [OF assms(1,2)] assms(3) by auto

lemma alloc_level_ge:
  assumes "ready s a d n t" and "alloc s a d n t r = ((b, k), s')" and "is_int64 a" and "is_int64 a'"
  shows "level s a' d' \<le> level s' a' d'"
proof (cases "(a', d') = (a, d)")
  case True
  then show ?thesis using alloc_monotone [OF assms(1,2)] by simp
next
  case False
  then show ?thesis using alloc_frame [OF assms(2,3,4)] by simp
qed

end

lemma token_level_update:
  "is_int64 a \<Longrightarrow> is_int64 a' \<Longrightarrow> (a', d') \<noteq> (a, d) \<Longrightarrow>
     token_level (cur(token_key a d \<mapsto> t)) a' d' = token_level cur a' d'"
  using token_key_inj [of a' a d' d] by (auto simp: token_level_def)

lemma token_level_same [simp]:
  "token_level (cur(token_key a d \<mapsto> t)) a d = (case parse_token t of None \<Rightarrow> 0 | Some ms \<Rightarrow> ms)"
  by (simp add: token_level_def)

interpretation tokens: seq_allocator token_level token_next room parse_token
proof
  fix s a d n t r b k s'
  assume ready: "room s a d n t" and eq: "token_next s a d n t r = ((b, k), s')"
  obtain last where last: "b = max (token_level s a d + 1) t"
      "last = (if n > 0 then b + int n - 1 else b)" "is_int64 last" "k = format_token last r"
      "s' = s(token_key a d \<mapsto> k)"
    by (rule token_next_numbers [OF ready eq])
  then show "token_level s a d < b \<and> t \<le> b" by simp
  show "token_level s' a d = (if n > 0 then b + int n - 1 else b)" using last by auto
  show "parse_token k = Some (token_level s' a d)" using last by auto
next
  fix s a d n t r b k s' a' d'
  assume "token_next s a d n t r = ((b, k), s')" and "is_int64 a" and "is_int64 a'"
    and "(a', d') \<noteq> (a, d)"
  then show "token_level s' a' d' = token_level s a' d'"
    using token_level_update by (auto simp: token_next_def Let_def)
qed

end
