(* ===== verification/Sync.thy ===== *)
theory Sync
  imports Crypto Tokens
begin

text \<open>
  \<^verbatim>\<open>internal/sync\<close>: domains, validation of pushed items, the push with its last-writer-wins merge
  and the paged pull. The tables \<^verbatim>\<open>sync_entries\<close> and \<^verbatim>\<open>sync_domains\<close> are lists of rows; a database
  statement that fails is an input (\<open>fail\<close>), so that every error return of the code is a branch here.
\<close>

section \<open>Domains and payload checks (domains.go)\<close>

definition bookmark_domain :: string where "bookmark_domain = ''bookmark_snapshot''"

definition valid_domains :: "string list" where
  "valid_domains =
     [''history'', ''search_history'', bookmark_domain, ''mute'', ''exif_config'', ''settings'']"

definition valid_domain :: "string \<Rightarrow> bool" where
  "valid_domain d \<longleftrightarrow> List.member valid_domains d"

fun contains_sensitive :: "(string \<Rightarrow> string) \<Rightarrow> json \<Rightarrow> bool" where
  "contains_sensitive ul (JObj kvs) =
     list_ex (\<lambda>kv. contains (to_lower ul (fst kv)) ''token'' \<or> contains_sensitive ul (snd kv)) kvs"
| "contains_sensitive ul (JArr vs) = list_ex (contains_sensitive ul) vs"
| "contains_sensitive ul _ = False"

fun is_JStr :: "json \<Rightarrow> bool" where
  "is_JStr (JStr _) = True"
| "is_JStr _ = False"

fun is_JNum :: "json \<Rightarrow> bool" where
  "is_JNum (JNum _) = True"
| "is_JNum _ = False"

definition validate_snapshot :: "(string \<times> json) list \<Rightarrow> bool" where
  "validate_snapshot m =
     (case jget ''illustId'' m of
        None \<Rightarrow> False
      | Some v \<Rightarrow>
          if \<not> is_JNum v then False
          else (case jget ''imageUrls'' m of
                  None \<Rightarrow> True
                | Some JNull \<Rightarrow> True
                | Some (JArr us) \<Rightarrow> list_all is_JStr us
                | Some _ \<Rightarrow> False))"

section \<open>Requests, rows and state (service.go)\<close>

record push_item =
  pi_key :: string
  pi_data :: string
  pi_updated :: int
  pi_deleted :: bool

record push_request =
  pr_domain :: string
  pr_base :: string
  pr_items :: "push_item list"

record push_response =
  ps_accepted :: nat
  ps_token :: string

record pull_item =
  li_key :: string
  li_data :: string
  li_updated :: int
  li_deleted :: bool

record pull_response =
  ls_items :: "pull_item list"
  ls_token :: string
  ls_more :: bool

record sync_entry =
  se_account :: int
  se_domain :: string
  se_key :: string
  se_data :: string
  se_updated :: int
  se_deleted :: bool
  se_seq :: int

definition entry_key :: "sync_entry \<Rightarrow> int \<times> string \<times> string" where
  "entry_key e = (se_account e, se_domain e, se_key e)"

definition in_domain :: "int \<Rightarrow> string \<Rightarrow> sync_entry \<Rightarrow> bool" where
  "in_domain acc dmn e \<longleftrightarrow> se_account e = acc \<and> se_domain e = dmn"

record sync_state =
  entries :: "sync_entry list"
  domains :: "domain_row list"
  cursors :: token_store

text \<open>The statements of a push, in the order it runs them, by which a failure is chosen.\<close>

datatype sql_step = BeginTx | ReadEntry nat | UpsertEntry nat | UpsertDomain | PruneTombstones | CommitTx

definition retention_ms :: int where "retention_ms = 90 * 24 * 60 * 60 * 1000"

definition max_push_items :: nat where "max_push_items = 500"

text \<open>\<^verbatim>\<open>NewService\<close> restores the cursors from the database.\<close>

definition new_service :: "bool \<Rightarrow> sync_entry list \<Rightarrow> domain_row list \<Rightarrow> go_error + sync_state" where
  "new_service ok es ds =
     (case load_tokens ok ds of
        Inl e \<Rightarrow> Inl e
      | Inr cur \<Rightarrow> Inr \<lparr>entries = es, domains = ds, cursors = cur\<rparr>)"

section \<open>Validating a batch\<close>

definition validate_item ::
  "unmarshal \<Rightarrow> (string \<Rightarrow> string) \<Rightarrow> string \<Rightarrow> push_item \<Rightarrow> go_error + push_item" where
  "validate_item unm ul dmn it =
     (if pi_key it = [] then Inl (bad_request ''missing field: items[].key'')
      else
        let raw = (if pi_data it = [] \<or> pi_data it = ''null'' then ''{}'' else pi_data it)
        in case unm raw of
             None \<Rightarrow> Inl (bad_request ''items[].data must be valid JSON'')
           | Some (JObj m) \<Rightarrow>
               if contains_sensitive ul (JObj m)
               then Inl (Api (new_error 400 ''SENSITIVE_FIELD_REJECTED''
                               ''data contains sensitive field name (*token*)''))
               else if dmn = bookmark_domain \<and> \<not> pi_deleted it \<and> \<not> validate_snapshot m
               then Inl (bad_request
                 ''invalid bookmark_snapshot: illustId required, imageUrls must be string array'')
               else Inr (it\<lparr>pi_data := raw\<rparr>)
           | Some _ \<Rightarrow> Inl (bad_request ''items[].data must be a JSON object''))"

fun validate_items ::
  "unmarshal \<Rightarrow> (string \<Rightarrow> string) \<Rightarrow> string \<Rightarrow> push_item list \<Rightarrow> go_error + push_item list" where
  "validate_items unm ul dmn [] = Inr []"
| "validate_items unm ul dmn (it # its) =
     (case validate_item unm ul dmn it of
        Inl e \<Rightarrow> Inl e
      | Inr it' \<Rightarrow>
          (case validate_items unm ul dmn its of Inl e \<Rightarrow> Inl e | Inr its' \<Rightarrow> Inr (it' # its')))"

section \<open>Push\<close>

text \<open>
  The checks before the critical section. They read the cursor without holding the push lock.
\<close>

definition push_check ::
  "unmarshal \<Rightarrow> (string \<Rightarrow> string) \<Rightarrow> token_store \<Rightarrow> int \<Rightarrow> push_request \<Rightarrow> int
     \<Rightarrow> go_error + push_item list" where
  "push_check unm ul cur acc req now_ms =
     (if \<not> valid_domain (pr_domain req) then Inl (bad_request ''unknown domain'')
      else if length (pr_items req) > max_push_items
      then Inl (bad_request ''too many items: max 500 per push'')
      else case validate_items unm ul (pr_domain req) (pr_items req) of
             Inl e \<Rightarrow> Inl e
           | Inr items \<Rightarrow>
               if pr_base req \<noteq> [] \<and> pr_base req \<noteq> token_current cur acc (pr_domain req)
               then (case parse_token (pr_base req) of
                       None \<Rightarrow> Inl (bad_request ''invalid baseToken'')
                     | Some base_ms \<Rightarrow>
                         if wrap64 (now_ms - base_ms) > retention_ms
                         then Inl (Api (new_error 409 ''SYNC_FULL_REQUIRED''
                           ''base token beyond retention window; full resync required''))
                         else Inr items)
               else Inr items)"

text \<open>The read loop: which items win, and the largest of their time stamps (at least 0).\<close>

fun lww_scan ::
  "(sql_step \<Rightarrow> bool) \<Rightarrow> sync_entry list \<Rightarrow> int \<Rightarrow> string \<Rightarrow> nat \<Rightarrow> int \<Rightarrow> push_item list
     \<Rightarrow> go_error + (push_item list \<times> int)" where
  "lww_scan fail es acc dmn i mx [] = Inr ([], mx)"
| "lww_scan fail es acc dmn i mx (it # its) =
     (if fail (ReadEntry i) then Inl (Internal ''read sync entry'')
      else
        let skip = (case tbl_find entry_key (acc, dmn, pi_key it) es of
                      None \<Rightarrow> False | Some e \<Rightarrow> se_updated e \<ge> pi_updated it)
        in if skip then lww_scan fail es acc dmn (Suc i) mx its
           else (case lww_scan fail es acc dmn (Suc i)
                        (if pi_updated it > mx then pi_updated it else mx) its of
                   Inl e \<Rightarrow> Inl e
                 | Inr (accepted, mx') \<Rightarrow> Inr (it # accepted, mx')))"

text \<open>The write loop: the \<open>i\<close>-th accepted item gets the number \<open>base + i\<close>.\<close>

definition entry_of :: "cipher \<Rightarrow> string \<Rightarrow> int \<Rightarrow> string \<Rightarrow> int \<Rightarrow> push_item \<Rightarrow> sync_entry" where
  "entry_of c nonce acc dmn seq it =
     \<lparr>se_account = acc, se_domain = dmn, se_key = pi_key it, se_data = encrypt c nonce (pi_data it),
      se_updated = pi_updated it, se_deleted = pi_deleted it, se_seq = seq\<rparr>"

fun upsert_all ::
  "(sql_step \<Rightarrow> bool) \<Rightarrow> cipher \<Rightarrow> (nat \<Rightarrow> string) \<Rightarrow> int \<Rightarrow> string \<Rightarrow> int \<Rightarrow> nat \<Rightarrow> push_item list
     \<Rightarrow> sync_entry list \<Rightarrow> go_error + sync_entry list" where
  "upsert_all fail c nonces acc dmn base i [] es = Inr es"
| "upsert_all fail c nonces acc dmn base i (it # its) es =
     (if fail (UpsertEntry i) then Inl (Internal ''upsert sync entry'')
      else upsert_all fail c nonces acc dmn base (Suc i) its
             (tbl_replace entry_key
                (entry_of c (nonces i) acc dmn (wrap64 (base + int i)) it) es))"

definition upsert_domain :: "int \<Rightarrow> string \<Rightarrow> string \<Rightarrow> int \<Rightarrow> domain_row list \<Rightarrow> domain_row list" where
  "upsert_domain acc dmn tok mx ds =
     tbl_upsert domain_key (\<lambda>r. r\<lparr>dr_token := tok, dr_latest := max (dr_latest r) mx\<rparr>)
       \<lparr>dr_account = acc, dr_domain = dmn, dr_token = tok, dr_latest = mx\<rparr> ds"

definition expired_tombstone :: "int \<Rightarrow> string \<Rightarrow> int \<Rightarrow> sync_entry \<Rightarrow> bool" where
  "expired_tombstone acc dmn cutoff e \<longleftrightarrow> in_domain acc dmn e \<and> se_deleted e \<and> se_seq e < cutoff"

definition prune_tombstones :: "int \<Rightarrow> string \<Rightarrow> int \<Rightarrow> sync_entry list \<Rightarrow> sync_entry list" where
  "prune_tombstones acc dmn cutoff es = tbl_delete (expired_tombstone acc dmn cutoff) es"

text \<open>
  The critical section, one database transaction. The cursor moves in memory before the rows are
  written; a failure after that rolls the tables back and leaves the cursor where it moved to.
\<close>

definition push_locked ::
  "(sql_step \<Rightarrow> bool) \<Rightarrow> cipher \<Rightarrow> (nat \<Rightarrow> string) \<Rightarrow> rnd3 \<Rightarrow> int \<Rightarrow> string \<Rightarrow> push_item list \<Rightarrow> int
     \<Rightarrow> sync_state \<Rightarrow> (go_error + push_response) \<times> sync_state" where
  "push_locked fail c nonces r acc dmn items now_ms s =
     (if fail BeginTx then (Inl (Internal ''begin push tx''), s)
      else case lww_scan fail (entries s) acc dmn 0 0 items of
        Inl e \<Rightarrow> (Inl e, s)
      | Inr (accepted, mx) \<Rightarrow>
          (let ((base, tok), cur') = token_next (cursors s) acc dmn (length accepted) now_ms r;
               s1 = s\<lparr>cursors := cur'\<rparr>
           in case upsert_all fail c nonces acc dmn base 0 accepted (entries s) of
                Inl e \<Rightarrow> (Inl e, s1)
              | Inr es \<Rightarrow>
                  if fail UpsertDomain then (Inl (Internal ''update sync domain''), s1)
                  else if fail PruneTombstones then (Inl (Internal ''prune tombstones''), s1)
                  else if fail CommitTx then (Inl (Internal ''commit push tx''), s1)
                  else (Inr \<lparr>ps_accepted = length accepted, ps_token = tok\<rparr>,
                        s1\<lparr>entries := prune_tombstones acc dmn (wrap64 (now_ms - retention_ms)) es,
                           domains := upsert_domain acc dmn tok mx (domains s)\<rparr>)))"

definition push ::
  "unmarshal \<Rightarrow> (string \<Rightarrow> string) \<Rightarrow> (sql_step \<Rightarrow> bool) \<Rightarrow> cipher \<Rightarrow> (nat \<Rightarrow> string) \<Rightarrow> rnd3 \<Rightarrow> int
     \<Rightarrow> push_request \<Rightarrow> int \<Rightarrow> sync_state \<Rightarrow> (go_error + push_response) \<times> sync_state" where
  "push unm ul fail c nonces r acc req now_ms s =
     (case push_check unm ul (cursors s) acc req now_ms of
        Inl e \<Rightarrow> (Inl e, s)
      | Inr items \<Rightarrow> push_locked fail c nonces r acc (pr_domain req) items now_ms s)"

section \<open>Pull\<close>

definition pull_since :: "string \<Rightarrow> int \<Rightarrow> go_error + int" where
  "pull_since since now_ms =
     (if since = [] then Inr (-1)
      else case parse_token since of
             None \<Rightarrow> Inl (Api (new_error 409 ''SYNC_FULL_REQUIRED''
                       ''since token invalid or expired; full resync required''))
           | Some ms \<Rightarrow>
               if wrap64 (now_ms - ms) > retention_ms
               then Inl (Api (new_error 409 ''SYNC_FULL_REQUIRED''
                       ''since token invalid or expired; full resync required''))
               else Inr ms)"

text \<open>\<^verbatim>\<open>SELECT ... WHERE account_id = ? AND domain = ? AND seq > ? ORDER BY seq ASC LIMIT ?\<close>.\<close>

definition select_entries :: "int \<Rightarrow> string \<Rightarrow> int \<Rightarrow> nat \<Rightarrow> sync_entry list \<Rightarrow> sync_entry list" where
  "select_entries acc dmn since n es =
     take n (sort_key se_seq (filter (\<lambda>e. in_domain acc dmn e \<and> se_seq e > since) es))"

definition pull_item_of :: "cipher \<Rightarrow> sync_entry \<Rightarrow> go_error + pull_item" where
  "pull_item_of c e =
     (case decrypt c (se_data e) of
        Inl _ \<Rightarrow> Inl (Internal ''decrypt sync entry'')
      | Inr plain \<Rightarrow> Inr \<lparr>li_key = se_key e, li_data = plain, li_updated = se_updated e,
                         li_deleted = se_deleted e\<rparr>)"

fun pull_items :: "cipher \<Rightarrow> sync_entry list \<Rightarrow> go_error + pull_item list" where
  "pull_items c [] = Inr []"
| "pull_items c (e # es) =
     (case pull_item_of c e of
        Inl err \<Rightarrow> Inl err
      | Inr it \<Rightarrow> (case pull_items c es of Inl err \<Rightarrow> Inl err | Inr its \<Rightarrow> Inr (it # its)))"

text \<open>
  The end of a pull: \<open>rows\<close> are what the query returned and \<open>cur\<close> the cursors when the code reads
  them, after the query. \<open>limit\<close> is at least 1 (\<^verbatim>\<open>ParseLimit\<close>); with 0 the code indexes out of range.
\<close>

definition pull_finish ::
  "cipher \<Rightarrow> rnd3 \<Rightarrow> token_store \<Rightarrow> int \<Rightarrow> string \<Rightarrow> nat \<Rightarrow> sync_entry list \<Rightarrow> go_error + pull_response" where
  "pull_finish c r cur acc dmn limit rows =
     (case pull_items c rows of
        Inl e \<Rightarrow> Inl e
      | Inr items \<Rightarrow>
          if length items > limit then
            (if limit = 0 then Inl (Internal ''panic: index out of range'')
             else Inr \<lparr>ls_items = take limit items,
                       ls_token = format_token (se_seq (rows ! (limit - 1))) r, ls_more = True\<rparr>)
          else Inr \<lparr>ls_items = items, ls_token = token_current cur acc dmn, ls_more = False\<rparr>)"

definition pull ::
  "bool \<Rightarrow> cipher \<Rightarrow> rnd3 \<Rightarrow> int \<Rightarrow> string \<Rightarrow> string \<Rightarrow> nat \<Rightarrow> int \<Rightarrow> sync_state
     \<Rightarrow> go_error + pull_response" where
  "pull query_ok c r acc dmn since limit now_ms s =
     (if \<not> valid_domain dmn then Inl (bad_request ''unknown domain'')
      else case pull_since since now_ms of
             Inl e \<Rightarrow> Inl e
           | Inr since_seq \<Rightarrow>
               if \<not> query_ok then Inl (Internal ''query sync entries'')
               else pull_finish c r (cursors s) acc dmn limit
                      (select_entries acc dmn since_seq (limit + 1) (entries s)))"

section \<open>Handlers (routes.go)\<close>

text \<open>
  \<open>decode\<close> is the JSON decoder at the request type; \<open>acc\<close> is the account the authentication
  middleware put into the request's context. The result is the error or the payload to write.
\<close>

definition push_handler ::
  "(string \<Rightarrow> push_request option) \<Rightarrow> unmarshal \<Rightarrow> (string \<Rightarrow> string) \<Rightarrow> (sql_step \<Rightarrow> bool) \<Rightarrow> cipher
     \<Rightarrow> (nat \<Rightarrow> string) \<Rightarrow> rnd3 \<Rightarrow> int \<Rightarrow> string \<Rightarrow> int \<Rightarrow> sync_state
     \<Rightarrow> (go_error + push_response) \<times> sync_state" where
  "push_handler decode unm ul fail c nonces r acc body now_ms s =
     (case decode_json decode body of
        Inl e \<Rightarrow> (Inl e, s)
      | Inr req \<Rightarrow>
          (case required ''domain'' (pr_domain req) of
             Some e \<Rightarrow> (Inl e, s)
           | None \<Rightarrow> push unm ul fail c nonces r acc req now_ms s))"

definition pull_handler ::
  "bool \<Rightarrow> cipher \<Rightarrow> rnd3 \<Rightarrow> int \<Rightarrow> string \<Rightarrow> string \<Rightarrow> string \<Rightarrow> int \<Rightarrow> sync_state
     \<Rightarrow> go_error + pull_response" where
  "pull_handler query_ok c r acc dmn since limit_param now_ms s =
     (case required ''domain'' dmn of
        Some e \<Rightarrow> Inl e
      | None \<Rightarrow> pull query_ok c r acc dmn since (nat (parse_limit limit_param)) now_ms s)"

end
