(* ===== verification/SyncFacts.thy ===== *)
theory SyncFacts
  imports Sync
begin

text \<open>
  What the synchronisation guarantees: the two loops of a push in closed form, the invariant of
  the tables and cursors, and the abstract last-writer-wins map a push refines.
\<close>

section \<open>The loops of a push in closed form\<close>

definition wins :: "sync_entry list \<Rightarrow> int \<Rightarrow> string \<Rightarrow> push_item \<Rightarrow> bool" where
  "wins es acc dmn it \<longleftrightarrow>
     (case tbl_find entry_key (acc, dmn, pi_key it) es of
        None \<Rightarrow> True | Some e \<Rightarrow> se_updated e < pi_updated it)"

lemma lww_scan_Cons:
  "lww_scan fail es acc dmn i mx (it # its) =
     (if fail (ReadEntry i) then Inl (Internal ''read sync entry'')
      else if \<not> wins es acc dmn it then lww_scan fail es acc dmn (Suc i) mx its
      else (case lww_scan fail es acc dmn (Suc i) (max (pi_updated it) mx) its of
              Inl e \<Rightarrow> Inl e
            | Inr (accepted, mx') \<Rightarrow> Inr (it # accepted, mx')))"
  by (auto simp: wins_def Let_def not_less max_def split: option.splits sum.splits)

declare lww_scan.simps(2) [simp del]

lemma lww_scan_accepted:
  "lww_scan fail es acc dmn i mx its = Inr (accepted, mx') \<Longrightarrow> accepted = filter (wins es acc dmn) its"
  by (induction its arbitrary: i mx accepted mx')
    (auto simp: lww_scan_Cons split: if_splits sum.splits)

lemma lww_scan_reads:
  "(\<And>j. \<not> fail (ReadEntry j)) \<Longrightarrow>
     \<exists>mx'. lww_scan fail es acc dmn i mx its = Inr (filter (wins es acc dmn) its, mx')"
proof (induction its arbitrary: i mx)
  case Nil
  then show ?case by simp
next
  case (Cons it its)
  from Cons.IH [OF Cons.prems, of "Suc i" mx]
    Cons.IH [OF Cons.prems, of "Suc i" "max (pi_updated it) mx"]
  show ?case by (auto simp: lww_scan_Cons Cons.prems)
qed

definition new_rows ::
  "cipher \<Rightarrow> (nat \<Rightarrow> string) \<Rightarrow> int \<Rightarrow> string \<Rightarrow> int \<Rightarrow> nat \<Rightarrow> push_item list \<Rightarrow> sync_entry list" where
  "new_rows c nonces acc dmn base i its =
     map (\<lambda>(j, it). entry_of c (nonces j) acc dmn (wrap64 (base + int j)) it) (enumerate i its)"

lemma upsert_all_rows:
  "upsert_all fail c nonces acc dmn base i its es = Inr es' \<Longrightarrow>
     es' = fold (tbl_replace entry_key) (new_rows c nonces acc dmn base i its) es"
  by (induction its arbitrary: i es) (auto simp: new_rows_def split: if_splits)

lemma upsert_all_total:
  "(\<And>j. \<not> fail (UpsertEntry j)) \<Longrightarrow>
     upsert_all fail c nonces acc dmn base i its es =
       Inr (fold (tbl_replace entry_key) (new_rows c nonces acc dmn base i its) es)"
  by (induction its arbitrary: i es) (auto simp: new_rows_def)

lemma entry_of_simps [simp]:
  "se_account (entry_of c n a d s it) = a" "se_domain (entry_of c n a d s it) = d"
  "se_key (entry_of c n a d s it) = pi_key it" "se_seq (entry_of c n a d s it) = s"
  "se_updated (entry_of c n a d s it) = pi_updated it"
  "se_deleted (entry_of c n a d s it) = pi_deleted it"
  "se_data (entry_of c n a d s it) = encrypt c n (pi_data it)"
  "entry_key (entry_of c n a d s it) = (a, d, pi_key it)"
  by (simp_all add: entry_of_def entry_key_def)

lemma new_rows_Nil [simp]: "new_rows c nonces a d base i [] = []"
  by (simp add: new_rows_def)

lemma new_rows_Cons [simp]:
  "new_rows c nonces a d base i (it # its) =
     entry_of c (nonces i) a d (wrap64 (base + int i)) it # new_rows c nonces a d base (Suc i) its"
  by (simp add: new_rows_def)

lemma in_new_rowsD:
  "r \<in> set (new_rows c nonces a d base i its) \<Longrightarrow>
     \<exists>j it. i \<le> j \<and> j < i + length its \<and> it \<in> set its \<and>
        r = entry_of c (nonces j) a d (wrap64 (base + int j)) it"
proof (induction its arbitrary: i)
  case Nil
  then show ?case by simp
next
  case (Cons it its)
  then consider "r = entry_of c (nonces i) a d (wrap64 (base + int i)) it"
    | "r \<in> set (new_rows c nonces a d base (Suc i) its)" by auto
  then show ?case
  proof cases
    case 1
    then show ?thesis by (intro exI [of _ i] exI [of _ it]) simp
  next
    case 2
    from Cons.IH [OF 2] obtain j x where "Suc i \<le> j" "j < Suc i + length its" "x \<in> set its"
      "r = entry_of c (nonces j) a d (wrap64 (base + int j)) x" by blast
    then show ?thesis by (intro exI [of _ j] exI [of _ x]) simp
  qed
qed

lemma keys_new_rows [simp]:
  "map entry_key (new_rows c nonces a d base i its) = map (\<lambda>it. (a, d, pi_key it)) its"
  by (induction its arbitrary: i) simp_all

text \<open>The state after a successful critical section, and what an unsuccessful one leaves behind.\<close>

lemma push_locked_ok:
  assumes "push_locked fail c nonces r acc dmn items now s = (Inr resp, s')"
  obtains base tok cur' mx where
    "token_next (cursors s) acc dmn (length (filter (wins (entries s) acc dmn) items)) now r = ((base, tok), cur')"
    and "resp = \<lparr>ps_accepted = length (filter (wins (entries s) acc dmn) items), ps_token = tok\<rparr>"
    and "entries s' = prune_tombstones acc dmn (wrap64 (now - retention_ms))
           (fold (tbl_replace entry_key)
              (new_rows c nonces acc dmn base 0 (filter (wins (entries s) acc dmn) items)) (entries s))"
    and "domains s' = upsert_domain acc dmn tok mx (domains s)" and "cursors s' = cur'"
proof -
  from assms obtain accepted mx where scan: "lww_scan fail (entries s) acc dmn 0 0 items = Inr (accepted, mx)"
    by (auto simp: push_locked_def split: if_splits sum.splits prod.splits)
  note acc = lww_scan_accepted [OF scan]
  obtain base tok cur' where next_eq: "token_next (cursors s) acc dmn (length accepted) now r = ((base, tok), cur')"
    by (metis prod.exhaust)
  from assms scan next_eq obtain es where
    ups: "upsert_all fail c nonces acc dmn base 0 accepted (entries s) = Inr es"
    and res: "resp = \<lparr>ps_accepted = length accepted, ps_token = tok\<rparr>"
    and s': "s' = s\<lparr>cursors := cur', entries := prune_tombstones acc dmn (wrap64 (now - retention_ms)) es,
                   domains := upsert_domain acc dmn tok mx (domains s)\<rparr>"
    by (auto simp: push_locked_def Let_def split: if_splits sum.splits)
  from upsert_all_rows [OF ups] s' res next_eq show ?thesis
    by (intro that [of base tok cur' mx]) (simp_all flip: acc)
qed

lemma push_locked_error:
  assumes "push_locked fail c nonces r acc dmn items now s = (Inl e, s')"
  shows "entries s' = entries s \<and> domains s' = domains s \<and>
     (cursors s' = cursors s \<or>
      (\<exists>base tok n. n \<le> length items \<and> token_next (cursors s) acc dmn n now r = ((base, tok), cursors s')))"
proof (cases "fail BeginTx")
  case True
  with assms show ?thesis by (simp add: push_locked_def)
next
  case started: False
  show ?thesis
  proof (cases "lww_scan fail (entries s) acc dmn 0 0 items")
    case (Inl err)
    with assms started show ?thesis by (simp add: push_locked_def)
  next
    case (Inr am)
    obtain accepted mx where am: "am = (accepted, mx)" by (cases am)
    obtain base tok cur' where next_eq: "token_next (cursors s) acc dmn (length accepted) now r = ((base, tok), cur')"
      by (metis prod.exhaust)
    have len: "length accepted \<le> length items"
      using lww_scan_accepted [OF Inr [unfolded am]] by simp
    have "s' = s\<lparr>cursors := cur'\<rparr>"
      using assms started Inr am next_eq
      by (auto simp: push_locked_def Let_def split: if_splits sum.splits)
    with next_eq len show ?thesis by auto
  qed
qed

section \<open>Looking rows up after a push\<close>

lemma tbl_find_fold_replace [table_simps]:
  "tbl_find f k (fold (tbl_replace f) rs t) =
     (case List.find (\<lambda>r. f r = k) (rev rs) of Some r \<Rightarrow> Some r | None \<Rightarrow> tbl_find f k t)"
proof (induction rs arbitrary: t)
  case Nil
  then show ?case by simp
next
  case (Cons r rs)
  then show ?case
    by (simp add: find_append tbl_find_replace split: option.splits)
qed

lemma tbl_unique_fold_replace [keeps_inv]:
  "tbl_unique f t \<Longrightarrow> tbl_unique f (fold (tbl_replace f) rs t)"
  by (induction rs arbitrary: t) (simp_all add: tbl_unique_replace)

lemma set_fold_replace:
  "e \<in> set (fold (tbl_replace f) rs t) \<Longrightarrow> e \<in> set rs \<or> e \<in> set t"
  by (induction rs arbitrary: t) fastforce+

section \<open>The invariant\<close>

definition seq_key :: "sync_entry \<Rightarrow> int \<times> string \<times> int" where
  "seq_key e = (se_account e, se_domain e, se_seq e)"

text \<open>The level a table of domain rows gives back at the next start.\<close>

definition durable_level :: "domain_row list \<Rightarrow> int \<Rightarrow> string \<Rightarrow> int" where
  "durable_level ds acc dmn =
     (case tbl_find domain_key (acc, dmn) ds of
        None \<Rightarrow> 0
      | Some r \<Rightarrow> (case parse_token (dr_token r) of None \<Rightarrow> 0 | Some ms \<Rightarrow> ms))"

text \<open>
  Primary keys are unique; no two rows of a domain share a sequence number; numbers are not
  negative; and every number is covered by the domain's cursor, in memory and in the table the
  cursor is restored from.
\<close>

definition sync_inv :: "sync_state \<Rightarrow> bool" where
  "sync_inv s \<longleftrightarrow>
     tbl_unique entry_key (entries s) \<and> tbl_unique seq_key (entries s) \<and>
     tbl_unique domain_key (domains s) \<and>
     (\<forall>e \<in> set (entries s). is_int64 (se_account e) \<and> 0 \<le> se_seq e \<and>
        se_seq e \<le> token_level (cursors s) (se_account e) (se_domain e) \<and>
        se_seq e \<le> durable_level (domains s) (se_account e) (se_domain e)) \<and>
     (\<forall>r \<in> set (domains s). is_int64 (dr_account r))"

lemma sync_invD:
  assumes "sync_inv s"
  shows "tbl_unique entry_key (entries s)" and "tbl_unique seq_key (entries s)"
    and "tbl_unique domain_key (domains s)"
    and "e \<in> set (entries s) \<Longrightarrow> is_int64 (se_account e)"
    and "e \<in> set (entries s) \<Longrightarrow> 0 \<le> se_seq e"
    and "e \<in> set (entries s) \<Longrightarrow> se_seq e \<le> token_level (cursors s) (se_account e) (se_domain e)"
    and "e \<in> set (entries s) \<Longrightarrow> se_seq e \<le> durable_level (domains s) (se_account e) (se_domain e)"
    and "x \<in> set (domains s) \<Longrightarrow> is_int64 (dr_account x)"
  using assms by (auto simp: sync_inv_def)

lemma sync_inv_empty [keeps_inv]: "sync_inv \<lparr>entries = [], domains = [], cursors = Map.empty\<rparr>"
  by (simp add: sync_inv_def)

lemma durable_upsert [table_simps]:
  "durable_level (upsert_domain acc dmn tok mx ds) a d =
     (if (a, d) = (acc, dmn) then (case parse_token tok of None \<Rightarrow> 0 | Some ms \<Rightarrow> ms)
      else durable_level ds a d)"
proof -
  let ?r = "\<lparr>dr_account = acc, dr_domain = dmn, dr_token = tok, dr_latest = mx\<rparr>"
  let ?u = "\<lambda>r. r\<lparr>dr_token := tok, dr_latest := max (dr_latest r) mx\<rparr>"
  have key: "domain_key ?r = (acc, dmn)" and upd: "\<And>r'. domain_key (?u r') = domain_key r'"
    by (simp_all add: domain_key_def)
  have "tbl_find domain_key (a, d) (upsert_domain acc dmn tok mx ds) =
     (if (a, d) = (acc, dmn)
      then (case tbl_find domain_key (a, d) ds of None \<Rightarrow> Some ?r | Some r' \<Rightarrow> Some (?u r'))
      else tbl_find domain_key (a, d) ds)"
    unfolding upsert_domain_def using tbl_find_upsert [of domain_key ?r ?u "(a, d)" ds] upd
    by (simp add: key)
  then show ?thesis by (auto simp: durable_level_def split: option.splits)
qed

lemma tbl_unique_upsert_domain [keeps_inv]:
  "tbl_unique domain_key ds \<Longrightarrow> tbl_unique domain_key (upsert_domain acc dmn tok mx ds)"
  unfolding upsert_domain_def by (rule tbl_unique_upsert) (simp_all add: domain_key_def)

lemma account_upsert_domain:
  "r \<in> set (upsert_domain acc dmn tok mx ds) \<Longrightarrow> dr_account r = acc \<or> r \<in> set ds \<or>
     (\<exists>r' \<in> set ds. dr_account r = dr_account r')"
  by (auto simp: upsert_domain_def tbl_upsert_def split: if_splits)

lemma room_mono: "room cur acc dmn n now \<Longrightarrow> m \<le> n \<Longrightarrow> room cur acc dmn m now"
  by (auto simp: room_def)

text \<open>Fresh numbers keep the numbers of a domain distinct.\<close>

lemma seq_unique_fold_replace:
  assumes "tbl_unique seq_key t" and "distinct (map seq_key rs)"
    and "\<And>r e. r \<in> set rs \<Longrightarrow> e \<in> set t \<Longrightarrow> seq_key r \<noteq> seq_key e"
  shows "tbl_unique seq_key (fold (tbl_replace entry_key) rs t)"
  using assms
proof (induction rs arbitrary: t)
  case Nil
  then show ?case by simp
next
  case (Cons r rs)
  have "tbl_unique seq_key (tbl_replace entry_key r t)"
    using Cons.prems(1,3) by (auto simp: tbl_replace_def tbl_unique_def distinct_map_filter)
  moreover have "seq_key x \<noteq> seq_key e" if "x \<in> set rs" "e \<in> set (tbl_replace entry_key r t)" for x e
    using that Cons.prems(2,3) by (auto simp: image_iff)
  moreover have "distinct (map seq_key rs)" using Cons.prems(2) by simp
  ultimately have "tbl_unique seq_key (fold (tbl_replace entry_key) rs (tbl_replace entry_key r t))"
    by (intro Cons.IH)
  then show ?case by simp
qed

text \<open>Rows numbered from an allocation: the numbers do not wrap and lie in the allocated range.\<close>

lemma new_rows_seq:
  assumes "room cur a d n now" and "token_next cur a d n now r = ((base, tok), cur')"
    and "e \<in> set (new_rows c nonces a d base 0 its)" and "length its = n"
  shows "token_level cur a d < se_seq e \<and> now \<le> se_seq e \<and> se_seq e \<le> token_level cur' a d"
proof -
  from in_new_rowsD [OF assms(3)] assms(4) obtain j it where j: "j < n"
    and e: "e = entry_of c (nonces j) a d (wrap64 (base + int j)) it" by auto
  have lt: "token_level cur a d < base + int j" and le: "base + int j \<le> token_level cur' a d"
    using tokens.alloc_fresh [OF assms(1,2) j] by auto
  moreover have "is_int64 (base + int j)"
    using lt le token_level_range [of cur a d] token_level_range [of cur' a d]
    by (auto simp: is_int64_def)
  moreover have "now \<le> base" using tokens.alloc_start [OF assms(1,2)] by simp
  ultimately show ?thesis using e by simp
qed

lemma distinct_new_rows:
  "(\<And>j. i \<le> j \<Longrightarrow> j < i + length its \<Longrightarrow> is_int64 (base + int j)) \<Longrightarrow>
     distinct (map seq_key (new_rows c nonces a d base i its))"
proof (induction its arbitrary: i)
  case Nil
  then show ?case by simp
next
  case (Cons it its)
  have "seq_key e \<noteq> (a, d, wrap64 (base + int i))"
    if "e \<in> set (new_rows c nonces a d base (Suc i) its)" for e
  proof -
    from in_new_rowsD [OF that] obtain j x where j: "Suc i \<le> j" "j < Suc i + length its"
      and e: "e = entry_of c (nonces j) a d (wrap64 (base + int j)) x" by blast
    with Cons.prems [of j] Cons.prems [of i] show ?thesis by (auto simp: seq_key_def)
  qed
  moreover have "distinct (map seq_key (new_rows c nonces a d base (Suc i) its))"
    by (rule Cons.IH) (use Cons.prems in auto)
  moreover have "seq_key (entry_of c (nonces i) a d s it) = (a, d, s)" for s
    by (simp add: seq_key_def)
  ultimately show ?case by (simp add: image_iff) metis
qed

text \<open>Every operation of the service keeps the invariant.\<close>

lemma push_locked_inv:
  assumes inv: "sync_inv s" and acc: "is_int64 acc"
    and room: "room (cursors s) acc dmn (length items) now"
    and step: "push_locked fail c nonces r acc dmn items now s = (res, s')"
  shows "sync_inv s'"
proof (cases res)
  case (Inl e)
  from push_locked_error [OF step [unfolded Inl]] consider "s' = s"
    | base tok n where "entries s' = entries s" "domains s' = domains s" "n \<le> length items"
        "token_next (cursors s) acc dmn n now r = ((base, tok), cursors s')"
    by (cases s; cases s') auto
  then show ?thesis
  proof cases
    case 1
    with inv show ?thesis by simp
  next
    case 2
    note mono = tokens.alloc_level_ge [OF room_mono [OF room 2(3)] 2(4) acc]
    show ?thesis
      using inv 2(1,2) mono unfolding sync_inv_def by (auto intro: order_trans)
  qed
next
  case (Inr resp)
  let ?its = "filter (wins (entries s) acc dmn) items"
  obtain base tok cur' mx where
    next_eq: "token_next (cursors s) acc dmn (length ?its) now r = ((base, tok), cur')"
    and es': "entries s' = prune_tombstones acc dmn (wrap64 (now - retention_ms))
         (fold (tbl_replace entry_key) (new_rows c nonces acc dmn base 0 ?its) (entries s))"
    and ds': "domains s' = upsert_domain acc dmn tok mx (domains s)" and cur': "cursors s' = cur'"
    by (rule push_locked_ok [OF step [unfolded Inr]]) blast
  let ?new = "new_rows c nonces acc dmn base 0 ?its"
  have room': "room (cursors s) acc dmn (length ?its) now"
    by (rule room_mono [OF room]) simp
  note seq = new_rows_seq [OF room' next_eq _ refl, of _ c nonces]
  note level = tokens.alloc_level_ge [OF room' next_eq acc]
  note token = tokens.alloc_token [OF room' next_eq]
  have now0: "0 \<le> now" using room by (simp add: room_def)
  have dur: "durable_level (domains s') a d =
      (if (a, d) = (acc, dmn) then token_level cur' acc dmn else durable_level (domains s) a d)" for a d
    by (simp add: ds' durable_upsert token)
  have in_new: "se_account e = acc \<and> se_domain e = dmn" if "e \<in> set ?new" for e
    using in_new_rowsD [OF that] by auto
  have range: "is_int64 (base + int j)" if "j < length ?its" for j
    using tokens.alloc_fresh [OF room' next_eq that] token_level_range [of "cursors s" acc dmn]
      token_level_range [of cur' acc dmn] by (auto simp: is_int64_def)
  have sep: "seq_key x \<noteq> seq_key e" if "x \<in> set ?new" "e \<in> set (entries s)" for x e
    using seq [OF that(1)] in_new [OF that(1)] sync_invD(6) [OF inv that(2)] by (auto simp: seq_key_def)
  have row: "is_int64 (se_account e) \<and> 0 \<le> se_seq e \<and>
        se_seq e \<le> token_level cur' (se_account e) (se_domain e) \<and>
        se_seq e \<le> durable_level (domains s') (se_account e) (se_domain e)"
    if e: "e \<in> set (entries s')" for e
  proof -
    from e es' have "e \<in> set ?new \<or> e \<in> set (entries s)"
      by (auto simp: prune_tombstones_def dest: set_fold_replace)
    then show ?thesis
    proof
      assume "e \<in> set ?new"
      with seq in_new acc now0 show ?thesis by (fastforce simp: dur)
    next
      assume old: "e \<in> set (entries s)"
      have "token_level (cursors s) (se_account e) (se_domain e) \<le> token_level cur' (se_account e) (se_domain e)"
        by (rule level) (rule sync_invD(4) [OF inv old])
      with sync_invD(4-7) [OF inv old] show ?thesis by (auto simp: dur)
    qed
  qed
  have "tbl_unique entry_key (entries s')" and "tbl_unique domain_key (domains s')"
    unfolding es' ds' prune_tombstones_def using sync_invD(1,3) [OF inv]
    by (simp_all add: keeps_inv)
  moreover have "tbl_unique seq_key (entries s')"
    unfolding es' prune_tombstones_def
    by (intro tbl_unique_delete seq_unique_fold_replace sync_invD(2) [OF inv] distinct_new_rows)
      (use range sep in auto)
  moreover have "\<forall>x \<in> set (domains s'). is_int64 (dr_account x)"
    using account_upsert_domain sync_invD(8) [OF inv] acc unfolding ds' by metis
  ultimately show ?thesis using row by (auto simp: sync_inv_def cur')
qed

lemma push_check_cases:
  "push unm ul fail c nonces r acc req now s =
     (case push_check unm ul (cursors s) acc req now of
        Inl e \<Rightarrow> (Inl e, s)
      | Inr items \<Rightarrow> push_locked fail c nonces r acc (pr_domain req) items now s)"
  by (simp add: push_def)

lemma validate_item_Inr:
  "validate_item unm ul dmn it = Inr it' \<Longrightarrow>
     pi_key it' = pi_key it \<and> pi_updated it' = pi_updated it \<and> pi_deleted it' = pi_deleted it \<and>
     pi_key it \<noteq> [] \<and>
     (\<exists>m. unm (pi_data it') = Some (JObj m) \<and> \<not> contains_sensitive ul (JObj m) \<and>
        (dmn = bookmark_domain \<longrightarrow> \<not> pi_deleted it \<longrightarrow> validate_snapshot m))"
  by (auto simp: validate_item_def Let_def split: if_splits option.splits json.splits)

lemma validate_items_Inr:
  "validate_items unm ul dmn its = Inr its' \<Longrightarrow> list_all2 (\<lambda>it it'. validate_item unm ul dmn it = Inr it') its its'"
  by (induction its arbitrary: its') (auto split: sum.splits)

lemma push_check_Inr:
  "push_check unm ul cur acc req now = Inr items \<Longrightarrow>
     valid_domain (pr_domain req) \<and> length (pr_items req) \<le> max_push_items \<and>
     list_all2 (\<lambda>it it'. validate_item unm ul (pr_domain req) it = Inr it') (pr_items req) items"
  by (auto simp: push_check_def not_less dest!: validate_items_Inr split: if_splits sum.splits option.splits)

lemma push_check_length:
  "push_check unm ul cur acc req now = Inr items \<Longrightarrow> length items = length (pr_items req)"
  by (auto dest!: push_check_Inr simp: list_all2_lengthD)

lemma push_inv [keeps_inv]:
  assumes "sync_inv s" and "is_int64 acc"
    and "room (cursors s) acc (pr_domain req) (length (pr_items req)) now"
    and "push unm ul fail c nonces r acc req now s = (res, s')"
  shows "sync_inv s'"
  using assms push_locked_inv
  by (auto simp: push_def push_check_length split: sum.splits)
    (metis push_check_length push_locked_inv)

section \<open>The abstract last-writer-wins map\<close>

text \<open>
  A domain as its clients see it: a map from keys to time stamp, tombstone flag and data (or the
  error of decrypting it). Storing an item changes its key only where the item is newer.
\<close>

type_synonym lww_map = "string \<Rightarrow> (int \<times> bool \<times> (go_error + string)) option"

definition lww_view :: "cipher \<Rightarrow> int \<Rightarrow> string \<Rightarrow> sync_entry list \<Rightarrow> lww_map" where
  "lww_view c acc dmn es k =
     (case tbl_find entry_key (acc, dmn, k) es of
        None \<Rightarrow> None
      | Some e \<Rightarrow> Some (se_updated e, se_deleted e, decrypt c (se_data e)))"

definition lww_put :: "lww_map \<Rightarrow> push_item \<Rightarrow> lww_map" where
  "lww_put m it =
     (case m (pi_key it) of
        Some (u, _) \<Rightarrow>
          if u \<ge> pi_updated it then m
          else m(pi_key it \<mapsto> (pi_updated it, pi_deleted it, Inr (pi_data it)))
      | None \<Rightarrow> m(pi_key it \<mapsto> (pi_updated it, pi_deleted it, Inr (pi_data it))))"

definition lww_merge :: "lww_map \<Rightarrow> push_item list \<Rightarrow> lww_map" where
  "lww_merge m its = foldl lww_put m its"

lemma lww_put_other: "k \<noteq> pi_key it \<Longrightarrow> lww_put m it k = m k"
  by (auto simp: lww_put_def split: option.splits)

lemma lww_put_cong: "m (pi_key it) = m' (pi_key it) \<Longrightarrow> lww_put m it (pi_key it) = lww_put m' it (pi_key it)"
  by (auto simp: lww_put_def split: option.splits)

lemma lww_merge_other: "k \<notin> pi_key ` set its \<Longrightarrow> lww_merge m its k = m k"
  by (induction its arbitrary: m) (auto simp: lww_merge_def lww_put_other)

lemma lww_merge_distinct:
  "distinct (map pi_key its) \<Longrightarrow> it \<in> set its \<Longrightarrow> lww_merge m its (pi_key it) = lww_put m it (pi_key it)"
proof (induction its arbitrary: m)
  case Nil
  then show ?case by simp
next
  case (Cons x its)
  show ?case
  proof (cases "it = x")
    case True
    with Cons.prems have "pi_key it \<notin> pi_key ` set its" by auto
    with True show ?thesis by (simp add: lww_merge_def lww_merge_other [unfolded lww_merge_def])
  next
    case False
    with Cons.prems have "it \<in> set its" "pi_key it \<noteq> pi_key x" by (auto simp: rev_image_eqI)
    then have "lww_merge (lww_put m x) its (pi_key it) = lww_put (lww_put m x) it (pi_key it)"
      using Cons by simp
    also have "\<dots> = lww_put m it (pi_key it)"
      by (rule lww_put_cong) (rule lww_put_other [OF \<open>pi_key it \<noteq> pi_key x\<close>])
    finally show ?thesis by (simp add: lww_merge_def)
  qed
qed

lemma wins_view:
  "wins es acc dmn it \<longleftrightarrow>
     lww_put (lww_view c acc dmn es) it (pi_key it) =
       Some (pi_updated it, pi_deleted it, Inr (pi_data it)) \<and>
     (case lww_view c acc dmn es (pi_key it) of None \<Rightarrow> True | Some (u, _) \<Rightarrow> u < pi_updated it)"
  by (auto simp: wins_def lww_put_def lww_view_def split: option.splits)

lemma not_wins_view:
  "\<not> wins es acc dmn it \<Longrightarrow> lww_put (lww_view c acc dmn es) it (pi_key it) = lww_view c acc dmn es (pi_key it)"
  by (auto simp: wins_def lww_put_def lww_view_def split: option.splits)

text \<open>The rows of a push with distinct keys, found by key.\<close>

lemma find_new_row:
  assumes "distinct (map pi_key its)" and "it \<in> set its"
  shows "\<exists>j < length its. List.find (\<lambda>e. entry_key e = (a, d, pi_key it)) (rev (new_rows c nonces a d base i its)) =
     Some (entry_of c (nonces (i + j)) a d (wrap64 (base + int (i + j))) it)"
  using assms
proof (induction its arbitrary: i)
  case Nil
  then show ?case by simp
next
  case (Cons x its)
  show ?case
  proof (cases "it = x")
    case True
    have "entry_key e \<noteq> (a, d, pi_key x)" if "e \<in> set (new_rows c nonces a d base (Suc i) its)" for e
      using in_new_rowsD [OF that] Cons.prems(1) by auto (metis imageI)
    then have "List.find (\<lambda>e. entry_key e = (a, d, pi_key x)) (rev (new_rows c nonces a d base (Suc i) its)) = None"
      by (auto simp: find_None_iff)
    with True show ?thesis by (intro exI [of _ 0]) (simp add: find_append)
  next
    case False
    with Cons.prems have "it \<in> set its" "distinct (map pi_key its)" by auto
    from Cons.IH [OF this(2,1), of "Suc i"] obtain j where "j < length its"
      and "List.find (\<lambda>e. entry_key e = (a, d, pi_key it)) (rev (new_rows c nonces a d base (Suc i) its)) =
        Some (entry_of c (nonces (Suc i + j)) a d (wrap64 (base + int (Suc i + j))) it)" by blast
    then show ?thesis by (intro exI [of _ "Suc j"]) (simp add: find_append)
  qed
qed

lemma find_no_new_row:
  "k \<notin> pi_key ` set its \<Longrightarrow>
     List.find (\<lambda>e. entry_key e = (a, d, k)) (rev (new_rows c nonces a d base i its)) = None"
  by (auto simp: find_None_iff dest!: in_new_rowsD)

definition expired_key :: "sync_entry list \<Rightarrow> int \<Rightarrow> string \<Rightarrow> int \<Rightarrow> string \<Rightarrow> bool" where
  "expired_key es acc dmn now k \<longleftrightarrow>
     (\<exists>e \<in> set es. entry_key e = (acc, dmn, k) \<and> expired_tombstone acc dmn (now - retention_ms) e)"

lemma cutoff_int64: "room cur acc dmn n now \<Longrightarrow> wrap64 (now - retention_ms) = now - retention_ms"
  by (rule wrap64_id) (auto simp: room_def is_int64_def min64_def max64_def retention_ms_def)

lemma push_locked_view:
  assumes inv: "sync_inv s" and acc: "is_int64 acc"
    and room: "room (cursors s) acc dmn (length items) now"
    and dist: "distinct (map pi_key items)"
    and cipher: "\<And>i. cipher_ok c (nonces i)" and store: "\<And>it. it \<in> set items \<Longrightarrow> storable c (pi_data it)"
    and step: "push_locked fail c nonces r acc dmn items now s = (Inr resp, s')"
  shows "lww_view c acc dmn (entries s') k =
     (if expired_key (entries s) acc dmn now k \<and> k \<notin> pi_key ` set (filter (wins (entries s) acc dmn) items)
      then None else lww_merge (lww_view c acc dmn (entries s)) items k)"
proof -
  let ?its = "filter (wins (entries s) acc dmn) items"
  obtain base tok cur' mx where
    next_eq: "token_next (cursors s) acc dmn (length ?its) now r = ((base, tok), cur')"
    and es': "entries s' = prune_tombstones acc dmn (wrap64 (now - retention_ms))
         (fold (tbl_replace entry_key) (new_rows c nonces acc dmn base 0 ?its) (entries s))"
    by (rule push_locked_ok [OF step]) blast
  let ?rows = "new_rows c nonces acc dmn base 0 ?its"
  let ?key = "\<lambda>e. entry_key e = (acc, dmn, k)"
  have room': "room (cursors s) acc dmn (length ?its) now"
    by (rule room_mono [OF room]) simp
  have dist': "distinct (map pi_key ?its)" using dist by (rule distinct_map_filter)
  have found: "tbl_find entry_key (acc, dmn, k) (entries s') =
      (case (case List.find ?key (rev ?rows) of Some e \<Rightarrow> Some e
             | None \<Rightarrow> tbl_find entry_key (acc, dmn, k) (entries s)) of
         None \<Rightarrow> None
       | Some e \<Rightarrow> if expired_tombstone acc dmn (now - retention_ms) e then None else Some e)"
    unfolding es' prune_tombstones_def cutoff_int64 [OF room]
    by (simp add: tbl_find_delete tbl_unique_fold_replace sync_invD(1) [OF inv] tbl_find_fold_replace)
  show ?thesis
  proof (cases "k \<in> pi_key ` set ?its")
    case True
    then obtain it where it: "it \<in> set ?its" "k = pi_key it" by blast
    from find_new_row [OF dist' it(1), of acc dmn c nonces base 0] obtain j where
      j: "List.find ?key (rev ?rows) = Some (entry_of c (nonces j) acc dmn (wrap64 (base + int j)) it)"
        (is "_ = Some ?e")
      using it(2) by auto
    then have "?e \<in> set ?rows" by (metis find_SomeD set_rev)
    from new_rows_seq [OF room' next_eq this refl] have "\<not> expired_tombstone acc dmn (now - retention_ms) ?e"
      by (simp add: expired_tombstone_def retention_ms_def)
    with j found have "lww_view c acc dmn (entries s') k = Some (pi_updated it, pi_deleted it, Inr (pi_data it))"
      using decrypt_encrypt [OF cipher store [of it]] it(1) by (simp add: lww_view_def)
    moreover have "lww_merge (lww_view c acc dmn (entries s)) items k =
        Some (pi_updated it, pi_deleted it, Inr (pi_data it))"
      using lww_merge_distinct [OF dist, of it] it wins_view [of "entries s" acc dmn it c] by auto
    ultimately show ?thesis using True by simp
  next
    case False
    have old: "tbl_find entry_key (acc, dmn, k) (entries s') =
        (case tbl_find entry_key (acc, dmn, k) (entries s) of
           None \<Rightarrow> None
         | Some e \<Rightarrow> if expired_tombstone acc dmn (now - retention_ms) e then None else Some e)"
      using found find_no_new_row [OF False, of acc dmn c nonces base 0] by simp
    have exp: "expired_key (entries s) acc dmn now k \<longleftrightarrow>
        (\<exists>e. tbl_find entry_key (acc, dmn, k) (entries s) = Some e \<and>
             expired_tombstone acc dmn (now - retention_ms) e)"
      using tbl_find_unique [OF sync_invD(1) [OF inv]] by (auto simp: expired_key_def dest: tbl_find_SomeD) force
    have merge: "lww_merge (lww_view c acc dmn (entries s)) items k = lww_view c acc dmn (entries s) k"
    proof (cases "k \<in> pi_key ` set items")
      case True
      then obtain it where "it \<in> set items" "k = pi_key it" by blast
      with False show ?thesis
        using lww_merge_distinct [OF dist, of it] not_wins_view [of "entries s" acc dmn it c] by auto
    qed (simp add: lww_merge_other)
    show ?thesis
      unfolding merge using old exp False
      by (auto simp: lww_view_def split: option.splits)
  qed
qed

section \<open>Restart\<close>

lemma foldl_load_row:
  assumes "distinct (map domain_key rows)" and "\<forall>x \<in> set rows. is_int64 (dr_account x)"
    and "\<forall>x \<in> set rows. cur (token_key (dr_account x) (dr_domain x)) = None" and "is_int64 a"
  shows "foldl load_row cur rows (token_key a d) =
     (case tbl_find domain_key (a, d) rows of None \<Rightarrow> cur (token_key a d) | Some x \<Rightarrow> Some (dr_token x))"
  using assms
proof (induction rows arbitrary: cur)
  case Nil
  then show ?case by simp
next
  case (Cons x rows)
  let ?k = "token_key (dr_account x) (dr_domain x)"
  have load: "load_row cur x = cur(?k \<mapsto> dr_token x)"
    using Cons.prems(3) by (simp add: load_row_def)
  have diff: "token_key (dr_account y) (dr_domain y) \<noteq> ?k" if "y \<in> set rows" for y
    using that Cons.prems(1,2) token_key_inj [of "dr_account y" "dr_account x" "dr_domain y" "dr_domain x"]
    by (auto simp: domain_key_def rev_image_eqI)
  have "foldl load_row (cur(?k \<mapsto> dr_token x)) rows (token_key a d) =
      (case tbl_find domain_key (a, d) rows of
         None \<Rightarrow> (cur(?k \<mapsto> dr_token x)) (token_key a d) | Some y \<Rightarrow> Some (dr_token y))"
    by (rule Cons.IH) (use Cons.prems diff in auto)
  moreover have "tbl_find domain_key (a, d) rows = None" if "domain_key x = (a, d)"
    using that Cons.prems(1) by (auto simp: tbl_find_None_iff) (metis imageI)
  moreover have "token_key a d = ?k \<longleftrightarrow> domain_key x = (a, d)"
    using token_key_inj [of a "dr_account x" d "dr_domain x"] Cons.prems(2,4) by (auto simp: domain_key_def)
  ultimately show ?case
    by (auto simp: load tbl_find_def split: option.splits)
qed

lemma durable_level_filter:
  "tbl_unique domain_key ds \<Longrightarrow>
     durable_level (filter (\<lambda>x. dr_token x \<noteq> []) ds) a d = durable_level ds a d"
  using tbl_find_delete [of domain_key ds "(a, d)" "\<lambda>x. dr_token x = []"]
  by (auto simp: durable_level_def tbl_delete_def parse_token_def cut_prefix_def has_prefix_def
      split: option.splits)

lemma load_tokens_level:
  assumes "load_tokens ok ds = Inr cur" and "tbl_unique domain_key ds"
    and "\<forall>x \<in> set ds. is_int64 (dr_account x)" and "is_int64 a"
  shows "token_level cur a d = durable_level ds a d"
proof -
  let ?ds = "filter (\<lambda>x. dr_token x \<noteq> []) ds"
  have "cur (token_key a d) =
      (case tbl_find domain_key (a, d) ?ds of None \<Rightarrow> None | Some x \<Rightarrow> Some (dr_token x))"
    using assms foldl_load_row [of ?ds Map.empty a d]
    by (simp add: load_tokens_def tbl_unique_def distinct_map_filter split: if_splits)
  then have "token_level cur a d = durable_level ?ds a d"
    by (simp add: token_level_def durable_level_def split: option.splits)
  then show ?thesis by (simp add: durable_level_filter assms(2))
qed

lemma new_service_inv [keeps_inv]:
  assumes "sync_inv s" and "new_service ok (entries s) (domains s) = Inr s0"
  shows "sync_inv s0 \<and> entries s0 = entries s"
proof -
  from assms(2) obtain cur where cur: "load_tokens ok (domains s) = Inr cur"
    and s0: "s0 = \<lparr>entries = entries s, domains = domains s, cursors = cur\<rparr>"
    by (auto simp: new_service_def split: sum.splits)
  have "token_level cur (se_account e) (se_domain e) = durable_level (domains s) (se_account e) (se_domain e)"
    if "e \<in> set (entries s)" for e
    using load_tokens_level [OF cur sync_invD(3) [OF assms(1)]] sync_invD(4,8) [OF assms(1)] that by blast
  with assms(1) show ?thesis by (auto simp: sync_inv_def s0)
qed

section \<open>Other accounts and domains\<close>

lemma filter_replace_other:
  "\<not> P r \<Longrightarrow> (\<And>e. P e \<Longrightarrow> f e \<noteq> f r) \<Longrightarrow> filter P (tbl_replace f r t) = filter P t"
  by (auto simp: tbl_replace_def intro: filter_cong)

lemma filter_fold_replace_other:
  "(\<And>r e. r \<in> set rs \<Longrightarrow> P e \<Longrightarrow> f e \<noteq> f r) \<Longrightarrow>
     filter P (fold (tbl_replace f) rs t) = filter P t"
proof (induction rs arbitrary: t)
  case Nil
  then show ?case by simp
next
  case (Cons r rs)
  have "filter P (tbl_replace f r t) = filter P t"
    by (rule filter_replace_other) (use Cons.prems in \<open>auto\<close>)
  then show ?case using Cons by simp
qed

lemma push_locked_other:
  assumes step: "push_locked fail c nonces r acc dmn items now s = (res, s')"
    and other: "(a, d) \<noteq> (acc, dmn)"
  shows "filter (in_domain a d) (entries s') = filter (in_domain a d) (entries s)"
proof (cases res)
  case (Inl e)
  with push_locked_error [OF step [unfolded Inl]] show ?thesis by simp
next
  case (Inr resp)
  obtain base where es': "entries s' = prune_tombstones acc dmn (wrap64 (now - retention_ms))
         (fold (tbl_replace entry_key)
            (new_rows c nonces acc dmn base 0 (filter (wins (entries s) acc dmn) items)) (entries s))"
    by (rule push_locked_ok [OF step [unfolded Inr]]) blast
  have sep: "\<not> (in_domain acc dmn e \<and> in_domain a d e)" for e
    using other by (auto simp: in_domain_def)
  have "filter (in_domain a d) (prune_tombstones acc dmn t es) = filter (in_domain a d) es" for t es
    using sep by (auto simp: prune_tombstones_def tbl_delete_def expired_tombstone_def intro!: filter_cong)
  moreover have "entry_key e \<noteq> entry_key x"
    if "x \<in> set (new_rows c nonces acc dmn base 0 its)" "in_domain a d e" for x e its
    using in_new_rowsD [OF that(1)] that(2) other by (auto simp: entry_key_def in_domain_def)
  ultimately show ?thesis unfolding es' by (simp add: filter_fold_replace_other)
qed

lemma push_locked_domains_other:
  assumes step: "push_locked fail c nonces r acc dmn items now s = (res, s')"
  shows "filter (\<lambda>r. dr_account r \<noteq> acc) (domains s') = filter (\<lambda>r. dr_account r \<noteq> acc) (domains s)"
proof (cases res)
  case (Inl e)
  with push_locked_error [OF step [unfolded Inl]] show ?thesis by simp
next
  case (Inr resp)
  have "filter (\<lambda>r. dr_account r \<noteq> acc) (map (\<lambda>r. if domain_key r = (acc, dmn) then r\<lparr>dr_token := tok, dr_latest := max (dr_latest r) mx\<rparr> else r) ds) =
      filter (\<lambda>r. dr_account r \<noteq> acc) ds" for tok mx ds
    by (induction ds) (auto simp: domain_key_def)
  then have "filter (\<lambda>r. dr_account r \<noteq> acc) (upsert_domain acc dmn tok mx ds) = filter (\<lambda>r. dr_account r \<noteq> acc) ds" for tok mx ds
    by (simp add: upsert_domain_def tbl_upsert_def domain_key_def)
  with push_locked_ok [OF step [unfolded Inr]] show ?thesis by metis
qed

lemma push_locked_cursor_other:
  assumes step: "push_locked fail c nonces r acc dmn items now s = (res, s')"
    and "(a, d) \<noteq> (acc, dmn)" and "is_int64 a" and "is_int64 acc"
  shows "cursors s' (token_key a d) = cursors s (token_key a d)"
proof -
  have "token_key a d \<noteq> token_key acc dmn"
    using token_key_inj [OF assms(3,4)] assms(2) by auto
  then have next_other: "cur' (token_key a d) = cursors s (token_key a d)"
    if "token_next (cursors s) acc dmn n now r = (x, cur')" for n x cur'
    using that by (auto simp: token_next_def Let_def)
  show ?thesis
  proof (cases res)
    case (Inl e)
    with push_locked_error [OF step [unfolded Inl]] next_other show ?thesis by auto
  next
    case (Inr resp)
    show ?thesis by (rule push_locked_ok [OF step [unfolded Inr]]) (use next_other in auto)
  qed
qed

text \<open>What a pull reads of a state: the rows of its domain and the domain's cursor.\<close>

lemma pull_cong:
  assumes "filter (in_domain a d) (entries s') = filter (in_domain a d) (entries s)"
    and "cursors s' (token_key a d) = cursors s (token_key a d)"
  shows "pull ok c r a d since limit now s' = pull ok c r a d since limit now s"
proof -
  have split: "filter (\<lambda>e. in_domain a d e \<and> se_seq e > n) es =
      filter (\<lambda>e. se_seq e > n) (filter (in_domain a d) es)" for es n
    by (simp add: conj_commute)
  have "select_entries a d n l (entries s') = select_entries a d n l (entries s)" for n l
    unfolding select_entries_def split assms(1) ..
  with assms(2) show ?thesis
    by (simp add: pull_def pull_finish_def token_current_def split: sum.splits)
qed

text \<open>So does the answer to a push.\<close>

lemma find_own_entry:
  assumes "filter (in_domain a d) es' = filter (in_domain a d) es"
  shows "tbl_find entry_key (a, d, k) es' = tbl_find entry_key (a, d, k) es"
proof -
  have "tbl_find entry_key (a, d, k) (filter (in_domain a d) es) = tbl_find entry_key (a, d, k) es" for es
    unfolding tbl_find_def by (rule find_filter_same) (simp add: entry_key_def in_domain_def)
  with assms show ?thesis by metis
qed

lemma lww_scan_cong:
  assumes "filter (in_domain a d) es' = filter (in_domain a d) es"
  shows "lww_scan fail es' a d i mx its = lww_scan fail es a d i mx its"
proof (induction its arbitrary: i mx)
  case (Cons it its)
  have "wins es' a d it = wins es a d it" by (simp add: wins_def find_own_entry [OF assms])
  with Cons show ?case by (simp add: lww_scan_Cons)
qed simp

lemma upsert_all_result:
  "map_sum id (\<lambda>_. ()) (upsert_all fail c nonces acc dmn base i its es') = map_sum id (\<lambda>_. ()) (upsert_all fail c nonces acc dmn base i its es)"
  by (induction its arbitrary: i es es') simp_all

lemma push_locked_cong:
  assumes "filter (in_domain a d) (entries s') = filter (in_domain a d) (entries s)"
    and "cursors s' (token_key a d) = cursors s (token_key a d)"
  shows "fst (push_locked fail c nonces r a d its now s') = fst (push_locked fail c nonces r a d its now s)"
proof (cases "lww_scan fail (entries s) a d 0 0 its")
  case (Inl e)
  then show ?thesis by (simp add: push_locked_def lww_scan_cong [OF assms(1)])
next
  case (Inr am)
  obtain acc mx where am: "am = (acc, mx)" by (cases am)
  obtain x cur where n: "token_next (cursors s) a d (length acc) now r = (x, cur)" by fastforce
  then obtain cur' where n': "token_next (cursors s') a d (length acc) now r = (x, cur')"
    using assms(2) by (auto simp: token_next_def token_level_def Let_def)
  obtain base tok where x: "x = (base, tok)" by (cases x)
  from upsert_all_result [of fail c nonces a d base 0 acc "entries s'" "entries s"] show ?thesis
    by (cases "upsert_all fail c nonces a d base 0 acc (entries s)"; cases "upsert_all fail c nonces a d base 0 acc (entries s')")
      (simp_all add: push_locked_def lww_scan_cong [OF assms(1)] Inr am n n' x Let_def)
qed

lemma push_cong:
  assumes "filter (in_domain a (pr_domain req)) (entries s') = filter (in_domain a (pr_domain req)) (entries s)"
    and "cursors s' (token_key a (pr_domain req)) = cursors s (token_key a (pr_domain req))"
  shows "fst (push unm ul fail c nonces r a req now s') = fst (push unm ul fail c nonces r a req now s)"
proof -
  have "token_current (cursors s') a (pr_domain req) = token_current (cursors s) a (pr_domain req)"
    using assms(2) by (simp add: token_current_def)
  then have "push_check unm ul (cursors s') a req now = push_check unm ul (cursors s) a req now"
    by (simp only: push_check_def)
  with push_locked_cong [OF assms] show ?thesis by (simp add: push_def split: sum.split)
qed

section \<open>Sensitive names\<close>

text \<open>The member names of a value at any depth.\<close>

inductive member_name :: "json \<Rightarrow> string \<Rightarrow> bool" where
  here: "kv \<in> set kvs \<Longrightarrow> member_name (JObj kvs) (fst kv)"
| below: "kv \<in> set kvs \<Longrightarrow> member_name (snd kv) n \<Longrightarrow> member_name (JObj kvs) n"
| elem: "v \<in> set vs \<Longrightarrow> member_name v n \<Longrightarrow> member_name (JArr vs) n"

inductive_cases member_name_ObjE: "member_name (JObj kvs) n"
inductive_cases member_name_ArrE: "member_name (JArr vs) n"
inductive_simps member_name_atoms [simp]:
  "member_name JNull n" "member_name (JBool b) n" "member_name (JNum l) n" "member_name (JStr t) n"

lemma contains_sensitive_iff:
  "contains_sensitive ul v \<longleftrightarrow> (\<exists>n. member_name v n \<and> contains (to_lower ul n) ''token'')"
proof
  show "contains_sensitive ul v \<Longrightarrow> \<exists>n. member_name v n \<and> contains (to_lower ul n) ''token''"
    by (induction ul v rule: contains_sensitive.induct)
      (force simp: list_ex_iff intro: member_name.intros)+
next
  assume "\<exists>n. member_name v n \<and> contains (to_lower ul n) ''token''"
  then obtain n where "member_name v n" "contains (to_lower ul n) ''token''" by blast
  then show "contains_sensitive ul v"
    by (induction rule: member_name.induct) (force simp: list_ex_iff)+
qed

lemma push_check_validate:
  "push_check unm ul cur acc req now = Inr items \<Longrightarrow>
     validate_items unm ul (pr_domain req) (pr_items req) = Inr items"
  by (auto simp: push_check_def split: if_splits sum.splits option.splits)

lemma validated_item:
  assumes "validate_items unm ul dmn its = Inr its'" and "it' \<in> set its'"
  shows "\<exists>m. unm (pi_data it') = Some (JObj m) \<and> \<not> contains_sensitive ul (JObj m)"
proof -
  from validate_items_Inr [OF assms(1)] assms(2) obtain it where "validate_item unm ul dmn it = Inr it'"
    by (auto simp: list_all2_conv_all_nth in_set_conv_nth)
  then show ?thesis using validate_item_Inr by blast
qed

end
