(* ===== verification/SyncPull.thy ===== *)
theory SyncPull
  imports SyncFacts
begin

text \<open>
  Paging. A client pulls until \<^verbatim>\<open>hasMore\<close> is false, each time with the token of the page before
  (docs/api.md); the lemmas say what the pages add up to and where the loop breaks off.
\<close>

section \<open>The rows of a domain in sequence order\<close>

definition domain_rows :: "int \<Rightarrow> string \<Rightarrow> int \<Rightarrow> sync_entry list \<Rightarrow> sync_entry list" where
  "domain_rows acc dmn since es = sort_key se_seq (filter (\<lambda>e. in_domain acc dmn e \<and> se_seq e > since) es)"

lemma select_entries_rows: "select_entries acc dmn since n es = take n (domain_rows acc dmn since es)"
  by (simp add: select_entries_def domain_rows_def)

lemma set_domain_rows [simp]:
  "set (domain_rows acc dmn since es) = {e \<in> set es. in_domain acc dmn e \<and> se_seq e > since}"
  by (auto simp: domain_rows_def)

lemma sorted_domain_rows: "sorted (map se_seq (domain_rows acc dmn since es))"
  by (simp add: domain_rows_def)

lemma distinct_domain_rows:
  assumes "tbl_unique seq_key es"
  shows "distinct (map se_seq (domain_rows acc dmn since es))"
proof -
  have "distinct (map seq_key (filter (\<lambda>e. in_domain acc dmn e \<and> se_seq e > since) es))" (is "distinct (map _ ?es)")
    using assms by (simp add: tbl_unique_def distinct_map_filter)
  moreover have "inj_on se_seq (set ?es)" if "inj_on seq_key (set ?es)"
    using that by (auto simp: inj_on_def seq_key_def in_domain_def)
  ultimately have "distinct (map se_seq ?es)" by (auto simp: distinct_map)
  then show ?thesis by (simp add: domain_rows_def distinct_map)
qed

lemma domain_rows_strict:
  "tbl_unique seq_key es \<Longrightarrow> sorted_wrt (<) (map se_seq (domain_rows acc dmn since es))"
  using sorted_domain_rows distinct_domain_rows by (simp add: strict_sorted_iff)

lemma filter_after_strict:
  "sorted_wrt (<) (map (f :: 'a \<Rightarrow> int) xs) \<Longrightarrow> n < length xs \<Longrightarrow>
     filter (\<lambda>x. f x > f (xs ! n)) xs = drop (Suc n) xs"
proof (induction xs arbitrary: n)
  case Nil
  then show ?case by simp
next
  case (Cons x xs)
  show ?case
  proof (cases n)
    case 0
    with Cons.prems(1) show ?thesis by (auto intro: filter_True)
  next
    case (Suc m)
    with Cons.prems have "f x < f (xs ! m)" by auto
    moreover have "filter (\<lambda>x. f x > f (xs ! m)) xs = drop (Suc m) xs"
      using Suc Cons by simp
    ultimately show ?thesis using Suc by simp
  qed
qed

text \<open>What follows a page is what the query returns from the number of the page's last row on.\<close>

lemma domain_rows_continue:
  assumes "tbl_unique seq_key es" and n: "n < length (domain_rows acc dmn since es)"
  shows "domain_rows acc dmn (se_seq (domain_rows acc dmn since es ! n)) es =
     drop (Suc n) (domain_rows acc dmn since es)"
proof -
  let ?rows = "domain_rows acc dmn since es"
  let ?b = "se_seq (?rows ! n)"
  have "?rows ! n \<in> set ?rows" using n by (rule nth_mem)
  then have b: "since < ?b" by simp
  have "filter (\<lambda>e. in_domain acc dmn e \<and> se_seq e > ?b) es =
      filter (\<lambda>e. se_seq e > ?b) (filter (\<lambda>e. in_domain acc dmn e \<and> se_seq e > since) es)"
    using b by (auto intro: filter_cong)
  then have "domain_rows acc dmn ?b es = filter (\<lambda>e. se_seq e > ?b) ?rows"
    by (simp add: domain_rows_def filter_sort)
  also have "\<dots> = drop (Suc n) ?rows"
    by (rule filter_after_strict [OF domain_rows_strict [OF assms(1)] n])
  finally show ?thesis .
qed

section \<open>One pull\<close>

lemma pull_items_append:
  "pull_items c (xs @ ys) =
     (case pull_items c xs of Inl e \<Rightarrow> Inl e
      | Inr a \<Rightarrow> (case pull_items c ys of Inl e \<Rightarrow> Inl e | Inr b \<Rightarrow> Inr (a @ b)))"
  by (induction xs) (auto split: sum.splits)

lemma pull_items_length: "pull_items c es = Inr its \<Longrightarrow> length its = length es"
  by (induction es arbitrary: its) (auto split: sum.splits)

lemma pull_items_take:
  "pull_items c es = Inr its \<Longrightarrow> pull_items c (take n es) = Inr (take n its)"
proof (induction es arbitrary: its n)
  case Nil
  then show ?case by simp
next
  case (Cons e es)
  then show ?case by (cases n) (auto split: sum.splits)
qed

lemma pull_items_drop:
  "pull_items c es = Inr its \<Longrightarrow> pull_items c (drop n es) = Inr (drop n its)"
proof (induction es arbitrary: its n)
  case Nil
  then show ?case by simp
next
  case (Cons e es)
  then show ?case by (cases n) (auto split: sum.splits)
qed

text \<open>A pull that finds at most \<open>limit\<close> rows returns them all; otherwise it returns the first \<open>limit\<close>.\<close>

lemma pull_last_page:
  assumes "valid_domain dmn" and "pull_since since now = Inr from"
    and "pull_items c (domain_rows acc dmn from (entries s)) = Inr its"
    and "length (domain_rows acc dmn from (entries s)) \<le> limit"
  shows "pull True c r acc dmn since limit now s =
     Inr \<lparr>ls_items = its, ls_token = token_current (cursors s) acc dmn, ls_more = False\<rparr>"
  using assms pull_items_length [OF assms(3)]
  by (simp add: pull_def pull_finish_def select_entries_rows)

lemma pull_full_page:
  assumes "valid_domain dmn" and "pull_since since now = Inr from"
    and "pull_items c (domain_rows acc dmn from (entries s)) = Inr its"
    and "limit < length (domain_rows acc dmn from (entries s))" and "0 < limit"
  shows "pull True c r acc dmn since limit now s =
     Inr \<lparr>ls_items = take limit its,
         ls_token = format_token (se_seq (domain_rows acc dmn from (entries s) ! (limit - 1))) r,
         ls_more = True\<rparr>"
  using assms pull_items_take [OF assms(3), of "Suc limit"] pull_items_length [OF assms(3)]
  by (simp add: pull_def pull_finish_def select_entries_rows)

lemma pull_since_token:
  assumes "is_int64 n" and "0 \<le> n" and "is_int64 now" and "0 \<le> now"
  shows "pull_since (format_token n r) now =
     (if now - n > retention_ms
      then Inl (Api (new_error 409 ''SYNC_FULL_REQUIRED'' ''since token invalid or expired; full resync required''))
      else Inr n)"
proof -
  have "is_int64 (now - n)" using assms by (auto simp: is_int64_def min64_def max64_def)
  then show ?thesis using assms by (simp add: pull_since_def)
qed

section \<open>The client's loop\<close>

fun pull_pages ::
  "nat \<Rightarrow> cipher \<Rightarrow> (nat \<Rightarrow> rnd3) \<Rightarrow> int \<Rightarrow> string \<Rightarrow> string \<Rightarrow> nat \<Rightarrow> int \<Rightarrow> sync_state
     \<Rightarrow> go_error + (pull_item list \<times> string)" where
  "pull_pages 0 c rs acc dmn since limit now s = Inl (Internal ''client gave up'')"
| "pull_pages (Suc n) c rs acc dmn since limit now s =
     (case pull True c (rs n) acc dmn since limit now s of
        Inl e \<Rightarrow> Inl e
      | Inr p \<Rightarrow>
          if ls_more p
          then (case pull_pages n c rs acc dmn (ls_token p) limit now s of
                  Inl e \<Rightarrow> Inl e
                | Inr (its, tok) \<Rightarrow> Inr (ls_items p @ its, tok))
          else Inr (ls_items p, ls_token p))"

lemma row_seq_int64: "sync_inv s \<Longrightarrow> e \<in> set (entries s) \<Longrightarrow> is_int64 (se_seq e) \<and> 0 \<le> se_seq e"
  using sync_invD(5,6) [of s e] token_level_range [of "cursors s" "se_account e" "se_domain e"]
  by (auto simp: is_int64_def min64_def max64_def)

lemma pull_pages_all:
  assumes inv: "sync_inv s" and valid: "valid_domain dmn" and limit: "0 < limit"
    and now: "is_int64 now" "0 \<le> now"
    and fresh: "\<forall>e \<in> set (entries s). in_domain acc dmn e \<longrightarrow> now - se_seq e \<le> retention_ms"
  shows "pull_since since now = Inr from \<Longrightarrow>
     pull_items c (domain_rows acc dmn from (entries s)) = Inr its \<Longrightarrow>
     length (domain_rows acc dmn from (entries s)) < n \<Longrightarrow>
     pull_pages n c rs acc dmn since limit now s = Inr (its, token_current (cursors s) acc dmn)"
proof (induction n arbitrary: since "from" its)
  case 0
  then show ?case by simp
next
  case (Suc n)
  let ?rows = "domain_rows acc dmn from (entries s)"
  show ?case
  proof (cases "length ?rows \<le> limit")
    case True
    with pull_last_page [OF valid Suc.prems(1,2) True, of "rs n"] show ?thesis by simp
  next
    case False
    then have more: "limit < length ?rows" by simp
    let ?e = "?rows ! (limit - 1)"
    have "?e \<in> set ?rows" using more by (intro nth_mem) simp
    then have e: "?e \<in> set (entries s)" "in_domain acc dmn ?e" by auto
    have since': "pull_since (format_token (se_seq ?e) (rs n)) now = Inr (se_seq ?e)"
      using pull_since_token [of "se_seq ?e" now "rs n"] row_seq_int64 [OF inv e(1)] now fresh e by auto
    have rest: "domain_rows acc dmn (se_seq ?e) (entries s) = drop limit ?rows"
      using domain_rows_continue [OF sync_invD(2) [OF inv], of "limit - 1"] more limit by simp
    have "pull_pages n c rs acc dmn (format_token (se_seq ?e) (rs n)) limit now s =
        Inr (drop limit its, token_current (cursors s) acc dmn)"
      by (rule Suc.IH [OF since'])
        (use rest pull_items_drop [OF Suc.prems(2)] Suc.prems(3) more limit in auto)
    with pull_full_page [OF valid Suc.prems(1,2) more limit, of "rs n"] show ?thesis by simp
  qed
qed

end
