(* ===== verification/SyncProps.thy ===== *)
theory SyncProps
  imports SyncPull
begin

text \<open>
  The properties of the synchronisation service. The first group is what a push and a paged pull
  guarantee; the second states, at concrete inputs, where the code departs from its documentation.
\<close>

section \<open>Inputs of the witnesses\<close>

definition ex_unmarshal :: unmarshal where
  "ex_unmarshal s = (if s = ''{}'' then Some (JObj []) else None)"

definition ex_item :: "string \<Rightarrow> int \<Rightarrow> push_item" where
  "ex_item k t = \<lparr>pi_key = k, pi_data = ''{}'', pi_updated = t, pi_deleted = False\<rparr>"

definition ex_request :: "push_item list \<Rightarrow> push_request" where
  "ex_request its = \<lparr>pr_domain = ''mute'', pr_base = [], pr_items = its\<rparr>"

definition ex_empty :: sync_state where
  "ex_empty = \<lparr>entries = [], domains = [], cursors = Map.empty\<rparr>"

definition ex_rnd :: rnd3 where "ex_rnd = (CHR ''a'', CHR ''b'', CHR ''c'')"

text \<open>A push of these inputs: account 1, plain storage, no failing statement.\<close>

definition ex_push :: "push_item list \<Rightarrow> int \<Rightarrow> sync_state \<Rightarrow> (go_error + push_response) \<times> sync_state" where
  "ex_push its now s =
     push ex_unmarshal id (\<lambda>_. False) None (\<lambda>_. []) ex_rnd 1 (ex_request its) now s"

lemma ex_empty_inv: "sync_inv ex_empty"
  by (simp add: ex_empty_def sync_inv_empty)

lemma ex_int64: "is_int64 1" "is_int64 1000" "is_int64 2000"
  by (simp_all add: is_int64_def min64_def max64_def)

lemma ex_check: "push_check ex_unmarshal id (cursors ex_empty) 1 (ex_request [ex_item ''k'' 5]) 1000 = Inr [ex_item ''k'' 5]"
  by code_simp

lemma ex_push_ok: "is_ok (fst (ex_push [ex_item ''k'' 5] 1000 ex_empty))"
  by code_simp

lemma ex_room: "room (cursors ex_empty) 1 ''mute'' 1 1000"
  by (simp add: room_def ex_empty_def token_level_def max64_def)

section \<open>Push\<close>

text \<open>
  C1: Refinement. A successful push of a batch with distinct keys changes the domain, as clients see
  it, exactly as merging the batch into an abstract last-writer-wins map does, but for keys the
  push left alone that hold a tombstone older than 90 days: these are gone afterwards.
\<close>

theorem push_refines_lww:
  assumes "sync_inv s" and "is_int64 acc"
    and "room (cursors s) acc (pr_domain req) (length (pr_items req)) now"
    and "push_check unm ul (cursors s) acc req now = Inr items"
    and "distinct (map pi_key items)"
    and "\<forall>i. cipher_ok c (nonces i)" and "\<forall>it \<in> set items. storable c (pi_data it)"
    and "push unm ul fail c nonces r acc req now s = (Inr resp, s')"
  shows "lww_view c acc (pr_domain req) (entries s') k =
     (if expired_key (entries s) acc (pr_domain req) now k \<and>
         k \<notin> pi_key ` set (filter (wins (entries s) acc (pr_domain req)) items)
      then None else lww_merge (lww_view c acc (pr_domain req) (entries s)) items k)"
proof -
  have step: "push_locked fail c nonces r acc (pr_domain req) items now s = (Inr resp, s')"
    using assms(4,8) by (simp add: push_def)
  have room: "room (cursors s) acc (pr_domain req) (length items) now"
    using assms(3) by (simp add: push_check_length [OF assms(4)])
  show ?thesis
    using assms(6,7) by (intro push_locked_view [OF assms(1,2) room assms(5) _ _ step]) auto
qed

theorem push_refines_lww_witness:
  "\<exists>resp s'. ex_push [ex_item ''k'' 5] 1000 ex_empty = (Inr resp, s') \<and>
     lww_view None 1 ''mute'' (entries s') ''k'' =
       lww_merge (lww_view None 1 ''mute'' []) [ex_item ''k'' 5] ''k''"
proof -
  obtain resp s' where step: "ex_push [ex_item ''k'' 5] 1000 ex_empty = (Inr resp, s')"
    using ex_push_ok by (metis is_ok_iff prod.collapse)
  from push_refines_lww [OF ex_empty_inv ex_int64(1) _ ex_check _ _ _ step [unfolded ex_push_def], where k = "''k''"]
  have "lww_view None 1 ''mute'' (entries s') ''k'' =
      lww_merge (lww_view None 1 ''mute'' (entries ex_empty)) [ex_item ''k'' 5] ''k''"
    using ex_room by (simp add: ex_request_def cipher_ok_def storable_def ex_item_def enc_prefix_def
        has_prefix_def expired_key_def ex_empty_def)
  with step show ?thesis by (auto simp: ex_empty_def)
qed

text \<open>
  C3: Invariant. A push, successful or not, keeps the tables and the cursors consistent: primary keys
  are unique, no two entries of a domain share a sequence number, and every number is covered by
  the cursor of its domain, in memory and in the table it is restored from; so a restart after the
  push finds a consistent state too, with the same entries.
\<close>

theorem push_keeps_consistent:
  assumes "sync_inv s" and "is_int64 acc"
    and "room (cursors s) acc (pr_domain req) (length (pr_items req)) now"
    and "push unm ul fail c nonces r acc req now s = (res, s')"
  shows "sync_inv s' \<and>
     (case new_service True (entries s') (domains s') of
        Inl _ \<Rightarrow> False
      | Inr s0 \<Rightarrow> sync_inv s0 \<and> entries s0 = entries s')"
proof -
  have inv: "sync_inv s'" by (rule push_inv [OF assms])
  obtain s0 where "new_service True (entries s') (domains s') = Inr s0"
    by (simp add: new_service_def load_tokens_def)
  with inv new_service_inv [OF inv] show ?thesis by auto
qed

theorem push_keeps_consistent_witness:
  "\<exists>res s'. ex_push [ex_item ''k'' 5] 1000 ex_empty = (res, s') \<and> sync_inv s'"
proof -
  obtain res s' where step: "ex_push [ex_item ''k'' 5] 1000 ex_empty = (res, s')"
    by (metis prod.collapse)
  from push_keeps_consistent [OF ex_empty_inv ex_int64(1) _ step [unfolded ex_push_def]]
  have "sync_inv s'" using ex_room by (simp add: ex_request_def)
  with step show ?thesis by blast
qed

text \<open>
  C4: Safety. The token a push returns is the domain's new cursor; its number is larger than that of
  every earlier token, at least the server's clock, and the entries the push wrote carry numbers
  above the old cursor and up to the new one.
\<close>

theorem push_token_advances:
  assumes "sync_inv s" and "is_int64 acc"
    and "room (cursors s) acc (pr_domain req) (length (pr_items req)) now"
    and "push unm ul fail c nonces r acc req now s = (Inr resp, s')"
  shows "token_current (cursors s') acc (pr_domain req) = ps_token resp \<and>
     (\<exists>n. parse_token (ps_token resp) = Some n \<and> token_level (cursors s) acc (pr_domain req) < n \<and> now \<le> n \<and>
        (\<forall>e \<in> set (entries s') - set (entries s).
           in_domain acc (pr_domain req) e \<and>
           token_level (cursors s) acc (pr_domain req) < se_seq e \<and> se_seq e \<le> n))"
proof -
  let ?d = "pr_domain req"
  from assms(4) obtain items where items: "push_check unm ul (cursors s) acc req now = Inr items"
    and step: "push_locked fail c nonces r acc ?d items now s = (Inr resp, s')"
    by (auto simp: push_def split: sum.splits)
  let ?its = "filter (wins (entries s) acc ?d) items"
  obtain base tok cur' where
    next_eq: "token_next (cursors s) acc ?d (length ?its) now r = ((base, tok), cur')"
    and resp: "resp = \<lparr>ps_accepted = length ?its, ps_token = tok\<rparr>"
    and es': "entries s' = prune_tombstones acc ?d (wrap64 (now - retention_ms))
         (fold (tbl_replace entry_key) (new_rows c nonces acc ?d base 0 ?its) (entries s))"
    and cur': "cursors s' = cur'"
    by (rule push_locked_ok [OF step]) blast
  have room: "room (cursors s) acc ?d (length ?its) now"
    by (rule room_mono [OF assms(3)]) (simp flip: push_check_length [OF items])
  have "cur' (token_key acc ?d) = Some tok" using next_eq by (auto simp: token_next_def Let_def)
  moreover have "in_domain acc ?d e \<and> token_level (cursors s) acc ?d < se_seq e \<and>
      se_seq e \<le> token_level cur' acc ?d" if "e \<in> set (entries s') - set (entries s)" for e
  proof -
    from that es' have "e \<in> set (new_rows c nonces acc ?d base 0 ?its)"
      by (auto simp: prune_tombstones_def dest: set_fold_replace)
    with new_rows_seq [OF room next_eq this refl] show ?thesis
      by (auto simp: in_domain_def dest: in_new_rowsD)
  qed
  moreover have "now \<le> token_level cur' acc ?d"
    using tokens.alloc_start [OF room next_eq] tokens.alloc_level [OF room next_eq]
    by (cases "length ?its") auto
  ultimately show ?thesis
    using tokens.alloc_token [OF room next_eq] tokens.alloc_monotone [OF room next_eq]
    by (auto simp: token_current_def cur' resp)
qed

theorem push_token_advances_witness:
  "\<exists>resp s' n. ex_push [ex_item ''k'' 5] 1000 ex_empty = (Inr resp, s') \<and>
     parse_token (ps_token resp) = Some n \<and> 0 < n"
proof -
  obtain resp s' where step: "ex_push [ex_item ''k'' 5] 1000 ex_empty = (Inr resp, s')"
    using ex_push_ok by (metis is_ok_iff prod.collapse)
  from push_token_advances [OF ex_empty_inv ex_int64(1) _ step [unfolded ex_push_def]] ex_room step
  show ?thesis by (fastforce simp: ex_request_def)
qed

text \<open>
  Error. A push that fails, in validation or at any statement of its transaction, leaves both
  tables as they were.
\<close>

theorem push_error_rolls_back:
  assumes "push unm ul fail c nonces r acc req now s = (Inl e, s')"
  shows "entries s' = entries s \<and> domains s' = domains s"
  using assms push_locked_error by (fastforce simp: push_def split: sum.splits)

theorem push_error_rolls_back_witness:
  "\<exists>e s'. push ex_unmarshal id (\<lambda>st. st = CommitTx) None (\<lambda>_. []) ex_rnd 1 (ex_request [ex_item ''k'' 5]) 1000 ex_empty
       = (Inl e, s') \<and> entries s' = [] \<and> domains s' = []"
proof -
  let ?p = "push ex_unmarshal id (\<lambda>st. st = CommitTx) None (\<lambda>_. []) ex_rnd 1 (ex_request [ex_item ''k'' 5]) 1000 ex_empty"
  have "\<not> is_ok (fst ?p)" by code_simp
  then obtain e s' where step: "?p = (Inl e, s')"
    by (metis is_ok_simps(1) prod.collapse sum.exhaust_sel)
  from push_error_rolls_back [OF step] step show ?thesis by (auto simp: ex_empty_def)
qed

text \<open>
  Functional. Retrying a push that succeeded changes nothing: every item is found at least as new
  as the retried one, so none is accepted and the entries stay, but for expired tombstones. Keys
  of the batch are distinct and none held an expired tombstone.
\<close>

theorem push_retry_accepts_nothing:
  assumes "sync_inv s" and "is_int64 acc"
    and "room (cursors s) acc (pr_domain req) (length (pr_items req)) now"
    and "push_check unm ul (cursors s) acc req now = Inr items"
    and "distinct (map pi_key items)"
    and "\<forall>i. cipher_ok c (nonces i)" and "\<forall>it \<in> set items. storable c (pi_data it)"
    and "\<forall>it \<in> set items. \<not> expired_key (entries s) acc (pr_domain req) now (pi_key it)"
    and "push unm ul fail c nonces r acc req now s = (Inr resp, s')"
    and "pr_domain req' = pr_domain req" and "pr_items req' = pr_items req"
    and "push unm ul fail' c nonces' r' acc req' now' s' = (Inr resp', s'')"
  shows "ps_accepted resp' = 0 \<and>
     entries s'' = prune_tombstones acc (pr_domain req) (wrap64 (now' - retention_ms)) (entries s')"
proof -
  let ?d = "pr_domain req"
  have step: "push_locked fail c nonces r acc ?d items now s = (Inr resp, s')"
    using assms(4,9) by (simp add: push_def)
  have room: "room (cursors s) acc ?d (length items) now"
    using assms(3) by (simp add: push_check_length [OF assms(4)])
  from assms(12) obtain items' where chk': "push_check unm ul (cursors s') acc req' now' = Inr items'"
    and step': "push_locked fail' c nonces' r' acc ?d items' now' s' = (Inr resp', s'')"
    using assms(10) by (auto simp: push_def split: sum.splits)
  have "items' = items"
    using push_check_validate [OF chk'] push_check_validate [OF assms(4)] assms(10,11) by simp
  have "\<not> wins (entries s') acc ?d it" if it: "it \<in> set items" for it
  proof -
    have "lww_view c acc ?d (entries s') (pi_key it) =
        lww_put (lww_view c acc ?d (entries s)) it (pi_key it)"
      using push_locked_view [OF assms(1,2) room assms(5) _ _ step, of "pi_key it"] assms(6-8) it
        lww_merge_distinct [OF assms(5) it] by simp
    then show ?thesis
      by (auto simp: lww_put_def lww_view_def wins_def split: option.splits if_splits)
  qed
  then have "filter (wins (entries s') acc ?d) items' = []"
    by (auto simp: \<open>items' = items\<close> filter_empty_conv)
  with push_locked_ok [OF step'] show ?thesis by (metis fold_simps(1) list.size(3) new_rows_Nil push_response.select_convs(1))
qed

theorem push_retry_accepts_nothing_witness:
  "\<exists>resp s' resp' s''. ex_push [ex_item ''k'' 5] 1000 ex_empty = (Inr resp, s') \<and>
     ex_push [ex_item ''k'' 5] 2000 s' = (Inr resp', s'') \<and> ps_accepted resp' = 0"
proof -
  let ?p = "ex_push [ex_item ''k'' 5] 1000 ex_empty"
  let ?q = "ex_push [ex_item ''k'' 5] 2000 (snd ?p)"
  have "is_ok (fst ?q)" by code_simp
  with ex_push_ok obtain resp s' resp' s'' where step: "?p = (Inr resp, s')"
    and step': "ex_push [ex_item ''k'' 5] 2000 s' = (Inr resp', s'')"
    by (metis is_ok_iff prod.collapse snd_conv)
  have "ps_accepted resp' = 0"
    using push_retry_accepts_nothing [OF ex_empty_inv ex_int64(1) _ ex_check _ _ _ _
        step [unfolded ex_push_def] _ _ step' [unfolded ex_push_def]] ex_room
    by (simp add: ex_request_def cipher_ok_def storable_def ex_item_def enc_prefix_def
        has_prefix_def expired_key_def ex_empty_def)
  with step step' show ?thesis by blast
qed

text \<open>
  C5: Safety. No pushed object with a member name that contains \<^verbatim>\<open>token\<close> (in any case, at any depth)
  reaches the table: each entry a push adds holds the encryption of a text that decodes to an
  object without such a name.
\<close>

theorem push_stores_no_token_field:
  assumes "push unm ul fail c nonces r acc req now s = (Inr resp, s')"
    and "e \<in> set (entries s')" and "e \<notin> set (entries s)"
  shows "\<exists>j txt m. se_data e = encrypt c (nonces j) txt \<and> unm txt = Some (JObj m) \<and>
     (\<forall>n. member_name (JObj m) n \<longrightarrow> \<not> contains (to_lower ul n) ''token'')"
proof -
  from assms(1) obtain items where items: "push_check unm ul (cursors s) acc req now = Inr items"
    and step: "push_locked fail c nonces r acc (pr_domain req) items now s = (Inr resp, s')"
    by (auto simp: push_def split: sum.splits)
  let ?its = "filter (wins (entries s) acc (pr_domain req)) items"
  obtain base where "entries s' = prune_tombstones acc (pr_domain req) (wrap64 (now - retention_ms))
         (fold (tbl_replace entry_key) (new_rows c nonces acc (pr_domain req) base 0 ?its) (entries s))"
    by (rule push_locked_ok [OF step]) blast
  with assms(2,3) have "e \<in> set (new_rows c nonces acc (pr_domain req) base 0 ?its)"
    by (auto simp: prune_tombstones_def dest: set_fold_replace)
  from in_new_rowsD [OF this] obtain j it where "it \<in> set items"
    and "se_data e = encrypt c (nonces j) (pi_data it)" by auto
  with validated_item [OF push_check_validate [OF items]] show ?thesis
    by (fastforce simp: contains_sensitive_iff)
qed

theorem push_stores_no_token_field_witness:
  "\<exists>resp s' e. ex_push [ex_item ''k'' 5] 1000 ex_empty = (Inr resp, s') \<and> e \<in> set (entries s') \<and>
     (\<exists>m. ex_unmarshal (se_data e) = Some (JObj m))"
proof -
  let ?p = "ex_push [ex_item ''k'' 5] 1000 ex_empty"
  have "length (entries (snd ?p)) = 1" by code_simp
  then obtain e where e: "e \<in> set (entries (snd ?p))" by (cases "entries (snd ?p)") auto
  from ex_push_ok obtain resp s' where step: "?p = (Inr resp, s')" by (metis is_ok_iff prod.collapse)
  from push_stores_no_token_field [OF step [unfolded ex_push_def], of e] e step
  show ?thesis by (force simp: ex_empty_def encrypt_def)
qed

text \<open>
  Safety. A push touches one domain of one account: a pull of any other account or domain returns
  the same before and after, byte for byte.
\<close>

theorem push_isolated:
  assumes "push unm ul fail c nonces r acc req now s = (res, s')"
    and "(a, d) \<noteq> (acc, pr_domain req)" and "is_int64 a" and "is_int64 acc"
  shows "pull ok c r' a d since limit now' s' = pull ok c r' a d since limit now' s"
proof (cases "push_check unm ul (cursors s) acc req now")
  case (Inl e)
  with assms(1) show ?thesis by (simp add: push_def)
next
  case (Inr items)
  with assms(1) have step: "push_locked fail c nonces r acc (pr_domain req) items now s = (res, s')"
    by (simp add: push_def)
  show ?thesis
    by (rule pull_cong [OF push_locked_other [OF step assms(2)]
          push_locked_cursor_other [OF step assms(2-4)]])
qed

theorem push_isolated_witness:
  "\<exists>res s'. ex_push [ex_item ''k'' 5] 1000 ex_empty = (res, s') \<and>
     pull True None ex_rnd 2 ''mute'' [] 30 1000 s' = pull True None ex_rnd 2 ''mute'' [] 30 1000 ex_empty"
proof -
  obtain res s' where step: "ex_push [ex_item ''k'' 5] 1000 ex_empty = (res, s')" by (metis prod.collapse)
  have "is_int64 2" by (simp add: is_int64_def min64_def max64_def)
  from push_isolated [OF step [unfolded ex_push_def] _ this ex_int64(1)] step show ?thesis by simp
qed

end
