(* ===== verification/SyncPullProps.thy ===== *)
theory SyncPullProps
  imports SyncProps
begin

text \<open>
  The properties of the paged pull: the pages are complete while nothing is older than the retention
  window, and the inputs at which the code does not do what its documentation says.
\<close>

section \<open>Paging\<close>

text \<open>
  C2: Termination. A client that pulls page after page, each time with the token it got, is done
  after at most as many pulls as there are rows, plus one, and has then received every entry of the
  domain after its starting point exactly once, in sequence order, and the domain's current
  token; provided that no entry of the domain was written more than 90 days ago.
\<close>

theorem pull_pages_complete:
  assumes "sync_inv s" and "valid_domain dmn" and "0 < limit" and "is_int64 now" and "0 \<le> now"
    and "\<forall>e \<in> set (entries s). in_domain acc dmn e \<longrightarrow> now - se_seq e \<le> retention_ms"
    and "pull_since since now = Inr from"
    and "pull_items c (domain_rows acc dmn from (entries s)) = Inr its"
    and "length (domain_rows acc dmn from (entries s)) < n"
  shows "pull_pages n c rs acc dmn since limit now s = Inr (its, token_current (cursors s) acc dmn) \<and>
     length its = length (filter (\<lambda>e. in_domain acc dmn e \<and> se_seq e > from) (entries s)) \<and>
     sorted_wrt (<) (map se_seq (domain_rows acc dmn from (entries s)))"
  using pull_pages_all [OF assms(1-9), of rs] pull_items_length [OF assms(8)]
    domain_rows_strict [OF sync_invD(2) [OF assms(1)]]
  by (simp add: domain_rows_def)

text \<open>Two entries of the domain \<^verbatim>\<open>mute\<close>, numbered 1 and 2, and the cursor at 2.\<close>

definition ex_entry :: "string \<Rightarrow> int \<Rightarrow> sync_entry" where
  "ex_entry k q = \<lparr>se_account = 1, se_domain = ''mute'', se_key = k, se_data = ''{}'', se_updated = 5,
     se_deleted = False, se_seq = q\<rparr>"

definition ex_two :: sync_state where
  "ex_two = \<lparr>entries = [ex_entry ''a'' 1, ex_entry ''b'' 2],
     domains = [\<lparr>dr_account = 1, dr_domain = ''mute'', dr_token = format_token 2 ex_rnd, dr_latest = 5\<rparr>],
     cursors = [token_key 1 ''mute'' \<mapsto> format_token 2 ex_rnd]\<rparr>"

lemma ex_two_inv: "sync_inv ex_two"
proof -
  have "is_int64 2" by (simp add: is_int64_def min64_def max64_def)
  then show ?thesis
    by (auto simp: sync_inv_def ex_two_def ex_entry_def tbl_unique_def entry_key_def seq_key_def
        token_level_def durable_level_def tbl_find_def domain_key_def ex_int64)
qed

lemma ex_two_rows: "domain_rows 1 ''mute'' (- 1) (entries ex_two) = [ex_entry ''a'' 1, ex_entry ''b'' 2]"
  by code_simp

lemma ex_pull_since: "pull_since [] now = Inr (- 1)"
  by (simp add: pull_since_def)

lemma ex_mute: "valid_domain ''mute''"
  by code_simp

theorem pull_pages_complete_witness:
  "\<exists>its. pull_pages 3 None (\<lambda>_. ex_rnd) 1 ''mute'' [] 1 1000 ex_two = Inr (its, format_token 2 ex_rnd) \<and>
     length its = 2"
proof -
  have fresh: "\<forall>e \<in> set (entries ex_two). in_domain 1 ''mute'' e \<longrightarrow> 1000 - se_seq e \<le> retention_ms"
    by code_simp
  have tok: "token_current (cursors ex_two) 1 ''mute'' = format_token 2 ex_rnd"
    by (simp add: token_current_def ex_two_def)
  obtain its where "pull_items None (domain_rows 1 ''mute'' (- 1) (entries ex_two)) = Inr its"
    and "length its = 2"
    unfolding ex_two_rows by (simp add: pull_item_of_def ex_entry_def enc_prefix_def has_prefix_def)
  with pull_pages_complete [OF ex_two_inv ex_mute _ ex_int64(2) _ fresh ex_pull_since this(1), of 1 3 "\<lambda>_. ex_rnd"]
  show ?thesis by (simp add: ex_two_rows tok)
qed

text \<open>
  Functional. Increments are exact: after a client has pulled up to the current token of a state, a
  push, and then another pull from that token, the second pull finds exactly the keys the push
  stored, when they are distinct.
\<close>

theorem pull_increment_exact:
  assumes "sync_inv s" and "is_int64 acc"
    and "room (cursors s) acc (pr_domain req) (length (pr_items req)) now"
    and "push_check unm ul (cursors s) acc req now = Inr items"
    and "distinct (map pi_key items)"
    and "push unm ul fail c nonces r acc req now s = (Inr resp, s')"
  shows "se_key ` set (domain_rows acc (pr_domain req) (token_level (cursors s) acc (pr_domain req)) (entries s')) =
     pi_key ` set (filter (wins (entries s) acc (pr_domain req)) items)"
proof -
  let ?d = "pr_domain req" and ?lvl = "token_level (cursors s) acc (pr_domain req)"
  let ?its = "filter (wins (entries s) acc ?d) items"
  have step: "push_locked fail c nonces r acc ?d items now s = (Inr resp, s')"
    using assms(4,6) by (simp add: push_def)
  obtain base tok cur' where
    next_eq: "token_next (cursors s) acc ?d (length ?its) now r = ((base, tok), cur')"
    and es': "entries s' = prune_tombstones acc ?d (wrap64 (now - retention_ms))
         (fold (tbl_replace entry_key) (new_rows c nonces acc ?d base 0 ?its) (entries s))"
    by (rule push_locked_ok [OF step]) blast
  let ?rows = "new_rows c nonces acc ?d base 0 ?its"
  have room: "room (cursors s) acc ?d (length ?its) now"
    by (rule room_mono [OF assms(3)]) (simp flip: push_check_length [OF assms(4)])
  have old: "e \<in> set ?rows"
    if "e \<in> set (entries s')" "in_domain acc ?d e" "?lvl < se_seq e" for e
  proof -
    from that(1) es' have "e \<in> set ?rows \<or> e \<in> set (entries s)"
      by (auto simp: prune_tombstones_def dest: set_fold_replace)
    with sync_invD(6) [OF assms(1)] that(2,3) show ?thesis by (fastforce simp: in_domain_def)
  qed
  have new: "\<exists>e \<in> set (entries s'). in_domain acc ?d e \<and> ?lvl < se_seq e \<and> se_key e = pi_key it"
    if it: "it \<in> set ?its" for it
  proof -
    from find_new_row [OF distinct_map_filter [OF assms(5)] it, of acc ?d c nonces base 0] obtain j where
      j: "List.find (\<lambda>e. entry_key e = (acc, ?d, pi_key it)) (rev ?rows) =
        Some (entry_of c (nonces j) acc ?d (wrap64 (base + int j)) it)" (is "_ = Some ?e") by auto
    then have "?e \<in> set ?rows" by (metis find_SomeD set_rev)
    note seq = new_rows_seq [OF room next_eq this refl]
    have "tbl_find entry_key (acc, ?d, pi_key it) (entries s') = Some ?e"
      unfolding es' prune_tombstones_def cutoff_int64 [OF assms(3)]
      using j seq by (simp add: tbl_find_delete tbl_unique_fold_replace sync_invD(1) [OF assms(1)]
          tbl_find_fold_replace expired_tombstone_def retention_ms_def)
    then have "?e \<in> set (entries s')" by (auto dest: tbl_find_SomeD)
    with seq show ?thesis by (intro bexI [of _ ?e]) (simp_all add: in_domain_def)
  qed
  show ?thesis
    using old new by (fastforce dest: in_new_rowsD simp: image_iff)
qed

theorem pull_increment_exact_witness:
  "\<exists>resp s'. ex_push [ex_item ''k'' 5] 1000 ex_empty = (Inr resp, s') \<and>
     se_key ` set (domain_rows 1 ''mute'' 0 (entries s')) = {''k''}"
proof -
  obtain resp s' where step: "ex_push [ex_item ''k'' 5] 1000 ex_empty = (Inr resp, s')"
    using ex_push_ok by (metis is_ok_iff prod.collapse)
  from pull_increment_exact [OF ex_empty_inv ex_int64(1) _ ex_check _ step [unfolded ex_push_def]] ex_room step
  show ?thesis
    by (auto simp: ex_request_def ex_item_def ex_empty_def token_level_def wins_def)
qed

section \<open>Departures\<close>

text \<open>
  Safety, a defect. A continuation token carries the number of the last entry of its page, and
  \<^verbatim>\<open>Pull\<close> judges its age like that of any other token. When that entry is more than 90 days old, a
  full pull of a domain with more entries than fit into a page returns the first page and refuses
  the continuation with 409, whose remedy is to start the full pull again: the client never gets
  past the first page.
\<close>

theorem pull_of_old_domain_never_ends:
  assumes "sync_inv s" and "valid_domain dmn" and "0 < limit" and "is_int64 now" and "0 \<le> now"
    and "pull_items c (domain_rows acc dmn (- 1) (entries s)) = Inr its"
    and "limit < length (domain_rows acc dmn (- 1) (entries s))"
    and "now - se_seq (domain_rows acc dmn (- 1) (entries s) ! (limit - 1)) > retention_ms"
  shows "\<exists>p. pull True c r acc dmn [] limit now s = Inr p \<and> ls_more p \<and>
     pull True c r' acc dmn (ls_token p) limit now s =
       Inl (Api (new_error 409 ''SYNC_FULL_REQUIRED''
              ''since token invalid or expired; full resync required''))"
proof -
  let ?rows = "domain_rows acc dmn (- 1) (entries s)"
  let ?e = "?rows ! (limit - 1)"
  have "?e \<in> set ?rows" using assms(3,7) by (intro nth_mem) simp
  then have "?e \<in> set (entries s)" by simp
  then have "pull_since (format_token (se_seq ?e) r) now =
      Inl (Api (new_error 409 ''SYNC_FULL_REQUIRED''
              ''since token invalid or expired; full resync required''))"
    using row_seq_int64 [OF assms(1)] assms(4,5,8) by (simp add: pull_since_token)
  with pull_full_page [OF assms(2) ex_pull_since assms(6,7,3), where r = r and now = now] assms(2) show ?thesis
    by (auto simp: pull_def [of _ _ _ _ _ "format_token _ _"])
qed

theorem pull_of_old_domain_never_ends_witness:
  "\<exists>p. pull True None ex_rnd 1 ''mute'' [] 1 8000000000 ex_two = Inr p \<and> ls_more p \<and>
     \<not> is_ok (pull True None ex_rnd 1 ''mute'' (ls_token p) 1 8000000000 ex_two)"
proof -
  have now: "is_int64 8000000000" by (simp add: is_int64_def min64_def max64_def)
  obtain its where its: "pull_items None (domain_rows 1 ''mute'' (- 1) (entries ex_two)) = Inr its"
    unfolding ex_two_rows by (simp add: pull_item_of_def ex_entry_def enc_prefix_def has_prefix_def)
  from pull_of_old_domain_never_ends [OF ex_two_inv ex_mute _ now _ its, of 1 ex_rnd ex_rnd]
  show ?thesis by (auto simp: ex_two_rows ex_entry_def retention_ms_def)
qed

text \<open>
  Safety, a defect. A pull reads the rows first and the current token afterwards, without the
  lock the push holds. When a push falls between the two, the pull returns the old rows with the
  new token, and no later pull from that token returns what the push stored.
\<close>

theorem pull_race_loses_push:
  assumes "sync_inv s" and "is_int64 acc"
    and "room (cursors s) acc (pr_domain req) (length (pr_items req)) now"
    and "push unm ul fail c nonces r acc req now s = (Inr resp, s')"
    and "rows = select_entries acc (pr_domain req) since_seq (limit + 1) (entries s)"
    and "length rows \<le> limit"
    and "pull_finish c r' (cursors s') acc (pr_domain req) limit rows = Inr p"
    and "pull ok c r'' acc (pr_domain req) (ls_token p) limit' now' s' = Inr p'"
  shows "ls_items p' = [] \<and> ls_token p = ps_token resp \<and> \<not> ls_more p \<and>
     pull_items c rows = Inr (ls_items p)"
proof -
  let ?d = "pr_domain req"
  obtain items where items: "push_check unm ul (cursors s) acc req now = Inr items"
    and step: "push_locked fail c nonces r acc ?d items now s = (Inr resp, s')"
    using assms(4) by (auto simp: push_def split: sum.splits)
  let ?its = "filter (wins (entries s) acc ?d) items"
  obtain base tok cur' where
    next_eq: "token_next (cursors s) acc ?d (length ?its) now r = ((base, tok), cur')"
    and tok: "ps_token resp = tok" and cur': "cursors s' = cur'"
    by (rule push_locked_ok [OF step]) (metis push_response.select_convs(2))
  have room: "room (cursors s) acc ?d (length ?its) now"
    by (rule room_mono [OF assms(3)]) (simp flip: push_check_length [OF items])
  have current: "token_current (cursors s') acc ?d = tok"
    using next_eq by (auto simp: token_current_def cur' token_next_def Let_def)
  obtain its where its: "pull_items c rows = Inr its"
    using assms(7) by (auto simp: pull_finish_def split: sum.splits)
  have p: "p = \<lparr>ls_items = its, ls_token = tok, ls_more = False\<rparr>"
    using assms(6,7) its pull_items_length [OF its] by (simp add: pull_finish_def current)
  have inv': "sync_inv s'" by (rule push_inv [OF assms(1-4)])
  have "tok \<noteq> []" using next_eq by (auto simp: token_next_def Let_def)
  then obtain "from'" where "pull_since tok now' = Inr from'" and from': "from' = token_level cur' acc ?d"
    and fin: "pull_finish c r'' (cursors s') acc ?d limit' (select_entries acc ?d from' (limit' + 1) (entries s')) = Inr p'"
    using assms(8) tokens.alloc_token [OF room next_eq]
    by (auto simp: p pull_def pull_since_def split: if_splits)
  have "\<not> (in_domain acc ?d e \<and> se_seq e > from')" if "e \<in> set (entries s')" for e
    using sync_invD(6) [OF inv' that] by (auto simp: in_domain_def from' cur')
  then have "select_entries acc ?d from' (limit' + 1) (entries s') = []"
    by (simp add: select_entries_def filter_empty_conv)
  with fin have "ls_items p' = []" by (auto simp: pull_finish_def split: if_splits)
  then show ?thesis using its tok by (simp add: p)
qed

theorem pull_race_loses_push_witness:
  "\<exists>resp s' p p'. ex_push [ex_item ''k'' 5] 1000 ex_empty = (Inr resp, s') \<and> ps_accepted resp = 1 \<and>
     pull_finish None ex_rnd (cursors s') 1 ''mute'' 30 (select_entries 1 ''mute'' (- 1) 31 (entries ex_empty)) = Inr p \<and>
     ls_items p = [] \<and>
     pull True None ex_rnd 1 ''mute'' (ls_token p) 30 1000 s' = Inr p' \<and> ls_items p' = []"
proof -
  obtain resp s' where step: "ex_push [ex_item ''k'' 5] 1000 ex_empty = (Inr resp, s')"
    using ex_push_ok by (metis is_ok_iff prod.collapse)
  then have s': "s' = snd (ex_push [ex_item ''k'' 5] 1000 ex_empty)" by simp
  have one: "(case fst (ex_push [ex_item ''k'' 5] 1000 ex_empty) of Inl _ \<Rightarrow> 0 | Inr x \<Rightarrow> ps_accepted x) = 1"
    by code_simp
  have "is_ok (pull_finish None ex_rnd (cursors s') 1 ''mute'' 30 [])" unfolding s' by code_simp
  then obtain p where p: "pull_finish None ex_rnd (cursors s') 1 ''mute'' 30 [] = Inr p" by (auto simp: is_ok_iff)
  have "is_ok (pull True None ex_rnd 1 ''mute''
      (case pull_finish None ex_rnd (cursors s') 1 ''mute'' 30 [] of Inl _ \<Rightarrow> [] | Inr x \<Rightarrow> ls_token x) 30 1000 s')"
    unfolding s' by code_simp
  then obtain p' where p': "pull True None ex_rnd 1 ''mute'' (ls_token p) 30 1000 s' = Inr p'"
    by (auto simp: is_ok_iff p)
  have none: "select_entries 1 ''mute'' (- 1) 31 (entries ex_empty) = []"
    by (simp add: select_entries_def ex_empty_def)
  have dmn: "pr_domain (ex_request its) = ''mute''" "pr_items (ex_request its) = its" for its
    by (simp_all add: ex_request_def)
  have "ls_items p' = [] \<and> pull_items None [] = Inr (ls_items p)"
    using pull_race_loses_push [OF ex_empty_inv ex_int64(1) _ step [unfolded ex_push_def],
        where rows = "[]" and since_seq = "- 1" and limit = 30 and r' = ex_rnd and p = p
          and r'' = ex_rnd and limit' = 30 and now' = 1000 and p' = p' and ok = True]
      p p' ex_room none by (simp add: dmn)
  moreover have "ps_accepted resp = 1" using one step by simp
  ultimately show ?thesis using step p p' none by auto
qed

text \<open>
  Functional, a defect. Of two items with the same key in one batch both are accepted, because
  both are compared with the table as it was before the batch, and the one later in the batch is
  stored, although it is the older of the two.
\<close>

theorem push_duplicate_key_keeps_older:
  "\<exists>resp s'. ex_push [ex_item ''k'' 100, ex_item ''k'' 50] 1000 ex_empty = (Inr resp, s') \<and>
     ps_accepted resp = 2 \<and> map se_updated (entries s') = [50]"
proof -
  let ?p = "ex_push [ex_item ''k'' 100, ex_item ''k'' 50] 1000 ex_empty"
  have "(case fst ?p of Inl _ \<Rightarrow> False | Inr x \<Rightarrow> ps_accepted x = 2)" by code_simp
  moreover have "map se_updated (entries (snd ?p)) = [50]" by code_simp
  ultimately show ?thesis by (cases ?p) (auto split: sum.splits)
qed

text \<open>
  Bounds, a defect. The age of a token is a 64-bit difference and wraps: the smallest 64-bit
  integer, the oldest number a token can carry, passes the 90-day check at every clock value, and
  the pull goes on from it.
\<close>

theorem oldest_token_passes_age_check:
  assumes "0 \<le> now" and "is_int64 now"
  shows "pull_since ''st_-9223372036854775808_abcdef'' now = Inr min64 \<and>
     \<not> wrap64 (now - min64) > retention_ms \<and> now - min64 > retention_ms"
proof -
  have parse: "parse_token ''st_-9223372036854775808_abcdef'' = Some min64"
    by (simp add: parse_token_def cut_prefix_def has_prefix_def parse_int64_def parse_nat_def
        digit_val_def is_int64_def min64_def max64_def)
  have "(now + 2 ^ 63 + 2 ^ 63) mod 2 ^ 64 = (now + 2 ^ 64) mod (2 ^ 64 :: int)" by simp
  also have "\<dots> = now" using assms by (simp add: is_int64_def max64_def)
  finally have "wrap64 (now - min64) = now - 2 ^ 63" by (simp add: wrap64_def min64_def)
  then have "\<not> wrap64 (now - min64) > retention_ms" and "now - min64 > retention_ms"
    using assms by (simp_all add: is_int64_def max64_def min64_def retention_ms_def)
  then show ?thesis by (simp add: pull_since_def parse)
qed

theorem oldest_token_passes_age_check_witness:
  "pull_since ''st_-9223372036854775808_abcdef'' 1000 = Inr min64"
  using oldest_token_passes_age_check [of 1000] ex_int64(2) by simp

end
