(* ===== verification/SyncStep.thy ===== *)
theory SyncStep
  imports SyncPull
begin

text \<open>
  Pushes and pulls of many clients at the same time. A push checks its request without a lock, then waits for
  \<^verbatim>\<open>pushMu\<close>, and moves the cursor before its transaction commits; a pull reads the rows and then the cursor, and takes
  no lock. The pushes come out as if they had run one after the other, in the order in which they got the lock; a pull
  sees the tables after some of them, and is exact unless a push of its domain got the lock after its rows were read.
\<close>

section \<open>Steps\<close>

text \<open>A push with the lock: what its critical section depends on.\<close>

record push_call =
  pc_fail :: "sql_step \<Rightarrow> bool"
  pc_nonces :: "nat \<Rightarrow> string"
  pc_rnd :: rnd3
  pc_acc :: int
  pc_dmn :: string
  pc_items :: "push_item list"
  pc_now :: int

definition run_push :: "cipher \<Rightarrow> push_call \<Rightarrow> sync_state \<Rightarrow> (go_error + push_response) \<times> sync_state" where
  "run_push c p s =
     push_locked (pc_fail p) c (pc_nonces p) (pc_rnd p) (pc_acc p) (pc_dmn p) (pc_items p) (pc_now p) s"

text \<open>One after the other.\<close>

definition run_pushes :: "cipher \<Rightarrow> push_call list \<Rightarrow> sync_state \<Rightarrow> sync_state" where
  "run_pushes c ps s = fold (\<lambda>p s. snd (run_push c p s)) ps s"

text \<open>
  A pull between its two reads. \<open>rd_done\<close> is not in the code: how many pushes had given the lock back when the rows were
  read.
\<close>

record reading =
  rd_acc :: int
  rd_dmn :: string
  rd_since :: string
  rd_now :: int
  rd_limit :: nat
  rd_rows :: "sync_entry list"
  rd_done :: nat

text \<open>
  \<open>sv_state\<close> has the committed tables and the cursors in memory. \<open>sv_waiting\<close> are pushes that have passed their
  checks; \<open>sv_open\<close> is the push that holds the lock, as its result and the state its transaction ends in. \<open>sv_done\<close> counts
  the pushes that have given the lock back (not in the code either: nothing but \<open>rd_done\<close> depends on it).
\<close>

record sync_system =
  sv_state :: sync_state
  sv_waiting :: "(int \<times> string \<times> push_item list \<times> int) list"
  sv_open :: "((go_error + push_response) \<times> sync_state) option"
  sv_reading :: "reading list"
  sv_done :: nat

inductive sync_step ::
  "unmarshal \<Rightarrow> (string \<Rightarrow> string) \<Rightarrow> cipher \<Rightarrow> sync_system \<Rightarrow> push_call option \<Rightarrow> sync_system \<Rightarrow> bool"
  for unm :: unmarshal and ul :: "string \<Rightarrow> string" and c :: cipher
where
  check: "push_check unm ul (cursors (sv_state y)) acc req now = Inr items \<Longrightarrow>
    sync_step unm ul c y None (y\<lparr>sv_waiting := (acc, pr_domain req, items, now) # sv_waiting y\<rparr>)"
| lock: "(pc_acc p, pc_dmn p, pc_items p, pc_now p) \<in> set (sv_waiting y) \<Longrightarrow> sv_open y = None \<Longrightarrow> is_int64 (pc_acc p) \<Longrightarrow>
    room (cursors (sv_state y)) (pc_acc p) (pc_dmn p) (length (pc_items p)) (pc_now p) \<Longrightarrow>
    run_push c p (sv_state y) = (res, s') \<Longrightarrow>
    sync_step unm ul c y (Some p)
      (y\<lparr>sv_waiting := remove1 (pc_acc p, pc_dmn p, pc_items p, pc_now p) (sv_waiting y), sv_open := Some (res, s'),
         sv_state := (sv_state y)\<lparr>cursors := cursors s'\<rparr>\<rparr>)"
| unlock: "sv_open y = Some (res, s') \<Longrightarrow> sync_step unm ul c y None (y\<lparr>sv_open := None, sv_state := s', sv_done := Suc (sv_done y)\<rparr>)"
| read: "valid_domain dmn \<Longrightarrow> pull_since since now = Inr from \<Longrightarrow> is_int64 acc \<Longrightarrow>
    sync_step unm ul c y None (y\<lparr>sv_reading :=
      \<lparr>rd_acc = acc, rd_dmn = dmn, rd_since = since, rd_now = now, rd_limit = limit,
       rd_rows = select_entries acc dmn from (limit + 1) (entries (sv_state y)), rd_done = sv_done y\<rparr> # sv_reading y\<rparr>)"
| answer: "rd \<in> set (sv_reading y) \<Longrightarrow> sync_step unm ul c y None (y\<lparr>sv_reading := remove1 rd (sv_reading y)\<rparr>)"

text \<open>What the pull answers when it reads the cursor now.\<close>

definition reading_answer :: "cipher \<Rightarrow> rnd3 \<Rightarrow> reading \<Rightarrow> sync_state \<Rightarrow> go_error + pull_response" where
  "reading_answer c r rd s = pull_finish c r (cursors s) (rd_acc rd) (rd_dmn rd) (rd_limit rd) (rd_rows rd)"

text \<open>The runs, with the pushes in the order in which they got the lock.\<close>

inductive sync_run ::
  "unmarshal \<Rightarrow> (string \<Rightarrow> string) \<Rightarrow> cipher \<Rightarrow> sync_state \<Rightarrow> push_call list \<Rightarrow> sync_system \<Rightarrow> bool"
  for unm :: unmarshal and ul :: "string \<Rightarrow> string" and c :: cipher and s0 :: sync_state
where
  sync_start: "sync_run unm ul c s0 [] \<lparr>sv_state = s0, sv_waiting = [], sv_open = None, sv_reading = [], sv_done = 0\<rparr>"
| sync_next: "sync_run unm ul c s0 ps y \<Longrightarrow> sync_step unm ul c y l y' \<Longrightarrow>
    sync_run unm ul c s0 (case l of None \<Rightarrow> ps | Some p \<Rightarrow> ps @ [p]) y'"

section \<open>Pushes\<close>

lemma run_pushes_simps [simp]:
  "run_pushes c [] s = s" "run_pushes c (ps @ [p]) s = snd (run_push c p (run_pushes c ps s))"
  by (simp_all add: run_pushes_def)

text \<open>The committed state and the cursors, seen from the pushes that have had the lock.\<close>

definition serial :: "cipher \<Rightarrow> sync_state \<Rightarrow> push_call list \<Rightarrow> sync_system \<Rightarrow> bool" where
  "serial c s0 ps y \<longleftrightarrow>
     sync_inv (sv_state y) \<and> sync_inv (run_pushes c ps s0) \<and> (\<forall>p \<in> set ps. is_int64 (pc_acc p)) \<and>
     cursors (sv_state y) = cursors (run_pushes c ps s0) \<and>
     (case sv_open y of
        None \<Rightarrow> sv_state y = run_pushes c ps s0 \<and> sv_done y = length ps
      | Some (res, s') \<Rightarrow>
          sv_done y = length ps - 1 \<and> (\<exists>ps' p. ps = ps' @ [p] \<and> run_push c p (run_pushes c ps' s0) = (res, s') \<and>
            entries (sv_state y) = entries (run_pushes c ps' s0) \<and> domains (sv_state y) = domains (run_pushes c ps' s0)))"

text \<open>The cursor moves forward only, so that moving it ahead of the tables keeps them consistent.\<close>

lemma cursors_ahead:
  assumes "sync_inv s" and "\<And>a d. is_int64 a \<Longrightarrow> token_level (cursors s) a d \<le> token_level cur a d"
  shows "sync_inv (s\<lparr>cursors := cur\<rparr>)"
  using assms unfolding sync_inv_def by (fastforce intro: order_trans)

lemma push_locked_cursor_ge:
  assumes "push_locked fail c nonces r acc dmn items now s = (res, s')" and "is_int64 acc" and "is_int64 a"
    and "room (cursors s) acc dmn (length items) now"
  shows "token_level (cursors s) a d \<le> token_level (cursors s') a d"
proof -
  have ge: "token_level (cursors s) a d \<le> token_level cur' a d"
    if "token_next (cursors s) acc dmn n now r = ((base, tok), cur')" and "n \<le> length items" for n base tok cur'
    by (rule tokens.alloc_level_ge [OF room_mono [OF assms(4) that(2)] that(1) assms(2,3)])
  show ?thesis
  proof (cases res)
    case (Inl e)
    from push_locked_error [OF assms(1) [unfolded Inl]] ge show ?thesis by auto
  next
    case (Inr resp)
    show ?thesis
      by (rule push_locked_ok [OF assms(1) [unfolded Inr]]) (use ge in \<open>metis length_filter_le\<close>)
  qed
qed

lemma run_push_facts:
  assumes "run_push c p s = (res, s')" and "sync_inv s" and "is_int64 (pc_acc p)"
    and "room (cursors s) (pc_acc p) (pc_dmn p) (length (pc_items p)) (pc_now p)"
  shows "sync_inv s'" and "sync_inv (s\<lparr>cursors := cursors s'\<rparr>)"
proof -
  note run = assms(1) [unfolded run_push_def]
  show "sync_inv s'" by (rule push_locked_inv [OF assms(2-4) run])
  show "sync_inv (s\<lparr>cursors := cursors s'\<rparr>)"
    by (rule cursors_ahead [OF assms(2)]) (rule push_locked_cursor_ge [OF run assms(3) _ assms(4)])
qed

lemma sync_step_serial:
  assumes "sync_step unm ul c y l y'" and "serial c s0 ps y"
  shows "serial c s0 (case l of None \<Rightarrow> ps | Some p \<Rightarrow> ps @ [p]) y'"
  using assms
proof cases
  case (lock p res s')
  with assms(2) have now: "sv_state y = run_pushes c ps s0" "sync_inv (sv_state y)" by (simp_all add: serial_def)
  have "sync_inv s'" "sync_inv ((sv_state y)\<lparr>cursors := cursors s'\<rparr>)"
    by (rule run_push_facts [OF lock(7) now(2) lock(5,6)])+
  with lock now assms(2) show ?thesis by (simp add: serial_def)
next
  case (unlock res s')
  with assms(2) show ?thesis by (auto simp: serial_def)
qed (auto simp: serial_def split: option.splits)

lemma sync_run_serial:
  assumes "sync_run unm ul c s0 ps y" and "sync_inv s0"
  shows "serial c s0 ps y"
  using assms(1)
proof induction
  case sync_start
  show ?case using assms(2) by (simp add: serial_def)
next
  case (sync_next ps y l y')
  from sync_step_serial [OF sync_next(2,3)] show ?case .
qed

section \<open>Pulls\<close>

text \<open>An open pull has read the tables as they were after the pushes that had given the lock back.\<close>

definition read_after :: "cipher \<Rightarrow> sync_state \<Rightarrow> push_call list \<Rightarrow> reading \<Rightarrow> bool" where
  "read_after c s0 ps rd \<longleftrightarrow>
     rd_done rd \<le> length ps \<and> valid_domain (rd_dmn rd) \<and> is_int64 (rd_acc rd) \<and>
     (\<exists>from. pull_since (rd_since rd) (rd_now rd) = Inr from \<and>
        rd_rows rd = select_entries (rd_acc rd) (rd_dmn rd) from (rd_limit rd + 1) (entries (run_pushes c (take (rd_done rd) ps) s0)))"

lemma read_after_more: "read_after c s0 ps rd \<Longrightarrow> read_after c s0 (ps @ qs) rd"
  by (auto simp: read_after_def)

lemma committed:
  assumes "serial c s0 ps y"
  shows "sv_done y \<le> length ps" and "entries (sv_state y) = entries (run_pushes c (take (sv_done y) ps) s0)"
proof -
  have "sv_done y \<le> length ps \<and> entries (sv_state y) = entries (run_pushes c (take (sv_done y) ps) s0)"
  proof (cases "sv_open y")
    case (Some x)
    with assms obtain ps' p where "ps = ps' @ [p]" "entries (sv_state y) = entries (run_pushes c ps' s0)" "sv_done y = length ps'"
      by (auto simp: serial_def split: prod.splits)
    then show ?thesis by simp
  qed (use assms in \<open>simp add: serial_def\<close>)
  then show "sv_done y \<le> length ps" and "entries (sv_state y) = entries (run_pushes c (take (sv_done y) ps) s0)" by simp_all
qed

lemma sync_step_reads:
  assumes "sync_step unm ul c y l y'" and "serial c s0 ps y" and "rd \<in> set (sv_reading y')"
    and "\<And>rd. rd \<in> set (sv_reading y) \<Longrightarrow> read_after c s0 ps rd"
  shows "read_after c s0 (case l of None \<Rightarrow> ps | Some p \<Rightarrow> ps @ [p]) rd"
  using assms(1)
proof cases
  case (lock p res s')
  with assms(3,4) show ?thesis by (auto dest: read_after_more)
next
  case (read dmn since now "from" acc limit)
  with assms(3,4) committed [OF assms(2)] show ?thesis by (auto simp: read_after_def)
next
  case (answer rd')
  with assms(3,4) show ?thesis by (auto dest: notin_set_remove1)
qed (use assms(3,4) in auto)

lemma sync_run_reads:
  assumes "sync_run unm ul c s0 ps y" and "sync_inv s0" and "rd \<in> set (sv_reading y)"
  shows "read_after c s0 ps rd"
  using assms(1,3)
proof (induction arbitrary: rd)
  case (sync_next ps y l y')
  show ?case
    by (rule sync_step_reads [OF sync_next(2) sync_run_serial [OF sync_next(1) assms(2)] sync_next(4)])
      (rule sync_next.IH)
qed simp

text \<open>Pushes of other domains do not show in a pull.\<close>

lemma run_pushes_other:
  assumes "\<forall>p \<in> set ps. is_int64 (pc_acc p) \<and> (pc_acc p, pc_dmn p) \<noteq> (a, d)" and "is_int64 a"
  shows "filter (in_domain a d) (entries (run_pushes c ps s)) = filter (in_domain a d) (entries s) \<and>
     cursors (run_pushes c ps s) (token_key a d) = cursors s (token_key a d)"
  using assms(1)
proof (induction ps rule: rev_induct)
  case (snoc p ps)
  obtain res s' where run: "run_push c p (run_pushes c ps s) = (res, s')" by fastforce
  note step = run [unfolded run_push_def]
  from snoc.prems have "(a, d) \<noteq> (pc_acc p, pc_dmn p)" "is_int64 (pc_acc p)" by auto
  from push_locked_other [OF step this(1)] push_locked_cursor_other [OF step this(1) assms(2) this(2)] snoc run
  show ?case by auto
qed simp

lemma run_pushes_append: "run_pushes c (ps @ qs) s = run_pushes c qs (run_pushes c ps s)"
  by (simp add: run_pushes_def)

lemma undisturbed_pull:
  assumes "read_after c s0 ps rd" and "serial c s0 ps y"
    and "\<forall>p \<in> set (drop (rd_done rd) ps). (pc_acc p, pc_dmn p) \<noteq> (rd_acc rd, rd_dmn rd)"
  shows "reading_answer c r rd (sv_state y) =
     pull True c r (rd_acc rd) (rd_dmn rd) (rd_since rd) (rd_limit rd) (rd_now rd) (run_pushes c ps s0)"
proof -
  let ?mid = "run_pushes c (take (rd_done rd) ps) s0"
  have all: "run_pushes c ps s0 = run_pushes c (drop (rd_done rd) ps) ?mid" by (simp flip: run_pushes_append)
  have "\<forall>p \<in> set (drop (rd_done rd) ps). is_int64 (pc_acc p) \<and> (pc_acc p, pc_dmn p) \<noteq> (rd_acc rd, rd_dmn rd)"
    using assms(2,3) by (auto simp: serial_def dest: in_set_dropD)
  with assms(1) have same: "filter (in_domain (rd_acc rd) (rd_dmn rd)) (entries (run_pushes c ps s0)) =
        filter (in_domain (rd_acc rd) (rd_dmn rd)) (entries ?mid)"
      "cursors (run_pushes c ps s0) (token_key (rd_acc rd) (rd_dmn rd)) = cursors ?mid (token_key (rd_acc rd) (rd_dmn rd))"
    unfolding all using run_pushes_other by (auto simp: read_after_def)
  have "cursors (sv_state y) = cursors (run_pushes c ps s0)" using assms(2) by (simp add: serial_def)
  with assms(1) same(2) show ?thesis
    unfolding pull_cong [OF same]
    by (auto simp: reading_answer_def pull_def pull_finish_def read_after_def token_current_def split: sum.split)
qed

section \<open>Checked requests\<close>

text \<open>A push that waits or has had the lock has passed its checks, against the cursors of some earlier moment.\<close>

definition checked :: "unmarshal \<Rightarrow> (string \<Rightarrow> string) \<Rightarrow> int \<times> string \<times> push_item list \<times> int \<Rightarrow> bool" where
  "checked unm ul w \<longleftrightarrow>
     (case w of (acc, dmn, items, now) \<Rightarrow>
        \<exists>req cur. dmn = pr_domain req \<and> push_check unm ul cur acc req now = Inr items)"

definition waits_for :: "push_call \<Rightarrow> int \<times> string \<times> push_item list \<times> int" where
  "waits_for p = (pc_acc p, pc_dmn p, pc_items p, pc_now p)"

lemma sync_run_checked:
  assumes "sync_run unm ul c s0 ps y"
  shows "(\<forall>w \<in> set (sv_waiting y). checked unm ul w) \<and> (\<forall>p \<in> set ps. checked unm ul (waits_for p))"
  using assms
proof induction
  case (sync_next ps y l y')
  from sync_next(2) show ?case
  proof cases
    case (check acc req now items)
    with sync_next.IH show ?thesis by (auto simp: checked_def)
  next
    case (lock p res s')
    with sync_next.IH show ?thesis by (auto simp: waits_for_def dest: notin_set_remove1)
  qed (use sync_next.IH in auto)
qed simp

end
