(* ===== verification/SyncStepProps.thy ===== *)
theory SyncStepProps
  imports SyncStep SyncProps
begin

text \<open>What holds of pushes and pulls that run at the same time.\<close>

section \<open>A small run\<close>

text \<open>Account 1 pushes and holds the lock; account 2 has read its rows.\<close>

definition ex_pushing :: push_call where
  "ex_pushing = \<lparr>pc_fail = (\<lambda>_. False), pc_nonces = (\<lambda>_. []), pc_rnd = ex_rnd, pc_acc = 1, pc_dmn = ''mute'',
     pc_items = [ex_item ''k'' 5], pc_now = 1000\<rparr>"

definition ex_reading :: reading where
  "ex_reading = \<lparr>rd_acc = 2, rd_dmn = ''mute'', rd_since = [], rd_now = 1000, rd_limit = 30, rd_rows = [], rd_done = 0\<rparr>"

definition ex_locked :: sync_system where
  "ex_locked =
     (let (res, s') = run_push None ex_pushing ex_empty
      in \<lparr>sv_state = ex_empty\<lparr>cursors := cursors s'\<rparr>, sv_waiting = [], sv_open = Some (res, s'), sv_reading = [ex_reading], sv_done = 0\<rparr>)"

lemma ex_locked_run: "sync_run ex_unmarshal id None ex_empty [ex_pushing] ex_locked"
proof -
  let ?y0 = "\<lparr>sv_state = ex_empty, sv_waiting = [], sv_open = None, sv_reading = [], sv_done = 0\<rparr>"
  let ?y1 = "?y0\<lparr>sv_waiting := [(1, ''mute'', [ex_item ''k'' 5], 1000)]\<rparr>"
  obtain res s' where run: "run_push None ex_pushing ex_empty = (res, s')" by fastforce
  let ?y2 = "\<lparr>sv_state = ex_empty\<lparr>cursors := cursors s'\<rparr>, sv_waiting = [], sv_open = Some (res, s'), sv_reading = [], sv_done = 0\<rparr>"
  have "sync_step ex_unmarshal id None ?y0 None ?y1"
    using sync_step.check [of ex_unmarshal id ?y0 1 "ex_request [ex_item ''k'' 5]" 1000 _ None] ex_check
    by (simp add: ex_request_def)
  from sync_next [OF sync_start this] have r1: "sync_run ex_unmarshal id None ex_empty [] ?y1" by simp
  have "sync_step ex_unmarshal id None ?y1 (Some ex_pushing) ?y2"
    using sync_step.lock [of ex_pushing ?y1 None res s' ex_unmarshal id] run ex_room ex_int64(1)
    by (simp add: ex_pushing_def)
  from sync_next [OF r1 this] have r2: "sync_run ex_unmarshal id None ex_empty [ex_pushing] ?y2" by simp
  have "valid_domain ''mute''" "is_int64 2" by code_simp+
  moreover have "select_entries 2 ''mute'' (- 1) 31 (entries ex_empty) = []" by code_simp
  ultimately have "sync_step ex_unmarshal id None ?y2 None (?y2\<lparr>sv_reading := [ex_reading]\<rparr>)"
    using sync_step.read [of "''mute''" "[]" 1000 "- 1" 2 ex_unmarshal id None ?y2 30]
    by (simp add: ex_reading_def pull_since_def)
  from sync_next [OF r2 this] show ?thesis using run by (simp add: ex_locked_def)
qed

section \<open>Properties\<close>

text \<open>
  C38: Refinement. Whatever pushes and pulls run at the same time, the pushes come out as if they had run one after the
  other, in the order in which they got the lock, each with its checks passed before: while no push is at work the
  state is the one of the sequence, and while one is, the tables are still those before it. All numbers stay consistent.
\<close>

theorem pushes_serialize:
  assumes "sync_run unm ul c s0 ps y" and "sync_inv s0"
  shows "sync_inv (sv_state y) \<and>
     (\<forall>p \<in> set ps. \<exists>req cur. pc_dmn p = pr_domain req \<and> push_check unm ul cur (pc_acc p) req (pc_now p) = Inr (pc_items p)) \<and>
     (case sv_open y of
        None \<Rightarrow> sv_state y = run_pushes c ps s0
      | Some (res, s') \<Rightarrow>
          ps \<noteq> [] \<and> run_push c (last ps) (run_pushes c (butlast ps) s0) = (res, s') \<and>
          entries (sv_state y) = entries (run_pushes c (butlast ps) s0) \<and>
          domains (sv_state y) = domains (run_pushes c (butlast ps) s0))"
proof -
  have ser: "serial c s0 ps y" by (rule sync_run_serial [OF assms])
  have "\<forall>p \<in> set ps. checked unm ul (waits_for p)" using sync_run_checked [OF assms(1)] by blast
  with ser show ?thesis by (auto simp: serial_def checked_def waits_for_def split: option.splits)
qed

theorem pushes_serialize_witness:
  "\<exists>res s'. sv_open ex_locked = Some (res, s') \<and> run_push None ex_pushing ex_empty = (res, s') \<and> entries (sv_state ex_locked) = []"
  using pushes_serialize [OF ex_locked_run ex_empty_inv]
  by (auto simp: ex_locked_def ex_empty_def split: prod.splits)

text \<open>
  C40: Safety. A pull that runs beside pushes has the rows as they are after those pushes that had given the lock back when
  it read them. Its answer is what a pull alone would return after all pushes that have had the lock by then, unless one of
  its own account and domain held the lock while the rows were read, or got it later; pushes of other domains and
  accounts do not matter.
\<close>

theorem concurrent_pull_exact:
  assumes "sync_run unm ul c s0 ps y" and "sync_inv s0" and "rd \<in> set (sv_reading y)"
  shows "rd_done rd \<le> length ps \<and>
     (\<exists>from. pull_since (rd_since rd) (rd_now rd) = Inr from \<and>
        rd_rows rd = select_entries (rd_acc rd) (rd_dmn rd) from (rd_limit rd + 1)
          (entries (run_pushes c (take (rd_done rd) ps) s0))) \<and>
     ((\<forall>p \<in> set (drop (rd_done rd) ps). (pc_acc p, pc_dmn p) \<noteq> (rd_acc rd, rd_dmn rd)) \<longrightarrow>
        reading_answer c r rd (sv_state y) =
          pull True c r (rd_acc rd) (rd_dmn rd) (rd_since rd) (rd_limit rd) (rd_now rd) (run_pushes c ps s0))"
proof -
  have k: "read_after c s0 ps rd" by (rule sync_run_reads [OF assms])
  from k undisturbed_pull [OF k sync_run_serial [OF assms(1,2)]] show ?thesis
    unfolding read_after_def by blast
qed

theorem concurrent_pull_exact_witness:
  "rd_rows ex_reading = [] \<and> reading_answer None ex_rnd ex_reading (sv_state ex_locked) =
     pull True None ex_rnd 2 ''mute'' [] 30 1000 (run_pushes None [ex_pushing] ex_empty)"
proof -
  have "ex_reading \<in> set (sv_reading ex_locked)" by (simp add: ex_locked_def split: prod.split)
  from concurrent_pull_exact [OF ex_locked_run ex_empty_inv this, of ex_rnd]
  show ?thesis by (simp add: ex_pushing_def ex_reading_def)
qed

end
