(* ===== verification/Float64.thy ===== *)
theory Float64
  imports Complex_Main Prelude
begin

text \<open>
  Go's \<^verbatim>\<open>float64\<close>, as far as the server computes with it: a finite value is the rational number it
  denotes, and an operation is the exact one followed by rounding to 53 significant bits, ties to
  even. The exponent is not bounded: the server's products lie between 0 and \<^verbatim>\<open>2^63\<close>, and a product
  too small for the format is 0 after the conversion to \<^verbatim>\<open>int64\<close> in either reading.
\<close>

function bit_len :: "int \<Rightarrow> nat" where
  "bit_len n = (if n \<le> 0 then 0 else Suc (bit_len (n div 2)))"
  by pat_completeness auto

termination bit_len
  by (relation "measure nat") auto

declare bit_len.simps [simp del]

text \<open>The exponent of the leading bit of a positive rational.\<close>

definition log2_floor :: "rat \<Rightarrow> int" where
  "log2_floor x =
     (let (p, q) = quotient_of x; e = int (bit_len p) - int (bit_len q)
      in if 2 powi e \<le> x then e else e - 1)"

definition round_even :: "rat \<Rightarrow> int" where
  "round_even y =
     (let f = \<lfloor>y\<rfloor>; d = y - of_int f
      in if d < 1 / 2 then f else if 1 / 2 < d then f + 1 else if even f then f else f + 1)"

definition round53 :: "rat \<Rightarrow> rat" where
  "round53 x =
     (if x = 0 then 0
      else let e = log2_floor \<bar>x\<bar> - 52 in of_int (round_even (x / 2 powi e)) * 2 powi e)"

lemma bit_len_bounds: "n > 0 \<Longrightarrow> \<exists>k. bit_len n = Suc k \<and> 2 ^ k \<le> n \<and> n < 2 ^ Suc k"
proof (induction n rule: bit_len.induct)
  case (1 n)
  show ?case
  proof (cases "n div 2 > 0")
    case False
    with 1 have "n = 1" by linarith
    then show ?thesis by (simp add: bit_len.simps)
  next
    case True
    with 1 obtain k where k: "bit_len (n div 2) = Suc k" "2 ^ k \<le> n div 2" "n div 2 < 2 ^ Suc k" by auto
    moreover have "bit_len n = Suc (bit_len (n div 2))" using 1 by (subst bit_len.simps) simp
    moreover have "2 * (n div 2) \<le> n" and "n \<le> 2 * (n div 2) + 1" by presburger+
    ultimately show ?thesis by (intro exI [of _ "Suc k"]) auto
  qed
qed

lemma powi_nat: "(2 :: rat) powi (int a - int b) = 2 ^ a / 2 ^ b"
  by (simp add: power_int_diff)

lemma log2_floor_bounds:
  assumes "x > 0"
  shows "2 powi log2_floor x \<le> x \<and> x < 2 powi (log2_floor x + 1)"
proof -
  obtain p q where pq: "quotient_of x = (p, q)" by fastforce
  have q: "q > 0" by (rule quotient_of_denom_pos [OF pq])
  have x: "x = of_int p / of_int q" by (rule quotient_of_div [OF pq])
  with assms q have p: "p > 0" by (simp add: zero_less_divide_iff)
  obtain a' where a: "bit_len p = Suc a'" and "2 ^ a' \<le> p" "p < 2 ^ Suc a'"
    using bit_len_bounds [OF p] by auto
  then have P1: "(2 :: rat) ^ a' \<le> of_int p" and P2: "of_int p < (2 :: rat) ^ Suc a'"
    by (metis of_int_le_iff of_int_numeral of_int_power, metis of_int_less_iff of_int_numeral of_int_power)
  obtain b' where b: "bit_len q = Suc b'" and "2 ^ b' \<le> q" "q < 2 ^ Suc b'"
    using bit_len_bounds [OF q] by auto
  then have Q1: "(2 :: rat) ^ b' \<le> of_int q" and Q2: "of_int q < (2 :: rat) ^ Suc b'"
    by (metis of_int_le_iff of_int_numeral of_int_power, metis of_int_less_iff of_int_numeral of_int_power)
  define a b where "a = Suc a'" and "b = Suc b'"
  have q': "(0 :: rat) < of_int q" using q by simp
  have low: "2 powi (int a - int b - 1) \<le> x"
  proof -
    have "(2 :: rat) powi (int a - int b - 1) = 2 ^ a' / 2 ^ b"
      using powi_nat [of a' b] by (simp add: a_def b_def algebra_simps)
    also have "\<dots> \<le> of_int p / of_int q"
      using P1 Q2 q' p by (intro frac_le) (auto simp: b_def)
    finally show ?thesis by (simp add: x)
  qed
  have high: "x < 2 powi (int a - int b + 1)"
  proof -
    have "of_int p / of_int q < (2 :: rat) ^ a / 2 ^ b'"
      using P2 Q1 p by (intro frac_less) (auto simp: a_def)
    also have "\<dots> = 2 powi (int a - int b + 1)"
      using powi_nat [of a b'] by (simp add: a_def b_def algebra_simps)
    finally show ?thesis by (simp add: x)
  qed
  show ?thesis
    using low high by (auto simp: log2_floor_def pq \<open>bit_len p = Suc a'\<close> \<open>bit_len q = Suc b'\<close> a_def b_def Let_def)
qed

lemma round_even_le: "y \<le> of_int n \<Longrightarrow> round_even y \<le> n"
proof -
  assume y: "y \<le> of_int n"
  then have fl: "\<lfloor>y\<rfloor> \<le> n" by linarith
  show ?thesis
  proof (cases "\<lfloor>y\<rfloor> = n")
    case True
    with y have "y = of_int n" by linarith
    then show ?thesis by (simp add: round_even_def)
  next
    case False
    with fl show ?thesis by (auto simp: round_even_def Let_def)
  qed
qed

lemma round_even_nonneg: "0 \<le> y \<Longrightarrow> 0 \<le> round_even y"
  by (simp add: round_even_def Let_def)

lemma round53_zero: "round53 0 = 0"
  by (simp add: round53_def)

lemma round53_nonneg: "0 \<le> x \<Longrightarrow> 0 \<le> round53 x"
  by (auto simp: round53_def Let_def intro!: mult_nonneg_nonneg round_even_nonneg)

text \<open>Rounding does not pass an integer of at most 53 bits, and leaves such an integer alone.\<close>

lemma round53_le_int:
  assumes "0 < x" and "x \<le> of_int n" and "n \<le> 2 ^ 53"
  shows "round53 x \<le> of_int n"
proof (cases "x < 2 ^ 53")
  case True
  define e where "e = log2_floor x - 52"
  have b: "2 powi log2_floor x \<le> x" using log2_floor_bounds [OF assms(1)] by simp
  have "log2_floor x < 53"
  proof (rule ccontr)
    assume "\<not> ?thesis"
    then have "(2 :: rat) powi 53 \<le> 2 powi log2_floor x" by (intro power_int_increasing) auto
    with b True show False by simp
  qed
  then have e: "e \<le> 0" by (simp add: e_def)
  then have scale: "(1 :: rat) / 2 powi e = of_int (2 ^ nat (- e))"
    by (simp add: power_int_def field_simps)
  have pos: "(0 :: rat) < 2 powi e" by simp
  have "x / 2 powi e \<le> of_int n * (1 / 2 powi e)" using assms(2) pos by (simp add: field_simps)
  then have "x / 2 powi e \<le> of_int (n * 2 ^ nat (- e))" unfolding scale by simp
  then have "round_even (x / 2 powi e) \<le> n * 2 ^ nat (- e)" by (rule round_even_le)
  then have "of_int (round_even (x / 2 powi e)) \<le> of_int n * (1 / (2 :: rat) powi e)"
    unfolding scale by (metis of_int_le_iff of_int_mult)
  then have "of_int (round_even (x / 2 powi e)) * (2 :: rat) powi e \<le> of_int n"
    using pos by (simp add: field_simps)
  then show ?thesis using assms(1) by (simp add: round53_def e_def Let_def)
next
  case False
  then have "(2 :: rat) ^ 53 \<le> x" by simp
  with assms(2) have "(of_int (2 ^ 53) :: rat) \<le> of_int n" by simp
  then have n: "n = 2 ^ 53" using assms(3) by (simp only: of_int_le_iff)
  with assms(2) False have x: "x = 2 ^ 53" by simp
  have b: "2 powi log2_floor x \<le> x" "x < 2 powi (log2_floor x + 1)"
    using log2_floor_bounds [OF assms(1)] by auto
  have "log2_floor x = 53"
  proof (rule antisym)
    show "log2_floor x \<le> 53"
    proof (rule ccontr)
      assume "\<not> ?thesis"
      then have "(2 :: rat) powi 54 \<le> 2 powi log2_floor x" by (intro power_int_increasing) auto
      with b x show False by simp
    qed
    show "53 \<le> log2_floor x"
    proof (rule ccontr)
      assume "\<not> ?thesis"
      then have "(2 :: rat) powi (log2_floor x + 1) \<le> 2 powi 53" by (intro power_int_increasing) auto
      with b x show False by simp
    qed
  qed
  then show ?thesis by (simp add: round53_def x n round_even_def)
qed

section \<open>The values and the operations the server uses\<close>

datatype float64 = Fin rat | PosInf | NegInf | NaN

text \<open>The comparisons \<^verbatim>\<open>f <= 0\<close> and \<^verbatim>\<open>f > 1\<close>; both are false for a NaN.\<close>

fun fl_le_0 :: "float64 \<Rightarrow> bool" where
  "fl_le_0 (Fin r) = (r \<le> 0)"
| "fl_le_0 NegInf = True"
| "fl_le_0 _ = False"

fun fl_gt_1 :: "float64 \<Rightarrow> bool" where
  "fl_gt_1 (Fin r) = (1 < r)"
| "fl_gt_1 PosInf = True"
| "fl_gt_1 _ = False"

text \<open>
  \<^verbatim>\<open>int64(f * float64(n))\<close>: the conversion drops the fraction. A product out of range, or a NaN,
  converts to an implementation-specific value: the smallest \<^verbatim>\<open>int64\<close> on amd64.
\<close>

fun mul_int64 :: "float64 \<Rightarrow> int \<Rightarrow> int" where
  "mul_int64 (Fin r) n =
     (let x = round53 (r * round53 (of_int n)); v = (if 0 \<le> x then \<lfloor>x\<rfloor> else - \<lfloor>- x\<rfloor>)
      in if is_int64 v then v else min64)"
| "mul_int64 _ n = min64"

lemma small_int64: "0 \<le> v \<Longrightarrow> v \<le> 2 ^ 53 \<Longrightarrow> is_int64 v"
  by (simp add: is_int64_def min64_def max64_def)

lemma mul_int64_bounds:
  assumes "0 \<le> f" and "f \<le> 1" and "0 \<le> n" and "n \<le> 2 ^ 53"
  shows "0 \<le> mul_int64 (Fin f) n \<and> mul_int64 (Fin f) n \<le> n"
proof -
  have n: "0 \<le> round53 (of_int n)" "round53 (of_int n) \<le> of_int n"
    using assms round53_nonneg [of "of_int n"] round53_le_int [of "of_int n" n]
    by (auto simp: round53_zero order.order_iff_strict)
  let ?x = "f * round53 (of_int n)"
  have x: "0 \<le> ?x" using assms n by simp
  have "?x \<le> 1 * of_int n" using assms n by (intro mult_mono) auto
  then have le: "round53 ?x \<le> of_int n"
    using x round53_le_int [of ?x n] assms by (cases "?x = 0") (auto simp: round53_zero)
  have ge: "0 \<le> round53 ?x" by (rule round53_nonneg [OF x])
  from le ge have "0 \<le> \<lfloor>round53 ?x\<rfloor>" "\<lfloor>round53 ?x\<rfloor> \<le> n" by (simp_all add: floor_le_iff)
  moreover from this assms(4) have "is_int64 \<lfloor>round53 ?x\<rfloor>" by (intro small_int64) linarith+
  ultimately show ?thesis using ge by (simp add: Let_def)
qed

end
