(* ===== verification/Path.thy ===== *)
theory Path
  imports Prelude
begin

text \<open>
  \<^verbatim>\<open>path.Clean\<close> and \<^verbatim>\<open>filepath.Join\<close> on a Unix system: a path is split at its slashes, and its
  components are put on a stack, where \<^verbatim>\<open>..\<close> takes one off. The disk cache builds its file names
  with them and the web server cleans the requested path before it looks a file up.
\<close>

definition dot :: string where "dot = ''.''"

definition dotdot :: string where "dotdot = ''..''"

text \<open>The stack holds the last component first.\<close>

definition path_step :: "bool \<Rightarrow> string list \<Rightarrow> string \<Rightarrow> string list" where
  "path_step rooted st w =
     (if w = [] \<or> w = dot then st
      else if w = dotdot then
        (case st of
           [] \<Rightarrow> if rooted then [] else [dotdot]
         | v # st' \<Rightarrow> if v = dotdot then dotdot # st else st')
      else w # st)"

definition is_rooted :: "string \<Rightarrow> bool" where
  "is_rooted s \<longleftrightarrow> has_prefix s ''/''"

definition path_comps :: "string \<Rightarrow> string list" where
  "path_comps s = rev (foldl (path_step (is_rooted s)) [] (split_on CHR ''/'' s))"

definition path_str :: "bool \<Rightarrow> string list \<Rightarrow> string" where
  "path_str rooted cs =
     (if rooted then CHR ''/'' # join_with CHR ''/'' cs
      else if cs = [] then dot else join_with CHR ''/'' cs)"

definition path_clean :: "string \<Rightarrow> string" where
  "path_clean s = path_str (is_rooted s) (path_comps s)"

definition path_join :: "string list \<Rightarrow> string" where
  "path_join es =
     (case dropWhile (\<lambda>e. e = []) es of
        [] \<Rightarrow> []
      | es' \<Rightarrow> path_clean (join_with CHR ''/'' es'))"

text \<open>A plain component is an ordinary file name.\<close>

definition plain :: "string \<Rightarrow> bool" where
  "plain w \<longleftrightarrow> w \<noteq> [] \<and> w \<noteq> dot \<and> w \<noteq> dotdot \<and> CHR ''/'' \<notin> set w"

section \<open>Facts\<close>

lemma split_on_app: "split_on c (a @ c # b) = split_on c a @ split_on c b"
  by (induction a) (auto split: list.splits)

lemma split_on_snoc_join:
  "\<forall>w \<in> set ws. c \<notin> set w \<Longrightarrow> split_on c (join_with c (d # ws)) = split_on c d @ ws"
proof (induction ws arbitrary: d)
  case Nil
  then show ?case by simp
next
  case (Cons w ws)
  have "split_on c (join_with c (w # ws)) = w # ws"
    by (rule split_join) (use Cons.prems in auto)
  then show ?case by (simp add: split_on_app)
qed

lemma path_step_plain: "plain w \<Longrightarrow> path_step r st w = w # st"
  by (simp add: plain_def path_step_def)

lemma foldl_path_step_plain:
  "\<forall>w \<in> set ws. plain w \<Longrightarrow> foldl (path_step r) st ws = rev ws @ st"
  by (induction ws arbitrary: st) (simp_all add: path_step_plain)

lemma is_rooted_join: "d \<noteq> [] \<Longrightarrow> is_rooted (join_with CHR ''/'' (d # ws)) = is_rooted d"
  by (cases ws; cases d) (simp_all add: is_rooted_def has_prefix_def)

text \<open>Joining plain components to a directory appends them to the directory's components.\<close>

lemma path_join_plain:
  assumes "d \<noteq> []" and "\<forall>w \<in> set ws. plain w"
  shows "path_join (d # ws) = path_str (is_rooted d) (path_comps d @ ws)"
proof -
  have "path_comps (join_with CHR ''/'' (d # ws)) = path_comps d @ ws"
    using assms split_on_snoc_join [of ws "CHR ''/''" d]
    by (simp add: path_comps_def is_rooted_join foldl_path_step_plain plain_def del: join_with.simps)
  with assms show ?thesis
    by (simp add: path_join_def path_clean_def is_rooted_join del: join_with.simps)
qed

lemma join_with_Cons: "ws \<noteq> [] \<Longrightarrow> join_with c (w # ws) = w @ c # join_with c ws"
  by (cases ws) simp_all

lemma join_with_snoc:
  "ws \<noteq> [] \<Longrightarrow> join_with c (cs @ ws) = concat (map (\<lambda>w. w @ [c]) cs) @ join_with c ws"
  by (induction cs) (simp_all add: join_with_Cons)

lemma path_str_append:
  "ws \<noteq> [] \<Longrightarrow> path_str r (cs @ ws) =
     (if r then [CHR ''/''] else []) @ concat (map (\<lambda>w. w @ ''/'') cs) @ join_with CHR ''/'' ws"
  by (simp add: path_str_def join_with_snoc)

text \<open>
  The components of a cleaned path: no empty one, no \<^verbatim>\<open>.\<close>, no slash; a rooted one has no \<^verbatim>\<open>..\<close>
  either, and in a relative one \<^verbatim>\<open>..\<close> stands at the front only.
\<close>

lemma path_step_inv:
  assumes "\<forall>v \<in> set st. plain v \<or> v = dotdot \<and> \<not> r" and "CHR ''/'' \<notin> set w"
  shows "\<forall>v \<in> set (path_step r st w). plain v \<or> v = dotdot \<and> \<not> r"
proof -
  have new: "plain w" if "w \<noteq> []" "w \<noteq> dot" "w \<noteq> dotdot"
    using that assms(2) by (simp add: plain_def)
  show ?thesis
  proof (cases st)
    case Nil
    then show ?thesis using new by (simp add: path_step_def)
  next
    case (Cons v st')
    then show ?thesis using new assms(1) by (auto simp: path_step_def)
  qed
qed

lemma path_comps_inv: "v \<in> set (path_comps s) \<Longrightarrow> plain v \<or> v = dotdot \<and> \<not> is_rooted s"
proof -
  let ?P = "\<lambda>st. \<forall>v \<in> set st. plain v \<or> v = dotdot \<and> \<not> is_rooted s"
  have step: "?P st \<Longrightarrow> \<forall>w \<in> set ws. CHR ''/'' \<notin> set w \<Longrightarrow> ?P (foldl (path_step (is_rooted s)) st ws)" for st ws
  proof (induction ws arbitrary: st)
    case Nil
    then show ?case by simp
  next
    case (Cons w ws)
    have "?P (path_step (is_rooted s) st w)" by (rule path_step_inv) (use Cons.prems in auto)
    then show ?case using Cons.IH Cons.prems(2) by simp
  qed
  have "?P (foldl (path_step (is_rooted s)) [] (split_on CHR ''/'' s))"
    by (rule step) (auto dest: split_on_no_sep)
  then show "v \<in> set (path_comps s) \<Longrightarrow> plain v \<or> v = dotdot \<and> \<not> is_rooted s"
    by (auto simp: path_comps_def)
qed

lemma rooted_comps_plain: "is_rooted s \<Longrightarrow> v \<in> set (path_comps s) \<Longrightarrow> plain v"
  using path_comps_inv by blast

lemma path_clean_rooted: "is_rooted s \<Longrightarrow> path_clean s = CHR ''/'' # join_with CHR ''/'' (path_comps s)"
  by (simp add: path_clean_def path_str_def)

text \<open>Cleaning a rooted path twice is cleaning it once.\<close>

lemma path_comps_rooted_str:
  assumes "\<forall>v \<in> set cs. plain v"
  shows "path_comps (path_str True cs) = cs"
proof (cases "cs = []")
  case True
  then show ?thesis by (simp add: path_comps_def path_str_def path_step_def)
next
  case False
  have "split_on CHR ''/'' (path_str True cs) = [] # cs"
    using False assms split_join [of cs "CHR ''/''"] by (simp add: path_str_def plain_def)
  with assms show ?thesis
    by (simp add: path_comps_def path_step_def [of _ _ "[]"] foldl_path_step_plain)
qed

lemma path_clean_idem: "is_rooted s \<Longrightarrow> path_clean (path_clean s) = path_clean s"
proof -
  assume r: "is_rooted s"
  have "is_rooted (path_str True cs)" for cs by (simp add: path_str_def is_rooted_def has_prefix_def)
  with r path_comps_rooted_str [of "path_comps s"] rooted_comps_plain [OF r] show ?thesis
    by (simp add: path_clean_def)
qed

end
