(* ===== verification/Cache.thy ===== *)
theory Cache
  imports Common Path Float64
begin

text \<open>
  \<^verbatim>\<open>internal/cache\<close>: the disk cache for images. Its state is the table \<^verbatim>\<open>cache_meta\<close>, the files below
  the cache directory (a map from paths to contents), the total of the sizes, which the code keeps
  in an atomic integer, and the two limits that can change at run time. Each statement and file
  operation can fail: the argument \<open>fail\<close> says which do.
\<close>

section \<open>State (disklru.go)\<close>

text \<open>A row of \<^verbatim>\<open>cache_meta\<close>: its key and \<^verbatim>\<open>Meta\<close>.\<close>

record cache_meta =
  cm_key :: string
  cm_size :: int
  cm_atime :: int
  cm_created :: int
  cm_ctype :: string

record cache_config =
  cc_dir :: string
  cc_tmp :: string
  cc_max :: int
  cc_max_file :: int
  cc_layout :: string
  cc_mark :: float64
  cc_batch :: int

text \<open>\<open>cs_due\<close>: a goroutine that wants to evict has been started.\<close>

record cache_state =
  cs_cfg :: cache_config
  cs_meta :: "cache_meta list"
  cs_files :: "string \<Rightarrow> string option"
  cs_total :: int
  cs_max :: int
  cs_mark :: float64
  cs_due :: bool

datatype cache_step =
    MkdirDir | MkdirTmp | SumMeta | CountMeta
  | QueryMeta | OpenFile | DropMeta | TouchAtime
  | CreateTemp | CloseTemp | MkdirShard | RenameTemp nat | ReadOldSize | UpsertMeta
  | EvictQuery | RemoveFile string | DeleteMeta string

definition default_max_bytes :: int where "default_max_bytes = 20 * 2 ^ 30"

definition default_max_file :: int where "default_max_file = 50 * 2 ^ 20"

text \<open>The float64 nearest to 0.9.\<close>

definition default_mark :: float64 where "default_mark = Fin (8106479329266893 / 2 ^ 53)"

definition default_batch :: int where "default_batch = 500"

text \<open>\<^verbatim>\<open>Key\<close>: the SHA-256 of the URL (a parameter) in hexadecimal.\<close>

definition cache_key :: "(string \<Rightarrow> string) \<Rightarrow> string \<Rightarrow> string" where
  "cache_key sha url = hex_encode (sha url)"

text \<open>The defaults \<^verbatim>\<open>Open\<close> fills in; a missing directory or an unknown layout is an error.\<close>

definition fill_defaults :: "cache_config \<Rightarrow> cache_config" where
  "fill_defaults cfg =
     \<lparr>cc_dir = cc_dir cfg,
      cc_tmp = (if cc_tmp cfg = [] then path_join [cc_dir cfg, ''tmp''] else cc_tmp cfg),
      cc_max = (if cc_max cfg \<le> 0 then default_max_bytes else cc_max cfg),
      cc_max_file = (if cc_max_file cfg \<le> 0 then default_max_file else cc_max_file cfg),
      cc_layout = (if cc_layout cfg = [] then ''sharded'' else cc_layout cfg),
      cc_mark = (if fl_le_0 (cc_mark cfg) \<or> fl_gt_1 (cc_mark cfg) then default_mark else cc_mark cfg),
      cc_batch = (if cc_batch cfg \<le> 0 then default_batch else cc_batch cfg)\<rparr>"

definition normal_config :: "cache_config \<Rightarrow> go_error + cache_config" where
  "normal_config cfg =
     (if cc_dir cfg = [] then Inl (Internal ''cache: Dir is required'')
      else if cc_layout (fill_defaults cfg) \<noteq> ''sharded'' \<and> cc_layout (fill_defaults cfg) \<noteq> ''flat''
      then Inl (Internal ''cache: invalid layout'')
      else Inr (fill_defaults cfg))"

text \<open>\<^verbatim>\<open>pathFor\<close>; a key has 64 characters, so that its slices are in range.\<close>

definition path_for :: "cache_config \<Rightarrow> string \<Rightarrow> string" where
  "path_for cfg key =
     (if cc_layout cfg = ''flat'' then path_join [cc_dir cfg, key]
      else path_join [cc_dir cfg, take 2 key, take 2 (drop 2 key), key])"

definition cache_watermark :: "cache_state \<Rightarrow> int" where
  "cache_watermark s = mul_int64 (cs_mark s) (cs_max s)"

definition over_mark :: "cache_state \<Rightarrow> bool" where
  "over_mark s \<longleftrightarrow> cs_total s > cache_watermark s"

definition maybe_evict :: "cache_state \<Rightarrow> cache_state" where
  "maybe_evict s = (if over_mark s then s\<lparr>cs_due := True\<rparr> else s)"

section \<open>Eviction\<close>

text \<open>
  One entry of a batch. A file that cannot be removed keeps its row; a file that is removed but
  whose row cannot be deleted leaves the row behind.
\<close>

definition drop_row :: "string \<Rightarrow> cache_meta list \<Rightarrow> cache_meta list" where
  "drop_row key ms = tbl_delete (\<lambda>m. cm_key m = key) ms"

definition evict_one :: "(cache_step \<Rightarrow> bool) \<Rightarrow> cache_meta \<Rightarrow> cache_state \<Rightarrow> cache_state" where
  "evict_one fail e s =
     (if fail (RemoveFile (cm_key e)) then s
      else
        let s1 = s\<lparr>cs_files := (cs_files s)(path_for (cs_cfg s) (cm_key e) := None)\<rparr>
        in if fail (DeleteMeta (cm_key e)) then s1
           else s1\<lparr>cs_meta := drop_row (cm_key e) (cs_meta s),
                   cs_total := wrap64 (cs_total s - cm_size e)\<rparr>)"

text \<open>\<^verbatim>\<open>SELECT key, size FROM cache_meta ORDER BY atime ASC LIMIT ?\<close>.\<close>

definition evict_batch :: "cache_state \<Rightarrow> cache_meta list" where
  "evict_batch s = take (nat (cc_batch (cs_cfg s))) (sort_key cm_atime (cs_meta s))"

text \<open>
  The loop of \<^verbatim>\<open>evict\<close>; \<open>fail i\<close> says what fails in its \<open>i\<close>-th round. It may run forever, and then
  the value is \<open>None\<close>.
\<close>

partial_function (option) evict ::
  "(nat \<Rightarrow> cache_step \<Rightarrow> bool) \<Rightarrow> nat \<Rightarrow> cache_state \<Rightarrow> cache_state option" where
  "evict fail i s =
     (if \<not> over_mark s then Some s
      else if fail i EvictQuery then Some s
      else if evict_batch s = [] then Some s
      else evict fail (Suc i) (fold (evict_one (fail i)) (evict_batch s) s))"

declare evict.simps [code]

section \<open>Open and the settings\<close>

definition open_cache ::
  "(cache_step \<Rightarrow> bool) \<Rightarrow> (nat \<Rightarrow> cache_step \<Rightarrow> bool) \<Rightarrow> cache_config \<Rightarrow> cache_meta list
     \<Rightarrow> (string \<Rightarrow> string option) \<Rightarrow> (go_error + cache_state) option" where
  "open_cache fail evict_fail cfg0 ms fs =
     (case normal_config cfg0 of
        Inl e \<Rightarrow> Some (Inl e)
      | Inr cfg \<Rightarrow>
          if fail MkdirDir \<or> fail MkdirTmp then Some (Inl (Internal ''cache: mkdir''))
          else if fail SumMeta \<or> \<not> is_int64 (sum_list (map cm_size ms))
          then Some (Inl (Internal ''cache: sum cache size''))
          else
            (case evict evict_fail 0
                    \<lparr>cs_cfg = cfg, cs_meta = ms, cs_files = fs, cs_total = sum_list (map cm_size ms),
                     cs_max = cc_max cfg, cs_mark = cc_mark cfg, cs_due = False\<rparr> of
               None \<Rightarrow> None
             | Some s \<Rightarrow> Some (Inr s)))"

definition live_config :: "cache_state \<Rightarrow> cache_config" where
  "live_config s = (cs_cfg s)\<lparr>cc_max := cs_max s, cc_mark := cs_mark s\<rparr>"

definition cache_stats :: "(cache_step \<Rightarrow> bool) \<Rightarrow> cache_state \<Rightarrow> go_error + (int \<times> int)" where
  "cache_stats fail s =
     (if fail CountMeta then Inl (Internal ''cache: count meta'')
      else Inr (cs_total s, int (length (cs_meta s))))"

definition set_limits :: "int \<Rightarrow> float64 \<Rightarrow> cache_state \<Rightarrow> cache_state" where
  "set_limits mx mark s = maybe_evict (s\<lparr>cs_max := mx, cs_mark := mark\<rparr>)"

section \<open>Reading\<close>

text \<open>
  \<^verbatim>\<open>Get\<close> reads the row and then opens the file. Nothing keeps another request from running between
  the two, so they are two operations, and \<open>cache_get\<close> is their undisturbed composition.
\<close>

definition get_row :: "(cache_step \<Rightarrow> bool) \<Rightarrow> string \<Rightarrow> cache_state \<Rightarrow> go_error + cache_meta option" where
  "get_row fail key s =
     (if fail QueryMeta then Inl (Internal ''cache: get meta'')
      else Inr (tbl_find cm_key key (cs_meta s)))"

definition touch_row :: "string \<Rightarrow> int \<Rightarrow> cache_meta list \<Rightarrow> cache_meta list" where
  "touch_row key now ms = map (\<lambda>m. if cm_key m = key then m\<lparr>cm_atime := now\<rparr> else m) ms"

definition get_file ::
  "(cache_step \<Rightarrow> bool) \<Rightarrow> int \<Rightarrow> string \<Rightarrow> cache_meta \<Rightarrow> cache_state
     \<Rightarrow> (go_error + (string \<times> cache_meta) option) \<times> cache_state" where
  "get_file fail now key m s =
     (if fail OpenFile then (Inl (Internal ''cache: open file''), s)
      else case cs_files s (path_for (cs_cfg s) key) of
        None \<Rightarrow>
          (Inr None,
           if fail DropMeta then s
           else s\<lparr>cs_meta := drop_row key (cs_meta s), cs_total := wrap64 (cs_total s - cm_size m)\<rparr>)
      | Some body \<Rightarrow>
          (Inr (Some (body, m)),
           if fail TouchAtime then s
           else s\<lparr>cs_meta := touch_row key now (cs_meta s)\<rparr>))"

definition cache_get ::
  "(cache_step \<Rightarrow> bool) \<Rightarrow> int \<Rightarrow> string \<Rightarrow> cache_state
     \<Rightarrow> (go_error + (string \<times> cache_meta) option) \<times> cache_state" where
  "cache_get fail now key s =
     (case get_row fail key s of
        Inl e \<Rightarrow> (Inl e, s)
      | Inr None \<Rightarrow> (Inr None, s)
      | Inr (Some m) \<Rightarrow> get_file fail now key m s)"

section \<open>Writing\<close>

text \<open>A writer; \<open>w_body\<close> is the content of its temporary file.\<close>

record writer =
  w_key :: string
  w_ctype :: string
  w_body :: string
  w_n :: int
  w_overflow :: bool
  w_failed :: bool

definition new_writer :: "(cache_step \<Rightarrow> bool) \<Rightarrow> string \<Rightarrow> string \<Rightarrow> go_error + writer" where
  "new_writer fail key ctype =
     (if fail CreateTemp then Inl (Internal ''cache: create temp'')
      else Inr \<lparr>w_key = key, w_ctype = ctype, w_body = [], w_n = 0, w_overflow = False, w_failed = False\<rparr>)"

text \<open>
  \<^verbatim>\<open>Write\<close>: \<open>short\<close> is the number of bytes the disk takes before it fails, or \<open>None\<close> when it takes
  them all. The caller always sees success.
\<close>

definition writer_write :: "int \<Rightarrow> nat option \<Rightarrow> string \<Rightarrow> writer \<Rightarrow> writer" where
  "writer_write max_file short p w =
     (if w_overflow w \<or> w_failed w then w
      else
        let q = (case short of None \<Rightarrow> p | Some k \<Rightarrow> take k p);
            w1 = w\<lparr>w_body := w_body w @ q, w_n := w_n w + int (length q)\<rparr>
        in if short \<noteq> None then w1\<lparr>w_failed := True\<rparr>
           else if w_n w1 > max_file then w1\<lparr>w_overflow := True\<rparr>
           else w1)"

text \<open>\<^verbatim>\<open>io.Copy\<close> hands the chunks the reader returns to the writer; \<open>disk i\<close> is for the \<open>i\<close>-th.\<close>

fun write_chunks :: "int \<Rightarrow> (nat \<Rightarrow> nat option) \<Rightarrow> nat \<Rightarrow> string list \<Rightarrow> writer \<Rightarrow> writer" where
  "write_chunks max_file disk i [] w = w"
| "write_chunks max_file disk i (p # ps) w =
     write_chunks max_file disk (Suc i) ps (writer_write max_file (disk i) p w)"

text \<open>
  \<^verbatim>\<open>Commit\<close>: five attempts to rename the temporary file, then the row. When the row cannot be
  written the file is already in its place and stays there.
\<close>

definition commit ::
  "(cache_step \<Rightarrow> bool) \<Rightarrow> int \<Rightarrow> writer \<Rightarrow> cache_state \<Rightarrow> (go_error + bool) \<times> cache_state" where
  "commit fail now w s =
     (if w_overflow w \<or> w_failed w then (Inr False, s)
      else if fail CloseTemp then (Inr False, s)
      else if fail MkdirShard then (Inl (Internal ''cache: mkdir shard''), s)
      else if list_all (\<lambda>a. fail (RenameTemp a)) [0..<5] then (Inl (Internal ''cache: rename''), s)
      else
        let s1 = s\<lparr>cs_files := (cs_files s)(path_for (cs_cfg s) (w_key w) \<mapsto> w_body w)\<rparr>;
            old = (if fail ReadOldSize then 0
                   else case tbl_find cm_key (w_key w) (cs_meta s) of None \<Rightarrow> 0 | Some m \<Rightarrow> cm_size m)
        in if fail UpsertMeta then (Inl (Internal ''cache: upsert meta''), s1)
           else
             (Inr True,
              maybe_evict (s1\<lparr>cs_meta := tbl_replace cm_key
                   \<lparr>cm_key = w_key w, cm_size = w_n w, cm_atime = now, cm_created = now, cm_ctype = w_ctype w\<rparr>
                   (cs_meta s),
                 cs_total := wrap64 (cs_total s + wrap64 (w_n w - old))\<rparr>)))"

definition cache_put ::
  "(cache_step \<Rightarrow> bool) \<Rightarrow> (nat \<Rightarrow> nat option) \<Rightarrow> int \<Rightarrow> string \<Rightarrow> string \<Rightarrow> string list \<Rightarrow> cache_state
     \<Rightarrow> (go_error + bool) \<times> cache_state" where
  "cache_put fail disk now key ctype chunks s =
     (case new_writer fail key ctype of
        Inl e \<Rightarrow> (Inl e, s)
      | Inr w \<Rightarrow> commit fail now (write_chunks (cc_max_file (cs_cfg s)) disk 0 chunks w) s)"

end
