(* ===== verification/CacheFacts.thy ===== *)
theory CacheFacts
  imports Cache
begin

text \<open>
  Facts about the disk cache: the accounting of the total, the paths of distinct keys, the contract
  of the cache as its clients use it, and the eviction loop.
\<close>

section \<open>Accounting\<close>

abbreviation total_size :: "cache_meta list \<Rightarrow> int" where
  "total_size ms \<equiv> sum_list (map cm_size ms)"

lemma wrap64_add_left: "wrap64 (wrap64 a + b) = wrap64 (a + b)"
  by (simp add: wrap64_def mod_simps algebra_simps)

lemma wrap64_add_right: "wrap64 (a + wrap64 b) = wrap64 (a + b)"
  using wrap64_add_left [of b a] by (simp add: add.commute)

lemma wrap64_diff_left: "wrap64 (wrap64 a - b) = wrap64 (a - b)"
  using wrap64_add_left [of a "- b"] by simp

lemma drop_row_absent: "tbl_find cm_key k ms = None \<Longrightarrow> drop_row k ms = ms"
  by (auto simp: drop_row_def tbl_delete_def tbl_find_None_iff filter_id_conv)

lemma total_drop_row:
  "tbl_unique cm_key ms \<Longrightarrow> m \<in> set ms \<Longrightarrow> total_size (drop_row (cm_key m) ms) = total_size ms - cm_size m"
proof (induction ms)
  case Nil
  then show ?case by simp
next
  case (Cons x ms)
  show ?case
  proof (cases "x = m")
    case True
    with Cons.prems(1) have "\<forall>y \<in> set ms. cm_key y \<noteq> cm_key m" by (auto simp: tbl_unique_def image_iff)
    then have "filter (\<lambda>y. cm_key y \<noteq> cm_key m) ms = ms" by (simp add: filter_id_conv)
    with True show ?thesis by (simp add: drop_row_def tbl_delete_def)
  next
    case False
    with Cons.prems have "cm_key x \<noteq> cm_key m" by (auto simp: tbl_unique_def image_iff)
    with False Cons show ?thesis by (simp add: drop_row_def tbl_delete_def tbl_unique_def)
  qed
qed

lemma total_drop_find:
  assumes "tbl_unique cm_key ms"
  shows "total_size (drop_row k ms) =
     total_size ms - (case tbl_find cm_key k ms of None \<Rightarrow> 0 | Some m \<Rightarrow> cm_size m)"
proof (cases "tbl_find cm_key k ms")
  case None
  then show ?thesis by (simp add: drop_row_absent)
next
  case (Some m)
  then show ?thesis using total_drop_row [OF assms, of m] by (auto dest: tbl_find_SomeD)
qed

lemma total_touch_row [simp]: "total_size (touch_row k now ms) = total_size ms"
  by (induction ms) (auto simp: touch_row_def)

lemma tbl_unique_touch_row [simp]: "tbl_unique cm_key (touch_row k now ms) = tbl_unique cm_key ms"
  unfolding touch_row_def by (rule tbl_unique_map) simp

lemma tbl_unique_drop_row: "tbl_unique cm_key ms \<Longrightarrow> tbl_unique cm_key (drop_row k ms)"
  by (simp add: drop_row_def tbl_unique_delete)

lemma replace_row: "tbl_replace cm_key r ms = drop_row (cm_key r) ms @ [r]"
  by (simp add: tbl_replace_def drop_row_def tbl_delete_def)

definition cache_inv :: "cache_state \<Rightarrow> bool" where
  "cache_inv s \<longleftrightarrow> tbl_unique cm_key (cs_meta s) \<and> cs_total s = wrap64 (total_size (cs_meta s)) \<and>
     0 < cc_batch (cs_cfg s)"

lemma maybe_evict_simps [simp]:
  "cs_meta (maybe_evict s) = cs_meta s" "cs_files (maybe_evict s) = cs_files s"
  "cs_cfg (maybe_evict s) = cs_cfg s" "cs_total (maybe_evict s) = cs_total s"
  "cs_max (maybe_evict s) = cs_max s" "cs_mark (maybe_evict s) = cs_mark s"
  by (simp_all add: maybe_evict_def)

lemma cache_inv_maybe_evict [simp]: "cache_inv (maybe_evict s) = cache_inv s"
  by (simp add: cache_inv_def)

lemma set_limits_inv [keeps_inv]: "cache_inv s \<Longrightarrow> cache_inv (set_limits mx f s)"
  by (simp add: set_limits_def cache_inv_def)

lemma get_file_inv [keeps_inv]:
  assumes "cache_inv s" and "m \<in> set (cs_meta s)" and "cm_key m = key"
  shows "cache_inv (snd (get_file fail now key m s))"
  using assms total_drop_row [of "cs_meta s" m]
  by (auto simp: get_file_def cache_inv_def wrap64_diff_left tbl_unique_drop_row split: option.split)

lemma cache_get_inv [keeps_inv]:
  assumes "cache_inv s"
  shows "cache_inv (snd (cache_get fail now key s))"
proof (cases "tbl_find cm_key key (cs_meta s)")
  case None
  with assms show ?thesis by (simp add: cache_get_def get_row_def)
next
  case (Some m)
  with assms get_file_inv [OF assms, of m key fail now] show ?thesis
    by (auto simp: cache_get_def get_row_def dest: tbl_find_SomeD)
qed

lemma commit_inv [keeps_inv]:
  assumes "cache_inv s" and "\<not> fail ReadOldSize"
  shows "cache_inv (snd (commit fail now w s))"
proof -
  let ?ms = "cs_meta s"
  let ?old = "case tbl_find cm_key (w_key w) ?ms of None \<Rightarrow> 0 | Some m \<Rightarrow> cm_size m"
  let ?row = "\<lparr>cm_key = w_key w, cm_size = w_n w, cm_atime = now, cm_created = now, cm_ctype = w_ctype w\<rparr>"
  have uniq: "tbl_unique cm_key ?ms" using assms(1) by (simp add: cache_inv_def)
  have "total_size (tbl_replace cm_key ?row ?ms) = total_size ?ms + (w_n w - ?old)"
    using total_drop_find [OF uniq, of "w_key w"] by (simp add: replace_row)
  moreover have "wrap64 (cs_total s + wrap64 (w_n w - ?old)) = wrap64 (total_size ?ms + (w_n w - ?old))"
    using assms(1) by (simp add: cache_inv_def wrap64_add_left wrap64_add_right)
  ultimately have "wrap64 (cs_total s + wrap64 (w_n w - ?old)) = wrap64 (total_size (tbl_replace cm_key ?row ?ms))"
    by (simp only:)
  then show ?thesis
    using assms tbl_unique_replace [OF uniq] by (simp add: commit_def Let_def cache_inv_def)
qed

lemma cache_put_inv [keeps_inv]:
  "cache_inv s \<Longrightarrow> \<not> fail ReadOldSize \<Longrightarrow> cache_inv (snd (cache_put fail disk now key ct ps s))"
  by (simp add: cache_put_def new_writer_def commit_inv)

section \<open>Paths\<close>

definition is_key :: "string \<Rightarrow> bool" where
  "is_key k \<longleftrightarrow> length k = 64 \<and> CHR ''/'' \<notin> set k \<and> CHR ''.'' \<notin> set k"

lemma is_key_plain: "is_key k \<Longrightarrow> plain k"
  by (auto simp: is_key_def plain_def dot_def dotdot_def)

lemma is_key_slices: "is_key k \<Longrightarrow> plain (take 2 k) \<and> plain (take 2 (drop 2 k))"
  by (auto simp: is_key_def plain_def dot_def dotdot_def dest: in_set_takeD in_set_dropD
      intro: Cons_eq_appendI) (metis in_set_dropD in_set_takeD list.set_intros(1))+

lemma path_for_inj:
  assumes "is_key k" and "is_key k'" and "cc_dir cfg \<noteq> []" and "path_for cfg k = path_for cfg k'"
  shows "k = k'"
proof -
  have len: "length k = length k'" using assms by (simp add: is_key_def)
  show ?thesis
  proof (cases "cc_layout cfg = ''flat''")
    case True
    with assms show ?thesis
      by (simp add: path_for_def path_join_plain is_key_plain path_str_append)
  next
    case False
    with assms len show ?thesis
      by (simp add: path_for_def path_join_plain is_key_plain is_key_slices path_str_append is_key_def)
  qed
qed

section \<open>The contract clients rely on\<close>

text \<open>What a request that finds the cache undisturbed gets for a key: content and content type.\<close>

definition cache_lookup :: "cache_state \<Rightarrow> string \<Rightarrow> (string \<times> string) option" where
  "cache_lookup s key =
     (case tbl_find cm_key key (cs_meta s) of
        None \<Rightarrow> None
      | Some m \<Rightarrow> map_option (\<lambda>body. (body, cm_ctype m)) (cs_files s (path_for (cs_cfg s) key)))"

locale image_cache =
  fixes lookup :: "'s \<Rightarrow> string \<Rightarrow> (string \<times> string) option"
    and put :: "'e \<Rightarrow> string \<Rightarrow> string \<Rightarrow> string list \<Rightarrow> 's \<Rightarrow> (go_error + bool) \<times> 's"
    and ready :: "'s \<Rightarrow> bool"
    and key_ok :: "string \<Rightarrow> bool"
  assumes put_stored: "ready s \<Longrightarrow> key_ok k \<Longrightarrow> put e k ct ps s = (Inr True, s') \<Longrightarrow>
      lookup s' k = Some (concat ps, ct)"
    and put_other: "ready s \<Longrightarrow> key_ok k \<Longrightarrow> key_ok k' \<Longrightarrow> k' \<noteq> k \<Longrightarrow> put e k ct ps s = (r, s') \<Longrightarrow>
      lookup s' k' = lookup s k'"
    and put_refused: "put e k ct ps s = (Inr False, s') \<Longrightarrow> s' = s"
    and put_ready: "ready s \<Longrightarrow> put e k ct ps s = (r, s') \<Longrightarrow> ready s'"
begin

text \<open>A put that reports success or refusal changes nothing but the entry it stores.\<close>

lemma put_effect:
  assumes "ready s" and "key_ok k" and "key_ok k'" and "put e k ct ps s = (Inr stored, s')"
  shows "lookup s' k' = (if stored \<and> k' = k then Some (concat ps, ct) else lookup s k')"
proof (cases stored)
  case True
  with assms put_stored [OF assms(1,2)] put_other [OF assms(1-3)] show ?thesis by auto
next
  case False
  with assms(4) put_refused [of e k ct ps s s'] show ?thesis by simp
qed

text \<open>A run of puts: the last one that stored the key decides what is found.\<close>

lemma puts_effect:
  assumes "ready s" and "key_ok k'" and "\<forall>(e, k, ct, ps) \<in> set calls. key_ok k"
    and "fold (\<lambda>(e, k, ct, ps) s. snd (put e k ct ps s)) calls s = s'"
    and "\<forall>(e, k, ct, ps) \<in> set calls. k \<noteq> k'"
  shows "lookup s' k' = lookup s k' \<and> ready s'"
  using assms(1,3-5)
proof (induction calls arbitrary: s)
  case Nil
  then show ?case by simp
next
  case (Cons c calls)
  obtain e k ct ps where c: "c = (e, k, ct, ps)" by (cases c)
  let ?s = "snd (put e k ct ps s)"
  have step: "put e k ct ps s = (fst (put e k ct ps s), ?s)" by simp
  have "ready ?s" by (rule put_ready [OF Cons.prems(1) step])
  moreover have "lookup ?s k' = lookup s k'"
    using put_other [OF Cons.prems(1) _ assms(2) _ step] Cons.prems(2,4) c by auto
  moreover have "lookup s' k' = lookup ?s k' \<and> ready s'"
    by (rule Cons.IH) (use Cons.prems c \<open>ready ?s\<close> in auto)
  ultimately show ?case by simp
qed

end

text \<open>The bytes and the counter of a writer that has neither overflowed nor failed.\<close>

lemma write_chunks_stuck:
  "w_overflow w \<or> w_failed w \<Longrightarrow> write_chunks mf disk i ps w = w"
  by (induction ps arbitrary: i) (simp_all add: writer_write_def)

lemma writer_write_ok:
  "\<not> w_overflow (writer_write mf d p w) \<Longrightarrow> \<not> w_failed (writer_write mf d p w) \<Longrightarrow>
     writer_write mf d p w = w\<lparr>w_body := w_body w @ p, w_n := w_n w + int (length p)\<rparr> \<and>
     \<not> w_overflow w \<and> \<not> w_failed w \<and> w_n w + int (length p) \<le> mf"
  by (auto simp: writer_write_def Let_def split: if_splits option.splits)

lemma write_chunks_ok:
  assumes "\<not> w_overflow (write_chunks mf disk i ps w)" and "\<not> w_failed (write_chunks mf disk i ps w)"
  shows "write_chunks mf disk i ps w =
       w\<lparr>w_body := w_body w @ concat ps, w_n := w_n w + int (length (concat ps))\<rparr> \<and>
     (ps \<noteq> [] \<longrightarrow> w_n w + int (length (concat ps)) \<le> mf)"
  using assms
proof (induction ps arbitrary: i w)
  case Nil
  then show ?case by simp
next
  case (Cons p ps)
  let ?w = "writer_write mf (disk i) p w"
  have fin: "\<not> w_overflow (write_chunks mf disk (Suc i) ps ?w)" "\<not> w_failed (write_chunks mf disk (Suc i) ps ?w)"
    using Cons.prems by simp_all
  then have "\<not> w_overflow ?w" "\<not> w_failed ?w"
    using write_chunks_stuck [of ?w mf disk "Suc i" ps] by auto
  from writer_write_ok [OF this] Cons.IH [OF fin] show ?case by (cases ps) auto
qed

definition cache_ready :: "cache_state \<Rightarrow> bool" where
  "cache_ready s \<longleftrightarrow> cc_dir (cs_cfg s) \<noteq> []"

definition env_put ::
  "(cache_step \<Rightarrow> bool) \<times> (nat \<Rightarrow> nat option) \<times> int \<Rightarrow> string \<Rightarrow> string \<Rightarrow> string list \<Rightarrow> cache_state
     \<Rightarrow> (go_error + bool) \<times> cache_state" where
  "env_put e key ct ps s = (case e of (fail, disk, now) \<Rightarrow> cache_put fail disk now key ct ps s)"

lemma commit_cfg: "commit fail now w s = (r, s') \<Longrightarrow> cs_cfg s' = cs_cfg s"
  by (auto simp: commit_def Let_def split: if_splits)

lemma commit_stored:
  assumes "commit fail now w s = (Inr True, s')"
  shows "\<not> w_overflow w \<and> \<not> w_failed w \<and>
     cs_files s' = (cs_files s)(path_for (cs_cfg s) (w_key w) \<mapsto> w_body w) \<and>
     cs_meta s' = tbl_replace cm_key
       \<lparr>cm_key = w_key w, cm_size = w_n w, cm_atime = now, cm_created = now, cm_ctype = w_ctype w\<rparr> (cs_meta s)"
  using assms by (auto simp: commit_def Let_def split: if_splits)

lemma commit_other:
  assumes "commit fail now w s = (r, s')" and "k' \<noteq> w_key w" and "is_key k'" and "is_key (w_key w)"
    and "cache_ready s"
  shows "cs_files s' (path_for (cs_cfg s) k') = cs_files s (path_for (cs_cfg s) k') \<and>
     tbl_find cm_key k' (cs_meta s') = tbl_find cm_key k' (cs_meta s)"
proof -
  have "path_for (cs_cfg s) k' \<noteq> path_for (cs_cfg s) (w_key w)"
    using assms path_for_inj [of k' "w_key w" "cs_cfg s"] by (auto simp: cache_ready_def)
  then show ?thesis
    using assms(1,2) by (auto simp: commit_def Let_def tbl_find_replace split: if_splits)
qed

lemma commit_refused: "commit fail now w s = (Inr False, s') \<Longrightarrow> s' = s"
  by (auto simp: commit_def Let_def split: if_splits)

lemma write_chunks_fixed [simp]:
  "w_key (write_chunks mf disk i ps w) = w_key w" "w_ctype (write_chunks mf disk i ps w) = w_ctype w"
  by (induction ps arbitrary: i w) (simp_all add: writer_write_def Let_def)

interpretation disk: image_cache cache_lookup env_put cache_ready is_key
proof
  fix s :: cache_state and k e ct ps s'
  assume key: "is_key k" and put: "env_put e k ct ps s = (Inr True, s')"
  obtain fail d now where e: "e = (fail, d, now)" by (cases e)
  obtain w where w: "new_writer fail k ct = Inr w"
    and c: "commit fail now (write_chunks (cc_max_file (cs_cfg s)) d 0 ps w) s = (Inr True, s')"
    using put by (auto simp: e env_put_def cache_put_def split: sum.splits)
  have w0: "w = \<lparr>w_key = k, w_ctype = ct, w_body = [], w_n = 0, w_overflow = False, w_failed = False\<rparr>"
    using w by (simp add: new_writer_def split: if_splits)
  note st = commit_stored [OF c]
  have "w_body (write_chunks (cc_max_file (cs_cfg s)) d 0 ps w) = concat ps"
    using write_chunks_ok [of "cc_max_file (cs_cfg s)" d 0 ps w] st w0 by simp
  with st w0 commit_cfg [OF c] show "cache_lookup s' k = Some (concat ps, ct)"
    by (simp add: cache_lookup_def tbl_find_replace)
next
  fix s :: cache_state and k k' e ct ps r s'
  assume ready: "cache_ready s" and keys: "is_key k" "is_key k'" and neq: "k' \<noteq> k"
    and put: "env_put e k ct ps s = (r, s')"
  obtain fail d now where e: "e = (fail, d, now)" by (cases e)
  show "cache_lookup s' k' = cache_lookup s k'"
  proof (cases "new_writer fail k ct")
    case (Inl err)
    with put show ?thesis by (simp add: e env_put_def cache_put_def)
  next
    case (Inr w)
    then have "w_key w = k" by (auto simp: new_writer_def split: if_splits)
    moreover have c: "commit fail now (write_chunks (cc_max_file (cs_cfg s)) d 0 ps w) s = (r, s')"
      using put Inr by (simp add: e env_put_def cache_put_def)
    ultimately show ?thesis
      using commit_other [OF c, of k'] commit_cfg [OF c] ready keys neq
      by (simp add: cache_lookup_def split: option.split)
  qed
next
  fix s s' :: cache_state and e k ct ps
  assume "env_put e k ct ps s = (Inr False, s')"
  then show "s' = s"
    by (auto simp: env_put_def cache_put_def dest: commit_refused split: prod.splits sum.splits)
next
  fix s s' :: cache_state and e k ct ps r
  assume "cache_ready s" and "env_put e k ct ps s = (r, s')"
  then show "cache_ready s'"
    by (auto simp: cache_ready_def env_put_def cache_put_def dest: commit_cfg split: prod.splits sum.splits)
qed

section \<open>A put that succeeds\<close>

lemma write_chunks_fit:
  assumes "\<not> w_overflow w" "\<not> w_failed w" and "w_n w + int (length (concat ps)) \<le> mf"
  shows "\<not> w_overflow (write_chunks mf (\<lambda>_. None) i ps w) \<and> \<not> w_failed (write_chunks mf (\<lambda>_. None) i ps w)"
  using assms
proof (induction ps arbitrary: i w)
  case Nil
  then show ?case by simp
next
  case (Cons p ps)
  then show ?case by (simp add: writer_write_def)
qed

lemma cache_put_fits:
  fixes now :: int and key ct :: string
  assumes "int (length (concat ps)) \<le> cc_max_file (cs_cfg s)"
  shows "\<exists>s'. cache_put (\<lambda>_. False) (\<lambda>_. None) now key ct ps s = (Inr True, s')"
proof -
  let ?w = "\<lparr>w_key = key, w_ctype = ct, w_body = [], w_n = 0, w_overflow = False, w_failed = False\<rparr>"
  have "\<not> w_overflow (write_chunks (cc_max_file (cs_cfg s)) (\<lambda>_. None) 0 ps ?w) \<and>
      \<not> w_failed (write_chunks (cc_max_file (cs_cfg s)) (\<lambda>_. None) 0 ps ?w)"
    by (rule write_chunks_fit) (use assms in simp_all)
  then show ?thesis by (simp add: cache_put_def new_writer_def commit_def upt_rec Let_def)
qed

lemma cache_key_ok: "length (sha url) = 32 \<Longrightarrow> is_key (cache_key sha url)"
proof -
  have code: "(of_char (hex_digit d) :: nat) = (if d < 10 then 48 + d else 87 + d)" if "d < 16" for d
    using that by (simp add: hex_digit_def)
  have "hex_digit d \<noteq> CHR ''/'' \<and> hex_digit d \<noteq> CHR ''.''" if "d < 16" for d
  proof -
    have "(of_char (hex_digit d) :: nat) \<noteq> of_char CHR ''/''" "(of_char (hex_digit d) :: nat) \<noteq> of_char CHR ''.''"
      using code [OF that] by auto
    then show ?thesis by metis
  qed
  note digit = this
  have "CHR ''/'' \<noteq> hex_digit (of_char c div 16)" "CHR ''.'' \<noteq> hex_digit (of_char c div 16)"
    "CHR ''/'' \<noteq> hex_digit (of_char c mod 16)" "CHR ''.'' \<noteq> hex_digit (of_char c mod 16)" for c :: char
    using digit [of "of_char c div 16"] digit [of "of_char c mod 16"] nat_of_char_less_256 [of c]
    by (auto simp: div_less_iff_less_mult)
  moreover assume "length (sha url) = 32"
  ultimately show ?thesis by (simp add: is_key_def cache_key_def hex_encode_def length_concat comp_def sum_list_triv)
qed

end
