(* ===== verification/CacheEvict.thy ===== *)
theory CacheEvict
  imports CacheFacts
begin

text \<open>
  The eviction loop of the disk cache: one round, the rounds together when nothing fails, and the
  rounds that never end.
\<close>

section \<open>One round\<close>

lemma evict_one_limits [simp]:
  "cs_cfg (evict_one fail e s) = cs_cfg s" "cs_max (evict_one fail e s) = cs_max s"
  "cs_mark (evict_one fail e s) = cs_mark s" "cs_due (evict_one fail e s) = cs_due s"
  by (simp_all add: evict_one_def Let_def)

lemma evict_one_inv [keeps_inv]:
  assumes "cache_inv s" and "e \<in> set (cs_meta s)"
  shows "cache_inv (evict_one fail e s)"
  using assms total_drop_row [of "cs_meta s" e]
  by (auto simp: evict_one_def cache_inv_def Let_def wrap64_diff_left tbl_unique_drop_row)

lemma evict_one_keeps_row:
  "e' \<in> set (cs_meta s) \<Longrightarrow> cm_key e' \<noteq> cm_key e \<Longrightarrow> e' \<in> set (cs_meta (evict_one fail e s))"
  by (simp add: evict_one_def Let_def drop_row_def)

lemma fold_evict_limits [simp]:
  "cs_cfg (fold (evict_one fail) es s) = cs_cfg s" "cs_max (fold (evict_one fail) es s) = cs_max s"
  "cs_mark (fold (evict_one fail) es s) = cs_mark s"
  by (induction es arbitrary: s) simp_all

lemma fold_evict_inv [keeps_inv]:
  "cache_inv s \<Longrightarrow> set es \<subseteq> set (cs_meta s) \<Longrightarrow> distinct (map cm_key es) \<Longrightarrow>
     cache_inv (fold (evict_one fail) es s)"
proof (induction es arbitrary: s)
  case Nil
  then show ?case by simp
next
  case (Cons e es)
  have "set es \<subseteq> set (cs_meta (evict_one fail e s))"
    using Cons.prems(2,3) by (intro subsetI evict_one_keeps_row) (auto simp: image_iff)
  with Cons show ?case by (simp add: evict_one_inv)
qed

lemma fold_evict_meta:
  "\<forall>e \<in> set es. \<not> fail (RemoveFile (cm_key e)) \<and> \<not> fail (DeleteMeta (cm_key e)) \<Longrightarrow>
     cs_meta (fold (evict_one fail) es s) = filter (\<lambda>m. cm_key m \<notin> cm_key ` set es) (cs_meta s)"
proof (induction es arbitrary: s)
  case Nil
  then show ?case by simp
next
  case (Cons e es)
  then show ?case by (simp add: evict_one_def drop_row_def tbl_delete_def conj_commute)
qed

lemma fold_evict_files:
  "path \<notin> path_for (cs_cfg s) ` cm_key ` set es \<Longrightarrow>
     cs_files (fold (evict_one fail) es s) path = cs_files s path"
proof (induction es arbitrary: s)
  case Nil
  then show ?case by simp
next
  case (Cons e es)
  then show ?case by (simp add: evict_one_def Let_def)
qed

lemma fold_evict_stuck:
  "\<forall>e \<in> set es. fail (RemoveFile (cm_key e)) \<Longrightarrow> fold (evict_one fail) es s = s"
  by (induction es) (simp_all add: evict_one_def)

lemma evict_batch_rows: "set (evict_batch s) \<subseteq> set (cs_meta s)"
  by (auto simp: evict_batch_def dest: in_set_takeD)

lemma evict_batch_keys:
  assumes "cache_inv s"
  shows "distinct (map cm_key (evict_batch s))"
proof -
  have "distinct (map cm_key (sort_key cm_atime (cs_meta s)))"
    using assms by (simp add: cache_inv_def tbl_unique_def distinct_map)
  then show ?thesis by (simp add: evict_batch_def take_map [symmetric] distinct_take)
qed

lemma round_inv [keeps_inv]:
  "cache_inv s \<Longrightarrow> cache_inv (fold (evict_one fail) (evict_batch s) s)"
  by (simp add: fold_evict_inv evict_batch_rows evict_batch_keys)

lemma evict_batch_Nil: "cache_inv s \<Longrightarrow> evict_batch s = [] \<longleftrightarrow> cs_meta s = []"
  by (auto simp: evict_batch_def cache_inv_def) (metis set_empty set_sort)

section \<open>All rounds, when nothing fails\<close>

text \<open>The rows that remain when the \<open>n\<close> least recently used ones are gone.\<close>

definition without_oldest :: "nat \<Rightarrow> cache_meta list \<Rightarrow> cache_meta list" where
  "without_oldest n ms = filter (\<lambda>m. m \<notin> set (take n (sort_key cm_atime ms))) ms"

lemma without_oldest_0 [simp]: "without_oldest 0 ms = ms"
  by (simp add: without_oldest_def)

lemma filter_not_take: "distinct xs \<Longrightarrow> filter (\<lambda>x. x \<notin> set (take n xs)) xs = drop n xs"
proof -
  assume d: "distinct xs"
  let ?P = "\<lambda>x. x \<notin> set (take n xs)"
  have "filter ?P xs = filter ?P (take n xs) @ filter ?P (drop n xs)"
    by (metis append_take_drop_id filter_append)
  moreover have "filter ?P (drop n xs) = drop n xs"
    using set_take_disj_set_drop_if_distinct [OF d, of n n] by (auto simp: filter_id_conv)
  ultimately show ?thesis by simp
qed

lemma sort_without_oldest:
  "distinct ms \<Longrightarrow> sort_key cm_atime (without_oldest n ms) = drop n (sort_key cm_atime ms)"
  by (simp add: without_oldest_def filter_sort [symmetric] filter_not_take)

lemma without_oldest_add:
  assumes "distinct ms"
  shows "without_oldest m (without_oldest n ms) = without_oldest (n + m) ms"
proof -
  have "set (take (n + m) xs) = set (take n xs) \<union> set (take m (drop n xs))" for xs :: "cache_meta list"
    by (metis set_append take_add)
  then show ?thesis
    unfolding without_oldest_def [of m] sort_without_oldest [OF assms]
    by (auto simp: without_oldest_def intro: filter_cong)
qed

text \<open>What remains was used no earlier than what is gone.\<close>

lemma without_oldest_lru:
  assumes "e \<in> set ms" and "e \<notin> set (without_oldest n ms)" and "m \<in> set (without_oldest n ms)"
  shows "cm_atime e \<le> cm_atime m"
proof -
  let ?xs = "sort_key cm_atime ms"
  have "e \<in> set (take n ?xs)" using assms(1,2) by (simp add: without_oldest_def)
  moreover have "m \<in> set (drop n ?xs)"
  proof -
    have "set ?xs = set (take n ?xs) \<union> set (drop n ?xs)" by (metis append_take_drop_id set_append)
    then show ?thesis using assms(3) by (auto simp: without_oldest_def)
  qed
  moreover have "sorted (map cm_atime (take n ?xs @ drop n ?xs))" by simp
  ultimately show ?thesis unfolding map_append sorted_append by auto
qed

definition no_failure :: "(nat \<Rightarrow> cache_step \<Rightarrow> bool) \<Rightarrow> bool" where
  "no_failure fail \<longleftrightarrow> (\<forall>i st. \<not> fail i st)"

lemma round_meta:
  assumes "cache_inv s" and "no_failure fail"
  shows "cs_meta (fold (evict_one (fail i)) (evict_batch s) s) =
     without_oldest (nat (cc_batch (cs_cfg s))) (cs_meta s)"
proof -
  have inj: "inj_on cm_key (set (cs_meta s))"
    using assms(1) by (simp add: cache_inv_def tbl_unique_def distinct_map)
  then have "cm_key m \<in> cm_key ` set (evict_batch s) \<longleftrightarrow> m \<in> set (evict_batch s)"
    if "m \<in> set (cs_meta s)" for m
    using that evict_batch_rows [of s] by (auto dest: inj_onD)
  then have "filter (\<lambda>m. cm_key m \<notin> cm_key ` set (evict_batch s)) (cs_meta s) =
      filter (\<lambda>m. m \<notin> set (evict_batch s)) (cs_meta s)"
    by (auto intro: filter_cong)
  then show ?thesis
    using assms(2) by (subst fold_evict_meta) (simp_all add: no_failure_def without_oldest_def evict_batch_def)
qed

lemma evict_rounds:
  assumes "cache_inv s" and "no_failure fail"
  shows "\<exists>s' n. evict fail i s = Some s' \<and> cache_inv s' \<and> cs_cfg s' = cs_cfg s \<and>
     cs_max s' = cs_max s \<and> cs_mark s' = cs_mark s \<and>
     (over_mark s' \<longrightarrow> cs_meta s' = []) \<and>
     cs_meta s' = without_oldest (n * nat (cc_batch (cs_cfg s))) (cs_meta s) \<and>
     (0 < n \<longrightarrow> wrap64 (total_size (without_oldest ((n - 1) * nat (cc_batch (cs_cfg s))) (cs_meta s)))
        > cache_watermark s) \<and>
     (\<forall>path. path \<notin> path_for (cs_cfg s) ` cm_key ` set (cs_meta s) \<longrightarrow> cs_files s' path = cs_files s path)"
  using assms(1)
proof (induction "length (cs_meta s)" arbitrary: s i rule: less_induct)
  case less
  let ?b = "nat (cc_batch (cs_cfg s))"
  have dist: "distinct (cs_meta s)" using less.prems by (simp add: cache_inv_def tbl_unique_def distinct_map)
  have total: "cs_total s = wrap64 (total_size (cs_meta s))" using less.prems by (simp add: cache_inv_def)
  show ?case
  proof (cases "over_mark s \<and> evict_batch s \<noteq> []")
    case False
    then have "evict fail i s = Some s" by (subst evict.simps) auto
    with False less.prems show ?thesis
      by (intro exI [of _ s] exI [of _ 0]) (auto simp: evict_batch_Nil)
  next
    case True
    let ?s = "fold (evict_one (fail i)) (evict_batch s) s"
    have step: "evict fail i s = evict fail (Suc i) ?s"
      using True assms(2) by (subst evict.simps) (simp add: no_failure_def)
    have meta: "cs_meta ?s = without_oldest ?b (cs_meta s)" by (rule round_meta [OF less.prems assms(2)])
    obtain e where e: "e \<in> set (evict_batch s)" using True by (metis hd_in_set)
    then have "e \<in> set (cs_meta s)" using evict_batch_rows by auto
    with e have "length (cs_meta ?s) < length (cs_meta s)"
      unfolding meta without_oldest_def by (intro length_filter_less) (auto simp: evict_batch_def)
    note IH = less.hyps [OF this round_inv [OF less.prems], of "Suc i", unfolded fold_evict_limits]
    obtain s' n where
      s': "evict fail (Suc i) ?s = Some s'" "cache_inv s'" "cs_cfg s' = cs_cfg s" "cs_max s' = cs_max s"
        "cs_mark s' = cs_mark s" "over_mark s' \<longrightarrow> cs_meta s' = []"
      and m': "cs_meta s' = without_oldest (n * ?b) (cs_meta ?s)"
      and over: "0 < n \<longrightarrow> wrap64 (total_size (without_oldest ((n - 1) * ?b) (cs_meta ?s))) > cache_watermark ?s"
      and files: "\<forall>path. path \<notin> path_for (cs_cfg s) ` cm_key ` set (cs_meta ?s) \<longrightarrow> cs_files s' path = cs_files ?s path"
      using IH by (elim exE conjE) (rule that; assumption)
    have mark: "cache_watermark ?s = cache_watermark s" by (simp add: cache_watermark_def)
    have "cs_meta s' = without_oldest (Suc n * ?b) (cs_meta s)"
      using m' by (simp add: meta without_oldest_add [OF dist])
    moreover have "wrap64 (total_size (without_oldest ((Suc n - 1) * ?b) (cs_meta s))) > cache_watermark s"
    proof (cases "n = 0")
      case True
      with \<open>over_mark s \<and> evict_batch s \<noteq> []\<close> total show ?thesis by (simp add: over_mark_def)
    next
      case False
      then obtain k where "n = Suc k" by (cases n) auto
      with over show ?thesis by (simp add: mark meta without_oldest_add [OF dist])
    qed
    moreover have "cs_files s' path = cs_files s path"
      if "path \<notin> path_for (cs_cfg s) ` cm_key ` set (cs_meta s)" for path
    proof -
      have "path \<notin> path_for (cs_cfg s) ` cm_key ` set (cs_meta ?s)"
        using that by (auto simp: meta without_oldest_def)
      moreover have "cs_files ?s path = cs_files s path"
        by (rule fold_evict_files) (use that evict_batch_rows in blast)
      ultimately show ?thesis using files by simp
    qed
    ultimately show ?thesis using s' step by (intro exI [of _ s'] exI [of _ "Suc n"]) auto
  qed
qed

section \<open>Rounds that never end\<close>

definition stuck :: "(nat \<Rightarrow> cache_step \<Rightarrow> bool) \<Rightarrow> cache_state \<Rightarrow> bool" where
  "stuck fail s \<longleftrightarrow> over_mark s \<and> evict_batch s \<noteq> [] \<and>
     (\<forall>i. \<not> fail i EvictQuery \<and> (\<forall>e \<in> set (evict_batch s). fail i (RemoveFile (cm_key e))))"

lemma stuck_no_result:
  assumes "evict fail i s = Some s'"
  shows "\<not> stuck fail s"
proof (rule evict.raw_induct [where P = "\<lambda>fail i s s'. \<not> stuck fail s", OF _ assms])
  fix rec :: "(nat \<Rightarrow> cache_step \<Rightarrow> bool) \<Rightarrow> nat \<Rightarrow> cache_state \<Rightarrow> cache_state option"
    and fail i s s'
  assume IH: "\<And>fail i s s'. rec fail i s = Some s' \<Longrightarrow> \<not> stuck fail s"
    and body: "(if \<not> over_mark s then Some s else if fail i EvictQuery then Some s
      else if evict_batch s = [] then Some s
      else rec fail (Suc i) (fold (evict_one (fail i)) (evict_batch s) s)) = Some s'"
  show "\<not> stuck fail s"
  proof
    assume st: "stuck fail s"
    then have "fold (evict_one (fail i)) (evict_batch s) s = s"
      by (intro fold_evict_stuck) (simp add: stuck_def)
    with body st have "rec fail (Suc i) s = Some s'" by (simp add: stuck_def)
    from IH [OF this] st show False by simp
  qed
qed

lemma stuck_evict: "stuck fail s \<Longrightarrow> evict fail i s = None"
  using stuck_no_result by (cases "evict fail i s") auto

end
