(* ===== verification/CacheProps.thy ===== *)
theory CacheProps
  imports CacheEvict
begin

text \<open>The properties of the disk cache.\<close>

section \<open>Reachable states\<close>

text \<open>
  What happens to an opened cache: requests read and write it, the administrator changes its limits
  and the eviction goroutine runs, each as a whole. A put whose read of the old size fails is left
  out: the code goes on with 0 and the total drifts.
\<close>

inductive cache_op :: "cache_state \<Rightarrow> cache_state \<Rightarrow> bool" where
  op_get: "cache_op s (snd (cache_get fail now key s))"
| op_put: "\<not> fail ReadOldSize \<Longrightarrow> cache_op s (snd (cache_put fail disk now key ct ps s))"
| op_limits: "cache_op s (set_limits mx f s)"
| op_evict: "evict fail i s = Some s' \<Longrightarrow> cache_op s s'"

inductive cache_reach :: "cache_config \<Rightarrow> cache_meta list \<Rightarrow> cache_state \<Rightarrow> bool"
  for cfg ms where
  reach_open: "open_cache fail evict_fail cfg ms fs = Some (Inr s) \<Longrightarrow> cache_reach cfg ms s"
| reach_op: "cache_reach cfg ms s \<Longrightarrow> cache_op s s' \<Longrightarrow> cache_reach cfg ms s'"

inductive_cases cache_opE: "cache_op s s'"

lemma evict_inv [keeps_inv]:
  assumes "evict fail i s = Some s'" and "cache_inv s"
  shows "cache_inv s'"
proof -
  have "cache_inv s \<longrightarrow> cache_inv s'"
  proof (rule evict.raw_induct [where P = "\<lambda>fail i s s'. cache_inv s \<longrightarrow> cache_inv s'", OF _ assms(1)])
    fix rec :: "(nat \<Rightarrow> cache_step \<Rightarrow> bool) \<Rightarrow> nat \<Rightarrow> cache_state \<Rightarrow> cache_state option"
      and fail i s s'
    assume IH: "\<And>fail i s s'. rec fail i s = Some s' \<Longrightarrow> cache_inv s \<longrightarrow> cache_inv s'"
      and body: "(if \<not> over_mark s then Some s else if fail i EvictQuery then Some s
        else if evict_batch s = [] then Some s
        else rec fail (Suc i) (fold (evict_one (fail i)) (evict_batch s) s)) = Some s'"
    show "cache_inv s \<longrightarrow> cache_inv s'"
      using body IH round_inv [of s "fail i"] by (auto split: if_splits)
  qed
  with assms(2) show ?thesis by simp
qed

lemma cache_op_inv: "cache_op s s' \<Longrightarrow> cache_inv s \<Longrightarrow> cache_inv s'"
  by (erule cache_opE) (simp_all add: keeps_inv)

lemma normal_config_ok:
  "normal_config cfg = Inr cfg' \<Longrightarrow>
     0 < cc_batch cfg' \<and> 0 < cc_max cfg' \<and> 0 < cc_max_file cfg' \<and> cc_dir cfg' = cc_dir cfg \<and> cc_dir cfg' \<noteq> [] \<and>
     (cc_layout cfg' = ''sharded'' \<or> cc_layout cfg' = ''flat'') \<and>
     \<not> fl_le_0 (cc_mark cfg') \<and> \<not> fl_gt_1 (cc_mark cfg')"
proof -
  assume "normal_config cfg = Inr cfg'"
  then have "cfg' = fill_defaults cfg" and "cc_dir cfg \<noteq> []"
    and "cc_layout cfg' = ''sharded'' \<or> cc_layout cfg' = ''flat''"
    by (auto simp: normal_config_def split: if_splits)
  then show ?thesis
    by (simp add: fill_defaults_def default_max_bytes_def default_max_file_def default_batch_def default_mark_def)
qed

lemma open_inv:
  assumes "open_cache fail evict_fail cfg ms fs = Some (Inr s)" and "tbl_unique cm_key ms"
  shows "cache_inv s"
proof -
  obtain c where c: "normal_config cfg = Inr c" using assms(1) by (auto simp: open_cache_def split: sum.splits)
  let ?s0 = "\<lparr>cs_cfg = c, cs_meta = ms, cs_files = fs, cs_total = total_size ms, cs_max = cc_max c,
      cs_mark = cc_mark c, cs_due = False\<rparr>"
  have "evict evict_fail 0 ?s0 = Some s" and "is_int64 (total_size ms)"
    using assms(1) c by (auto simp: open_cache_def split: if_splits option.splits)
  moreover have "cache_inv ?s0"
    using assms(2) normal_config_ok [OF c] \<open>is_int64 (total_size ms)\<close> by (simp add: cache_inv_def)
  ultimately show ?thesis using evict_inv by blast
qed

lemma total_size_filter:
  "\<forall>m \<in> set ms. 0 \<le> cm_size m \<Longrightarrow>
     0 \<le> total_size (filter P ms) \<and> total_size (filter P ms) \<le> total_size ms"
  by (induction ms) auto

section \<open>A small cache\<close>

definition ex_key :: "char \<Rightarrow> string" where "ex_key c = replicate 64 c"

definition ex_row :: "char \<Rightarrow> int \<Rightarrow> cache_meta" where
  "ex_row c t = \<lparr>cm_key = ex_key c, cm_size = 6, cm_atime = t, cm_created = 0, cm_ctype = ''image/png''\<rparr>"

definition ex_cfg :: cache_config where
  "ex_cfg = \<lparr>cc_dir = ''/c'', cc_tmp = ''/c/tmp'', cc_max = 10, cc_max_file = 8, cc_layout = ''flat'',
     cc_mark = Fin 1, cc_batch = 1\<rparr>"

text \<open>Two files of six bytes with a limit of ten.\<close>

definition ex_cache :: cache_state where
  "ex_cache = \<lparr>cs_cfg = ex_cfg, cs_meta = [ex_row CHR ''a'' 2, ex_row CHR ''b'' 1],
     cs_files = [path_for ex_cfg (ex_key CHR ''a'') \<mapsto> ''aaaaaa'', path_for ex_cfg (ex_key CHR ''b'') \<mapsto> ''bbbbbb''],
     cs_total = 12, cs_max = 10, cs_mark = Fin 1, cs_due = False\<rparr>"

lemma ex_key_inj [simp]: "ex_key c = ex_key d \<longleftrightarrow> c = d"
  by (simp add: ex_key_def)

lemma is_key_ex: "is_key (ex_key CHR ''a'')" "is_key (ex_key CHR ''b'')"
  by (simp_all add: is_key_def ex_key_def)

lemma ex_cache_inv: "cache_inv ex_cache"
proof -
  have "is_int64 12" by (simp add: is_int64_def min64_def max64_def)
  then show ?thesis
    by (simp add: cache_inv_def ex_cache_def ex_cfg_def tbl_unique_def ex_row_def)
qed

lemma ex_mark: "cache_watermark ex_cache = 10"
  by code_simp

lemma ex_batch: "evict_batch ex_cache = [ex_row CHR ''b'' 1]"
  by (simp add: evict_batch_def ex_cache_def ex_cfg_def ex_row_def)

section \<open>Properties\<close>

text \<open>
  C8: Termination. When no file operation and no statement fails, the eviction loop ends; the total is
  then the sum of the sizes in the table and at most the watermark, what was evicted was used no
  later than anything that stays, and one batch less would not have been enough.
\<close>

theorem evict_reaches_watermark:
  assumes "cache_inv s" and "no_failure fail"
    and "\<forall>m \<in> set (cs_meta s). 0 \<le> cm_size m" and "total_size (cs_meta s) \<le> max64"
    and "cs_mark s = Fin f" and "0 \<le> f" and "f \<le> 1" and "0 \<le> cs_max s" and "cs_max s \<le> 2 ^ 53"
  shows "\<exists>s' n. evict fail 0 s = Some s' \<and> cs_total s' = total_size (cs_meta s') \<and>
     cs_total s' \<le> cache_watermark s \<and> cache_watermark s \<le> cs_max s \<and>
     set (cs_meta s') \<subseteq> set (cs_meta s) \<and>
     (\<forall>e \<in> set (cs_meta s) - set (cs_meta s'). \<forall>m \<in> set (cs_meta s'). cm_atime e \<le> cm_atime m) \<and>
     cs_meta s' = without_oldest (n * nat (cc_batch (cs_cfg s))) (cs_meta s) \<and>
     (0 < n \<longrightarrow> cache_watermark s < total_size (without_oldest ((n - 1) * nat (cc_batch (cs_cfg s))) (cs_meta s)))"
proof -
  obtain s' n where s': "evict fail 0 s = Some s'" "cache_inv s'" "cs_max s' = cs_max s" "cs_mark s' = cs_mark s"
      "over_mark s' \<longrightarrow> cs_meta s' = []"
    and m': "cs_meta s' = without_oldest (n * nat (cc_batch (cs_cfg s))) (cs_meta s)"
    and over: "0 < n \<longrightarrow> wrap64 (total_size (without_oldest ((n - 1) * nat (cc_batch (cs_cfg s))) (cs_meta s)))
        > cache_watermark s"
    using evict_rounds [OF assms(1,2), of 0] by (elim exE conjE) (rule that; assumption)
  have exact: "wrap64 (total_size (without_oldest k (cs_meta s))) = total_size (without_oldest k (cs_meta s))" for k
  proof (rule wrap64_id)
    from total_size_filter [OF assms(3), of "\<lambda>m. m \<notin> set (take k (sort_key cm_atime (cs_meta s)))"] assms(4)
    show "is_int64 (total_size (without_oldest k (cs_meta s)))"
      by (simp add: is_int64_def min64_def without_oldest_def)
  qed
  have mark: "0 \<le> cache_watermark s \<and> cache_watermark s \<le> cs_max s"
    unfolding cache_watermark_def assms(5) by (rule mul_int64_bounds) (use assms in auto)
  have total: "cs_total s' = total_size (cs_meta s')"
    using s'(2) exact by (simp add: cache_inv_def m')
  moreover have "cs_total s' \<le> cache_watermark s"
  proof (cases "over_mark s'")
    case True
    with s' total mark show ?thesis by simp
  next
    case False
    with s' show ?thesis by (simp add: over_mark_def cache_watermark_def)
  qed
  moreover have "cm_atime e \<le> cm_atime m" if "e \<in> set (cs_meta s) - set (cs_meta s')" "m \<in> set (cs_meta s')" for e m
    using that without_oldest_lru [of e "cs_meta s"] by (auto simp: m')
  ultimately show ?thesis
    using s'(1) m' over mark exact
    by (intro exI [of _ s'] exI [of _ n]) (auto simp: without_oldest_def)
qed

theorem evict_reaches_watermark_witness:
  "\<exists>s'. evict (\<lambda>_ _. False) 0 ex_cache = Some s' \<and> cs_total s' \<le> 10"
proof -
  have "no_failure (\<lambda>_ _. False)" by (simp add: no_failure_def)
  moreover have "cs_mark ex_cache = Fin 1" "cs_max ex_cache = 10" by (simp_all add: ex_cache_def)
  ultimately show ?thesis
    using evict_reaches_watermark [OF ex_cache_inv, of "\<lambda>_ _. False" 1]
    by (simp add: ex_mark) (auto simp: ex_cache_def ex_row_def max64_def)
qed

text \<open>
  Invariant. In every state the cache reaches, through any requests, changes of the limits and
  evictions, with any failures but that of reading an old size, the table has one row per key and
  the total is the sum of the sizes in the table, modulo 64-bit wrap-around.
\<close>

theorem cache_total_exact:
  assumes "cache_reach cfg ms s" and "tbl_unique cm_key ms"
  shows "tbl_unique cm_key (cs_meta s) \<and> cs_total s = wrap64 (total_size (cs_meta s))"
proof -
  from assms(1) have "cache_inv s"
    by (induction rule: cache_reach.induct) (auto intro: open_inv [OF _ assms(2)] cache_op_inv)
  then show ?thesis by (simp add: cache_inv_def)
qed

theorem cache_total_exact_witness:
  "\<exists>s. cache_reach ex_cfg [] s \<and> cs_total s = wrap64 (total_size (cs_meta s))"
proof -
  let ?s = "\<lparr>cs_cfg = ex_cfg, cs_meta = [], cs_files = Map.empty, cs_total = 0, cs_max = 10, cs_mark = Fin 1, cs_due = False\<rparr>"
  have "\<not> over_mark ?s" by code_simp
  then have "evict (\<lambda>_ _. False) 0 ?s = Some ?s" by (subst evict.simps) simp
  moreover have "normal_config ex_cfg = Inr ex_cfg" by (simp add: normal_config_def fill_defaults_def ex_cfg_def)
  moreover have "is_int64 0" by (simp add: is_int64_def min64_def max64_def)
  ultimately have "open_cache (\<lambda>_. False) (\<lambda>_ _. False) ex_cfg [] Map.empty = Some (Inr ?s)"
    by (simp add: open_cache_def) (simp add: ex_cfg_def)
  note cache_total_exact [OF reach_open [OF this]] and reach_open [OF this]
  then show ?thesis by (intro exI [of _ ?s] conjI) simp_all
qed

text \<open>
  C9: Round trip. After a put that reports success a read of the key returns exactly the bytes that
  were written, with the content type and the size they were stored with; the entries of all other
  keys are what they were.
\<close>

theorem cache_get_after_put:
  assumes "cache_ready s" and "is_key key"
    and "cache_put fail disk now key ct chunks s = (Inr True, s')"
  shows "(\<exists>m s''. cache_get (\<lambda>_. False) now' key s' = (Inr (Some (concat chunks, m)), s'') \<and>
       cm_ctype m = ct \<and> cm_size m = int (length (concat chunks))) \<and>
     (\<forall>key'. is_key key' \<and> key' \<noteq> key \<longrightarrow> cache_lookup s' key' = cache_lookup s key')"
proof -
  have put: "env_put (fail, disk, now) key ct chunks s = (Inr True, s')"
    using assms(3) by (simp add: env_put_def)
  have "cache_lookup s' key = Some (concat chunks, ct)" by (rule disk.put_stored [OF assms(1,2) put])
  then obtain m where m: "tbl_find cm_key key (cs_meta s') = Some m" "cm_ctype m = ct"
    and body: "cs_files s' (path_for (cs_cfg s') key) = Some (concat chunks)"
    by (auto simp: cache_lookup_def split: option.splits)
  obtain w where w: "new_writer fail key ct = Inr w"
    and c: "commit fail now (write_chunks (cc_max_file (cs_cfg s)) disk 0 chunks w) s = (Inr True, s')"
    using assms(3) by (auto simp: cache_put_def split: sum.splits)
  have w0: "w_n w = 0" "w_key w = key" using w by (auto simp: new_writer_def split: if_splits)
  then have "w_n (write_chunks (cc_max_file (cs_cfg s)) disk 0 chunks w) = int (length (concat chunks))"
    using commit_stored [OF c] write_chunks_ok [of "cc_max_file (cs_cfg s)" disk 0 chunks w] by simp
  with commit_stored [OF c] m w0 have "cm_size m = int (length (concat chunks))"
    by (auto simp: tbl_find_replace)
  with m body have "\<exists>m s''. cache_get (\<lambda>_. False) now' key s' = (Inr (Some (concat chunks, m)), s'') \<and>
      cm_ctype m = ct \<and> cm_size m = int (length (concat chunks))"
    by (simp add: cache_get_def get_row_def get_file_def)
  then show ?thesis using disk.put_other [OF assms(1,2) _ _ put] by blast
qed

theorem cache_get_after_put_witness:
  "\<exists>s' m s''. cache_put (\<lambda>_. False) (\<lambda>_. None) 5 (ex_key CHR ''a'') ''image/gif'' [''gif'', ''89''] ex_cache = (Inr True, s') \<and>
     cache_get (\<lambda>_. False) 9 (ex_key CHR ''a'') s' = (Inr (Some (''gif89'', m)), s'')"
proof -
  let ?p = "cache_put (\<lambda>_. False) (\<lambda>_. None) 5 (ex_key CHR ''a'') ''image/gif'' [''gif'', ''89''] ex_cache"
  have "fst ?p = Inr True"
    by (simp add: cache_put_def new_writer_def writer_write_def commit_def ex_cache_def ex_cfg_def upt_rec Let_def)
  then obtain s' where s': "?p = (Inr True, s')" by (metis prod.collapse)
  have "cache_ready ex_cache" by (simp add: cache_ready_def ex_cache_def ex_cfg_def)
  from cache_get_after_put [OF this is_key_ex(1) s', of 9] s' show ?thesis by simp blast
qed

text \<open>
  Bounds. A stream longer than the limit for one file leaves the cache as it was, whatever the
  chunks it arrives in and whatever fails; the caller is told that nothing was stored.
\<close>

theorem oversize_not_stored:
  assumes "cc_max_file (cs_cfg s) < int (length (concat chunks))" and "0 \<le> cc_max_file (cs_cfg s)"
  shows "snd (cache_put fail disk now key ct chunks s) = s \<and>
     fst (cache_put fail disk now key ct chunks s) \<noteq> Inr True"
proof (cases "new_writer fail key ct")
  case (Inl e)
  then show ?thesis by (simp add: cache_put_def)
next
  case (Inr w)
  then have w: "w_n w = 0" by (auto simp: new_writer_def split: if_splits)
  let ?w = "write_chunks (cc_max_file (cs_cfg s)) disk 0 chunks w"
  have "chunks \<noteq> []" using assms by auto
  then have "w_overflow ?w \<or> w_failed ?w"
    using write_chunks_ok [of "cc_max_file (cs_cfg s)" disk 0 chunks w] assms w by auto
  with Inr show ?thesis by (simp add: cache_put_def commit_def)
qed

theorem oversize_not_stored_witness:
  "snd (cache_put (\<lambda>_. False) (\<lambda>_. None) 5 (ex_key CHR ''c'') [] [''12345'', ''6789''] ex_cache) = ex_cache"
  using oversize_not_stored [of ex_cache "[''12345'', ''6789'']"] by (simp add: ex_cache_def ex_cfg_def)

text \<open>
  Liveness, a defect. When the files of one batch, the least recently used ones, cannot be removed,
  the loop does not leave them to a later round, as its comment says: it selects the same batch
  again and never returns. The eviction lock stays held, and a server that opens the cache in this
  condition does not start.
\<close>

theorem evict_stuck_never_returns:
  assumes "over_mark s" and "evict_batch s \<noteq> []"
    and "\<forall>i. \<not> fail i EvictQuery \<and> (\<forall>e \<in> set (evict_batch s). fail i (RemoveFile (cm_key e)))"
  shows "evict fail i s = None \<and>
     (normal_config cfg = Inr (cs_cfg s) \<and> is_int64 (total_size (cs_meta s)) \<and> \<not> cs_due s \<and>
      cs_total s = total_size (cs_meta s) \<and> cs_max s = cc_max (cs_cfg s) \<and> cs_mark s = cc_mark (cs_cfg s) \<longrightarrow>
      open_cache (\<lambda>_. False) fail cfg (cs_meta s) (cs_files s) = None)"
proof -
  have st: "stuck fail s" using assms by (simp add: stuck_def)
  let ?s0 = "\<lparr>cs_cfg = cs_cfg s, cs_meta = cs_meta s, cs_files = cs_files s, cs_total = total_size (cs_meta s),
      cs_max = cc_max (cs_cfg s), cs_mark = cc_mark (cs_cfg s), cs_due = False\<rparr>"
  have "evict fail 0 ?s0 = None"
    if "\<not> cs_due s" "cs_total s = total_size (cs_meta s)" "cs_max s = cc_max (cs_cfg s)" "cs_mark s = cc_mark (cs_cfg s)"
  proof -
    have "?s0 = s" using that by (cases s) simp
    then show ?thesis using stuck_evict [OF st] by simp
  qed
  with stuck_evict [OF st] show ?thesis by (auto simp: open_cache_def)
qed

theorem evict_stuck_never_returns_witness:
  "evict (\<lambda>_ st. st = RemoveFile (ex_key CHR ''b'')) 0 ex_cache = None"
proof -
  have "over_mark ex_cache" using ex_mark by (simp add: over_mark_def ex_cache_def)
  from evict_stuck_never_returns [OF this, of "\<lambda>_ st. st = RemoveFile (ex_key CHR ''b'')"]
  show ?thesis by (simp add: ex_batch ex_row_def)
qed

text \<open>
  Safety, a defect. Two requests that both find the row of a file that is gone subtract its size
  twice: deleting a row that is already deleted is no error. The total is then below the sum of
  the sizes for good, and the cache grows past its limit.
\<close>

theorem get_race_subtracts_twice:
  assumes "cache_inv s" and "get_row (\<lambda>_. False) key s = Inr (Some m)"
    and "cs_files s (path_for (cs_cfg s) key) = None"
    and "s1 = snd (get_file (\<lambda>_. False) now1 key m s)" and "s2 = snd (get_file (\<lambda>_. False) now2 key m s1)"
  shows "cs_meta s2 = drop_row key (cs_meta s) \<and>
     cs_total s2 = wrap64 (total_size (cs_meta s2) - cm_size m)"
proof -
  have m: "m \<in> set (cs_meta s)" "cm_key m = key"
    using assms(2) by (auto simp: get_row_def dest: tbl_find_SomeD)
  have s1: "s1 = s\<lparr>cs_meta := drop_row key (cs_meta s), cs_total := wrap64 (cs_total s - cm_size m)\<rparr>"
    using assms(3,4) by (simp add: get_file_def)
  have s2: "s2 = s1\<lparr>cs_meta := drop_row key (cs_meta s1), cs_total := wrap64 (cs_total s1 - cm_size m)\<rparr>"
    using assms(3,5) by (simp add: get_file_def s1)
  have "drop_row key (drop_row key (cs_meta s)) = drop_row key (cs_meta s)"
    by (simp add: drop_row_def tbl_delete_def)
  with assms(1) m total_drop_row [of "cs_meta s" m] show ?thesis
    by (simp add: s1 s2 cache_inv_def wrap64_diff_left)
qed

theorem get_race_subtracts_twice_witness:
  "\<exists>m s0 s1 s2. s0 = ex_cache\<lparr>cs_files := Map.empty\<rparr> \<and> get_row (\<lambda>_. False) (ex_key CHR ''a'') s0 = Inr (Some m) \<and>
     s1 = snd (get_file (\<lambda>_. False) 3 (ex_key CHR ''a'') m s0) \<and>
     s2 = snd (get_file (\<lambda>_. False) 4 (ex_key CHR ''a'') m s1) \<and> cs_total s2 = 0 \<and> total_size (cs_meta s2) = 6"
proof -
  let ?s = "ex_cache\<lparr>cs_files := Map.empty\<rparr>"
  let ?m = "ex_row CHR ''a'' 2"
  have inv: "cache_inv ?s" using ex_cache_inv by (simp add: cache_inv_def)
  have row: "get_row (\<lambda>_. False) (ex_key CHR ''a'') ?s = Inr (Some ?m)"
    by (simp add: get_row_def ex_cache_def ex_row_def tbl_find_def)
  have int: "is_int64 0" by (simp add: is_int64_def min64_def max64_def)
  define s1 where "s1 = snd (get_file (\<lambda>_. False) 3 (ex_key CHR ''a'') ?m ?s)"
  define s2 where "s2 = snd (get_file (\<lambda>_. False) 4 (ex_key CHR ''a'') ?m s1)"
  have meta: "drop_row (ex_key CHR ''a'') (cs_meta ex_cache) = [ex_row CHR ''b'' 1]"
    by (simp add: ex_cache_def ex_row_def drop_row_def tbl_delete_def)
  have size: "cm_size (ex_row c t) = 6" for c t by (simp add: ex_row_def)
  from get_race_subtracts_twice [OF inv row _ s1_def s2_def]
  have "cs_total s2 = 0 \<and> total_size (cs_meta s2) = 6" using int by (simp add: meta size)
  with row s1_def s2_def show ?thesis by blast
qed

end
