(* ===== verification/CacheStep.thy ===== *)
theory CacheStep
  imports CacheProps
begin

text \<open>
  The disk cache under concurrent use. No lock but the one of the eviction is held while \<^verbatim>\<open>Get\<close>, \<^verbatim>\<open>Commit\<close> and \<^verbatim>\<open>evict\<close> go
  from one statement or file operation to the next, so that each of these is a step, and a run is any sequence of them.
\<close>

section \<open>Steps\<close>

text \<open>
  Where an operation is. \<^verbatim>\<open>Get\<close>: \<open>Finding\<close> to \<open>Touching\<close>. \<^verbatim>\<open>Put\<close>: \<open>Creating\<close> (\<^verbatim>\<open>NewWriter\<close>), \<open>Writing\<close> with the chunks to
  come, and \<^verbatim>\<open>Commit\<close>: \<open>Closing\<close>, which is its guard and \<^verbatim>\<open>Close\<close>, to \<open>Marking\<close>. A chunk comes with what the disk takes of
  it, as in \<open>writer_write\<close>. The eviction: \<open>Locking\<close> to \<open>Deducting\<close>, with the rest of its batch.
\<close>

datatype cache_result = Hit string string cache_meta | Missed | Stored bool | Evicted

datatype cache_phase =
    Finding string | Opening string cache_meta | Dropping string cache_meta | Subtracting int
  | Touching string string cache_meta
  | Creating string string "(string \<times> nat option) list" | Writing "(string \<times> nat option) list" writer
  | Closing writer | Sharding writer
  | Renaming writer | Sizing writer | Upserting writer int | Adding int | Marking
  | Locking | Looping | Removing "cache_meta list" | Deleting cache_meta "cache_meta list"
  | Deducting int "cache_meta list"
  | Returned cache_result

text \<open>
  One step of an operation on the lock of the eviction and the cache, at the time \<open>now\<close>. \<open>fail\<close>: the statement or file
  operation fails. For \<open>Opening\<close> this is an error other than a missing file, for \<open>Locking\<close> it is \<^verbatim>\<open>TryLock\<close>, which gives up
  when the lock is taken, in place of \<^verbatim>\<open>Lock\<close>, which waits.
\<close>

fun op_step :: "bool \<Rightarrow> int \<Rightarrow> cache_phase \<Rightarrow> bool \<times> cache_state \<Rightarrow> cache_phase \<times> bool \<times> cache_state" where
  "op_step fail now (Finding k) (l, s) =
     (if fail then Returned Missed
      else (case tbl_find cm_key k (cs_meta s) of None \<Rightarrow> Returned Missed | Some m \<Rightarrow> Opening k m), l, s)"
| "op_step fail now (Opening k m) (l, s) =
     (if fail then Returned Missed
      else (case cs_files s (path_for (cs_cfg s) k) of None \<Rightarrow> Dropping k m | Some body \<Rightarrow> Touching k body m), l, s)"
| "op_step fail now (Dropping k m) (l, s) =
     (if fail then (Returned Missed, l, s)
      else (Subtracting (cm_size m), l, s\<lparr>cs_meta := drop_row k (cs_meta s)\<rparr>))"
| "op_step fail now (Subtracting n) (l, s) = (Returned Missed, l, s\<lparr>cs_total := wrap64 (cs_total s - n)\<rparr>)"
| "op_step fail now (Touching k body m) (l, s) =
     (Returned (Hit k body m), l, if fail then s else s\<lparr>cs_meta := touch_row k now (cs_meta s)\<rparr>)"
| "op_step fail now (Creating k ct cs) (l, s) =
     (case new_writer (\<lambda>_. fail) k ct of Inl e \<Rightarrow> Returned (Stored False) | Inr w \<Rightarrow> Writing cs w, l, s)"
| "op_step fail now (Writing [] w) (l, s) = (Closing w, l, s)"
| "op_step fail now (Writing (c # cs) w) (l, s) =
     (Writing cs (writer_write (cc_max_file (cs_cfg s)) (snd c) (fst c) w), l, s)"
| "op_step fail now (Closing w) (l, s) =
     (if w_overflow w \<or> w_failed w \<or> fail then Returned (Stored False) else Sharding w, l, s)"
| "op_step fail now (Sharding w) (l, s) = (if fail then Returned (Stored False) else Renaming w, l, s)"
| "op_step fail now (Renaming w) (l, s) =
     (if fail then (Returned (Stored False), l, s)
      else (Sizing w, l, s\<lparr>cs_files := (cs_files s)(path_for (cs_cfg s) (w_key w) \<mapsto> w_body w)\<rparr>))"
| "op_step fail now (Sizing w) (l, s) =
     (Upserting w (if fail then 0 else case tbl_find cm_key (w_key w) (cs_meta s) of None \<Rightarrow> 0 | Some m \<Rightarrow> cm_size m), l, s)"
| "op_step fail now (Upserting w old) (l, s) =
     (if fail then (Returned (Stored False), l, s)
      else (Adding (w_n w - old), l, s\<lparr>cs_meta := tbl_replace cm_key
              \<lparr>cm_key = w_key w, cm_size = w_n w, cm_atime = now, cm_created = now, cm_ctype = w_ctype w\<rparr> (cs_meta s)\<rparr>))"
| "op_step fail now (Adding d) (l, s) = (Marking, l, s\<lparr>cs_total := wrap64 (cs_total s + wrap64 d)\<rparr>)"
| "op_step fail now Marking (l, s) = (Returned (Stored True), l, maybe_evict s)"
| "op_step fail now Locking (l, s) =
     (if l then (if fail then Returned Evicted else Locking, l, s) else (Looping, True, s))"
| "op_step fail now Looping (l, s) =
     (if \<not> over_mark s \<or> fail \<or> evict_batch s = [] then (Returned Evicted, False, s)
      else (Removing (evict_batch s), l, s))"
| "op_step fail now (Removing []) (l, s) = (Looping, l, s)"
| "op_step fail now (Removing (e # es)) (l, s) =
     (if fail then (Removing es, l, s)
      else (Deleting e es, l, s\<lparr>cs_files := (cs_files s)(path_for (cs_cfg s) (cm_key e) := None)\<rparr>))"
| "op_step fail now (Deleting e es) (l, s) =
     (if fail then (Removing es, l, s)
      else (Deducting (cm_size e) es, l, s\<lparr>cs_meta := drop_row (cm_key e) (cs_meta s)\<rparr>))"
| "op_step fail now (Deducting n es) (l, s) = (Removing es, l, s\<lparr>cs_total := wrap64 (cs_total s - n)\<rparr>)"
| "op_step fail now (Returned r) (l, s) = (Returned r, l, s)"

text \<open>
  The cache with the operations at work in it. An event starts an operation or lets one do a step.
\<close>

record cache_system =
  cy_lock :: bool
  cy_cache :: cache_state
  cy_ops :: "cache_phase list"

datatype cache_event =
    StartGet string | StartPut string string "(string \<times> nat option) list" | StartEvict | Go nat bool int

fun do_event :: "cache_event \<Rightarrow> cache_system \<Rightarrow> cache_system" where
  "do_event (StartGet k) y = y\<lparr>cy_ops := cy_ops y @ [Finding k]\<rparr>"
| "do_event (StartPut k ct cs) y = y\<lparr>cy_ops := cy_ops y @ [Creating k ct cs]\<rparr>"
| "do_event StartEvict y = y\<lparr>cy_ops := cy_ops y @ [Locking]\<rparr>"
| "do_event (Go j fail now) y =
     (if j < length (cy_ops y) then
        (case op_step fail now (cy_ops y ! j) (cy_lock y, cy_cache y) of
           (p, l, s) \<Rightarrow> \<lparr>cy_lock = l, cy_cache = s, cy_ops = (cy_ops y)[j := p]\<rparr>)
      else y)"

fun cache_run :: "cache_event list \<Rightarrow> cache_system \<Rightarrow> cache_system" where
  "cache_run [] y = y"
| "cache_run (e # es) y = cache_run es (do_event e y)"

definition idle_cache :: "cache_state \<Rightarrow> cache_system" where
  "idle_cache s = \<lparr>cy_lock = False, cy_cache = s, cy_ops = []\<rparr>"

section \<open>One operation alone\<close>

text \<open>The steps of one operation that meets no other are the operation of \<^verbatim>\<open>Cache\<close>. \<open>fails i\<close> is for its \<open>i\<close>-th step.\<close>

fun solo :: "(nat \<Rightarrow> bool) \<Rightarrow> int \<Rightarrow> nat \<Rightarrow> cache_phase \<times> bool \<times> cache_state \<Rightarrow> cache_phase \<times> bool \<times> cache_state" where
  "solo fails now 0 c = c"
| "solo fails now (Suc n) (p, l, s) = solo (\<lambda>i. fails (Suc i)) now n (op_step (fails 0) now p (l, s))"

fun get_answer :: "go_error + (string \<times> cache_meta) option \<Rightarrow> string \<Rightarrow> cache_result" where
  "get_answer (Inr (Some (body, m))) k = Hit k body m"
| "get_answer _ k = Missed"

text \<open>The four steps of a read: the query, the file, and \<^verbatim>\<open>UPDATE\<close>, or \<^verbatim>\<open>DELETE\<close> and the subtraction.\<close>

lemma solo_get:
  "solo (\<lambda>i. fail (if i = 0 then QueryMeta else if i = 1 then OpenFile
        else if cs_files s (path_for (cs_cfg s) k) = None then DropMeta else TouchAtime)) now 4 (Finding k, l, s) =
     (Returned (get_answer (fst (cache_get fail now k s)) k), l, snd (cache_get fail now k s))"
  by (simp add: numeral_eq_Suc cache_get_def get_row_def get_file_def split: option.split)

text \<open>Steps one after the other.\<close>

lemma solo_add:
  "solo fails now (n + n') c = solo (\<lambda>i. fails (n + i)) now n' (solo fails now n c)"
proof (induction n arbitrary: fails c)
  case (Suc n)
  obtain p l s where "c = (p, l, s)" by (cases c)
  with Suc show ?case by simp
qed simp

lemma solo_cong: "(\<And>i. i < n \<Longrightarrow> f i = g i) \<Longrightarrow> solo f now n c = solo g now n c"
proof (induction n arbitrary: f g c)
  case (Suc n)
  obtain p l s where "c = (p, l, s)" by (cases c)
  with Suc(1) [of "\<lambda>i. f (Suc i)" "\<lambda>i. g (Suc i)"] Suc(2) [of 0] Suc(2) [of "Suc i" for i] show ?case by simp
qed simp

lemma solo_append:
  assumes "solo f now n c = c'" and "solo g now n' c' = c''"
  shows "solo (\<lambda>i. if i < n then f i else g (i - n)) now (n + n') c = c''"
proof -
  have "solo (\<lambda>i. if i < n then f i else g (i - n)) now n c = c'"
    using solo_cong [of n f "\<lambda>i. if i < n then f i else g (i - n)" now c] assms(1) by simp
  with assms(2) show ?thesis by (simp add: solo_add)
qed

text \<open>The seven steps of a commit: whatever its writer, it stores what \<open>commit\<close> stores.\<close>

lemma solo_returned [simp]: "solo fails now n (Returned r, l, s) = (Returned r, l, s)"
  by (induction n arbitrary: fails) simp_all

lemma solo_commit:
  "solo (\<lambda>i. if i = 2 then list_all (\<lambda>a. fail (RenameTemp a)) [0..<5]
        else fail (if i = 0 then CloseTemp else if i = 1 then MkdirShard else if i = 3 then ReadOldSize else UpsertMeta)) now 7
     (Closing w, l, s) =
     (Returned (Stored (fst (commit fail now w s) = Inr True)), l, snd (commit fail now w s))"
  by (simp add: numeral_eq_Suc commit_def Let_def split: option.split)

text \<open>The steps of a put: one for the writer, one for each chunk, one when they have all come, and the commit.\<close>

lemma solo_write:
  "solo fails now (Suc (length ps)) (Writing (zip ps (map disk [i..<i + length ps])) w, l, s) =
     (Closing (write_chunks (cc_max_file (cs_cfg s)) disk i ps w), l, s)"
proof (induction ps arbitrary: fails i w)
  case (Cons p ps)
  have "[i..<i + length (p # ps)] = i # [Suc i..<Suc i + length ps]" by (subst upt_conv_Cons) simp_all
  with Cons [of "\<lambda>j. fails (Suc j)" "Suc i"] show ?case by simp
qed simp

lemma solo_put:
  "\<exists>fails. solo fails now (length ps + 9) (Creating k ct (zip ps (map disk [0..<length ps])), l, s) =
     (Returned (Stored (fst (cache_put fail disk now k ct ps s) = Inr True)), l, snd (cache_put fail disk now k ct ps s))"
proof (cases "new_writer fail k ct")
  case (Inl e)
  have "solo (\<lambda>_. True) now (Suc (length ps + 8)) (Creating k ct (zip ps (map disk [0..<length ps])), l, s) =
      (Returned (Stored False), l, s)"
    by (simp only: solo.simps) (simp add: new_writer_def)
  then have "solo (\<lambda>_. True) now (length ps + 9) (Creating k ct (zip ps (map disk [0..<length ps])), l, s) =
      (Returned (Stored False), l, s)"
    by (simp only: add_Suc_right [symmetric]) simp
  then show ?thesis using Inl by (auto simp: cache_put_def)
next
  case (Inr w)
  have start: "solo (\<lambda>_. False) now 1 (Creating k ct (zip ps (map disk [0..<length ps])), l, s) =
      (Writing (zip ps (map disk [0..<0 + length ps])) w, l, s)"
    using Inr by (auto simp: new_writer_def split: if_splits)
  let ?done = "\<lambda>w. (Returned (Stored (fst (commit fail now w s) = Inr True)), l, snd (commit fail now w s))"
  obtain f where "solo f now (1 + (Suc (length ps) + 7)) (Creating k ct (zip ps (map disk [0..<length ps])), l, s) =
      ?done (write_chunks (cc_max_file (cs_cfg s)) disk 0 ps w)"
    using solo_append [OF start solo_append [OF solo_write solo_commit]] by blast
  moreover have "1 + (Suc (length ps) + 7) = length ps + 9" by simp
  ultimately show ?thesis using Inr by (simp only: cache_put_def sum.case) blast
qed

text \<open>The eviction, as long as its batch and its loop go on.\<close>

lemma solo_evict_batch: "\<exists>fails n. solo fails now n (Removing es, l, s) = (Removing [], l, fold (evict_one fail) es s)"
proof (induction es arbitrary: s)
  case Nil
  have "solo (\<lambda>_. False) now 0 (Removing [], l, s) = (Removing [], l, fold (evict_one fail) [] s)" by simp
  then show ?case by blast
next
  case (Cons e es)
  have "\<exists>f n. solo f now n (Removing (e # es), l, s) = (Removing es, l, evict_one fail e s)"
  proof (cases "fail (RemoveFile (cm_key e))")
    case True
    then have "solo (\<lambda>_. True) now 1 (Removing (e # es), l, s) = (Removing es, l, evict_one fail e s)"
      by (simp add: evict_one_def)
    then show ?thesis by blast
  next
    case False
    show ?thesis
    proof (cases "fail (DeleteMeta (cm_key e))")
      case True
      with False have "solo (\<lambda>i. i = 1) now 2 (Removing (e # es), l, s) = (Removing es, l, evict_one fail e s)"
        by (simp add: evict_one_def numeral_eq_Suc)
      then show ?thesis by blast
    next
      case go: False
      with False have "solo (\<lambda>_. False) now 3 (Removing (e # es), l, s) = (Removing es, l, evict_one fail e s)"
        by (simp add: evict_one_def numeral_eq_Suc)
      then show ?thesis by blast
    qed
  qed
  then obtain f n where f: "solo f now n (Removing (e # es), l, s) = (Removing es, l, evict_one fail e s)" by blast
  from Cons obtain g n' where "solo g now n' (Removing es, l, evict_one fail e s) =
      (Removing [], l, fold (evict_one fail) es (evict_one fail e s))" by blast
  from solo_append [OF f this] show ?case unfolding fold_simps by blast
qed

lemma solo_evict:
  assumes "evict fail i s = Some s'"
  shows "\<exists>fails n. solo fails now n (Looping, l, s) = (Returned Evicted, False, s')"
proof (rule evict.raw_induct [where P = "\<lambda>fail i s s'. \<exists>fails n. solo fails now n (Looping, l, s) = (Returned Evicted, False, s')",
      OF _ assms])
  fix ev :: "(nat \<Rightarrow> cache_step \<Rightarrow> bool) \<Rightarrow> nat \<Rightarrow> cache_state \<Rightarrow> cache_state option" and fail i s s'
  assume IH: "\<And>fail i s s'. ev fail i s = Some s' \<Longrightarrow> \<exists>fails n. solo fails now n (Looping, l, s) = (Returned Evicted, False, s')"
      and body: "(if \<not> over_mark s then Some s else if fail i EvictQuery then Some s
      else if evict_batch s = [] then Some s
      else ev fail (Suc i) (fold (evict_one (fail i)) (evict_batch s) s)) = Some s'"
  show "\<exists>fails n. solo fails now n (Looping, l, s) = (Returned Evicted, False, s')"
  proof (cases "\<not> over_mark s \<or> fail i EvictQuery \<or> evict_batch s = []")
    case True
    with body have "s' = s" by (auto split: if_splits)
    with True have "solo (\<lambda>_. fail i EvictQuery) now 1 (Looping, l, s) = (Returned Evicted, False, s')" by auto
    then show ?thesis by blast
  next
    case False
    let ?s = "fold (evict_one (fail i)) (evict_batch s) s"
    from False have query: "solo (\<lambda>_. False) now 1 (Looping, l, s) = (Removing (evict_batch s), l, s)" by simp
    obtain f n where batch: "solo f now n (Removing (evict_batch s), l, s) = (Removing [], l, ?s)"
      using solo_evict_batch by blast
    have again: "solo (\<lambda>_. False) now 1 (Removing [], l, ?s) = (Looping, l, ?s)" by simp
    from False body have "ev fail (Suc i) ?s = Some s'" by simp
    from IH [OF this] obtain g n' where "solo g now n' (Looping, l, ?s) = (Returned Evicted, False, s')" by blast
    from solo_append [OF query solo_append [OF batch solo_append [OF again this]]] show ?thesis by blast
  qed
qed

section \<open>Accounting\<close>

definition row_size :: "string \<Rightarrow> cache_meta list \<Rightarrow> int" where
  "row_size k ms = (case tbl_find cm_key k ms of None \<Rightarrow> 0 | Some m \<Rightarrow> cm_size m)"

text \<open>What an operation has yet to add to the total, and by how much a statement misses the row it has read before.\<close>

fun phase_owes :: "cache_phase \<Rightarrow> int" where
  "phase_owes (Subtracting n) = - n"
| "phase_owes (Adding d) = d"
| "phase_owes (Deducting n es) = - n"
| "phase_owes _ = 0"

definition owed :: "cache_system \<Rightarrow> int" where
  "owed y = sum_list (map phase_owes (cy_ops y))"

fun phase_stale :: "cache_phase \<Rightarrow> cache_state \<Rightarrow> int" where
  "phase_stale (Dropping k m) s = row_size k (cs_meta s) - cm_size m"
| "phase_stale (Deleting e es) s = row_size (cm_key e) (cs_meta s) - cm_size e"
| "phase_stale (Upserting w old) s = row_size (w_key w) (cs_meta s) - old"
| "phase_stale _ s = 0"

fun event_stale :: "cache_event \<Rightarrow> cache_system \<Rightarrow> int" where
  "event_stale (Go j fail now) y =
     (if j < length (cy_ops y) \<and> \<not> fail then phase_stale (cy_ops y ! j) (cy_cache y) else 0)"
| "event_stale _ y = 0"

fun run_stale :: "cache_event list \<Rightarrow> cache_system \<Rightarrow> int" where
  "run_stale [] y = 0"
| "run_stale (e # es) y = event_stale e y + run_stale es (do_event e y)"

lemma total_row: "tbl_unique cm_key ms \<Longrightarrow> total_size (drop_row k ms) = total_size ms - row_size k ms"
  by (simp add: total_drop_find row_size_def)

lemma wrap64_cong_add: "wrap64 a = wrap64 b \<Longrightarrow> wrap64 (a + c) = wrap64 (b + c)"
  by (metis wrap64_add_left)

lemma op_step_unique:
  "op_step fail now p (l, s) = (p', l', s') \<Longrightarrow> tbl_unique cm_key (cs_meta s) \<Longrightarrow> tbl_unique cm_key (cs_meta s')"
  by (induction fail now p "(l, s)" rule: op_step.induct)
    (auto simp: tbl_unique_drop_row tbl_unique_replace split: if_splits option.splits)

lemma op_step_account:
  assumes "op_step fail now p (l, s) = (p', l', s')" and "tbl_unique cm_key (cs_meta s)"
  shows "wrap64 (cs_total s' + phase_owes p' - total_size (cs_meta s')) =
     wrap64 (cs_total s + phase_owes p - total_size (cs_meta s) + (if fail then 0 else phase_stale p s))"
  using assms
proof (induction fail now p "(l, s)" rule: op_step.induct)
  case (4 fail now n)
  then have "s' = s\<lparr>cs_total := wrap64 (cs_total s - n)\<rparr>" "p' = Returned Missed" by auto
  then show ?case using wrap64_add_left [of "cs_total s - n" "- total_size (cs_meta s)"] by simp
next
  case (14 fail now d)
  then have "s' = s\<lparr>cs_total := wrap64 (cs_total s + wrap64 d)\<rparr>" "p' = Marking" by auto
  then show ?case
    using wrap64_add_left [of "cs_total s + wrap64 d" "- total_size (cs_meta s)"]
      wrap64_add_right [of "cs_total s - total_size (cs_meta s)" d]
    by (simp add: algebra_simps)
next
  case (21 fail now n es)
  then have "s' = s\<lparr>cs_total := wrap64 (cs_total s - n)\<rparr>" "p' = Removing es" by auto
  then show ?case using wrap64_add_left [of "cs_total s - n" "- total_size (cs_meta s)"] by simp
qed (auto simp: total_row replace_row new_writer_def algebra_simps split: if_splits option.splits sum.splits)

definition balance :: "cache_system \<Rightarrow> int" where
  "balance y = cs_total (cy_cache y) + owed y - total_size (cs_meta (cy_cache y))"

lemma sum_list_map_update:
  "j < length xs \<Longrightarrow> sum_list (map f (xs[j := v])) = sum_list (map f xs) + f v - (f (xs ! j) :: int)"
proof (induction xs arbitrary: j)
  case (Cons x xs)
  then show ?case by (cases j) auto
qed simp

lemma do_event_unique:
  "tbl_unique cm_key (cs_meta (cy_cache y)) \<Longrightarrow> tbl_unique cm_key (cs_meta (cy_cache (do_event e y)))"
  by (induction e y rule: do_event.induct) (auto simp: op_step_unique split: prod.split)

lemma do_event_account:
  assumes "tbl_unique cm_key (cs_meta (cy_cache y))"
  shows "wrap64 (balance (do_event e y)) = wrap64 (balance y + event_stale e y)"
proof (cases e)
  case (Go j fail now)
  show ?thesis
  proof (cases "j < length (cy_ops y)")
    case True
    obtain p l s where step: "op_step fail now (cy_ops y ! j) (cy_lock y, cy_cache y) = (p, l, s)" by (metis surj_pair)
    let ?rest = "owed y - phase_owes (cy_ops y ! j)"
    have "wrap64 (balance (do_event e y)) = wrap64 (cs_total s + phase_owes p - total_size (cs_meta s) + ?rest)"
      using True step Go by (simp add: balance_def owed_def sum_list_map_update algebra_simps)
    also have "\<dots> = wrap64 (cs_total (cy_cache y) + phase_owes (cy_ops y ! j) - total_size (cs_meta (cy_cache y)) +
        (if fail then 0 else phase_stale (cy_ops y ! j) (cy_cache y)) + ?rest)"
      by (rule wrap64_cong_add [OF op_step_account [OF step assms]])
    also have "\<dots> = wrap64 (balance y + event_stale e y)" using True Go by (simp add: balance_def algebra_simps)
    finally show ?thesis .
  qed (simp add: Go)
qed (simp_all add: balance_def owed_def)

text \<open>In every run the total is off by exactly what the statements have missed.\<close>

lemma cache_run_account:
  "tbl_unique cm_key (cs_meta (cy_cache y)) \<Longrightarrow>
     wrap64 (balance (cache_run es y)) = wrap64 (balance y + run_stale es y)"
proof (induction es arbitrary: y)
  case (Cons e es)
  have "wrap64 (balance (cache_run es (do_event e y))) = wrap64 (balance (do_event e y) + run_stale es (do_event e y))"
    by (rule Cons.IH [OF do_event_unique [OF Cons.prems]])
  also have "\<dots> = wrap64 (balance y + event_stale e y + run_stale es (do_event e y))"
    by (rule wrap64_cong_add [OF do_event_account [OF Cons.prems]])
  finally show ?case by (simp add: algebra_simps)
qed simp

end
