(* ===== verification/CacheStepProps.thy ===== *)
theory CacheStepProps
  imports CacheStep
begin

text \<open>
  What concurrent operations on the disk cache keep, and what they break: the total is exact as long as operations on the
  same key keep apart, and a hit is a whole image in every run.
\<close>

section \<open>Operations that keep apart\<close>

text \<open>The rows an operation has read and relies on, with the size it has read (0 for none).\<close>

fun row_claim :: "cache_meta \<Rightarrow> string \<times> int" where
  "row_claim e = (cm_key e, cm_size e)"

fun phase_claims :: "cache_phase \<Rightarrow> (string \<times> int) list" where
  "phase_claims (Opening k m) = [(k, cm_size m)]"
| "phase_claims (Dropping k m) = [(k, cm_size m)]"
| "phase_claims (Upserting w old) = [(w_key w, old)]"
| "phase_claims (Removing es) = map row_claim es"
| "phase_claims (Deleting e es) = map row_claim (e # es)"
| "phase_claims (Deducting n es) = map row_claim es"
| "phase_claims _ = []"

fun only_reads :: "cache_phase \<Rightarrow> bool" where
  "only_reads (Opening k m) = True"
| "only_reads _ = False"

definition claims_key :: "cache_phase \<Rightarrow> string \<Rightarrow> bool" where
  "claims_key p k \<longleftrightarrow> List.member (map fst (phase_claims p)) k"

text \<open>Two operations are apart when they rely on different rows, or both have only read theirs.\<close>

definition phases_apart :: "cache_phase \<Rightarrow> cache_phase \<Rightarrow> bool" where
  "phases_apart p q \<longleftrightarrow> only_reads p \<and> only_reads q \<or> list_all (\<lambda>(k, n). \<not> claims_key q k) (phase_claims p)"

definition apart :: "cache_system \<Rightarrow> bool" where
  "apart y \<longleftrightarrow>
     list_all (\<lambda>i. list_all (\<lambda>j. i = j \<or> phases_apart (cy_ops y ! i) (cy_ops y ! j)) [0..<length (cy_ops y)])
       [0..<length (cy_ops y)]"

text \<open>The code takes the old size as 0 when it cannot be read.\<close>

fun size_read :: "cache_event \<Rightarrow> cache_system \<Rightarrow> bool" where
  "size_read (Go j fail now) y \<longleftrightarrow>
     \<not> (j < length (cy_ops y) \<and> fail \<and> (case cy_ops y ! j of Sizing w \<Rightarrow> True | _ \<Rightarrow> False))"
| "size_read _ y \<longleftrightarrow> True"

fun apart_run :: "cache_event list \<Rightarrow> cache_system \<Rightarrow> bool" where
  "apart_run [] y \<longleftrightarrow> apart y"
| "apart_run (e # es) y \<longleftrightarrow> apart y \<and> size_read e y \<and> apart_run es (do_event e y)"

lemma apartD:
  "apart y \<Longrightarrow> i < length (cy_ops y) \<Longrightarrow> j < length (cy_ops y) \<Longrightarrow> i \<noteq> j \<Longrightarrow> phases_apart (cy_ops y ! i) (cy_ops y ! j)"
  by (fastforce simp: apart_def list_all_iff)

lemma phases_apartD:
  "phases_apart p q \<Longrightarrow> (k, n) \<in> set (phase_claims p) \<Longrightarrow> claims_key q k \<Longrightarrow> only_reads p \<and> only_reads q"
  by (auto simp: phases_apart_def list_all_iff)

section \<open>What has been read is still so\<close>

definition claims_hold :: "cache_phase \<Rightarrow> cache_meta list \<Rightarrow> bool" where
  "claims_hold p ms \<longleftrightarrow>
     distinct (map fst (phase_claims p)) \<and> (\<forall>(k, n) \<in> set (phase_claims p). row_size k ms = n)"

definition fresh :: "cache_system \<Rightarrow> bool" where
  "fresh y \<longleftrightarrow> tbl_unique cm_key (cs_meta (cy_cache y)) \<and> (\<forall>p \<in> set (cy_ops y). claims_hold p (cs_meta (cy_cache y)))"

lemma row_size_find: "tbl_find cm_key k ms = Some m \<Longrightarrow> row_size k ms = cm_size m"
  by (simp add: row_size_def)

lemma row_size_drop: "row_size k' (drop_row k ms) = (if k' = k then 0 else row_size k' ms)"
  by (induction ms) (auto simp: row_size_def drop_row_def tbl_find_def tbl_delete_def)

lemma row_size_replace: "row_size k' (tbl_replace cm_key r ms) = (if k' = cm_key r then cm_size r else row_size k' ms)"
  by (auto simp: row_size_def tbl_find_replace)

lemma row_size_touch: "row_size k' (touch_row k now ms) = row_size k' ms"
  by (induction ms) (auto simp: row_size_def touch_row_def tbl_find_def)

lemma row_size_member: "tbl_unique cm_key ms \<Longrightarrow> e \<in> set ms \<Longrightarrow> row_size (cm_key e) ms = cm_size e"
  by (simp add: row_size_def tbl_find_unique)

text \<open>A step changes only rows its operation relies on, and none while it only reads.\<close>

lemma op_step_rows:
  assumes "op_step fail now p (l, s) = (p', l', s')" and "\<not> claims_key p k \<or> only_reads p"
  shows "row_size k (cs_meta s') = row_size k (cs_meta s)"
  using assms
  by (induction fail now p "(l, s)" rule: op_step.induct)
    (auto simp: row_size_drop row_size_replace row_size_touch claims_key_def List.member_iff split: if_splits option.splits)

lemma evict_batch_claims:
  "tbl_unique cm_key (cs_meta s) \<Longrightarrow> claims_hold (Removing (evict_batch s)) (cs_meta s)"
proof -
  assume uniq: "tbl_unique cm_key (cs_meta s)"
  have "distinct (map cm_key (sort_key cm_atime (cs_meta s)))"
    using uniq by (simp add: tbl_unique_def distinct_map)
  then have "distinct (map cm_key (evict_batch s))" by (simp add: evict_batch_def take_map [symmetric] distinct_take)
  moreover have "set (evict_batch s) \<subseteq> set (cs_meta s)" by (auto simp: evict_batch_def dest: in_set_takeD)
  ultimately show ?thesis using row_size_member [OF uniq] by (auto simp: claims_hold_def comp_def)
qed

lemma op_step_claims:
  assumes "op_step fail now p (l, s) = (p', l', s')" and "claims_hold p (cs_meta s)" and "tbl_unique cm_key (cs_meta s)"
    and "\<not> (fail \<and> (\<exists>w. p = Sizing w))"
  shows "claims_hold p' (cs_meta s')"
  using assms
proof (induction fail now p "(l, s)" rule: op_step.induct)
  case (17 fail now)
  then show ?case using evict_batch_claims [of s] by (auto simp: claims_hold_def split: if_splits)
next
  case (12 fail now w)
  then show ?case by (auto simp: claims_hold_def row_size_def split: if_splits)
next
  case (20 fail now e es)
  then show ?case by (auto simp: claims_hold_def row_size_drop split: if_splits) (metis image_eqI)+
qed (auto simp: claims_hold_def row_size_find row_size_drop split: if_splits option.splits sum.splits)

lemma op_step_fresh:
  assumes "claims_hold p (cs_meta s)" and "\<not> only_reads p"
  shows "phase_stale p s = 0"
  using assms by (cases p) (auto simp: claims_hold_def)

lemma phase_stale_reads: "only_reads p \<Longrightarrow> phase_stale p s = 0"
  by (cases p) simp_all

section \<open>The invariant of a run\<close>

lemma do_event_fresh:
  assumes "fresh y" and "apart y" and "size_read e y"
  shows "fresh (do_event e y) \<and> event_stale e y = 0"
proof (cases e)
  case (Go j fail now)
  show ?thesis
  proof (cases "j < length (cy_ops y)")
    case True
    let ?p = "cy_ops y ! j"
    let ?ms = "cs_meta (cy_cache y)"
    have hold: "claims_hold ?p ?ms" using assms(1) True by (simp add: fresh_def)
    have uniq: "tbl_unique cm_key ?ms" using assms(1) by (simp add: fresh_def)
    obtain q l s where step: "op_step fail now ?p (cy_lock y, cy_cache y) = (q, l, s)" by (metis surj_pair)
    have "\<not> (fail \<and> (\<exists>w. ?p = Sizing w))" using assms(3) True by (auto simp: Go)
    then have q: "claims_hold q (cs_meta s)" by (rule op_step_claims [OF step hold uniq])
    have other: "claims_hold (cy_ops y ! i) (cs_meta s)" if "i < length (cy_ops y)" "i \<noteq> j" for i
    proof -
      have "claims_hold (cy_ops y ! i) ?ms" using assms(1) that by (simp add: fresh_def)
      moreover have "row_size k (cs_meta s) = row_size k ?ms" if k: "(k, n) \<in> set (phase_claims (cy_ops y ! i))" for k n
        using op_step_rows [OF step] phases_apartD [OF apartD [OF assms(2) \<open>i < _\<close> True \<open>i \<noteq> j\<close>] k] by blast
      ultimately show ?thesis by (auto simp: claims_hold_def)
    qed
    have "claims_hold p (cs_meta s)" if "p \<in> set ((cy_ops y)[j := q])" for p
      using that q other True by (auto simp: in_set_conv_nth nth_list_update split: if_splits)
    moreover have "tbl_unique cm_key (cs_meta s)" by (rule op_step_unique [OF step uniq])
    moreover have "phase_stale ?p (cy_cache y) = 0" using op_step_fresh [OF hold] phase_stale_reads by blast
    ultimately show ?thesis using True step by (simp add: Go fresh_def)
  qed (use assms(1) in \<open>simp add: Go\<close>)
qed (use assms(1) in \<open>auto simp: fresh_def claims_hold_def\<close>)

lemma apart_run_fresh:
  "fresh y \<Longrightarrow> apart_run es y \<Longrightarrow> fresh (cache_run es y) \<and> run_stale es y = 0"
  by (induction es arbitrary: y) (auto simp: do_event_fresh)

section \<open>Where a hit comes from\<close>

text \<open>A put of which the disk has taken every chunk, and which keeps to the limit for one file.\<close>

definition put_bytes :: "(string \<times> nat option) list \<Rightarrow> string" where
  "put_bytes cs = concat (map fst cs)"

definition whole_put :: "int \<Rightarrow> (string \<times> nat option) list \<Rightarrow> bool" where
  "whole_put mx cs \<longleftrightarrow> (\<forall>c \<in> set cs. snd c = None) \<and> (cs \<noteq> [] \<longrightarrow> int (length (put_bytes cs)) \<le> mx)"

text \<open>The content and the row of a key: from the start, or from a whole put for the key.\<close>

definition body_from :: "cache_state \<Rightarrow> cache_event list \<Rightarrow> string \<Rightarrow> string \<Rightarrow> bool" where
  "body_from s es k body \<longleftrightarrow>
     cs_files s (path_for (cs_cfg s) k) = Some body \<or>
     (\<exists>ct cs. StartPut k ct cs \<in> set es \<and> whole_put (cc_max_file (cs_cfg s)) cs \<and> put_bytes cs = body)"

definition row_from :: "cache_state \<Rightarrow> cache_event list \<Rightarrow> cache_meta \<Rightarrow> bool" where
  "row_from s es m \<longleftrightarrow>
     (\<exists>m0 \<in> set (cs_meta s). cm_key m0 = cm_key m \<and> cm_size m0 = cm_size m \<and> cm_ctype m0 = cm_ctype m) \<or>
     (\<exists>cs. StartPut (cm_key m) (cm_ctype m) cs \<in> set es \<and> whole_put (cc_max_file (cs_cfg s)) cs \<and>
        int (length (put_bytes cs)) = cm_size m)"

fun event_key_ok :: "cache_event \<Rightarrow> bool" where
  "event_key_ok (StartGet k) = is_key k"
| "event_key_ok (StartPut k ct cs) = is_key k"
| "event_key_ok _ = True"

definition hit_from :: "cache_state \<Rightarrow> cache_event list \<Rightarrow> string \<Rightarrow> cache_meta \<Rightarrow> bool" where
  "hit_from s es k m \<longleftrightarrow> is_key k \<and> cm_key m = k \<and> row_from s es m"

text \<open>What a writer has when the chunks \<open>cs\<close> of its put are through, as long as it counts as complete.\<close>

definition written :: "int \<Rightarrow> (string \<times> nat option) list \<Rightarrow> writer \<Rightarrow> bool" where
  "written mx cs w \<longleftrightarrow> whole_put mx cs \<and> w_body w = put_bytes cs \<and> w_n w = int (length (put_bytes cs))"

definition put_at :: "cache_state \<Rightarrow> cache_event list \<Rightarrow> (string \<times> nat option) list \<Rightarrow> writer \<Rightarrow> bool" where
  "put_at s es rest w \<longleftrightarrow> is_key (w_key w) \<and>
     (\<exists>cs. StartPut (w_key w) (w_ctype w) (cs @ rest) \<in> set es \<and>
        (w_overflow w \<or> w_failed w \<or> written (cc_max_file (cs_cfg s)) cs w))"

definition put_from :: "cache_state \<Rightarrow> cache_event list \<Rightarrow> writer \<Rightarrow> bool" where
  "put_from s es w \<longleftrightarrow> is_key (w_key w) \<and>
     (\<exists>cs. StartPut (w_key w) (w_ctype w) cs \<in> set es \<and> written (cc_max_file (cs_cfg s)) cs w)"

fun phase_from :: "cache_state \<Rightarrow> cache_event list \<Rightarrow> cache_phase \<Rightarrow> bool" where
  "phase_from s es (Finding k) = is_key k"
| "phase_from s es (Opening k m) = hit_from s es k m"
| "phase_from s es (Touching k body m) = (hit_from s es k m \<and> body_from s es k body)"
| "phase_from s es (Creating k ct cs) = (is_key k \<and> StartPut k ct cs \<in> set es)"
| "phase_from s es (Writing cs w) = put_at s es cs w"
| "phase_from s es (Closing w) = put_at s es [] w"
| "phase_from s es (Sharding w) = put_from s es w"
| "phase_from s es (Renaming w) = put_from s es w"
| "phase_from s es (Sizing w) = put_from s es w"
| "phase_from s es (Upserting w old) = put_from s es w"
| "phase_from s es (Returned (Hit k body m)) = (hit_from s es k m \<and> body_from s es k body)"
| "phase_from s es _ = True"

definition cache_from :: "cache_state \<Rightarrow> cache_event list \<Rightarrow> cache_state \<Rightarrow> bool" where
  "cache_from s es c \<longleftrightarrow> cs_cfg c = cs_cfg s \<and>
     (\<forall>k body. is_key k \<longrightarrow> cs_files c (path_for (cs_cfg s) k) = Some body \<longrightarrow> body_from s es k body) \<and>
     (\<forall>m \<in> set (cs_meta c). row_from s es m)"

lemma row_from_touch: "m \<in> set (touch_row k now ms) \<Longrightarrow> \<forall>m \<in> set ms. row_from s es m \<Longrightarrow> row_from s es m"
proof -
  assume "m \<in> set (touch_row k now ms)" and old: "\<forall>m \<in> set ms. row_from s es m"
  then obtain x t where "x \<in> set ms" "m = x \<or> m = x\<lparr>cm_atime := t\<rparr>" by (auto simp: touch_row_def)
  moreover have "row_from s es (x\<lparr>cm_atime := t\<rparr>) = row_from s es x" by (simp add: row_from_def)
  ultimately show ?thesis using old by auto
qed

lemma row_from_writer:
  "put_from s es w \<Longrightarrow>
     row_from s es \<lparr>cm_key = w_key w, cm_size = w_n w, cm_atime = t, cm_created = t', cm_ctype = w_ctype w\<rparr>"
  by (auto simp: row_from_def put_from_def written_def)

lemma whole_put_snoc: "whole_put mx cs \<Longrightarrow> snd c = None \<Longrightarrow> int (length (put_bytes (cs @ [c]))) \<le> mx \<Longrightarrow> whole_put mx (cs @ [c])"
  by (auto simp: whole_put_def)

text \<open>A chunk more: the writer is one of a whole put, or it knows that it is not.\<close>

lemma put_at_write:
  assumes "put_at s es (c # cs) w"
  shows "put_at s es cs (writer_write (cc_max_file (cs_cfg s)) (snd c) (fst c) w)"
proof -
  let ?mx = "cc_max_file (cs_cfg s)"
  let ?w = "writer_write ?mx (snd c) (fst c) w"
  from assms obtain ds where ds: "is_key (w_key w)" "StartPut (w_key w) (w_ctype w) (ds @ c # cs) \<in> set es"
    "w_overflow w \<or> w_failed w \<or> written ?mx ds w" by (auto simp: put_at_def)
  have fixed: "w_key ?w = w_key w" "w_ctype ?w = w_ctype w" by (simp_all add: writer_write_def Let_def)
  have "w_overflow ?w \<or> w_failed ?w \<or> written ?mx (ds @ [c]) ?w"
  proof (rule ccontr)
    assume "\<not> ?thesis"
    then have st: "\<not> w_overflow ?w" "\<not> w_failed ?w" "\<not> written ?mx (ds @ [c]) ?w" by simp_all
    then have ok: "\<not> w_overflow w" "\<not> w_failed w" "snd c = None" "w_n w + int (length (fst c)) \<le> ?mx"
      by (auto simp: writer_write_def Let_def split: if_splits option.splits)
    with ds(3) have "written ?mx ds w" by simp
    with ok whole_put_snoc [of ?mx ds c] have "written ?mx (ds @ [c]) ?w"
      by (simp add: written_def writer_write_def Let_def put_bytes_def)
    with st(3) show False by simp
  qed
  moreover have "StartPut (w_key ?w) (w_ctype ?w) ((ds @ [c]) @ cs) \<in> set es" using ds(2) by (simp add: fixed)
  ultimately show ?thesis using ds(1) fixed unfolding put_at_def by metis
qed

lemma put_at_new:
  "is_key k \<Longrightarrow> StartPut k ct cs \<in> set es \<Longrightarrow> new_writer f k ct = Inr w \<Longrightarrow> put_at s es cs w"
  by (auto simp: put_at_def written_def whole_put_def put_bytes_def new_writer_def split: if_splits
      intro!: exI [of _ "[] :: (string \<times> nat option) list"])

lemma put_at_closed:
  "put_at s es [] w \<Longrightarrow> \<not> w_overflow w \<Longrightarrow> \<not> w_failed w \<Longrightarrow> put_from s es w"
  by (auto simp: put_at_def put_from_def)

lemma op_step_from:
  assumes "op_step fail now p (l, c) = (p', l', c')" and "phase_from s es p" and "cache_from s es c" and "cache_ready s"
  shows "phase_from s es p' \<and> cache_from s es c'"
  using assms
proof (induction fail now p "(l, c)" rule: op_step.induct)
  case (1 fail now k)
  then show ?case by (auto simp: cache_from_def hit_from_def dest: tbl_find_SomeD split: if_splits option.splits)
next
  case (2 fail now k m)
  then show ?case by (auto simp: cache_from_def hit_from_def split: if_splits option.splits)
next
  case (5 fail now k body m)
  then show ?case by (cases fail) (auto simp: cache_from_def intro: row_from_touch)
next
  case (6 fail now k ct cs)
  then show ?case by (auto intro: put_at_new split: sum.splits)
next
  case (8 fail now c cs w)
  then show ?case using put_at_write by (auto simp: cache_from_def)
next
  case (9 fail now w)
  then show ?case using put_at_closed by (auto split: if_splits)
next
  case (11 fail now w)
  show ?case
  proof (cases fail)
    case False
    with 11(1) have c': "p' = Sizing w" "c' = c\<lparr>cs_files := (cs_files c)(path_for (cs_cfg c) (w_key w) \<mapsto> w_body w)\<rparr>" by auto
    have "body_from s es k (w_body w)" if "is_key k" "path_for (cs_cfg s) k = path_for (cs_cfg s) (w_key w)" for k
      using path_for_inj [of k "w_key w" "cs_cfg s"] that 11(2,4)
      by (clarsimp simp: put_from_def written_def body_from_def cache_ready_def) blast
    with 11(2,3) c' show ?thesis by (auto simp: cache_from_def)
  qed (use 11 in auto)
next
  case (13 fail now w old)
  then show ?case
    by (auto simp: cache_from_def replace_row drop_row_def tbl_delete_def intro: row_from_writer split: if_splits)
qed (auto simp: cache_from_def drop_row_def tbl_delete_def maybe_evict_def split: if_splits)

lemma run_from:
  assumes "cache_ready s" and "list_all event_key_ok es" and "set es \<subseteq> set es0"
    and "cache_from s es0 (cy_cache y)" and "\<forall>p \<in> set (cy_ops y). phase_from s es0 p"
  shows "\<forall>p \<in> set (cy_ops (cache_run es y)). phase_from s es0 p"
  using assms(2-)
proof (induction es arbitrary: y)
  case (Cons e es)
  have "cache_from s es0 (cy_cache (do_event e y)) \<and> (\<forall>p \<in> set (cy_ops (do_event e y)). phase_from s es0 p)"
  proof (cases e)
    case (Go j fail now)
    show ?thesis
    proof (cases "j < length (cy_ops y)")
      case True
      obtain q l c where step: "op_step fail now (cy_ops y ! j) (cy_lock y, cy_cache y) = (q, l, c)" by (metis surj_pair)
      from op_step_from [OF step _ Cons.prems(3) assms(1)] Cons.prems(4) True
      have "phase_from s es0 q" "cache_from s es0 c" by simp_all
      with Cons.prems(4) True step show ?thesis
        using set_update_subset_insert [of "cy_ops y" j q] by (auto simp: Go)
    qed (use Cons.prems in \<open>simp add: Go\<close>)
  qed (use Cons.prems in auto)
  with Cons.IH [of "do_event e y"] Cons.prems show ?case by simp
qed simp

section \<open>Properties\<close>

text \<open>
  C6: Invariant. Whatever reads, commits and evictions run at the same time, as long as no two of them rely on what they
  have read of the same row, unless both have only read it, the table has one row per key, and the total and what the
  operations have yet to add to it make the sum of the sizes, modulo 64-bit wrap-around.
\<close>

theorem concurrent_total_exact:
  assumes "cache_inv s" and "apart_run es (idle_cache s)" and "y = cache_run es (idle_cache s)"
  shows "tbl_unique cm_key (cs_meta (cy_cache y)) \<and>
     wrap64 (cs_total (cy_cache y) + owed y) = wrap64 (total_size (cs_meta (cy_cache y)))"
proof
  have fresh: "fresh (idle_cache s)" using assms(1) by (simp add: fresh_def idle_cache_def cache_inv_def)
  from apart_run_fresh [OF this assms(2)] have run: "fresh y" "run_stale es (idle_cache s) = 0" by (simp_all add: assms(3))
  then show "tbl_unique cm_key (cs_meta (cy_cache y))" by (simp add: fresh_def)
  have "wrap64 (balance y) = wrap64 (balance (idle_cache s))"
    using cache_run_account [of "idle_cache s" es] fresh run(2) by (simp add: assms(3) fresh_def)
  also have "\<dots> = wrap64 0"
    using assms(1) wrap64_diff_left [of "total_size (cs_meta s)" "total_size (cs_meta s)"]
    by (simp add: balance_def idle_cache_def owed_def cache_inv_def)
  finally show "wrap64 (cs_total (cy_cache y) + owed y) = wrap64 (total_size (cs_meta (cy_cache y)))"
    using wrap64_cong_add [of "balance y" 0 "total_size (cs_meta (cy_cache y))"] by (simp add: balance_def)
qed

text \<open>The oldest file is evicted while the other one is read: the size is still to be subtracted.\<close>

abbreviation ex_evict_read :: "cache_event list" where
  "ex_evict_read \<equiv> [StartGet (ex_key CHR ''a''), StartEvict, Go 1 False 3, Go 1 False 3, Go 0 False 3, Go 1 False 3,
     Go 0 False 4, Go 1 False 4]"

lemma ex_over_mark: "cs_mark c = Fin 1 \<Longrightarrow> cs_max c = 10 \<Longrightarrow> over_mark c \<longleftrightarrow> cs_total c > 10"
proof -
  have "mul_int64 (Fin 1) 10 = 10" by code_simp
  then show "cs_mark c = Fin 1 \<Longrightarrow> cs_max c = 10 \<Longrightarrow> over_mark c \<longleftrightarrow> cs_total c > 10"
    by (simp add: over_mark_def cache_watermark_def)
qed

lemma ex_path: "path_for ex_cfg (ex_key c) = path_for ex_cfg (ex_key d) \<longleftrightarrow> c = d"
  if "c \<in> {CHR ''a'', CHR ''b''}" "d \<in> {CHR ''a'', CHR ''b''}"
  using that path_for_inj [of "ex_key c" "ex_key d" ex_cfg] is_key_ex by (auto simp: ex_cfg_def)

lemmas ex_steps = idle_cache_def ex_cache_def ex_over_mark evict_batch_def ex_path drop_row_def tbl_delete_def
  tbl_find_def

lemma ex_run_evict_read:
  "apart_run ex_evict_read (idle_cache ex_cache)"
  "cs_total (cy_cache (cache_run ex_evict_read (idle_cache ex_cache))) = 12"
  "owed (cache_run ex_evict_read (idle_cache ex_cache)) = - 6"
  by (simp_all add: ex_steps ex_row_def ex_cfg_def apart_def phases_apart_def claims_key_def owed_def upt_rec nth_Cons')

theorem concurrent_total_exact_witness:
  "\<exists>y. y = cache_run ex_evict_read (idle_cache ex_cache) \<and> apart_run ex_evict_read (idle_cache ex_cache) \<and>
     owed y = - 6 \<and> cs_total (cy_cache y) = 12 \<and> wrap64 6 = wrap64 (total_size (cs_meta (cy_cache y)))"
proof (intro exI conjI)
  have "12 + - 6 = (6 :: int)" by simp
  with concurrent_total_exact [OF ex_cache_inv ex_run_evict_read(1) refl] ex_run_evict_read(2,3)
  show "wrap64 6 = wrap64 (total_size (cs_meta (cy_cache (cache_run ex_evict_read (idle_cache ex_cache)))))" by (simp only:)
qed (rule refl ex_run_evict_read)+

text \<open>
  C7: Safety. In every run of reads, puts and evictions at the same time, with any failures, a hit is a whole image: its
  bytes are those of one file there at the start, or all the chunks of one put for the key, each of which the disk has
  taken and which keep to the limit for one file. Its size and type are those of one row there at the start or of one such
  put, though not always of the one its bytes are from (\<open>hit_size_may_differ\<close>).
\<close>

theorem hits_are_whole:
  assumes "cache_ready s" and "list_all event_key_ok es"
    and "List.member (cy_ops (cache_run es (idle_cache s))) (Returned (Hit k body m))"
  shows "body_from s es k body \<and> cm_key m = k \<and> row_from s es m"
proof -
  have "cache_from s es s" by (auto simp: cache_from_def body_from_def row_from_def)
  with run_from [OF assms(1,2) subset_refl, of "idle_cache s"] assms(3) have "phase_from s es (Returned (Hit k body m))"
    by (auto simp: idle_cache_def List.member_iff)
  then show ?thesis by (auto simp: hit_from_def)
qed

text \<open>A read that has found the row before the file is replaced gets the new content.\<close>

abbreviation ex_read_put :: "cache_event list" where
  "ex_read_put \<equiv> [StartGet (ex_key CHR ''b''), StartPut (ex_key CHR ''b'') ''image/gif'' [(''x'', None), (''y'', None)], Go 0 False 3] @
     replicate 7 (Go 1 False 3) @ [Go 0 False 3, Go 0 False 4]"

lemma ex_run_read_put:
  "List.member (cy_ops (cache_run ex_read_put (idle_cache ex_cache)))
     (Returned (Hit (ex_key CHR ''b'') ''xy'' (ex_row CHR ''b'' 1)))"
  by (simp add: ex_steps ex_row_def ex_cfg_def numeral_eq_Suc new_writer_def writer_write_def)

theorem hits_are_whole_witness:
  "body_from ex_cache ex_read_put (ex_key CHR ''b'') ''xy'' \<and> row_from ex_cache ex_read_put (ex_row CHR ''b'' 1)"
proof -
  have "cache_ready ex_cache" by (simp add: cache_ready_def ex_cache_def ex_cfg_def)
  moreover have "list_all event_key_ok ex_read_put" using is_key_ex by (simp add: numeral_eq_Suc)
  ultimately show ?thesis using hits_are_whole [OF _ _ ex_run_read_put] by simp
qed

section \<open>What overlaps break\<close>

text \<open>Such a hit has the size of the row that was read and the bytes of the file that was opened.\<close>

theorem hit_size_may_differ:
  "\<exists>es k body m. List.member (cy_ops (cache_run es (idle_cache ex_cache))) (Returned (Hit k body m)) \<and>
     cm_size m \<noteq> int (length body)"
proof -
  have "cm_size (ex_row CHR ''b'' 1) \<noteq> int (length ''xy'')" by (simp add: ex_row_def)
  with ex_run_read_put show ?thesis by blast
qed

definition all_returned :: "cache_system \<Rightarrow> bool" where
  "all_returned y \<longleftrightarrow> list_all (\<lambda>p. case p of Returned r \<Rightarrow> True | _ \<Rightarrow> False) (cy_ops y)"

text \<open>A read that meets an eviction of the same file subtracts its size once more.\<close>

theorem read_evict_race:
  "\<exists>es y. y = cache_run es (idle_cache ex_cache) \<and> all_returned y \<and> cs_total (cy_cache y) = 0 \<and>
     total_size (cs_meta (cy_cache y)) = 6"
proof -
  let ?es = "[StartGet (ex_key CHR ''b''), StartEvict, Go 0 False 3] @ replicate 5 (Go 1 False 3) @ replicate 3 (Go 0 False 4) @
    replicate 2 (Go 1 False 5)"
  have "wrap64 6 = 6" "wrap64 0 = 0" by (simp_all add: is_int64_def min64_def max64_def)
  then have "all_returned (cache_run ?es (idle_cache ex_cache)) \<and>
      cs_total (cy_cache (cache_run ?es (idle_cache ex_cache))) = 0 \<and>
      total_size (cs_meta (cy_cache (cache_run ?es (idle_cache ex_cache)))) = 6"
    by (simp add: ex_steps ex_row_def ex_cfg_def all_returned_def numeral_eq_Suc)
  then show ?thesis by blast
qed

text \<open>Two commits of the same new key, which both find no row, are added both.\<close>

theorem commit_commit_race:
  "\<exists>es y. y = cache_run es (idle_cache ex_cache) \<and> all_returned y \<and> cs_total (cy_cache y) = 24 \<and>
     total_size (cs_meta (cy_cache y)) = 18"
proof -
  let ?put = "StartPut (ex_key CHR ''c'') [] [(''cccccc'', None)]"
  let ?es = "[?put, ?put] @ replicate 7 (Go 0 False 3) @ replicate 7 (Go 1 False 3) @
    replicate 3 (Go 0 False 4) @ replicate 3 (Go 1 False 5)"
  have "wrap64 6 = 6" "wrap64 18 = 18" "wrap64 24 = 24" by (simp_all add: is_int64_def min64_def max64_def)
  then have "all_returned (cache_run ?es (idle_cache ex_cache)) \<and>
      cs_total (cy_cache (cache_run ?es (idle_cache ex_cache))) = 24 \<and>
      total_size (cs_meta (cy_cache (cache_run ?es (idle_cache ex_cache)))) = 18"
    by (simp add: ex_steps ex_row_def ex_cfg_def all_returned_def numeral_eq_Suc new_writer_def writer_write_def tbl_replace_def maybe_evict_def)
  then show ?thesis by blast
qed

text \<open>A commit between the two statements of an eviction leaves a file without a row, which no eviction will find.\<close>

theorem evict_commit_race:
  "\<exists>es y. y = cache_run es (idle_cache ex_cache) \<and> all_returned y \<and>
     cs_files (cy_cache y) (path_for ex_cfg (ex_key CHR ''b'')) = Some ''bbbbbb'' \<and>
     tbl_find cm_key (ex_key CHR ''b'') (cs_meta (cy_cache y)) = None"
proof -
  let ?put = "StartPut (ex_key CHR ''b'') [] [(''bbbbbb'', None)]"
  let ?es = "[StartEvict, ?put] @ replicate 3 (Go 0 False 3) @ replicate 10 (Go 1 False 4) @ replicate 4 (Go 0 False 5)"
  have "wrap64 6 = 6" "wrap64 12 = 12" "wrap64 0 = 0" by (simp_all add: is_int64_def min64_def max64_def)
  then have "all_returned (cache_run ?es (idle_cache ex_cache)) \<and>
      cs_files (cy_cache (cache_run ?es (idle_cache ex_cache))) (path_for ex_cfg (ex_key CHR ''b'')) = Some ''bbbbbb'' \<and>
      tbl_find cm_key (ex_key CHR ''b'') (cs_meta (cy_cache (cache_run ?es (idle_cache ex_cache)))) = None"
    by (simp add: ex_steps ex_row_def ex_cfg_def all_returned_def numeral_eq_Suc new_writer_def writer_write_def tbl_replace_def maybe_evict_def)
  then show ?thesis by blast
qed

end
