(* ===== verification/Auth.thy ===== *)
theory Auth
  imports Common
begin

text \<open>
  \<^verbatim>\<open>internal/auth\<close>: accounts and devices, registration, token rotation and the bearer middleware. The
  state is the tables \<^verbatim>\<open>accounts\<close> and \<^verbatim>\<open>devices\<close> and the list of invite codes, which the
  administrator can change. SHA-256 and the random bytes are arguments (\<open>sha\<close>, \<open>rnd\<close>).
\<close>

section \<open>Tokens (tokens.go)\<close>

definition access_prefix :: string where "access_prefix = ''rl_at_''"
definition refresh_prefix :: string where "refresh_prefix = ''rl_rt_''"
definition account_prefix :: string where "account_prefix = ''rk_''"

text \<open>Milliseconds: 30 and 180 days; \<open>expires_in\<close> is in seconds.\<close>

definition access_ttl :: int where "access_ttl = 30 * 24 * 60 * 60 * 1000"
definition refresh_ttl :: int where "refresh_ttl = 180 * 24 * 60 * 60 * 1000"
definition expires_in :: int where "expires_in = access_ttl div 1000"

text \<open>\<open>None\<close> stands for a failing random source.\<close>

definition new_opaque_token :: "string \<Rightarrow> string option \<Rightarrow> go_error + string" where
  "new_opaque_token p rnd =
     (case rnd of None \<Rightarrow> Inl (Internal ''generate token'') | Some b \<Rightarrow> Inr (p @ rawurl_encode b))"

definition new_account_key :: "string option \<Rightarrow> go_error + string" where
  "new_account_key rnd = new_opaque_token account_prefix rnd"

definition hash_token :: "(string \<Rightarrow> string) \<Rightarrow> string \<Rightarrow> string" where
  "hash_token sha t = hex_encode (sha t)"

section \<open>State (service.go)\<close>

record account =
  ac_id :: int
  ac_key_hash :: string
  ac_created :: int

record device =
  dv_id :: int
  dv_account :: int
  dv_name :: string
  dv_access :: string
  dv_refresh :: string
  dv_invite :: "string option"
  dv_created :: int
  dv_access_exp :: int
  dv_refresh_exp :: int

record auth_state =
  accounts :: "account list"
  devices :: "device list"
  invites :: "string list"

record token_pair =
  tp_access :: string
  tp_refresh :: string
  tp_account_key :: string
  tp_expires :: int

datatype auth_step =
    AuthBegin | LookupAccount | InsertAccount | InsertDevice | LookupRefresh | RotateTokens | AuthCommit
  | LookupAccess | InsertStatic | LookupStatic

definition new_auth :: "account list \<Rightarrow> device list \<Rightarrow> string list \<Rightarrow> auth_state" where
  "new_auth accs devs codes = \<lparr>accounts = accs, devices = devs, invites = codes\<rparr>"

definition set_invite_codes :: "string list \<Rightarrow> auth_state \<Rightarrow> auth_state" where
  "set_invite_codes codes s = s\<lparr>invites := codes\<rparr>"

text \<open>SQLite gives a new row the largest id of the table plus one, and 1 to the first row.\<close>

definition next_id :: "int list \<Rightarrow> int" where
  "next_id ids = (if ids = [] then 1 else Max (set ids) + 1)"

text \<open>Inserting a row fails when it repeats a value of a \<^verbatim>\<open>UNIQUE\<close> column.\<close>

definition insert_account :: "string \<Rightarrow> int \<Rightarrow> account list \<Rightarrow> (int \<times> account list) option" where
  "insert_account h now as =
     (if List.member (map ac_key_hash as) h then None
      else let i = next_id (map ac_id as) in Some (i, as @ [\<lparr>ac_id = i, ac_key_hash = h, ac_created = now\<rparr>]))"

definition insert_device :: "device \<Rightarrow> device list \<Rightarrow> device list option" where
  "insert_device d ds =
     (if List.member (map dv_access ds) (dv_access d) \<or> List.member (map dv_refresh ds) (dv_refresh d) then None
      else Some (ds @ [d]))"

section \<open>Registration\<close>

definition issue_tokens ::
  "(string \<Rightarrow> string) \<Rightarrow> (auth_step \<Rightarrow> bool) \<Rightarrow> string option \<Rightarrow> string option \<Rightarrow> int \<Rightarrow> string \<Rightarrow> string
     \<Rightarrow> int \<Rightarrow> device list \<Rightarrow> go_error + (token_pair \<times> device list)" where
  "issue_tokens sha fail ra rr acc name invite now ds =
     (case new_opaque_token access_prefix ra of
        Inl e \<Rightarrow> Inl e
      | Inr access \<Rightarrow>
     (case new_opaque_token refresh_prefix rr of
        Inl e \<Rightarrow> Inl e
      | Inr refresh \<Rightarrow>
          (if fail InsertDevice then Inl (Internal ''create device'')
           else case insert_device
               \<lparr>dv_id = next_id (map dv_id ds), dv_account = acc, dv_name = name,
                dv_access = hash_token sha access, dv_refresh = hash_token sha refresh,
                dv_invite = (if invite = [] then None else Some invite), dv_created = now,
                dv_access_exp = now + access_ttl, dv_refresh_exp = now + refresh_ttl\<rparr> ds of
             None \<Rightarrow> Inl (Internal ''create device'')
           | Some ds' \<Rightarrow>
               Inr (\<lparr>tp_access = access, tp_refresh = refresh, tp_account_key = [], tp_expires = expires_in\<rparr>, ds'))))"

text \<open>The account a registration is for: the one of its key, or a new one with a new key.\<close>

definition register_account ::
  "(string \<Rightarrow> string) \<Rightarrow> (auth_step \<Rightarrow> bool) \<Rightarrow> string option \<Rightarrow> string \<Rightarrow> int \<Rightarrow> account list
     \<Rightarrow> go_error + (int \<times> string \<times> account list)" where
  "register_account sha fail rk key now as =
     (if key \<noteq> [] then
        (if fail LookupAccount then Inl (Internal ''lookup account'')
         else case tbl_find ac_key_hash (hash_token sha key) as of
                None \<Rightarrow> Inl (bad_request ''invalid accountKey'')
              | Some a \<Rightarrow> Inr (ac_id a, key, as))
      else
        (case new_account_key rk of
           Inl e \<Rightarrow> Inl e
         | Inr key' \<Rightarrow>
             (if fail InsertAccount then Inl (Internal ''create account'')
              else case insert_account (hash_token sha key') now as of
                     None \<Rightarrow> Inl (Internal ''create account'')
                   | Some (i, as') \<Rightarrow> Inr (i, key', as'))))"

definition invite_refused :: "string list \<Rightarrow> string \<Rightarrow> string \<Rightarrow> bool" where
  "invite_refused codes invite key \<longleftrightarrow> key = [] \<and> codes \<noteq> [] \<and> \<not> List.member codes invite"

definition register ::
  "(string \<Rightarrow> string) \<Rightarrow> (auth_step \<Rightarrow> bool) \<Rightarrow> string option \<Rightarrow> string option \<Rightarrow> string option \<Rightarrow> int
     \<Rightarrow> string \<Rightarrow> string \<Rightarrow> string \<Rightarrow> auth_state \<Rightarrow> (go_error + token_pair) \<times> auth_state" where
  "register sha fail rk ra rr now name invite key s =
     (if invite_refused (invites s) invite key then (Inl (forbidden ''invalid invite code''), s)
      else if fail AuthBegin then (Inl (Internal ''begin register tx''), s)
      else case register_account sha fail rk key now (accounts s) of
        Inl e \<Rightarrow> (Inl e, s)
      | Inr (acc, key', as) \<Rightarrow>
          (case issue_tokens sha fail ra rr acc name invite now (devices s) of
             Inl e \<Rightarrow> (Inl e, s)
           | Inr (pair, ds) \<Rightarrow>
               if fail AuthCommit then (Inl (Internal ''commit register tx''), s)
               else (Inr (pair\<lparr>tp_account_key := key'\<rparr>), s\<lparr>accounts := as, devices := ds\<rparr>)))"

section \<open>Rotation\<close>

text \<open>\<^verbatim>\<open>UPDATE devices SET ... WHERE id = ?\<close>; \<open>None\<close> when another row has one of the hashes.\<close>

definition rotate_row :: "int \<Rightarrow> string \<Rightarrow> string \<Rightarrow> int \<Rightarrow> device list \<Rightarrow> device list option" where
  "rotate_row i ah rh now ds =
     (if list_ex (\<lambda>d. dv_id d \<noteq> i \<and> (dv_access d = ah \<or> dv_refresh d = rh)) ds then None
      else Some (map (\<lambda>d. if dv_id d = i
             then d\<lparr>dv_access := ah, dv_refresh := rh, dv_access_exp := now + access_ttl,
                    dv_refresh_exp := now + refresh_ttl\<rparr> else d) ds))"

definition refresh ::
  "(string \<Rightarrow> string) \<Rightarrow> (auth_step \<Rightarrow> bool) \<Rightarrow> string option \<Rightarrow> string option \<Rightarrow> int \<Rightarrow> string \<Rightarrow> auth_state
     \<Rightarrow> (go_error + token_pair) \<times> auth_state" where
  "refresh sha fail ra rr now tok s =
     (if fail AuthBegin then (Inl (Internal ''begin refresh tx''), s)
      else if fail LookupRefresh then (Inl (Internal ''lookup refresh token''), s)
      else case List.find (\<lambda>d. dv_refresh d = hash_token sha tok \<and> dv_refresh_exp d > now) (devices s) of
        None \<Rightarrow> (Inl (unauthorized ''refresh token invalid or expired''), s)
      | Some d \<Rightarrow>
     (case new_opaque_token access_prefix ra of
        Inl e \<Rightarrow> (Inl e, s)
      | Inr access \<Rightarrow>
     (case new_opaque_token refresh_prefix rr of
        Inl e \<Rightarrow> (Inl e, s)
      | Inr refresh \<Rightarrow>
          (if fail RotateTokens then (Inl (Internal ''rotate tokens''), s)
           else case rotate_row (dv_id d) (hash_token sha access) (hash_token sha refresh) now (devices s) of
             None \<Rightarrow> (Inl (Internal ''rotate tokens''), s)
           | Some ds \<Rightarrow>
               if fail AuthCommit then (Inl (Internal ''commit refresh tx''), s)
               else (Inr \<lparr>tp_access = access, tp_refresh = refresh, tp_account_key = [], tp_expires = expires_in\<rparr>,
                     s\<lparr>devices := ds\<rparr>)))))"

section \<open>The bearer middleware (middleware.go)\<close>

definition static_plaintext :: string where "static_plaintext = ''arkpix-static-shared-account''"

record auth_mw =
  mw_static :: "string list"
  mw_account :: int

text \<open>\<^verbatim>\<open>INSERT OR IGNORE\<close>, then the lookup.\<close>

definition ensure_static_account ::
  "(string \<Rightarrow> string) \<Rightarrow> (auth_step \<Rightarrow> bool) \<Rightarrow> int \<Rightarrow> auth_state \<Rightarrow> (go_error + int) \<times> auth_state" where
  "ensure_static_account sha fail now s =
     (if fail InsertStatic then (Inl (Internal ''ensure static account''), s)
      else
        let as = (case insert_account (hash_token sha static_plaintext) now (accounts s) of
                    None \<Rightarrow> accounts s | Some (_, as') \<Rightarrow> as')
        in if fail LookupStatic then (Inl (Internal ''lookup static account''), s\<lparr>accounts := as\<rparr>)
           else case tbl_find ac_key_hash (hash_token sha static_plaintext) as of
                  None \<Rightarrow> (Inl (Internal ''lookup static account''), s\<lparr>accounts := as\<rparr>)
                | Some a \<Rightarrow> (Inr (ac_id a), s\<lparr>accounts := as\<rparr>))"

definition new_middleware ::
  "(string \<Rightarrow> string) \<Rightarrow> (auth_step \<Rightarrow> bool) \<Rightarrow> int \<Rightarrow> string list \<Rightarrow> auth_state
     \<Rightarrow> (go_error + auth_mw) \<times> auth_state" where
  "new_middleware sha fail now toks s =
     (if toks = [] then (Inr \<lparr>mw_static = [], mw_account = 0\<rparr>, s)
      else case ensure_static_account sha fail now s of
             (Inl e, s') \<Rightarrow> (Inl e, s')
           | (Inr i, s') \<Rightarrow> (Inr \<lparr>mw_static = toks, mw_account = i\<rparr>, s'))"

definition bearer_token :: "string \<Rightarrow> string option" where
  "bearer_token h =
     (case str_cut CHR '' '' h of
        None \<Rightarrow> None
      | Some (scheme, tok) \<Rightarrow> if \<not> equal_fold scheme ''bearer'' \<or> tok = [] then None else Some tok)"

text \<open>
  \<^verbatim>\<open>Wrap\<close>: the account and the device that go into the request's context, or the error that answers
  the request.
\<close>

definition authenticate ::
  "(string \<Rightarrow> string) \<Rightarrow> (auth_step \<Rightarrow> bool) \<Rightarrow> auth_mw \<Rightarrow> int \<Rightarrow> string \<Rightarrow> auth_state \<Rightarrow> go_error + (int \<times> int)" where
  "authenticate sha fail mw now hdr s =
     (case bearer_token hdr of
        None \<Rightarrow> Inl (unauthorized ''missing bearer token'')
      | Some tok \<Rightarrow>
          if List.member (mw_static mw) tok then Inr (mw_account mw, 0)
          else if fail LookupAccess then Inl (Internal ''lookup access token'')
          else case List.find (\<lambda>d. dv_access d = hash_token sha tok \<and> dv_access_exp d > now) (devices s) of
                 None \<Rightarrow> Inl (unauthorized ''access token invalid or expired'')
               | Some d \<Rightarrow> Inr (dv_account d, dv_id d))"

section \<open>Handlers (routes.go)\<close>

definition server_version :: string where "server_version = ''1.1.0''"

definition capabilities :: "string list" where "capabilities = [''relay'', ''img'', ''sync'', ''recover'']"

record register_request =
  rq_device :: string
  rq_invite :: string
  rq_account_key :: string

text \<open>\<^verbatim>\<open>accountKey\<close> is left out of the response when it is empty.\<close>

definition token_response :: "token_pair \<Rightarrow> json" where
  "token_response p =
     JObj ([(''accessToken'', JStr (tp_access p)), (''refreshToken'', JStr (tp_refresh p)),
            (''expiresIn'', JNum (format_int (tp_expires p)))] @
           (if tp_account_key p = [] then [] else [(''accountKey'', JStr (tp_account_key p))]) @
           [(''serverVersion'', JStr server_version), (''capabilities'', JArr (map JStr capabilities))])"

definition register_handler ::
  "(string \<Rightarrow> register_request option) \<Rightarrow> (string \<Rightarrow> string) \<Rightarrow> (auth_step \<Rightarrow> bool) \<Rightarrow> string option
     \<Rightarrow> string option \<Rightarrow> string option \<Rightarrow> int \<Rightarrow> string \<Rightarrow> auth_state \<Rightarrow> (go_error + json) \<times> auth_state" where
  "register_handler decode sha fail rk ra rr now body s =
     (case decode_json decode body of
        Inl e \<Rightarrow> (Inl e, s)
      | Inr req \<Rightarrow>
          (case required ''deviceName'' (rq_device req) of
             Some e \<Rightarrow> (Inl e, s)
           | None \<Rightarrow>
               (case register sha fail rk ra rr now (rq_device req) (rq_invite req) (rq_account_key req) s of
                  (Inl e, s') \<Rightarrow> (Inl e, s')
                | (Inr p, s') \<Rightarrow> (Inr (token_response p), s'))))"

definition refresh_handler ::
  "(string \<Rightarrow> string option) \<Rightarrow> (string \<Rightarrow> string) \<Rightarrow> (auth_step \<Rightarrow> bool) \<Rightarrow> string option \<Rightarrow> string option
     \<Rightarrow> int \<Rightarrow> string \<Rightarrow> auth_state \<Rightarrow> (go_error + json) \<times> auth_state" where
  "refresh_handler decode sha fail ra rr now body s =
     (case decode_json decode body of
        Inl e \<Rightarrow> (Inl e, s)
      | Inr tok \<Rightarrow>
          (case required ''refreshToken'' tok of
             Some e \<Rightarrow> (Inl e, s)
           | None \<Rightarrow>
               (case refresh sha fail ra rr now tok s of
                  (Inl e, s') \<Rightarrow> (Inl e, s')
                | (Inr p, s') \<Rightarrow> (Inr (token_response p), s'))))"

end
