(* ===== verification/AuthFacts.thy ===== *)
theory AuthFacts
  imports Auth
begin

text \<open>
  Facts about authentication: the invariant of the tables, the sessions as maps from token hashes,
  and the contract of registration and rotation over them.
\<close>

section \<open>Rows\<close>

lemma next_id_fresh: "next_id ids \<notin> set ids"
proof
  assume "next_id ids \<in> set ids"
  then have "ids \<noteq> []" and "Max (set ids) + 1 \<in> set ids" by (auto simp: next_id_def split: if_splits)
  then have "Max (set ids) + 1 \<le> Max (set ids)" by (intro Max_ge) auto
  then show False by simp
qed

lemma tbl_find_snoc:
  "tbl_find f k (t @ [r]) = (case tbl_find f k t of None \<Rightarrow> if f r = k then Some r else None | Some r' \<Rightarrow> Some r')"
  by (simp add: tbl_find_def find_append split: option.split)

definition auth_inv :: "auth_state \<Rightarrow> bool" where
  "auth_inv s \<longleftrightarrow>
     tbl_unique ac_id (accounts s) \<and> tbl_unique ac_key_hash (accounts s) \<and>
     tbl_unique dv_id (devices s) \<and> tbl_unique dv_access (devices s) \<and> tbl_unique dv_refresh (devices s) \<and>
     dv_account ` set (devices s) \<subseteq> ac_id ` set (accounts s)"

lemma auth_invD:
  assumes "auth_inv s"
  shows "tbl_unique ac_id (accounts s)" "tbl_unique ac_key_hash (accounts s)"
    "tbl_unique dv_id (devices s)" "tbl_unique dv_access (devices s)" "tbl_unique dv_refresh (devices s)"
    "d \<in> set (devices s) \<Longrightarrow> dv_account d \<in> ac_id ` set (accounts s)"
  using assms by (auto simp: auth_inv_def)

lemma auth_inv_empty: "auth_inv (new_auth [] [] codes)"
  by (simp add: auth_inv_def new_auth_def)

lemma tbl_unique_snoc: "tbl_unique f (t @ [r]) \<longleftrightarrow> tbl_unique f t \<and> f r \<notin> f ` set t"
  by (auto simp: tbl_unique_def)

lemma insert_account_SomeD:
  "insert_account h now as = Some (i, as') \<Longrightarrow>
     i = next_id (map ac_id as) \<and> as' = as @ [\<lparr>ac_id = i, ac_key_hash = h, ac_created = now\<rparr>] \<and>
     h \<notin> ac_key_hash ` set as"
  by (auto simp: insert_account_def Let_def split: if_splits)

lemma insert_device_SomeD:
  "insert_device d ds = Some ds' \<Longrightarrow>
     ds' = ds @ [d] \<and> dv_access d \<notin> dv_access ` set ds \<and> dv_refresh d \<notin> dv_refresh ` set ds"
  by (auto simp: insert_device_def split: if_splits)

section \<open>What a successful registration did\<close>

lemma register_okE:
  assumes "register sha fail rk ra rr now name invite key s = (Inr p, s')"
  obtains acc as d where
    "register_account sha fail rk key now (accounts s) = Inr (acc, tp_account_key p, as)"
    and "s' = s\<lparr>accounts := as, devices := devices s @ [d]\<rparr>"
    and "d = \<lparr>dv_id = next_id (map dv_id (devices s)), dv_account = acc, dv_name = name,
        dv_access = hash_token sha (tp_access p), dv_refresh = hash_token sha (tp_refresh p),
        dv_invite = (if invite = [] then None else Some invite), dv_created = now,
        dv_access_exp = now + access_ttl, dv_refresh_exp = now + refresh_ttl\<rparr>"
    and "dv_access d \<notin> dv_access ` set (devices s)" and "dv_refresh d \<notin> dv_refresh ` set (devices s)"
    and "\<not> invite_refused (invites s) invite key" and "tp_expires p = expires_in"
proof -
  from assms have nref: "\<not> invite_refused (invites s) invite key"
    by (auto simp: register_def split: if_splits)
  from assms obtain acc key' as where
    a: "register_account sha fail rk key now (accounts s) = Inr (acc, key', as)"
    by (auto simp: register_def split: if_splits sum.splits)
  from assms a nref obtain pair ds where
    i: "issue_tokens sha fail ra rr acc name invite now (devices s) = Inr (pair, ds)"
    and p: "p = pair\<lparr>tp_account_key := key'\<rparr>" and s': "s' = s\<lparr>accounts := as, devices := ds\<rparr>"
    by (auto simp: register_def split: if_splits sum.splits)
  let ?d = "\<lparr>dv_id = next_id (map dv_id (devices s)), dv_account = acc, dv_name = name,
        dv_access = hash_token sha (tp_access pair), dv_refresh = hash_token sha (tp_refresh pair),
        dv_invite = (if invite = [] then None else Some invite), dv_created = now,
        dv_access_exp = now + access_ttl, dv_refresh_exp = now + refresh_ttl\<rparr>"
  from i have "insert_device ?d (devices s) = Some ds" and "tp_expires pair = expires_in"
    unfolding issue_tokens_def by (auto split: sum.splits if_splits option.splits)
  from insert_device_SomeD [OF this(1)] this(2) a s' p nref show ?thesis
    by (intro that [of acc as ?d]) simp_all
qed

lemma register_account_cases:
  assumes "register_account sha fail rk key now as = Inr (acc, key', as')"
  shows "(key \<noteq> [] \<and> key' = key \<and> as' = as \<and>
       (\<exists>a. tbl_find ac_key_hash (hash_token sha key) as = Some a \<and> acc = ac_id a)) \<or>
     (key = [] \<and> acc = next_id (map ac_id as) \<and> hash_token sha key' \<notin> ac_key_hash ` set as \<and>
       as' = as @ [\<lparr>ac_id = acc, ac_key_hash = hash_token sha key', ac_created = now\<rparr>])"
  using assms
  by (auto simp: register_account_def dest!: insert_account_SomeD split: if_splits sum.splits option.splits)

lemma register_error_state: "register sha fail rk ra rr now name invite key s = (Inl e, s') \<Longrightarrow> s' = s"
  by (auto simp: register_def split: if_splits sum.splits)

lemma register_inv [keeps_inv]:
  assumes "auth_inv s" and "register sha fail rk ra rr now name invite key s = (res, s')"
  shows "auth_inv s'"
proof (cases res)
  case (Inl e)
  with assms register_error_state show ?thesis by fastforce
next
  case (Inr p)
  with assms(2) obtain acc as d where
    acct: "register_account sha fail rk key now (accounts s) = Inr (acc, tp_account_key p, as)"
    and s': "s' = s\<lparr>accounts := as, devices := devices s @ [d]\<rparr>"
    and d: "dv_id d = next_id (map dv_id (devices s))" "dv_account d = acc"
      "dv_access d \<notin> dv_access ` set (devices s)" "dv_refresh d \<notin> dv_refresh ` set (devices s)"
    by (auto elim!: register_okE)
  have "dv_id d \<notin> dv_id ` set (devices s)" using next_id_fresh [of "map dv_id (devices s)"] d(1) by auto
  moreover have "next_id (map ac_id (accounts s)) \<notin> ac_id ` set (accounts s)"
    using next_id_fresh [of "map ac_id (accounts s)"] by auto
  ultimately show ?thesis
    using assms(1) d register_account_cases [OF acct]
    by (auto simp: s' auth_inv_def tbl_unique_snoc dest!: tbl_find_SomeD)
qed

section \<open>What a successful rotation did\<close>

lemma refresh_okE:
  assumes "refresh sha fail ra rr now tok s = (Inr p, s')"
  obtains d where
    "List.find (\<lambda>d. dv_refresh d = hash_token sha tok \<and> dv_refresh_exp d > now) (devices s) = Some d"
    and "rotate_row (dv_id d) (hash_token sha (tp_access p)) (hash_token sha (tp_refresh p)) now (devices s)
      = Some (devices s')"
    and "accounts s' = accounts s" and "invites s' = invites s"
proof -
  let ?find = "List.find (\<lambda>d. dv_refresh d = hash_token sha tok \<and> dv_refresh_exp d > now) (devices s)"
  from assms obtain d where d: "?find = Some d"
    unfolding refresh_def by (auto split: if_splits option.splits)
  from assms have "rotate_row (dv_id d) (hash_token sha (tp_access p)) (hash_token sha (tp_refresh p)) now (devices s)
      = Some (devices s') \<and> accounts s' = accounts s \<and> invites s' = invites s"
    unfolding refresh_def d by (auto split: if_splits option.splits sum.splits)
  with d show ?thesis by (intro that) auto
qed

lemma refresh_error_state: "refresh sha fail ra rr now tok s = (Inl e, s') \<Longrightarrow> s' = s"
  by (auto simp: refresh_def split: if_splits sum.splits option.splits)

lemma rotate_row_SomeD:
  assumes "rotate_row i ah rh now ds = Some ds'"
  shows "(\<forall>d \<in> set ds. dv_id d \<noteq> i \<longrightarrow> dv_access d \<noteq> ah \<and> dv_refresh d \<noteq> rh) \<and>
     ds' = map (\<lambda>d. if dv_id d = i
             then d\<lparr>dv_access := ah, dv_refresh := rh, dv_access_exp := now + access_ttl,
                    dv_refresh_exp := now + refresh_ttl\<rparr> else d) ds"
  using assms by (auto simp: rotate_row_def list_ex_iff split: if_splits)

lemma tbl_unique_rotate:
  assumes "tbl_unique dv_id ds" and "tbl_unique f ds"
    and "\<forall>d \<in> set ds. dv_id d \<noteq> i \<longrightarrow> f d \<noteq> v" and "\<And>d. f (upd d) = v"
  shows "tbl_unique f (map (\<lambda>d. if dv_id d = i then upd d else d) ds)"
proof -
  let ?h = "\<lambda>d. f (if dv_id d = i then upd d else d)"
  have "distinct ds" using assms(1) by (simp add: tbl_unique_def distinct_map)
  moreover have "inj_on ?h (set ds)"
  proof (rule inj_onI)
    fix x y
    assume xy: "x \<in> set ds" "y \<in> set ds" and eq: "?h x = ?h y"
    show "x = y"
    proof (cases "dv_id x = dv_id y")
      case True
      with xy assms(1) show ?thesis by (auto simp: tbl_unique_def distinct_map dest: inj_onD)
    next
      case False
      with eq xy assms(3,4) have "f x = f y" by (auto split: if_splits)
      with xy assms(2) show ?thesis by (auto simp: tbl_unique_def distinct_map dest: inj_onD)
    qed
  qed
  ultimately have "distinct (map ?h ds)" by (simp add: distinct_map)
  then show ?thesis by (simp add: tbl_unique_def comp_def)
qed

lemma refresh_inv [keeps_inv]:
  assumes "auth_inv s" and "refresh sha fail ra rr now tok s = (res, s')"
  shows "auth_inv s'"
proof (cases res)
  case (Inl e)
  with assms refresh_error_state show ?thesis by fastforce
next
  case (Inr p)
  obtain d where "List.find (\<lambda>d. dv_refresh d = hash_token sha tok \<and> dv_refresh_exp d > now) (devices s) = Some d"
    and rot: "rotate_row (dv_id d) (hash_token sha (tp_access p)) (hash_token sha (tp_refresh p)) now (devices s)
      = Some (devices s')" and acc: "accounts s' = accounts s" and "invites s' = invites s"
    by (rule refresh_okE [OF assms(2) [unfolded Inr]])
  note ds' = rotate_row_SomeD [OF rot]
  note eq = conjunct2 [OF ds'] and fresh = conjunct1 [OF ds'] and inv = auth_invD [OF assms(1)]
  have "tbl_unique dv_access (devices s')"
    unfolding eq by (rule tbl_unique_rotate [OF inv(3,4)]) (use fresh in auto)
  moreover have "tbl_unique dv_refresh (devices s')"
    unfolding eq by (rule tbl_unique_rotate [OF inv(3,5)]) (use fresh in auto)
  moreover have "tbl_unique dv_id (devices s')"
    unfolding eq using inv(3) by (subst tbl_unique_map) simp_all
  moreover have "dv_account ` set (devices s') = dv_account ` set (devices s)"
    unfolding eq set_map image_image by (rule image_cong) simp_all
  ultimately show ?thesis using assms(1) by (simp add: auth_inv_def acc)
qed

section \<open>Sessions\<close>

text \<open>
  The abstract view: which account, device and expiry time an access token's hash stands for, and the
  same for a refresh token.
\<close>

type_synonym sessions = "string \<Rightarrow> (int \<times> int \<times> int) option"

definition access_view :: "auth_state \<Rightarrow> sessions" where
  "access_view s h = map_option (\<lambda>d. (dv_account d, dv_id d, dv_access_exp d)) (tbl_find dv_access h (devices s))"

definition refresh_view :: "auth_state \<Rightarrow> sessions" where
  "refresh_view s h = map_option (\<lambda>d. (dv_account d, dv_id d, dv_refresh_exp d)) (tbl_find dv_refresh h (devices s))"

lemma access_viewD:
  "access_view s h = Some (a, i, e) \<Longrightarrow> \<exists>d \<in> set (devices s). dv_access d = h \<and> dv_id d = i \<and> dv_account d = a"
  by (auto simp: access_view_def dest!: tbl_find_SomeD)

text \<open>
  The contract of a token service over these views: issuing a pair adds a session under the hashes of
  its tokens, rotating one moves a session from the old hashes to the new.
\<close>

locale token_service =
  fixes acc_of :: "'s \<Rightarrow> sessions" and ref_of :: "'s \<Rightarrow> sessions"
    and issued :: "'s \<Rightarrow> int \<Rightarrow> string \<Rightarrow> string \<Rightarrow> 's \<Rightarrow> bool"
    and rotated :: "'s \<Rightarrow> int \<Rightarrow> string \<Rightarrow> string \<Rightarrow> string \<Rightarrow> 's \<Rightarrow> bool"
    and valid :: "'s \<Rightarrow> bool"
  assumes issued_views: "valid s \<Longrightarrow> issued s now ah rh s' \<Longrightarrow>
      \<exists>a i. acc_of s ah = None \<and> ref_of s rh = None \<and>
        acc_of s' = (acc_of s)(ah \<mapsto> (a, i, now + access_ttl)) \<and>
        ref_of s' = (ref_of s)(rh \<mapsto> (a, i, now + refresh_ttl))"
    and rotated_views: "valid s \<Longrightarrow> rotated s now old ah rh s' \<Longrightarrow>
      \<exists>a i e olda. ref_of s old = Some (a, i, e) \<and> now < e \<and> (\<exists>e'. acc_of s olda = Some (a, i, e')) \<and>
        acc_of s' = (acc_of s)(olda := None, ah \<mapsto> (a, i, now + access_ttl)) \<and>
        ref_of s' = (ref_of s)(old := None, rh \<mapsto> (a, i, now + refresh_ttl))"
    and valid_issued: "valid s \<Longrightarrow> issued s now ah rh s' \<Longrightarrow> valid s'"
    and valid_rotated: "valid s \<Longrightarrow> rotated s now old ah rh s' \<Longrightarrow> valid s'"
begin

text \<open>After a rotation the spent refresh token is not accepted again, unless it was drawn anew.\<close>

lemma rotated_once:
  assumes "valid s" and "rotated s now old ah rh s'" and "rh \<noteq> old"
  shows "\<not> rotated s' now' old ah' rh' s''"
proof
  assume again: "rotated s' now' old ah' rh' s''"
  from rotated_views [OF assms(1,2)] assms(3) have "ref_of s' old = None" by auto
  with rotated_views [OF valid_rotated [OF assms(1,2)] again] show False by auto
qed

text \<open>A session under other hashes is the same before and after.\<close>

lemma rotated_frame:
  assumes "valid s" and "rotated s now old ah rh s'" and "ref_of s old = Some (a, i, e)"
    and "acc_of s h = Some (a', i', e')" and "i' \<noteq> i" and "h \<noteq> ah"
  shows "acc_of s' h = Some (a', i', e')"
  using rotated_views [OF assms(1,2)] assms(3-6) by auto

lemma issued_frame:
  assumes "valid s" and "issued s now ah rh s'" and "acc_of s h = Some x"
  shows "acc_of s' h = Some x"
  using issued_views [OF assms(1,2)] assms(3) by auto

end

text \<open>The model's registrations and rotations, whatever their inputs.\<close>

definition issued_by ::
  "(string \<Rightarrow> string) \<Rightarrow> auth_state \<Rightarrow> int \<Rightarrow> string \<Rightarrow> string \<Rightarrow> auth_state \<Rightarrow> bool" where
  "issued_by sha s now ah rh s' \<longleftrightarrow>
     (\<exists>fail rk ra rr name invite key p. register sha fail rk ra rr now name invite key s = (Inr p, s') \<and>
        ah = hash_token sha (tp_access p) \<and> rh = hash_token sha (tp_refresh p))"

definition rotated_by ::
  "(string \<Rightarrow> string) \<Rightarrow> auth_state \<Rightarrow> int \<Rightarrow> string \<Rightarrow> string \<Rightarrow> string \<Rightarrow> auth_state \<Rightarrow> bool" where
  "rotated_by sha s now old ah rh s' \<longleftrightarrow>
     (\<exists>fail ra rr tok p. refresh sha fail ra rr now tok s = (Inr p, s') \<and> old = hash_token sha tok \<and>
        ah = hash_token sha (tp_access p) \<and> rh = hash_token sha (tp_refresh p))"

lemma rotated_byI:
  "refresh sha fail ra rr now tok s = (Inr p, s') \<Longrightarrow>
     rotated_by sha s now (hash_token sha tok) (hash_token sha (tp_access p)) (hash_token sha (tp_refresh p)) s'"
  unfolding rotated_by_def by blast

lemma tbl_find_rotate:
  assumes "tbl_unique dv_id ds" and "tbl_unique f ds" and d: "d \<in> set ds"
    and "\<forall>d' \<in> set ds. dv_id d' \<noteq> dv_id d \<longrightarrow> f d' \<noteq> v" and "\<And>d. f (upd d) = v"
  shows "tbl_find f h (map (\<lambda>d'. if dv_id d' = dv_id d then upd d' else d') ds) =
     (if h = v then Some (upd d) else if h = f d then None else tbl_find f h ds)"
proof -
  let ?g = "\<lambda>d'. if dv_id d' = dv_id d then upd d' else d'"
  have uniq: "tbl_unique f (map ?g ds)" by (rule tbl_unique_rotate [OF assms(1,2,4,5)])
  have inj: "\<And>x y. x \<in> set ds \<Longrightarrow> y \<in> set ds \<Longrightarrow> f x = f y \<Longrightarrow> x = y"
    using assms(2) by (auto simp: tbl_unique_def distinct_map inj_on_def)
  have idinj: "\<And>x y. x \<in> set ds \<Longrightarrow> y \<in> set ds \<Longrightarrow> dv_id x = dv_id y \<Longrightarrow> x = y"
    using assms(1) by (auto simp: tbl_unique_def distinct_map inj_on_def)
  show ?thesis
  proof (cases "h = v")
    case True
    have "upd d \<in> set (map ?g ds)" using d by force
    from tbl_find_unique [OF uniq this] assms(5) True show ?thesis by simp
  next
    case False
    show ?thesis
    proof (cases "tbl_find f h ds")
      case None
      then have "tbl_find f h (map ?g ds) = None"
        using False assms(5) by (auto simp: tbl_find_None_iff)
      with None False show ?thesis by simp
    next
      case (Some x)
      then have x: "x \<in> set ds" "f x = h" by (auto dest: tbl_find_SomeD)
      show ?thesis
      proof (cases "x = d")
        case True
        have "f (?g y) \<noteq> h" if y: "y \<in> set ds" for y
        proof (cases "dv_id y = dv_id d")
          case True
          then show ?thesis using False assms(5) by simp
        next
          case other: False
          then show ?thesis using inj [OF y d] x(2) True by auto
        qed
        then have "tbl_find f h (map ?g ds) = None"
          unfolding tbl_find_None_iff set_map by blast
        with x True False show ?thesis by simp
      next
        case neq: False
        then have "dv_id x \<noteq> dv_id d" using idinj x(1) d by blast
        then have "x \<in> set (map ?g ds)" using x by force
        from tbl_find_unique [OF uniq this] x neq inj [OF x(1) d] False Some show ?thesis by auto
      qed
    qed
  qed
qed

interpretation tokens_of: token_service access_view refresh_view "issued_by sha" "rotated_by sha" auth_inv
  for sha
proof
  fix s now ah rh s'
  assume inv: "auth_inv s" and iss: "issued_by sha s now ah rh s'"
  then obtain fail rk ra rr name invite key p where
    reg: "register sha fail rk ra rr now name invite key s = (Inr p, s')"
    and h: "ah = hash_token sha (tp_access p)" "rh = hash_token sha (tp_refresh p)"
    by (auto simp: issued_by_def)
  obtain acc as d where s': "s' = s\<lparr>accounts := as, devices := devices s @ [d]\<rparr>"
    and d: "dv_account d = acc" "dv_access d = ah" "dv_refresh d = rh" "dv_access_exp d = now + access_ttl"
      "dv_refresh_exp d = now + refresh_ttl"
      "dv_access d \<notin> dv_access ` set (devices s)" "dv_refresh d \<notin> dv_refresh ` set (devices s)"
    by (rule register_okE [OF reg]) (auto simp: h)
  have "tbl_find dv_access ah (devices s) = None" "tbl_find dv_refresh rh (devices s) = None"
    using d by (auto simp: tbl_find_None_iff image_iff)
  then show "\<exists>a i. access_view s ah = None \<and> refresh_view s rh = None \<and>
        access_view s' = (access_view s)(ah \<mapsto> (a, i, now + access_ttl)) \<and>
        refresh_view s' = (refresh_view s)(rh \<mapsto> (a, i, now + refresh_ttl))"
    using d by (intro exI [of _ acc] exI [of _ "dv_id d"])
      (auto simp: access_view_def refresh_view_def s' fun_eq_iff tbl_find_snoc split: option.split)
  show "auth_inv s'" by (rule register_inv [OF inv reg])
next
  fix s now old ah rh s'
  assume inv: "auth_inv s" and rot: "rotated_by sha s now old ah rh s'"
  then obtain fail ra rr tok p where ref: "refresh sha fail ra rr now tok s = (Inr p, s')"
    and h: "old = hash_token sha tok" "ah = hash_token sha (tp_access p)" "rh = hash_token sha (tp_refresh p)"
    by (auto simp: rotated_by_def)
  obtain d where find: "List.find (\<lambda>d. dv_refresh d = old \<and> dv_refresh_exp d > now) (devices s) = Some d"
    and row: "rotate_row (dv_id d) ah rh now (devices s) = Some (devices s')"
    by (rule refresh_okE [OF ref]) (auto simp: h)
  have d: "d \<in> set (devices s)" "dv_refresh d = old" "dv_refresh_exp d > now" using find by (auto dest: find_SomeD)
  note ds' = rotate_row_SomeD [OF row]
  note inv' = auth_invD [OF inv]
  have acc: "tbl_find dv_access k (devices s') =
      (if k = ah then Some (d\<lparr>dv_access := ah, dv_refresh := rh, dv_access_exp := now + access_ttl, dv_refresh_exp := now + refresh_ttl\<rparr>)
       else if k = dv_access d then None else tbl_find dv_access k (devices s))" for k
    unfolding conjunct2 [OF ds'] by (rule tbl_find_rotate [OF inv'(3,4) d(1)]) (use ds' in auto)
  have rfr: "tbl_find dv_refresh k (devices s') =
      (if k = rh then Some (d\<lparr>dv_access := ah, dv_refresh := rh, dv_access_exp := now + access_ttl, dv_refresh_exp := now + refresh_ttl\<rparr>)
       else if k = dv_refresh d then None else tbl_find dv_refresh k (devices s))" for k
    unfolding conjunct2 [OF ds'] by (rule tbl_find_rotate [OF inv'(3,5) d(1)]) (use ds' in auto)
  have "access_view s (dv_access d) = Some (dv_account d, dv_id d, dv_access_exp d)"
    "refresh_view s old = Some (dv_account d, dv_id d, dv_refresh_exp d)"
    using tbl_find_unique [OF inv'(4) d(1)] tbl_find_unique [OF inv'(5) d(1)] d
    by (simp_all add: access_view_def refresh_view_def)
  moreover have "access_view s' = (access_view s)(dv_access d := None, ah \<mapsto> (dv_account d, dv_id d, now + access_ttl))"
    "refresh_view s' = (refresh_view s)(old := None, rh \<mapsto> (dv_account d, dv_id d, now + refresh_ttl))"
    using d by (auto simp: access_view_def refresh_view_def acc rfr fun_eq_iff)
  ultimately show "\<exists>a i e olda. refresh_view s old = Some (a, i, e) \<and> now < e \<and>
      (\<exists>e'. access_view s olda = Some (a, i, e')) \<and>
      access_view s' = (access_view s)(olda := None, ah \<mapsto> (a, i, now + access_ttl)) \<and>
      refresh_view s' = (refresh_view s)(old := None, rh \<mapsto> (a, i, now + refresh_ttl))"
    using d(3) by blast
  show "auth_inv s'" by (rule refresh_inv [OF inv ref])
qed

section \<open>Authentication reads the view\<close>

lemma authenticate_view:
  assumes "auth_inv s" and "bearer_token hdr = Some tok" and "\<not> List.member (mw_static mw) tok"
    and "\<not> fail LookupAccess"
  shows "authenticate sha fail mw now hdr s =
     (case access_view s (hash_token sha tok) of
        None \<Rightarrow> Inl (unauthorized ''access token invalid or expired'')
      | Some (a, i, e) \<Rightarrow>
          if now < e then Inr (a, i) else Inl (unauthorized ''access token invalid or expired''))"
  using assms auth_invD(4) [OF assms(1)]
  by (simp add: authenticate_def access_view_def find_key_and split: option.split)

lemma bearer_token_Bearer: "tok \<noteq> [] \<Longrightarrow> bearer_token (''Bearer '' @ tok) = Some tok"
proof -
  have "str_cut CHR '' '' (''Bearer'' @ CHR '' '' # tok) = Some (''Bearer'', tok)"
    by (rule str_cut_append) simp
  moreover have "equal_fold ''Bearer'' ''bearer''" by code_simp
  ultimately show "tok \<noteq> [] \<Longrightarrow> ?thesis" by (simp add: bearer_token_def)
qed

end
