(* ===== verification/AuthProps.thy ===== *)
theory AuthProps
  imports AuthFacts
begin

text \<open>The properties of authentication.\<close>

section \<open>Inputs of the witnesses\<close>

text \<open>
  The identity stands for SHA-256; the random bytes are those of three letters. \<open>ex_reg\<close> is the state
  after a first registration with open invites.
\<close>

definition ex_s0 :: auth_state where "ex_s0 = new_auth [] [] [''inv'']"

definition ex_reg :: "(go_error + token_pair) \<times> auth_state" where
  "ex_reg = register id (\<lambda>_. False) (Some ''k'') (Some ''a'') (Some ''b'') 1000 ''phone'' ''inv'' [] ex_s0"

definition ex_s1 :: auth_state where "ex_s1 = snd ex_reg"

definition ex_p1 :: token_pair where
  "ex_p1 = (case fst ex_reg of Inr p \<Rightarrow> p | Inl _ \<Rightarrow> \<lparr>tp_access = [], tp_refresh = [], tp_account_key = [], tp_expires = 0\<rparr>)"

lemma ex_reg_ok: "register id (\<lambda>_. False) (Some ''k'') (Some ''a'') (Some ''b'') 1000 ''phone'' ''inv'' [] ex_s0 = (Inr ex_p1, ex_s1)"
proof -
  have "is_ok (fst ex_reg)" by code_simp
  then show ?thesis by (auto simp: is_ok_iff ex_p1_def ex_s1_def ex_reg_def prod_eq_iff)
qed

lemma ex_s0_inv: "auth_inv ex_s0"
  by (simp add: ex_s0_def auth_inv_empty)

lemma ex_s1_inv: "auth_inv ex_s1"
  by (rule register_inv [OF ex_s0_inv ex_reg_ok])

definition no_mw :: auth_mw where "no_mw = \<lparr>mw_static = [], mw_account = 0\<rparr>"

section \<open>The session of a registration\<close>

lemma register_session:
  assumes "auth_inv s" and "register sha fail rk ra rr now name invite key s = (Inr p, s')"
    and "\<not> List.member (mw_static mw) (tp_access p)" and "\<not> fail' LookupAccess"
  shows "\<exists>acc i. (\<forall>t. authenticate sha fail' mw t (''Bearer '' @ tp_access p) s' =
       (if t < now + access_ttl then Inr (acc, i) else Inl (unauthorized ''access token invalid or expired''))) \<and>
     (\<forall>h. h \<noteq> hash_token sha (tp_access p) \<longrightarrow> access_view s' h = access_view s h) \<and>
     i \<notin> dv_id ` set (devices s) \<and>
     (if key = [] then acc \<notin> ac_id ` set (accounts s)
      else \<exists>a \<in> set (accounts s). ac_key_hash a = hash_token sha key \<and> acc = ac_id a) \<and>
     (\<exists>a \<in> set (accounts s'). ac_id a = acc \<and> ac_key_hash a = hash_token sha (tp_account_key p))"
proof -
  obtain acc as d where
    acct: "register_account sha fail rk key now (accounts s) = Inr (acc, tp_account_key p, as)"
    and s': "s' = s\<lparr>accounts := as, devices := devices s @ [d]\<rparr>"
    and d: "dv_id d = next_id (map dv_id (devices s))" "dv_account d = acc"
      "dv_access d = hash_token sha (tp_access p)" "dv_access_exp d = now + access_ttl"
      "dv_access d \<notin> dv_access ` set (devices s)"
    by (rule register_okE [OF assms(2)]) simp
  have "tbl_find dv_access (hash_token sha (tp_access p)) (devices s) = None"
    using d(3,5) by (auto simp: tbl_find_None_iff image_iff)
  then have find: "tbl_find dv_access h (devices s') =
      (if h = hash_token sha (tp_access p) then Some d else tbl_find dv_access h (devices s))" for h
    using d(3) by (simp add: s' tbl_find_snoc split: option.split)
  have "tp_access p \<noteq> []"
    using assms(2) by (auto simp: register_def issue_tokens_def new_opaque_token_def access_prefix_def
        split: if_splits sum.splits option.splits)
  then have "bearer_token (''Bearer '' @ tp_access p) = Some (tp_access p)" by (rule bearer_token_Bearer)
  note auth = authenticate_view [where fail = fail' and mw = mw, OF register_inv [OF assms(1,2)] this assms(3,4)]
  have "authenticate sha fail' mw t (''Bearer '' @ tp_access p) s' =
      (if t < now + access_ttl then Inr (acc, dv_id d) else Inl (unauthorized ''access token invalid or expired''))" for t
    unfolding auth by (simp add: access_view_def find d)
  moreover have "access_view s' h = access_view s h" if "h \<noteq> hash_token sha (tp_access p)" for h
    using that by (simp add: access_view_def find)
  moreover have "dv_id d \<notin> dv_id ` set (devices s)" using next_id_fresh [of "map dv_id (devices s)"] d(1) by auto
  ultimately show ?thesis
    using register_account_cases [OF acct] next_id_fresh [of "map ac_id (accounts s)"]
    by (intro exI [of _ acc] exI [of _ "dv_id d"]) (auto simp: s' dest!: tbl_find_SomeD)
qed

section \<open>Properties\<close>

text \<open>
  C12: Functional. A registration that succeeds issues a session: its access token authenticates the
  account it registered for and a device of its own for exactly 30 days, and no other session
  changes. The account is that of the account key, or a new one, and the returned account key
  belongs to it.
\<close>

theorem register_issues_session:
  assumes "auth_inv s" and "register sha fail rk ra rr now name invite key s = (Inr p, s')"
    and "\<not> List.member (mw_static mw) (tp_access p)" and "\<not> fail' LookupAccess"
  shows "\<exists>acc i. (\<forall>t. authenticate sha fail' mw t (''Bearer '' @ tp_access p) s' =
       (if t < now + access_ttl then Inr (acc, i) else Inl (unauthorized ''access token invalid or expired''))) \<and>
     (\<forall>h. h \<noteq> hash_token sha (tp_access p) \<longrightarrow> access_view s' h = access_view s h) \<and>
     i \<notin> dv_id ` set (devices s) \<and>
     (if key = [] then acc \<notin> ac_id ` set (accounts s)
      else \<exists>a \<in> set (accounts s). ac_key_hash a = hash_token sha key \<and> acc = ac_id a) \<and>
     (\<exists>a \<in> set (accounts s'). ac_id a = acc \<and> ac_key_hash a = hash_token sha (tp_account_key p))"
  using assms by (rule register_session)

theorem register_issues_session_witness:
  "\<exists>acc i. authenticate id (\<lambda>_. False) no_mw 2000 (''Bearer '' @ tp_access ex_p1) ex_s1 = Inr (acc, i)"
proof -
  have "\<not> List.member (mw_static no_mw) (tp_access ex_p1)" by (simp add: no_mw_def)
  from register_issues_session [OF ex_s0_inv ex_reg_ok this, of "\<lambda>_. False"] show ?thesis
    by (auto simp: access_ttl_def)
qed

text \<open>
  C10: Safety. A refresh token works once. A rotation that succeeds gives the device of the spent token
  a new pair; neither its old access token nor the spent refresh token is accepted afterwards, at
  any time, and the sessions of all other devices are what they were.
\<close>

theorem refresh_rotates:
  assumes "auth_inv s" and "refresh sha fail ra rr now tok s = (Inr p, s')"
    and "hash_token sha (tp_refresh p) \<noteq> hash_token sha tok"
  shows "\<exists>acc i e. refresh_view s (hash_token sha tok) = Some (acc, i, e) \<and> now < e \<and>
     access_view s' (hash_token sha (tp_access p)) = Some (acc, i, now + access_ttl) \<and>
     (\<forall>h e'. access_view s h = Some (acc, i, e') \<and> h \<noteq> hash_token sha (tp_access p) \<longrightarrow> access_view s' h = None) \<and>
     (\<forall>fail' ra' rr' now'. \<not> is_ok (fst (refresh sha fail' ra' rr' now' tok s'))) \<and>
     (\<forall>h a' i' e'. access_view s h = Some (a', i', e') \<and> i' \<noteq> i \<longrightarrow> access_view s' h = Some (a', i', e'))"
proof -
  let ?ah = "hash_token sha (tp_access p)" and ?rh = "hash_token sha (tp_refresh p)" and ?old = "hash_token sha tok"
  have rot: "rotated_by sha s now ?old ?ah ?rh s'" by (rule rotated_byI [OF assms(2)])
  obtain a i e olda e0 where v: "refresh_view s ?old = Some (a, i, e)" "now < e" "access_view s olda = Some (a, i, e0)"
    and acc': "access_view s' = (access_view s)(olda := None, ?ah \<mapsto> (a, i, now + access_ttl))"
    using tokens_of.rotated_views [OF assms(1) rot] by blast
  have same: "h = olda" if "access_view s h = Some (a', i, e')" for h a' e'
  proof -
    from access_viewD [OF that] access_viewD [OF v(3)]
    obtain d1 d2 where "d1 \<in> set (devices s)" "dv_access d1 = h" "dv_id d1 = i"
      and "d2 \<in> set (devices s)" "dv_access d2 = olda" "dv_id d2 = i" by blast
    with auth_invD(3) [OF assms(1)] show ?thesis by (auto simp: tbl_unique_def distinct_map dest: inj_onD)
  qed
  have "\<not> is_ok (fst (refresh sha fail' ra' rr' now' tok s'))" for fail' ra' rr' now'
  proof
    assume "is_ok (fst (refresh sha fail' ra' rr' now' tok s'))"
    then obtain p' s'' where "refresh sha fail' ra' rr' now' tok s' = (Inr p', s'')"
      by (metis is_ok_iff prod.collapse)
    then have "rotated_by sha s' now' ?old (hash_token sha (tp_access p')) (hash_token sha (tp_refresh p')) s''"
      by (rule rotated_byI)
    with tokens_of.rotated_once [OF assms(1) rot assms(3)] show False by blast
  qed
  moreover have "access_view s' h = None" if "access_view s h = Some (a, i, e')" "h \<noteq> ?ah" for h e'
    using that same [OF that(1)] by (simp add: acc')
  moreover have "access_view s' ?ah = Some (a, i, now + access_ttl)" by (simp add: acc')
  moreover have "access_view s' h = Some (a', i', e')" if that: "access_view s h = Some (a', i', e')" "i' \<noteq> i" for h a' i' e'
  proof (cases "h = ?ah")
    case True
    note view = that(1)
    obtain d where d: "List.find (\<lambda>d. dv_refresh d = ?old \<and> dv_refresh_exp d > now) (devices s) = Some d"
      and row: "rotate_row (dv_id d) ?ah ?rh now (devices s) = Some (devices s')"
      by (rule refresh_okE [OF assms(2)])
    have "dv_id d = i"
      using v(1) d auth_invD(5) [OF assms(1)] by (auto simp: refresh_view_def find_key_and split: option.splits if_splits)
    moreover obtain d1 where "d1 \<in> set (devices s)" "dv_access d1 = ?ah" "dv_id d1 = i'"
      using access_viewD [OF view] True by blast
    ultimately show ?thesis using rotate_row_SomeD [OF row] that(2) by auto
  next
    case False
    then show ?thesis by (rule tokens_of.rotated_frame [OF assms(1) rot v(1) that])
  qed
  ultimately show ?thesis using v(1,2) by (intro exI [of _ a] exI [of _ i] exI [of _ e]) blast
qed

theorem refresh_rotates_witness:
  "\<exists>p s'. refresh id (\<lambda>_. False) (Some ''c'') (Some ''d'') 2000 (tp_refresh ex_p1) ex_s1 = (Inr p, s') \<and>
     \<not> is_ok (fst (refresh id (\<lambda>_. False) (Some ''e'') (Some ''f'') 3000 (tp_refresh ex_p1) s'))"
proof -
  let ?r = "refresh id (\<lambda>_. False) (Some ''c'') (Some ''d'') 2000 (tp_refresh ex_p1) ex_s1"
  have ok: "case fst ?r of Inl _ \<Rightarrow> False | Inr p \<Rightarrow> hash_token id (tp_refresh p) \<noteq> hash_token id (tp_refresh ex_p1)"
    by code_simp
  then obtain p s' where r: "?r = (Inr p, s')" by (cases ?r) (auto split: sum.splits)
  with ok have "hash_token id (tp_refresh p) \<noteq> hash_token id (tp_refresh ex_p1)" by simp
  from refresh_rotates [OF ex_s1_inv r this] r show ?thesis by blast
qed

text \<open>
  C13: Safety. While there are invite codes nobody opens an account without one: a registration that
  succeeds presented a code of the list, or the key of an account that exists. A refused one is
  answered with 403 and changes nothing.
\<close>

theorem invite_gate:
  assumes "invites s \<noteq> []"
  shows "(register sha fail rk ra rr now name invite key s = (Inr p, s') \<longrightarrow>
       List.member (invites s) invite \<or> (\<exists>a \<in> set (accounts s). ac_key_hash a = hash_token sha key)) \<and>
     (key = [] \<and> \<not> List.member (invites s) invite \<longrightarrow>
       register sha fail rk ra rr now name invite key s =
         (Inl (Api (new_error 403 ''FORBIDDEN'' ''invalid invite code'')), s))"
proof (intro conjI impI)
  assume reg: "register sha fail rk ra rr now name invite key s = (Inr p, s')"
  show "List.member (invites s) invite \<or> (\<exists>a \<in> set (accounts s). ac_key_hash a = hash_token sha key)"
  proof (rule register_okE [OF reg])
    fix acc as
    assume "register_account sha fail rk key now (accounts s) = Inr (acc, tp_account_key p, as)"
      and "\<not> invite_refused (invites s) invite key"
    with register_account_cases [OF this(1)] assms show ?thesis
      by (auto simp: invite_refused_def dest!: tbl_find_SomeD)
  qed
next
  assume "key = [] \<and> \<not> List.member (invites s) invite"
  with assms show "register sha fail rk ra rr now name invite key s =
      (Inl (Api (new_error 403 ''FORBIDDEN'' ''invalid invite code'')), s)"
    by (simp add: register_def invite_refused_def forbidden_def)
qed

theorem invite_gate_witness:
  "register id (\<lambda>_. False) (Some ''k'') (Some ''a'') (Some ''b'') 1000 ''phone'' ''guess'' [] ex_s0 =
     (Inl (Api (new_error 403 ''FORBIDDEN'' ''invalid invite code'')), ex_s0)"
  using invite_gate [of ex_s0 id "\<lambda>_. False" "Some ''k''" "Some ''a''" "Some ''b''" 1000 "''phone''" "''guess''" "[]"]
  by (simp add: ex_s0_def new_auth_def)

text \<open>
  Safety, a defect. The key hash of the shared static account is the hash of a string in the source,
  so that string is an account key: whoever registers with it gets a session of the shared account,
  without an invite code. The comment says that no such plaintext exists.
\<close>

theorem static_account_key_is_public:
  assumes "auth_inv s" and "new_middleware sha fail now toks s = (Inr mw, s1)" and "toks \<noteq> []"
    and "hash_token sha (access_prefix @ rawurl_encode a) \<notin> dv_access ` set (devices s)"
    and "hash_token sha (refresh_prefix @ rawurl_encode b) \<notin> dv_refresh ` set (devices s)"
    and "\<not> List.member toks (access_prefix @ rawurl_encode a)" and "\<forall>st. \<not> fail' st"
  shows "\<exists>p s2 i. register sha fail' rk (Some a) (Some b) now' name invite static_plaintext s1 = (Inr p, s2) \<and>
     authenticate sha fail' mw now' (''Bearer '' @ tp_access p) s2 = Inr (mw_account mw, i)"
proof -
  obtain as ac where mw: "mw = \<lparr>mw_static = toks, mw_account = ac_id ac\<rparr>" and s1: "s1 = s\<lparr>accounts := as\<rparr>"
    and find: "tbl_find ac_key_hash (hash_token sha static_plaintext) as = Some ac"
    and as: "as = (case insert_account (hash_token sha static_plaintext) now (accounts s) of
        None \<Rightarrow> accounts s | Some (_, as') \<Rightarrow> as')"
    using assms(2,3)
    by (auto simp: new_middleware_def ensure_static_account_def Let_def split: if_splits sum.splits option.splits prod.splits)
  have inv1: "auth_inv s1"
    using assms(1) next_id_fresh [of "map ac_id (accounts s)"]
    by (auto simp: s1 as auth_inv_def tbl_unique_snoc dest!: insert_account_SomeD split: option.splits)
  let ?d = "\<lparr>dv_id = next_id (map dv_id (devices s)), dv_account = ac_id ac, dv_name = name,
      dv_access = hash_token sha (access_prefix @ rawurl_encode a),
      dv_refresh = hash_token sha (refresh_prefix @ rawurl_encode b),
      dv_invite = (if invite = [] then None else Some invite), dv_created = now',
      dv_access_exp = now' + access_ttl, dv_refresh_exp = now' + refresh_ttl\<rparr>"
  have nonempty: "static_plaintext \<noteq> []" by (simp add: static_plaintext_def)
  have "insert_device ?d (devices s) = Some (devices s @ [?d])"
    using assms(4,5) by (auto simp: insert_device_def)
  then have "\<exists>p s2. register sha fail' rk (Some a) (Some b) now' name invite static_plaintext s1 = (Inr p, s2) \<and>
      tp_access p = access_prefix @ rawurl_encode a"
    using assms(7) find nonempty
    by (simp add: register_def invite_refused_def register_account_def issue_tokens_def new_opaque_token_def s1)
  then obtain p s2 where reg: "register sha fail' rk (Some a) (Some b) now' name invite static_plaintext s1 = (Inr p, s2)"
    and p: "tp_access p = access_prefix @ rawurl_encode a" by blast
  have "\<not> List.member (mw_static mw) (tp_access p)" "\<not> fail' LookupAccess" using assms(6,7) by (simp_all add: mw p)
  from register_session [OF inv1 reg, of mw fail'] this nonempty obtain acc i where
    auth: "\<forall>t. authenticate sha fail' mw t (''Bearer '' @ tp_access p) s2 =
        (if t < now' + access_ttl then Inr (acc, i) else Inl (unauthorized ''access token invalid or expired''))"
    and acc: "\<exists>x \<in> set (accounts s1). ac_key_hash x = hash_token sha static_plaintext \<and> acc = ac_id x"
    by auto
  from acc tbl_find_unique [OF auth_invD(2) [OF inv1]] find have "acc = ac_id ac" by (fastforce simp: s1)
  with auth reg show ?thesis by (auto simp: mw access_ttl_def)
qed

theorem static_account_key_is_public_witness:
  "\<exists>mw s1 p s2 i. new_middleware id (\<lambda>_. False) 5 [''secret''] ex_s0 = (Inr mw, s1) \<and>
     register id (\<lambda>_. False) None (Some ''a'') (Some ''b'') 1000 ''phone'' [] static_plaintext s1 = (Inr p, s2) \<and>
     authenticate id (\<lambda>_. False) mw 1000 (''Bearer '' @ tp_access p) s2 = Inr (mw_account mw, i)"
proof -
  have "is_ok (fst (new_middleware id (\<lambda>_. False) 5 [''secret''] ex_s0))" by code_simp
  then obtain mw s1 where mw: "new_middleware id (\<lambda>_. False) 5 [''secret''] ex_s0 = (Inr mw, s1)"
    by (metis is_ok_iff prod.collapse)
  have "\<not> List.member [''secret''] (access_prefix @ rawurl_encode ''a'')" by code_simp
  with static_account_key_is_public [OF ex_s0_inv mw, of "''a''" "''b''" "\<lambda>_. False"] mw show ?thesis
    by (fastforce simp: ex_s0_def new_auth_def)
qed

end
