(* ===== verification/AuthStep.thy ===== *)
theory AuthStep
  imports AuthProps "HOL-Library.Multiset"
begin

text \<open>
  Rotations at the same time. \<^verbatim>\<open>Refresh\<close> is a transaction of SQLite that reads first and writes then, and no lock of the
  program is held around it, so that its reading, its writing and its commit are steps of their own. A transaction sees
  the data as of its first statement. \<open>may v n\<close> says whether one that has read version \<open>v\<close> of the data may write when they
  are at version \<open>n\<close>; what the code relies on is \<open>snapshot_law\<close>.
\<close>

section \<open>Steps\<close>

text \<open>
  The documentation of SQLite: a reader that wants to write gets \<^verbatim>\<open>SQLITE_BUSY_SNAPSHOT\<close> if another connection has written
  since its snapshot was taken.
\<close>

definition snapshot_law :: "(nat \<Rightarrow> nat \<Rightarrow> bool) \<Rightarrow> bool" where
  "snapshot_law may \<longleftrightarrow> (\<forall>v n. may v n \<longrightarrow> v = n)"

text \<open>
  Where a rotation is: about to look the token up, about to write the row it has found (with the version it has seen),
  about to commit, or answered. \<open>Registered\<close> is the answer to a registration.
\<close>

datatype auth_phase =
    Looking int string
  | Rotating int string int nat
  | Committing string token_pair "device list"
  | Refreshed string "go_error + token_pair"
  | Registered "go_error + token_pair"

text \<open>
  One step of the rotation \<open>me\<close>. There is one writer at a time: a rotation that wants to write while another one does waits,
  or gives up when the busy timeout is over (\<open>fail RotateTokens\<close>).
\<close>

fun refresh_step ::
  "(string \<Rightarrow> string) \<Rightarrow> (nat \<Rightarrow> nat \<Rightarrow> bool) \<Rightarrow> (auth_step \<Rightarrow> bool) \<Rightarrow> string option \<Rightarrow> string option \<Rightarrow> nat \<Rightarrow> auth_phase
     \<Rightarrow> nat option \<times> nat \<times> auth_state \<Rightarrow> auth_phase \<times> nat option \<times> nat \<times> auth_state" where
  "refresh_step sha may fail ra rr me (Looking now tok) (w, v, s) =
     (if fail AuthBegin then Refreshed tok (Inl (Internal ''begin refresh tx''))
      else if fail LookupRefresh then Refreshed tok (Inl (Internal ''lookup refresh token''))
      else (case List.find (\<lambda>d. dv_refresh d = hash_token sha tok \<and> dv_refresh_exp d > now) (devices s) of
              None \<Rightarrow> Refreshed tok (Inl (unauthorized ''refresh token invalid or expired''))
            | Some d \<Rightarrow> Rotating now tok (dv_id d) v), w, v, s)"
| "refresh_step sha may fail ra rr me (Rotating now tok i v0) (w, v, s) =
     (case new_opaque_token access_prefix ra of
        Inl e \<Rightarrow> (Refreshed tok (Inl e), w, v, s)
      | Inr access \<Rightarrow>
     (case new_opaque_token refresh_prefix rr of
        Inl e \<Rightarrow> (Refreshed tok (Inl e), w, v, s)
      | Inr new \<Rightarrow>
          (if w \<noteq> None \<and> \<not> fail RotateTokens then (Rotating now tok i v0, w, v, s)
           else if fail RotateTokens \<or> \<not> may v0 v then (Refreshed tok (Inl (Internal ''rotate tokens'')), w, v, s)
           else case rotate_row i (hash_token sha access) (hash_token sha new) now (devices s) of
             None \<Rightarrow> (Refreshed tok (Inl (Internal ''rotate tokens'')), w, v, s)
           | Some ds \<Rightarrow>
               (Committing tok \<lparr>tp_access = access, tp_refresh = new, tp_account_key = [], tp_expires = expires_in\<rparr> ds,
                Some me, v, s))))"
| "refresh_step sha may fail ra rr me (Committing tok p ds) (w, v, s) =
     (if fail AuthCommit then (Refreshed tok (Inl (Internal ''commit refresh tx'')), None, v, s)
      else (Refreshed tok (Inr p), None, Suc v, s\<lparr>devices := ds\<rparr>))"
| "refresh_step sha may fail ra rr me (Refreshed tok r) c = (Refreshed tok r, c)"
| "refresh_step sha may fail ra rr me (Registered r) c = (Registered r, c)"

text \<open>
  The tables, their version, the rotation that writes, and the requests. Beside the rotations there are registrations,
  deletions of accounts and writes to other tables, each a transaction in one step that needs the write lock.
\<close>

record auth_system =
  ay_writer :: "nat option"
  ay_version :: nat
  ay_auth :: auth_state
  ay_ops :: "auth_phase list"

datatype auth_move =
    StartRefresh int string
  | Proceed nat "auth_step \<Rightarrow> bool" "string option" "string option"
  | Join "auth_step \<Rightarrow> bool" "string option" "string option" "string option" int string string string
  | Erase int
  | WriteElsewhere

definition erase_devices :: "int \<Rightarrow> auth_state \<Rightarrow> auth_state" where
  "erase_devices acc s = s\<lparr>devices := tbl_delete (\<lambda>d. dv_account d = acc) (devices s),
     accounts := tbl_delete (\<lambda>x. ac_id x = acc) (accounts s)\<rparr>"

fun auth_next :: "(string \<Rightarrow> string) \<Rightarrow> (nat \<Rightarrow> nat \<Rightarrow> bool) \<Rightarrow> auth_move \<Rightarrow> auth_system \<Rightarrow> auth_system" where
  "auth_next sha may (StartRefresh now tok) y = y\<lparr>ay_ops := ay_ops y @ [Looking now tok]\<rparr>"
| "auth_next sha may (Proceed j fail ra rr) y =
     (if j < length (ay_ops y) then
        (case refresh_step sha may fail ra rr j (ay_ops y ! j) (ay_writer y, ay_version y, ay_auth y) of
           (p, w, v, s) \<Rightarrow> \<lparr>ay_writer = w, ay_version = v, ay_auth = s, ay_ops = (ay_ops y)[j := p]\<rparr>)
      else y)"
| "auth_next sha may (Join fail rk ra rr now name invite key) y =
     (if ay_writer y \<noteq> None then y
      else case register sha fail rk ra rr now name invite key (ay_auth y) of
        (r, s) \<Rightarrow> y\<lparr>ay_version := (if is_ok r then Suc (ay_version y) else ay_version y), ay_auth := s,
                    ay_ops := ay_ops y @ [Registered r]\<rparr>)"
| "auth_next sha may (Erase acc) y =
     (if ay_writer y \<noteq> None then y
      else y\<lparr>ay_version := Suc (ay_version y), ay_auth := erase_devices acc (ay_auth y)\<rparr>)"
| "auth_next sha may WriteElsewhere y =
     (if ay_writer y \<noteq> None then y else y\<lparr>ay_version := Suc (ay_version y)\<rparr>)"

fun auth_run :: "(string \<Rightarrow> string) \<Rightarrow> (nat \<Rightarrow> nat \<Rightarrow> bool) \<Rightarrow> auth_move list \<Rightarrow> auth_system \<Rightarrow> auth_system" where
  "auth_run sha may [] y = y"
| "auth_run sha may (e # es) y = auth_run sha may es (auth_next sha may e y)"

definition quiet_auth :: "auth_state \<Rightarrow> auth_system" where
  "quiet_auth s = \<lparr>ay_writer = None, ay_version = 0, ay_auth = s, ay_ops = []\<rparr>"

section \<open>One rotation alone\<close>

text \<open>The steps of a rotation that meets no other transaction are \<^verbatim>\<open>Refresh\<close> in one step.\<close>

lemma refresh_alone:
  assumes "may v v"
  shows "let step = (\<lambda>(p, c). refresh_step sha may fail ra rr me p c)
     in \<exists>v'. step (step (step (Looking now tok, None, v, s))) =
          (Refreshed tok (fst (refresh sha fail ra rr now tok s)), None, v', snd (refresh sha fail ra rr now tok s))"
  using assms
  by (cases "new_opaque_token access_prefix ra"; cases "new_opaque_token refresh_prefix rr")
    (auto simp: Let_def refresh_def split: option.split)

section \<open>The order of the commits\<close>

text \<open>The transactions that have committed, and running them one after the other.\<close>

datatype auth_call = Rotation string token_pair | Registration token_pair | Erasure int

fun call_done :: "(string \<Rightarrow> string) \<Rightarrow> auth_call \<Rightarrow> auth_state \<Rightarrow> auth_state \<Rightarrow> bool" where
  "call_done sha (Rotation tok p) s s' \<longleftrightarrow> (\<exists>fail ra rr now. refresh sha fail ra rr now tok s = (Inr p, s'))"
| "call_done sha (Registration p) s s' \<longleftrightarrow>
     (\<exists>fail rk ra rr now name invite key. register sha fail rk ra rr now name invite key s = (Inr p, s'))"
| "call_done sha (Erasure acc) s s' \<longleftrightarrow> s' = erase_devices acc s"

fun one_by_one :: "(string \<Rightarrow> string) \<Rightarrow> auth_call list \<Rightarrow> auth_state \<Rightarrow> auth_state \<Rightarrow> bool" where
  "one_by_one sha [] s s' \<longleftrightarrow> s' = s"
| "one_by_one sha (c # cs) s s' \<longleftrightarrow> (\<exists>m. call_done sha c s m \<and> one_by_one sha cs m s')"

lemma one_by_one_snoc: "one_by_one sha (cs @ [c]) s s' \<longleftrightarrow> (\<exists>m. one_by_one sha cs s m \<and> call_done sha c m s')"
  by (induction cs arbitrary: s) auto

text \<open>The successful answers, and those of a sequence of calls.\<close>

fun success :: "auth_phase \<Rightarrow> auth_call option" where
  "success (Refreshed tok (Inr p)) = Some (Rotation tok p)"
| "success (Registered (Inr p)) = Some (Registration p)"
| "success _ = None"

fun answers_client :: "auth_call \<Rightarrow> bool" where
  "answers_client (Erasure acc) = False"
| "answers_client _ = True"

definition answered_by :: "auth_call list \<Rightarrow> auth_phase list \<Rightarrow> bool" where
  "answered_by cs ps \<longleftrightarrow> mset (filter answers_client cs) = mset (List.map_filter success ps)"

lemma map_filter_update:
  "j < length xs \<Longrightarrow> f (xs ! j) = None \<Longrightarrow>
     mset (List.map_filter f (xs[j := v])) = (case f v of None \<Rightarrow> {#} | Some c \<Rightarrow> {#c#}) + mset (List.map_filter f xs)"
proof (induction xs arbitrary: j)
  case (Cons x xs)
  then show ?case by (cases j) (auto simp: List.map_filter_simps split: option.splits)
qed simp

lemma map_filter_keep:
  "f v = f (xs ! j) \<Longrightarrow> List.map_filter f (xs[j := v]) = List.map_filter f xs"
proof (induction xs arbitrary: j)
  case (Cons x xs)
  show ?case
  proof (cases j)
    case (Suc k)
    have "List.map_filter f (xs[k := v]) = List.map_filter f xs" by (rule Cons.IH) (use Cons.prems Suc in simp)
    with Suc show ?thesis by (simp add: List.map_filter_simps split: option.split)
  qed (use Cons.prems in \<open>simp add: List.map_filter_simps\<close>)
qed simp

text \<open>What a rotation has seen is still so if the version is the same; one that is about to commit has the write lock.\<close>

fun phase_sound :: "(string \<Rightarrow> string) \<Rightarrow> auth_system \<Rightarrow> nat \<Rightarrow> auth_phase \<Rightarrow> bool" where
  "phase_sound sha y j (Rotating now tok i v0) \<longleftrightarrow> v0 \<le> ay_version y \<and>
     (v0 = ay_version y \<longrightarrow> (\<exists>d. List.find (\<lambda>d. dv_refresh d = hash_token sha tok \<and> dv_refresh_exp d > now)
        (devices (ay_auth y)) = Some d \<and> dv_id d = i))"
| "phase_sound sha y j (Committing tok p ds) \<longleftrightarrow> ay_writer y = Some j \<and>
     call_done sha (Rotation tok p) (ay_auth y) ((ay_auth y)\<lparr>devices := ds\<rparr>)"
| "phase_sound sha y j p \<longleftrightarrow> True"

definition auth_sound :: "(string \<Rightarrow> string) \<Rightarrow> auth_state \<Rightarrow> auth_system \<Rightarrow> bool" where
  "auth_sound sha s y \<longleftrightarrow> (\<forall>j < length (ay_ops y). phase_sound sha y j (ay_ops y ! j)) \<and>
     (\<exists>cs. one_by_one sha cs s (ay_auth y) \<and> answered_by cs (ay_ops y))"

lemma phase_sound_other:
  assumes "phase_sound sha y i p" and "ay_writer y \<noteq> Some i"
    and "ay_version y < ay_version y' \<or> ay_version y = ay_version y' \<and> ay_auth y = ay_auth y'"
  shows "phase_sound sha y' i p"
  using assms by (cases p) auto

lemma phase_sound_same:
  "ay_writer y' = ay_writer y \<Longrightarrow> ay_version y' = ay_version y \<Longrightarrow> ay_auth y' = ay_auth y \<Longrightarrow>
     phase_sound sha y' i p = phase_sound sha y i p"
  by (cases p) auto

lemma refresh_step_sound:
  assumes "snapshot_law may" and "phase_sound sha y j p"
    and "refresh_step sha may fail ra rr j p (ay_writer y, ay_version y, ay_auth y) = (p', w, v, s)"
  obtains "success p' = success p" "w = ay_writer y" "v = ay_version y" "s = ay_auth y"
      "phase_sound sha y j p'" 
  | "ay_writer y = None" "w = Some j" "success p' = None" "success p = None" "v = ay_version y" "s = ay_auth y" 
      "phase_sound sha (y\<lparr>ay_writer := Some j\<rparr>) j p'"
  | "ay_writer y = Some j" "w = None" "success p' = None" "success p = None" "v = ay_version y" "s = ay_auth y"
      "\<forall>z. phase_sound sha z j p'"
  | tok q where "ay_writer y = Some j" "w = None" "p' = Refreshed tok (Inr q)" "success p = None"
      "v = Suc (ay_version y)" "call_done sha (Rotation tok q) (ay_auth y) s"
proof (cases p)
  case (Looking now tok)
  with assms(3) show ?thesis by (intro that(1)) (auto split: if_splits option.splits)
next
  case (Rotating now tok i v0)
  show ?thesis
  proof (cases "\<exists>tok' q ds. p' = Committing tok' q ds")
    case True
    then obtain tok' q ds where p': "p' = Committing tok' q ds" by blast
    with assms(3) Rotating obtain ta tr where
      ok: "ay_writer y = None" "w = Some j" "v = ay_version y" "s = ay_auth y" "tok' = tok" "may v0 (ay_version y)"
        "new_opaque_token access_prefix ra = Inr ta" "new_opaque_token refresh_prefix rr = Inr tr"
        "q = \<lparr>tp_access = ta, tp_refresh = tr, tp_account_key = [], tp_expires = expires_in\<rparr>"
        "rotate_row i (hash_token sha ta) (hash_token sha tr) now (devices (ay_auth y)) = Some ds"
      by (auto split: if_splits option.splits sum.splits)
    have "v0 = ay_version y" using assms(1) ok(6) by (simp add: snapshot_law_def)
    with assms(2) Rotating ok have "refresh sha (\<lambda>_. False) ra rr now tok (ay_auth y) = (Inr q, (ay_auth y)\<lparr>devices := ds\<rparr>)"
      by (auto simp: refresh_def)
    then have "call_done sha (Rotation tok q) (ay_auth y) ((ay_auth y)\<lparr>devices := ds\<rparr>)" unfolding call_done.simps by blast
    with ok p' Rotating show ?thesis by (intro that(2)) simp_all
  next
    case False
    with assms(2,3) Rotating show ?thesis by (intro that(1)) (auto split: if_splits option.splits sum.splits)
  qed
next
  case (Committing tok q ds)
  show ?thesis
  proof (cases "fail AuthCommit")
    case True
    with assms(2,3) Committing show ?thesis by (intro that(3)) auto
  next
    case False
    with assms(2,3) Committing show ?thesis by (intro that(4) [of tok q]) auto
  qed
qed (use assms in \<open>auto intro: that(1)\<close>)

lemma auth_soundI:
  assumes "\<And>i. i < length (ay_ops y) \<Longrightarrow> phase_sound sha y i (ay_ops y ! i)"
    and "one_by_one sha cs s (ay_auth y)" and "answered_by cs (ay_ops y)"
  shows "auth_sound sha s y"
  using assms by (auto simp: auth_sound_def)

lemma proceed_sound:
  assumes "snapshot_law may" and "auth_sound sha s y"
  shows "auth_sound sha s (auth_next sha may (Proceed j fail ra rr) y)"
proof (cases "j < length (ay_ops y)")
  case True
  let ?p = "ay_ops y ! j"
  obtain p' w v t where step: "refresh_step sha may fail ra rr j ?p (ay_writer y, ay_version y, ay_auth y) = (p', w, v, t)"
    by (metis surj_pair)
  let ?y = "\<lparr>ay_writer = w, ay_version = v, ay_auth = t, ay_ops = (ay_ops y)[j := p']\<rparr>"
  have next_y: "auth_next sha may (Proceed j fail ra rr) y = ?y" using True step by simp
  from assms(2) have old: "\<And>i. i < length (ay_ops y) \<Longrightarrow> phase_sound sha y i (ay_ops y ! i)" by (simp add: auth_sound_def)
  from assms(2) obtain cs where cs: "one_by_one sha cs s (ay_auth y)" "answered_by cs (ay_ops y)"
    by (auto simp: auth_sound_def)
  have phases: "phase_sound sha ?y i (ay_ops ?y ! i)"
    if "i < length (ay_ops ?y)" "phase_sound sha ?y j p'" "i \<noteq> j \<longrightarrow> phase_sound sha ?y i (ay_ops y ! i)" for i
    using that by (cases "i = j") simp_all
  show ?thesis
    unfolding next_y
  proof (rule refresh_step_sound [OF assms(1) old [OF True] step], goal_cases)
    case 1
    then have "phase_sound sha ?y i p = phase_sound sha y i p" for i p by (intro phase_sound_same) simp_all
    with 1 old cs True show ?case
      by (intro auth_soundI [of ?y sha cs] phases) (simp_all add: answered_by_def map_filter_keep)
  next
    case 2
    have "phase_sound sha ?y j p'" using 2 phase_sound_same [of ?y "y\<lparr>ay_writer := Some j\<rparr>"] by simp
    with 2 old cs True phase_sound_other [of sha y _ _ ?y] show ?case
      by (intro auth_soundI [of ?y sha cs] phases) (simp_all add: answered_by_def map_filter_keep)
  next
    case 3
    with old cs True phase_sound_other [of sha y _ _ ?y] show ?case
      by (intro auth_soundI [of ?y sha cs] phases) (simp_all add: answered_by_def map_filter_keep)
  next
    case (4 tok q)
    have "one_by_one sha (cs @ [Rotation tok q]) s t" using 4 cs(1) one_by_one_snoc by blast
    with 4 old cs True phase_sound_other [of sha y _ _ ?y] show ?case
      by (intro auth_soundI [of ?y sha "cs @ [Rotation tok q]"] phases)
        (simp_all add: answered_by_def map_filter_update)
  qed
qed (use assms in simp)

text \<open>A transaction in one step, and a rotation that starts.\<close>

lemma other_sound:
  assumes "auth_sound sha s y"
    and "ay_version y < ay_version y' \<and> ay_writer y = None \<or>
      ay_version y' = ay_version y \<and> ay_auth y' = ay_auth y \<and> ay_writer y' = ay_writer y"
    and "ay_ops y' = ay_ops y @ ps" and "list_all (\<lambda>p. \<forall>i. phase_sound sha y' i p) ps"
    and "\<And>cs. one_by_one sha cs s (ay_auth y) \<Longrightarrow> one_by_one sha (cs @ ds) s (ay_auth y')"
    and "answered_by ds ps"
  shows "auth_sound sha s y'"
proof -
  from assms(1) obtain cs where old: "\<And>i. i < length (ay_ops y) \<Longrightarrow> phase_sound sha y i (ay_ops y ! i)"
    and cs: "one_by_one sha cs s (ay_auth y)" "answered_by cs (ay_ops y)"
    by (auto simp: auth_sound_def)
  have kept: "phase_sound sha y' i (ay_ops y ! i)" if "i < length (ay_ops y)" for i
    using old [OF that] assms(2) phase_sound_other [of sha y i _ y'] phase_sound_same [of y' y] by auto
  have "mset (List.map_filter success (ay_ops y @ ps)) =
      mset (List.map_filter success (ay_ops y)) + mset (List.map_filter success ps)"
    by (simp add: List.map_filter_def)
  with cs(2) assms(3,6) have "answered_by (cs @ ds) (ay_ops y')" by (simp add: answered_by_def)
  moreover have "phase_sound sha y' i (ay_ops y' ! i)" if "i < length (ay_ops y')" for i
    using that kept assms(3,4) by (auto simp: nth_append list_all_length)
  ultimately show ?thesis using assms(5) [OF cs(1)] by (intro auth_soundI) blast+
qed

lemma auth_next_sound:
  assumes "snapshot_law may" and "auth_sound sha s y"
  shows "auth_sound sha s (auth_next sha may e y)"
proof (cases e)
  case (StartRefresh now tok)
  show ?thesis
    by (rule other_sound [OF assms(2), of _ "[Looking now tok]" "[]"]) (simp_all add: StartRefresh answered_by_def List.map_filter_simps)
next
  case (Join fail rk ra rr now name invite key)
  obtain r t where reg: "register sha fail rk ra rr now name invite key (ay_auth y) = (r, t)" by (metis surj_pair)
  show ?thesis
  proof (cases "ay_writer y")
    case None
    show ?thesis
    proof (cases r)
      case (Inl err)
      with register_error_state reg have "t = ay_auth y" by blast
      with Inl reg None show ?thesis
        by (intro other_sound [OF assms(2), of _ "[Registered r]" "[]"]) (simp_all add: Join answered_by_def List.map_filter_simps)
    next
      case (Inr q)
      with reg have "call_done sha (Registration q) (ay_auth y) t" unfolding call_done.simps by blast
      then have "one_by_one sha cs s (ay_auth y) \<Longrightarrow> one_by_one sha (cs @ [Registration q]) s t" for cs
        unfolding one_by_one_snoc by blast
      with Inr reg None show ?thesis
        by (intro other_sound [OF assms(2), of _ "[Registered r]" "[Registration q]"])
          (simp_all add: Join answered_by_def List.map_filter_simps)
    qed
  qed (use assms in \<open>simp add: Join\<close>)
next
  case (Erase acc)
  show ?thesis
  proof (cases "ay_writer y")
    case None
    then show ?thesis
      by (intro other_sound [OF assms(2), of _ "[]" "[Erasure acc]"]) (auto simp: Erase answered_by_def one_by_one_snoc)
  qed (use assms in \<open>simp add: Erase\<close>)
next
  case WriteElsewhere
  show ?thesis
  proof (cases "ay_writer y")
    case None
    then show ?thesis
      by (intro other_sound [OF assms(2), of _ "[]" "[]"]) (simp_all add: WriteElsewhere answered_by_def)
  qed (use assms in \<open>simp add: WriteElsewhere\<close>)
qed (use proceed_sound [OF assms] in simp)

text \<open>In every run the tables are those of the committed transactions, run one after the other, with the same answers.\<close>

lemma auth_run_sound:
  "snapshot_law may \<Longrightarrow> auth_sound sha s y \<Longrightarrow> auth_sound sha s (auth_run sha may es y)"
  by (induction es arbitrary: y) (simp_all add: auth_next_sound)

lemma quiet_auth_sound: "auth_sound sha s (quiet_auth s)"
  by (rule auth_soundI [of _ sha "[]"]) (simp_all add: quiet_auth_def answered_by_def)

section \<open>A spent token\<close>

fun new_refresh :: "auth_call \<Rightarrow> string option" where
  "new_refresh (Rotation tok p) = Some (tp_refresh p)"
| "new_refresh (Registration p) = Some (tp_refresh p)"
| "new_refresh (Erasure acc) = None"

fun spends :: "string \<Rightarrow> auth_call \<Rightarrow> bool" where
  "spends tok (Rotation tok' p) \<longleftrightarrow> tok' = tok"
| "spends tok _ \<longleftrightarrow> False"

lemma erase_devices_inv: "auth_inv s \<Longrightarrow> auth_inv (erase_devices acc s)"
  by (auto simp: auth_inv_def erase_devices_def keeps_inv tbl_delete_def)

lemma call_done_inv: "auth_inv s \<Longrightarrow> call_done sha c s s' \<Longrightarrow> auth_inv s'"
  by (cases c) (auto intro: refresh_inv register_inv erase_devices_inv)

lemma call_keeps_spent:
  assumes "auth_inv s" and "call_done sha c s s'" and "refresh_view s (hash_token sha tok) = None"
    and "\<And>r. new_refresh c = Some r \<Longrightarrow> hash_token sha r \<noteq> hash_token sha tok"
  shows "\<not> spends tok c \<and> refresh_view s' (hash_token sha tok) = None"
proof (cases c)
  case (Rotation tok' p)
  with assms(2) obtain fail ra rr now where "refresh sha fail ra rr now tok' s = (Inr p, s')" by auto
  from tokens_of.rotated_views [OF assms(1) rotated_byI [OF this]] Rotation assms(3,4) show ?thesis by auto
next
  case (Registration p)
  with assms(2) obtain now where "issued_by sha s now (hash_token sha (tp_access p)) (hash_token sha (tp_refresh p)) s'"
    by (auto simp: issued_by_def) blast
  from tokens_of.issued_views [OF assms(1) this] Registration assms(3,4) show ?thesis by auto
next
  case (Erasure acc)
  with assms(2,3) show ?thesis
    by (auto simp: refresh_view_def erase_devices_def tbl_delete_def tbl_find_None_iff)
qed

lemma call_spends:
  assumes "auth_inv s" and "call_done sha c s s'" and "spends tok c"
    and "\<And>r. new_refresh c = Some r \<Longrightarrow> hash_token sha r \<noteq> hash_token sha tok"
  shows "refresh_view s' (hash_token sha tok) = None"
proof (cases c)
  case (Rotation tok' p)
  with assms(2,3) obtain fail ra rr now where "refresh sha fail ra rr now tok s = (Inr p, s')" by auto
  from tokens_of.rotated_views [OF assms(1) rotated_byI [OF this]] Rotation assms(4) show ?thesis by auto
qed (use assms in simp_all)

lemma spent_once:
  assumes "auth_inv s" and "one_by_one sha cs s s'"
    and "\<And>c r. c \<in> set cs \<Longrightarrow> new_refresh c = Some r \<Longrightarrow> hash_token sha r \<noteq> hash_token sha tok"
  shows "length (filter (spends tok) cs) \<le> of_bool (refresh_view s (hash_token sha tok) \<noteq> None)"
  using assms
proof (induction cs arbitrary: s)
  case (Cons c cs)
  then obtain m where m: "call_done sha c s m" "one_by_one sha cs m s'" by auto
  note inv = call_done_inv [OF Cons.prems(1) m(1)]
  have new: "new_refresh c = Some r \<Longrightarrow> hash_token sha r \<noteq> hash_token sha tok" for r
    by (rule Cons.prems(3) [of c]) simp_all
  have rest: "length (filter (spends tok) cs) \<le> of_bool (refresh_view m (hash_token sha tok) \<noteq> None)"
    by (rule Cons.IH [OF inv m(2) Cons.prems(3)]) simp_all
  show ?case
  proof (cases "refresh_view s (hash_token sha tok)")
    case None
    with call_keeps_spent [OF Cons.prems(1) m(1) None new] rest show ?thesis by simp
  next
    case (Some x)
    with call_spends [OF Cons.prems(1) m(1) _ new] rest show ?thesis
      by (cases "refresh_view m (hash_token sha tok)") auto
  qed
qed simp

end
