(* ===== verification/AuthStepProps.thy ===== *)
theory AuthStepProps
  imports AuthStep
begin

text \<open>Refresh tokens under concurrent use: what \<^verbatim>\<open>Refresh\<close> promises, and what it rests on.\<close>

section \<open>The property\<close>

text \<open>How often a refresh token has bought a new pair, and the refresh tokens handed out.\<close>

definition times_used :: "string \<Rightarrow> auth_system \<Rightarrow> nat" where
  "times_used tok y = length (filter (spends tok) (List.map_filter success (ay_ops y)))"

definition handed_out :: "auth_system \<Rightarrow> string list" where
  "handed_out y = List.map_filter new_refresh (List.map_filter success (ay_ops y))"

lemma spends_answers: "spends tok c \<Longrightarrow> answers_client c"
  by (cases c) simp_all

lemma new_refresh_answers: "new_refresh c = Some r \<Longrightarrow> answers_client c"
  by (cases c) simp_all

lemma times_used_calls: "answered_by cs (ay_ops y) \<Longrightarrow> times_used tok y = length (filter (spends tok) cs)"
proof -
  assume a: "answered_by cs (ay_ops y)"
  have "filter (spends tok) (filter answers_client cs) = filter (spends tok) cs"
    using spends_answers by (auto intro!: filter_cong simp: filter_filter)
  then have "length (filter (spends tok) cs) = size (filter_mset (spends tok) (mset (filter answers_client cs)))"
    by (metis mset_filter size_mset)
  also have "\<dots> = times_used tok y"
    using a by (metis answered_by_def mset_filter size_mset times_used_def)
  finally show ?thesis by simp
qed

lemma handed_out_calls:
  assumes "answered_by cs (ay_ops y)" and "c \<in> set cs" and "new_refresh c = Some r"
  shows "r \<in> set (handed_out y)"
proof -
  have "c \<in> set (filter answers_client cs)" using assms(2) new_refresh_answers [OF assms(3)] by simp
  also have "\<dots> = set (List.map_filter success (ay_ops y))"
    using assms(1) unfolding answered_by_def by (rule mset_eq_setD)
  finally show ?thesis using assms(3) by (force simp: handed_out_def List.map_filter_def)
qed

lemma one_by_one_inv: "auth_inv s \<Longrightarrow> one_by_one sha cs s s' \<Longrightarrow> auth_inv s'"
  by (induction cs arbitrary: s) (auto dest: call_done_inv)

text \<open>
  C11: Safety. Whatever rotations, registrations and deletions of accounts run at the same time, a refresh token buys at most
  one new pair, and none if no session had it at the start, unless a token with its hash is handed out anew. The tables are
  those of the transactions that committed, run one after the other with the same answers, and stay consistent.
\<close>

theorem refresh_token_used_once:
  assumes "auth_inv s" and "snapshot_law may" and "y = auth_run sha may es (quiet_auth s)"
    and "\<not> List.member (map (hash_token sha) (handed_out y)) (hash_token sha tok)"
  shows "times_used tok y \<le> (if refresh_view s (hash_token sha tok) = None then 0 else 1) \<and>
     auth_inv (ay_auth y) \<and> (\<exists>cs. one_by_one sha cs s (ay_auth y) \<and> answered_by cs (ay_ops y))"
proof -
  have "auth_sound sha s y" unfolding assms(3) by (rule auth_run_sound [OF assms(2) quiet_auth_sound])
  then obtain cs where cs: "one_by_one sha cs s (ay_auth y)" "answered_by cs (ay_ops y)" by (auto simp: auth_sound_def)
  have "length (filter (spends tok) cs) \<le> of_bool (refresh_view s (hash_token sha tok) \<noteq> None)"
  proof (rule spent_once [OF assms(1) cs(1)])
    fix c r
    assume "c \<in> set cs" and "new_refresh c = Some r"
    from handed_out_calls [OF cs(2) this] assms(4) show "hash_token sha r \<noteq> hash_token sha tok"
      by (auto simp: List.member_iff image_iff)
  qed
  with cs one_by_one_inv [OF assms(1) cs(1)] times_used_calls [OF cs(2), of tok] show ?thesis by (auto split: if_splits)
qed

text \<open>One session; two clients present its token at the same time, both find it, and the second one is served.\<close>

definition ex_session :: auth_state where
  "ex_session = \<lparr>accounts = [\<lparr>ac_id = 1, ac_key_hash = ''k'', ac_created = 0\<rparr>],
     devices = [\<lparr>dv_id = 1, dv_account = 1, dv_name = [], dv_access = ''a'', dv_refresh = hash_token id ''t'', dv_invite = None,
       dv_created = 0, dv_access_exp = 5000, dv_refresh_exp = 5000\<rparr>], invites = []\<rparr>"

abbreviation ex_both :: "auth_move list" where
  "ex_both \<equiv> [StartRefresh 2000 ''t'', StartRefresh 2000 ''t'', Proceed 0 (\<lambda>_. False) None None,
     Proceed 1 (\<lambda>_. False) None None, Proceed 1 (\<lambda>_. False) (Some ''a'') (Some ''b''), Proceed 1 (\<lambda>_. False) None None,
     Proceed 0 (\<lambda>_. False) (Some ''c'') (Some ''d''), Proceed 0 (\<lambda>_. False) None None]"

lemma ex_session_inv: "auth_inv ex_session"
  by (simp add: ex_session_def auth_inv_def tbl_unique_def)

lemmas ex_auth_steps = ex_session_def quiet_auth_def new_opaque_token_def rotate_row_def

lemma ex_both_run:
  "List.map_filter success (ay_ops (auth_run id (=) ex_both (quiet_auth ex_session))) =
     [Rotation ''t'' \<lparr>tp_access = access_prefix @ rawurl_encode ''a'', tp_refresh = refresh_prefix @ rawurl_encode ''b'',
       tp_account_key = [], tp_expires = expires_in\<rparr>]"
  by (simp add: ex_auth_steps List.map_filter_simps)

theorem refresh_token_used_once_witness:
  "\<exists>y cs. y = auth_run id (=) ex_both (quiet_auth ex_session) \<and> times_used ''t'' y = 1 \<and> auth_inv (ay_auth y) \<and>
     one_by_one id cs ex_session (ay_auth y) \<and> answered_by cs (ay_ops y)"
proof -
  let ?y = "auth_run id (=) ex_both (quiet_auth ex_session)"
  have law: "snapshot_law (=)" by (simp add: snapshot_law_def)
  have new: "hash_token id (refresh_prefix @ rawurl_encode ''b'') \<noteq> hash_token id ''t''"
    by (auto simp: hash_token_def refresh_prefix_def dest: arg_cong [of _ _ length])
  have used: "times_used ''t'' ?y = 1" unfolding times_used_def ex_both_run by simp
  have out: "handed_out ?y = [refresh_prefix @ rawurl_encode ''b'']"
    unfolding handed_out_def ex_both_run by (simp add: List.map_filter_simps)
  have "\<not> List.member (map (hash_token id) (handed_out ?y)) (hash_token id ''t'')" unfolding out using new by simp
  from refresh_token_used_once [OF ex_session_inv law refl this] used show ?thesis by blast
qed

section \<open>What it rests on\<close>

text \<open>Only the snapshot keeps the other one out: where a transaction may write over newer data, both are served.\<close>

theorem both_served_without_snapshots:
  "times_used ''t'' (auth_run id (\<lambda>_ _. True) ex_both (quiet_auth ex_session)) = 2"
  by (simp add: times_used_def ex_auth_steps List.map_filter_simps)

text \<open>
  A defect. Transactions are begun as readers, so that any write between the two statements, to whatever table, makes the
  rotation fail at once, although nothing else has gone wrong and nobody holds the write lock: the busy timeout, with
  which the comment says that writers wait, does not apply.
\<close>

theorem rotation_beside_write_fails:
  assumes "snapshot_law may"
  shows "ay_ops (auth_run id may [StartRefresh 2000 ''t'', Proceed 0 (\<lambda>_. False) None None, WriteElsewhere,
       Proceed 0 (\<lambda>_. False) (Some ''c'') (Some ''d'')] (quiet_auth ex_session)) =
     [Refreshed ''t'' (Inl (Internal ''rotate tokens''))]"
proof -
  have "\<not> may 0 1" using assms by (auto simp: snapshot_law_def)
  then show ?thesis by (simp add: ex_auth_steps)
qed

end
