(* ===== verification/Http.thy ===== *)
theory Http
  imports Common
begin

text \<open>
  What the server uses of \<^verbatim>\<open>net/http\<close> and \<^verbatim>\<open>net/url\<close> to reach other servers. A transport (a
  parameter) answers one request or fails; the client on top of it follows redirects, up to ten
  requests in all, as Go's default policy does. \<open>client_do\<close> also returns the requests it sent.
\<close>

section \<open>URLs\<close>

text \<open>The parts of a parsed URL the server looks at: \<^verbatim>\<open>Scheme\<close>, \<^verbatim>\<open>Host\<close> and \<^verbatim>\<open>Hostname()\<close>.\<close>

record url_parts =
  url_scheme :: string
  url_host :: string
  url_hostname :: string

text \<open>
  \<^verbatim>\<open>url.Parse\<close>, resolving a \<^verbatim>\<open>Location\<close> against the URL it answers, and the headers a redirected
  request keeps (Go drops credentials when the host changes).
\<close>

record url_ops =
  uo_parse :: "string \<Rightarrow> url_parts option"
  uo_resolve :: "string \<Rightarrow> string \<Rightarrow> string option"
  uo_keep :: "string \<Rightarrow> string \<Rightarrow> headers \<Rightarrow> headers"

section \<open>Header names\<close>

text \<open>
  \<^verbatim>\<open>textproto.CanonicalMIMEHeaderKey\<close>: in a name of token characters the first letter and each letter
  after a hyphen is upper case, the others lower case; other names stay as they are.
\<close>

definition token_char :: "char \<Rightarrow> bool" where
  "token_char c \<longleftrightarrow>
     (let n = (of_char c :: nat)
      in 48 \<le> n \<and> n \<le> 57 \<or> 65 \<le> n \<and> n \<le> 90 \<or> 97 \<le> n \<and> n \<le> 122 \<or>
         List.member ''!#$%&*+-.^_|~`'' c \<or> n = 39)"

fun canon_chars :: "bool \<Rightarrow> string \<Rightarrow> string" where
  "canon_chars up [] = []"
| "canon_chars up (c # cs) = (if up then upper_ascii c else lower_ascii c) # canon_chars (c = CHR ''-'') cs"

definition canon_header :: "string \<Rightarrow> string" where
  "canon_header k = (if list_all token_char k then canon_chars True k else k)"

text \<open>\<^verbatim>\<open>Header.Set\<close> on the headers of an outgoing request.\<close>

definition set_header :: "string \<Rightarrow> string \<Rightarrow> headers \<Rightarrow> headers" where
  "set_header k v h = hdr_set (canon_header k) v h"

section \<open>Requests, responses and the client\<close>

record http_request =
  hq_method :: string
  hq_url :: string
  hq_headers :: headers
  hq_body :: string

text \<open>
  A response: its body is what can be read of it, and \<open>hp_broken\<close> says that reading then fails
  instead of ending; \<open>hp_length\<close> is \<^verbatim>\<open>ContentLength\<close>, -1 when unknown.
\<close>

record http_response =
  hp_status :: nat
  hp_headers :: headers
  hp_body :: string
  hp_broken :: bool
  hp_length :: int

type_synonym transport = "http_request \<Rightarrow> http_response option"

definition redirect_request :: "url_ops \<Rightarrow> nat \<Rightarrow> string \<Rightarrow> http_request \<Rightarrow> http_request" where
  "redirect_request uo status url q =
     (let again = status = 307 \<or> status = 308;
          m = (if again \<or> hq_method q = ''GET'' \<or> hq_method q = ''HEAD'' then hq_method q else ''GET'')
      in \<lparr>hq_method = m, hq_url = url, hq_headers = uo_keep uo (hq_url q) url (hq_headers q),
          hq_body = (if again then hq_body q else [])\<rparr>)"

definition is_redirect :: "nat \<Rightarrow> bool" where
  "is_redirect status \<longleftrightarrow> status = 301 \<or> status = 302 \<or> status = 303 \<or> status = 307 \<or> status = 308"

text \<open>\<open>n\<close> is the number of redirects that may still be followed.\<close>

fun client_from ::
  "nat \<Rightarrow> url_ops \<Rightarrow> transport \<Rightarrow> http_request \<Rightarrow> http_response option \<times> http_request list" where
  "client_from n uo tr q =
     (case tr q of
        None \<Rightarrow> (None, [q])
      | Some p \<Rightarrow>
          if is_redirect (hp_status p) \<and> hdr_get ''Location'' (hp_headers p) \<noteq> [] then
            (case n of
               0 \<Rightarrow> (None, [q])
             | Suc m \<Rightarrow>
                 (case uo_resolve uo (hq_url q) (hdr_get ''Location'' (hp_headers p)) of
                    None \<Rightarrow> (None, [q])
                  | Some url \<Rightarrow>
                      (case client_from m uo tr (redirect_request uo (hp_status p) url q) of
                         (r, qs) \<Rightarrow> (r, q # qs))))
          else (Some p, [q]))"

declare client_from.simps [simp del]

definition client_do :: "url_ops \<Rightarrow> transport \<Rightarrow> http_request \<Rightarrow> http_response option \<times> http_request list" where
  "client_do uo tr q = client_from 9 uo tr q"

lemma client_from_first: "\<exists>qs. snd (client_from n uo tr q) = q # qs"
  by (subst client_from.simps) (auto split: option.split nat.split prod.split)

lemma client_from_count: "length (snd (client_from n uo tr q)) \<le> Suc n"
proof (induction n arbitrary: q)
  case 0
  show ?case by (subst client_from.simps) (auto split: option.split)
next
  case (Suc n)
  show ?case
    by (subst client_from.simps)
      (use Suc in \<open>force split: option.split prod.split simp: prod_eq_iff\<close>)
qed

text \<open>Without redirects the client sends exactly the request it was given.\<close>

lemma client_do_plain:
  assumes "\<And>q p. tr q = Some p \<Longrightarrow> \<not> is_redirect (hp_status p)"
  shows "client_do uo tr q = (tr q, [q])"
  using assms [of q] unfolding client_do_def
  by (subst client_from.simps) (auto split: option.split)

text \<open>
  \<^verbatim>\<open>io.ReadAll\<close> on a reader limited to one byte more than allowed: a failure of the body shows only
  when it comes before that byte.
\<close>

definition read_limited :: "nat \<Rightarrow> http_response \<Rightarrow> string option" where
  "read_limited n p =
     (if hp_broken p \<and> length (hp_body p) < n then None else Some (take n (hp_body p)))"

section \<open>Query strings\<close>

text \<open>
  \<^verbatim>\<open>url.QueryEscape\<close>, its inverse, and \<^verbatim>\<open>URL.Query().Get\<close> on a raw query: pairs that do not decode or
  contain a semicolon are left out, the first value of a name counts, and a missing name is empty.
\<close>

definition query_plain :: "char \<Rightarrow> bool" where
  "query_plain c \<longleftrightarrow>
     (let n = (of_char c :: nat)
      in 48 \<le> n \<and> n \<le> 57 \<or> 65 \<le> n \<and> n \<le> 90 \<or> 97 \<le> n \<and> n \<le> 122 \<or> List.member ''-_.~'' c)"

definition hex_upper :: "nat \<Rightarrow> char" where
  "hex_upper d = (if d < 10 then char_of (48 + d) else char_of (55 + d))"

definition escape_char :: "char \<Rightarrow> string" where
  "escape_char c =
     (if query_plain c then [c]
      else if c = CHR '' '' then ''+''
      else [CHR ''%'', hex_upper (of_char c div 16), hex_upper (of_char c mod 16)])"

definition query_escape :: "string \<Rightarrow> string" where
  "query_escape s = concat (map escape_char s)"

definition hex_value :: "char \<Rightarrow> nat option" where
  "hex_value c =
     (let n = (of_char c :: nat)
      in if 48 \<le> n \<and> n \<le> 57 then Some (n - 48)
         else if 65 \<le> n \<and> n \<le> 70 then Some (n - 55)
         else if 97 \<le> n \<and> n \<le> 102 then Some (n - 87)
         else None)"

fun query_unescape :: "string \<Rightarrow> string option" where
  "query_unescape [] = Some []"
| "query_unescape (c # cs) =
     (if c = CHR ''%'' then
        (case cs of
           a # b # cs' \<Rightarrow>
             (case (hex_value a, hex_value b) of
                (Some x, Some y) \<Rightarrow> map_option (Cons (char_of (16 * x + y))) (query_unescape cs')
              | _ \<Rightarrow> None)
         | _ \<Rightarrow> None)
      else map_option (Cons (if c = CHR ''+'' then CHR '' '' else c)) (query_unescape cs))"

definition query_pair :: "string \<Rightarrow> (string \<times> string) option" where
  "query_pair w =
     (if w = [] \<or> List.member w CHR '';'' then None
      else
        let (k, v) = (case str_cut CHR ''='' w of None \<Rightarrow> (w, []) | Some p \<Rightarrow> p)
        in case (query_unescape k, query_unescape v) of
             (Some k', Some v') \<Rightarrow> Some (k', v')
           | _ \<Rightarrow> None)"

definition query_get :: "string \<Rightarrow> string \<Rightarrow> string" where
  "query_get name q =
     (case map_of (List.map_filter query_pair (split_on CHR ''&'' q)) name of None \<Rightarrow> [] | Some v \<Rightarrow> v)"

lemma hex_value_upper: "d < 16 \<Longrightarrow> hex_value (hex_upper d) = Some d"
  by (auto simp: hex_value_def hex_upper_def Let_def)

lemma query_unescape_plain: "query_plain c \<Longrightarrow> c \<noteq> CHR ''%'' \<and> c \<noteq> CHR ''+''"
  by (auto simp: query_plain_def Let_def)

lemma query_unescape_escape [simp]: "query_unescape (query_escape s) = Some s"
proof (induction s)
  case Nil
  show ?case by (simp add: query_escape_def)
next
  case (Cons c s)
  have "(of_char c :: nat) < 256" using nat_of_char_less_256 by simp
  then have hex_dig: "hex_value (hex_upper (of_char c div 16)) = Some (of_char c div 16)"
    "hex_value (hex_upper (of_char c mod 16)) = Some (of_char c mod 16)"
    by (simp_all add: hex_value_upper div_less_iff_less_mult)
  have same: "char_of (16 * (of_char c div 16) + of_char c mod 16 :: nat) = c"
    by (simp add: mult_div_mod_eq)
  have esc: "query_escape (c # s) = escape_char c @ query_escape s" by (simp add: query_escape_def)
  consider (plain) "query_plain c" | (space) "c = CHR '' ''" "\<not> query_plain c" | (hex) "\<not> query_plain c" "c \<noteq> CHR '' ''" by blast
  then show ?case
  proof cases
    case plain
    with Cons.IH query_unescape_plain [of c] show ?thesis by (simp add: esc escape_char_def)
  next
    case space
    then have "query_escape (c # s) = CHR ''+'' # query_escape s" by (simp add: query_escape_def escape_char_def)
    with Cons.IH space(1) show ?thesis by simp
  next
    case hex
    have "query_unescape (CHR ''%'' # a # b # query_escape s) = Some (char_of (16 * x + y) # s)"
      if "hex_value a = Some x" "hex_value b = Some y" for a b x y
      using that Cons.IH by simp
    from this [OF hex_dig] show ?thesis by (simp only: esc escape_char_def hex if_False append.simps same)
  qed
qed

text \<open>An escaped text contains none of the characters that structure a query.\<close>

lemma query_escape_chars:
  assumes "x \<in> set (query_escape s)"
  shows "query_plain x \<or> x = CHR ''+'' \<or> x = CHR ''%''"
proof -
  have "query_plain (hex_upper d)" if "d < 16" for d
    using that by (auto simp: query_plain_def hex_upper_def Let_def)
  moreover have "of_char c div 16 < (16 :: nat)" "of_char c mod 16 < (16 :: nat)" for c :: char
    using nat_of_char_less_256 [of c] by (simp_all add: div_less_iff_less_mult)
  ultimately show ?thesis
    using assms by (auto simp: query_escape_def escape_char_def split: if_splits)
qed

lemma query_escape_free:
  assumes "\<not> query_plain x" "x \<noteq> CHR ''+''" "x \<noteq> CHR ''%''"
  shows "x \<notin> set (query_escape s)"
  using query_escape_chars assms by blast

lemma query_get_single:
  assumes "name \<noteq> []" and "list_all query_plain name"
  shows "query_get name (name @ CHR ''='' # query_escape v) = v"
proof -
  have name: "x \<notin> set name" if "\<not> query_plain x" for x
    using assms(2) that by (auto simp: list_all_iff)
  have esc: "query_escape name = name"
    using assms(2) by (induction name) (simp_all add: query_escape_def escape_char_def)
  have sep: "\<not> query_plain CHR ''&''" "\<not> query_plain CHR ''=''" "\<not> query_plain CHR '';''" by code_simp+
  let ?w = "name @ CHR ''='' # query_escape v"
  have "split_on CHR ''&'' ?w = [?w]"
    by (rule split_on_free) (use name sep query_escape_free in auto)
  moreover have "str_cut CHR ''='' ?w = Some (name, query_escape v)"
    by (rule str_cut_append) (use name sep in blast)
  moreover have "query_unescape name = Some name" using query_unescape_escape [of name] by (simp only: esc)
  moreover have "CHR '';'' \<notin> set ?w" using name sep query_escape_free [of "CHR '';''" v] by auto
  ultimately show ?thesis by (simp add: query_get_def query_pair_def List.map_filter_def)
qed

section \<open>Header facts\<close>

lemma hdr_get_set_header [simp]: "hdr_get k (set_header k' v h) = (if k = canon_header k' then v else hdr_get k h)"
  by (simp add: set_header_def)

lemma fst_set_header: "fst ` set (set_header k v h) \<subseteq> insert (canon_header k) (fst ` set h)"
  by (auto simp: set_header_def hdr_set_def)

end
