(* ===== verification/Relay.thy ===== *)
theory Relay
  imports Http
begin

text \<open>
  \<^verbatim>\<open>internal/relay\<close>: one request of a client, checked against the whitelists, sent to the upstream
  server and its answer returned.
\<close>

section \<open>Constants (service.go)\<close>

definition default_ua :: string where "default_ua = ''PixivIOSApp/5.8.0''"

definition max_body_bytes :: nat where "max_body_bytes = 2 ^ 20"

definition default_timeout_ms :: int where "default_timeout_ms = 30000"

definition max_timeout_ms :: int where "max_timeout_ms = 60000"

definition relay_hosts :: "string list" where
  "relay_hosts = [''app-api.pixiv.net'', ''oauth.secure.pixiv.net'', ''www.pixiv.net'']"

definition forward_headers :: "string list" where
  "forward_headers = [''authorization'', ''accept-language'', ''content-type'', ''user-agent'', ''referer'']"

definition passthrough_headers :: "string list" where
  "passthrough_headers = [''content-type'', ''cache-control'', ''retry-after'']"

definition allowed_methods :: "string list" where
  "allowed_methods = [''GET'', ''POST'', ''PUT'', ''DELETE'']"

record relay_request =
  rr_method :: string
  rr_url :: string
  rr_headers :: headers
  rr_body :: string
  rr_timeout :: int

record relay_response =
  rp_status :: nat
  rp_headers :: headers
  rp_body :: string

text \<open>\<^verbatim>\<open>NewService\<close>: the hosts a request may go to.\<close>

definition allowed_hosts :: "(string \<Rightarrow> string) \<Rightarrow> string list \<Rightarrow> string list \<Rightarrow> string list" where
  "allowed_hosts ul defaults extra = defaults @ map (to_lower ul) extra"

definition clamp_timeout :: "int \<Rightarrow> int" where
  "clamp_timeout ms =
     (let ms1 = (if ms \<le> 0 then default_timeout_ms else ms)
      in if ms1 > max_timeout_ms then max_timeout_ms else ms1)"

section \<open>Checking and building the upstream request\<close>

text \<open>
  The checks of \<^verbatim>\<open>Do\<close> on the URL, shared with the image relay: parsed, with a host, \<^verbatim>\<open>https\<close>, the host
  on the list. The result is the lower-case host name.
\<close>

definition check_url ::
  "url_ops \<Rightarrow> (string \<Rightarrow> string) \<Rightarrow> string list \<Rightarrow> string \<Rightarrow> go_error + string" where
  "check_url uo ul hosts raw =
     (case uo_parse uo raw of
        None \<Rightarrow> Inl (bad_request ''invalid url'')
      | Some u \<Rightarrow>
          if url_host u = [] then Inl (bad_request ''invalid url'')
          else if \<not> equal_fold (url_scheme u) ''https'' then Inl (bad_request ''url scheme must be https'')
          else
            let host = to_lower ul (url_hostname u)
            in if \<not> List.member hosts host then Inl (forbidden (''host not allowed: '' @ host))
               else Inr host)"

definition decode_body :: "string \<Rightarrow> go_error + string" where
  "decode_body b64 =
     (if b64 = [] then Inr []
      else case std_decode b64 of
             None \<Rightarrow> Inl (bad_request ''bodyBase64 decode failed'')
           | Some raw \<Rightarrow>
               if length raw > max_body_bytes then Inl (bad_request ''body exceeds 1MB limit'') else Inr raw)"

text \<open>
  The header loop. Go iterates over a map in an order of its own choosing: the list is that order.
\<close>

fun forward ::
  "(string \<Rightarrow> string) \<Rightarrow> headers \<Rightarrow> bool \<Rightarrow> headers \<Rightarrow> bool \<times> headers" where
  "forward ul [] has_ua out = (has_ua, out)"
| "forward ul ((k, v) # hs) has_ua out =
     (let lk = to_lower ul k
      in if \<not> List.member forward_headers lk then forward ul hs has_ua out
         else forward ul hs (has_ua \<or> lk = ''user-agent'' \<and> v \<noteq> []) (set_header k v out))"

definition upstream_headers :: "(string \<Rightarrow> string) \<Rightarrow> headers \<Rightarrow> headers" where
  "upstream_headers ul hs =
     (let (has_ua, out) = forward ul hs False []
      in if has_ua then out else set_header ''User-Agent'' default_ua out)"

definition relay_plan ::
  "url_ops \<Rightarrow> (string \<Rightarrow> string) \<Rightarrow> (string \<Rightarrow> string) \<Rightarrow> string list \<Rightarrow> relay_request
     \<Rightarrow> go_error + (http_request \<times> int)" where
  "relay_plan uo ul uu hosts req =
     (let method = to_upper uu (rr_method req)
      in if \<not> List.member allowed_methods method
         then Inl (bad_request (''method not allowed: '' @ rr_method req))
         else case check_url uo ul hosts (rr_url req) of
           Inl e \<Rightarrow> Inl e
         | Inr host \<Rightarrow>
             (case decode_body (rr_body req) of
                Inl e \<Rightarrow> Inl e
              | Inr body \<Rightarrow>
                  Inr (\<lparr>hq_method = method, hq_url = rr_url req,
                        hq_headers = upstream_headers ul (rr_headers req), hq_body = body\<rparr>,
                       clamp_timeout (rr_timeout req))))"

section \<open>The answer\<close>

definition pass_headers :: "headers \<Rightarrow> headers" where
  "pass_headers h =
     map (\<lambda>k. (k, hdr_get (canon_header k) h))
       (filter (\<lambda>k. hdr_get (canon_header k) h \<noteq> []) passthrough_headers)"

definition relay_finish :: "http_response option \<Rightarrow> go_error + relay_response" where
  "relay_finish r =
     (case r of
        None \<Rightarrow> Inl (bad_gateway ''upstream unreachable'')
      | Some p \<Rightarrow>
          (case read_limited (max_body_bytes + 1) p of
             None \<Rightarrow> Inl (bad_gateway ''upstream response read failed'')
           | Some raw \<Rightarrow>
               if length raw > max_body_bytes then Inl (bad_gateway ''upstream response exceeds 1MB limit'')
               else Inr \<lparr>rp_status = hp_status p, rp_headers = pass_headers (hp_headers p),
                        rp_body = std_encode raw\<rparr>))"

text \<open>
  \<^verbatim>\<open>Do\<close>. The transport is given the time limit; the second result is the requests that were sent.
\<close>

definition relay_do ::
  "url_ops \<Rightarrow> (string \<Rightarrow> string) \<Rightarrow> (string \<Rightarrow> string) \<Rightarrow> (int \<Rightarrow> transport) \<Rightarrow> string list \<Rightarrow> relay_request
     \<Rightarrow> (go_error + relay_response) \<times> http_request list" where
  "relay_do uo ul uu tr hosts req =
     (case relay_plan uo ul uu hosts req of
        Inl e \<Rightarrow> (Inl e, [])
      | Inr (q, timeout) \<Rightarrow>
          (case client_do uo (tr timeout) q of (r, qs) \<Rightarrow> (relay_finish r, qs)))"

section \<open>Handler (routes.go)\<close>

definition relay_handler ::
  "(string \<Rightarrow> relay_request option) \<Rightarrow> url_ops \<Rightarrow> (string \<Rightarrow> string) \<Rightarrow> (string \<Rightarrow> string)
     \<Rightarrow> (int \<Rightarrow> transport) \<Rightarrow> string list \<Rightarrow> string \<Rightarrow> (go_error + relay_response) \<times> http_request list" where
  "relay_handler decode uo ul uu tr hosts body =
     (case decode_json decode body of
        Inl e \<Rightarrow> (Inl e, [])
      | Inr req \<Rightarrow>
          (case required ''method'' (rr_method req) of
             Some e \<Rightarrow> (Inl e, [])
           | None \<Rightarrow>
               (case required ''url'' (rr_url req) of
                  Some e \<Rightarrow> (Inl e, [])
                | None \<Rightarrow> relay_do uo ul uu tr hosts req)))"

end
