(* ===== verification/RelayProps.thy ===== *)
theory RelayProps
  imports Relay
begin

text \<open>The properties of the network relay.\<close>

section \<open>Headers\<close>

lemma forward_headers_from:
  "(k, v) \<in> set (snd (forward ul hs ua out)) \<Longrightarrow>
     (k, v) \<in> set out \<or> (\<exists>k0. (k0, v) \<in> set hs \<and> k = canon_header k0 \<and> List.member forward_headers (to_lower ul k0))"
proof (induction ul hs ua out rule: forward.induct)
  case (1 ul has_ua out)
  then show ?case by simp
next
  case (2 ul k0 v0 hs has_ua out)
  show ?case
  proof (cases "List.member forward_headers (to_lower ul k0)")
    case False
    with 2 show ?thesis by (auto simp: Let_def)
  next
    case True
    with 2 have "(k, v) \<in> set (set_header k0 v0 out) \<or>
        (\<exists>k1. (k1, v) \<in> set hs \<and> k = canon_header k1 \<and> List.member forward_headers (to_lower ul k1))"
      by (simp add: Let_def)
    with True show ?thesis by (auto simp: set_header_def hdr_set_def)
  qed
qed

text \<open>The forwarded names that are \<^verbatim>\<open>User-Agent\<close> in canonical form are spelt with ASCII letters.\<close>

definition ua_name :: "string \<Rightarrow> bool" where
  "ua_name k \<longleftrightarrow> canon_header k = ''User-Agent''"

text \<open>What the loop leaves under a name nothing in the rest of the list sets.\<close>

lemma forward_keeps:
  "\<forall>(k', v) \<in> set hs. List.member forward_headers (to_lower ul k') \<longrightarrow> canon_header k' \<noteq> k \<Longrightarrow>
     hdr_get k (snd (forward ul hs ua out)) = hdr_get k out"
  by (induction ul hs ua out rule: forward.induct) (auto simp: Let_def)

lemma forward_flag:
  "fst (forward ul hs ua out) \<longleftrightarrow> ua \<or> (\<exists>(k, v) \<in> set hs. to_lower ul k = ''user-agent'' \<and> v \<noteq> [])"
  by (induction ul hs ua out rule: forward.induct) (auto simp: Let_def forward_headers_def)

lemma forward_sets:
  assumes "(k, v) \<in> set hs" and "List.member forward_headers (to_lower ul k)"
    and "distinct (map (canon_header \<circ> fst) hs)"
  shows "hdr_get (canon_header k) (snd (forward ul hs ua out)) = v"
  using assms
proof (induction ul hs ua out rule: forward.induct)
  case (1 ul has_ua out)
  then show ?case by simp
next
  case (2 ul k0 v0 hs has_ua out)
  show ?case
  proof (cases "(k, v) \<in> set hs")
    case True
    with 2 show ?thesis by (auto simp: Let_def)
  next
    case False
    with 2 have kv: "k = k0" "v = v0" by auto
    have "\<forall>(k', v') \<in> set hs. List.member forward_headers (to_lower ul k') \<longrightarrow> canon_header k' \<noteq> canon_header k0"
      using 2(5) by force
    from forward_keeps [OF this] 2(4) show ?thesis by (simp add: kv Let_def)
  qed
qed

lemma canon_user_agent: "canon_header ''User-Agent'' = ''User-Agent''"
  by code_simp

lemma relay_planD:
  assumes "relay_plan uo ul uu hosts req = Inr (q, t)"
  shows "List.member allowed_methods (hq_method q) \<and> hq_method q = to_upper uu (rr_method req) \<and>
     hq_url q = rr_url req \<and> is_ok (check_url uo ul hosts (rr_url req)) \<and>
     hq_headers q = upstream_headers ul (rr_headers req) \<and> decode_body (rr_body req) = Inr (hq_body q) \<and>
     t = clamp_timeout (rr_timeout req)"
  using assms by (auto simp: relay_plan_def Let_def split: if_splits sum.splits)

lemma decode_body_length: "decode_body b = Inr raw \<Longrightarrow> length raw \<le> max_body_bytes"
  by (auto simp: decode_body_def split: if_splits option.splits)

lemma std_encode_Nil: "std_encode raw = [] \<Longrightarrow> raw = []"
proof -
  assume "std_encode raw = []"
  then have "std_decode [] = Some raw" by (metis std_decode_encode)
  moreover have "std_decode [] = Some []" by code_simp
  ultimately show ?thesis by simp
qed

lemma clamp_timeout_bounds: "0 < clamp_timeout ms \<and> clamp_timeout ms \<le> max_timeout_ms"
  by (simp add: clamp_timeout_def default_timeout_ms_def max_timeout_ms_def Let_def)

lemma check_url_okD:
  "is_ok (check_url uo ul hosts url) \<Longrightarrow>
     \<exists>u. uo_parse uo url = Some u \<and> equal_fold (url_scheme u) ''https'' \<and> List.member hosts (to_lower ul (url_hostname u))"
  by (auto simp: check_url_def Let_def simp del: equal_fold.simps split: option.splits if_splits)

section \<open>Inputs of the witnesses\<close>

text \<open>Two servers: the first is on the list, the second is not.\<close>

definition ex_urls :: url_ops where
  "ex_urls = \<lparr>uo_parse = (\<lambda>s.
       if s = ''https://www.pixiv.net/a'' then Some \<lparr>url_scheme = ''https'', url_host = ''www.pixiv.net'', url_hostname = ''www.pixiv.net''\<rparr>
       else if s = ''http://10.0.0.1/'' then Some \<lparr>url_scheme = ''http'', url_host = ''10.0.0.1'', url_hostname = ''10.0.0.1''\<rparr>
       else None),
     uo_resolve = (\<lambda>_ l. Some l), uo_keep = (\<lambda>_ _ h. h)\<rparr>"

definition ex_relay :: relay_request where
  "ex_relay = \<lparr>rr_method = ''get'', rr_url = ''https://www.pixiv.net/a'', rr_headers = [(''cookie'', ''x''), (''Referer'', ''y'')],
     rr_body = [], rr_timeout = 0\<rparr>"

definition ex_answer :: http_response where
  "ex_answer = \<lparr>hp_status = 200, hp_headers = [(''Content-Type'', ''text/plain'')], hp_body = ''hello'', hp_broken = False,
     hp_length = 5\<rparr>"

definition ex_plan :: http_request where
  "ex_plan = \<lparr>hq_method = ''GET'', hq_url = ''https://www.pixiv.net/a'',
     hq_headers = [(''Referer'', ''y''), (''User-Agent'', default_ua)], hq_body = []\<rparr>"

lemma ex_relay_plan: "relay_plan ex_urls id id relay_hosts ex_relay = Inr (ex_plan, 30000)"
  by code_simp

section \<open>Properties\<close>

text \<open>
  C14: Safety. The first request that leaves for an upstream server has one of the four methods, an
  \<^verbatim>\<open>https\<close> URL with a host of the whitelist, only header fields of the whitelist taken from the
  client's request, beside the user agent, at most 1 MB of body and a time limit of at most 60
  seconds. A request that is refused sends nothing.
\<close>

theorem relay_whitelist:
  assumes "relay_do uo ul uu tr hosts req = (res, qs)"
  shows "(qs = [] \<longleftrightarrow> \<not> is_ok (relay_plan uo ul uu hosts req)) \<and>
     (qs \<noteq> [] \<longrightarrow>
       List.member allowed_methods (hq_method (hd qs)) \<and>
       (\<exists>u. uo_parse uo (hq_url (hd qs)) = Some u \<and> equal_fold (url_scheme u) ''https'' \<and>
          List.member hosts (to_lower ul (url_hostname u))) \<and>
       (\<forall>(k, v) \<in> set (hq_headers (hd qs)).
          (k, v) = (''User-Agent'', default_ua) \<or>
          (\<exists>k0. (k0, v) \<in> set (rr_headers req) \<and> k = canon_header k0 \<and>
             List.member forward_headers (to_lower ul k0))) \<and>
       length (hq_body (hd qs)) \<le> 2 ^ 20 \<and>
       (\<exists>q t. relay_plan uo ul uu hosts req = Inr (q, t) \<and> hd qs = q \<and> 0 < t \<and> t \<le> 60000))"
proof (cases "relay_plan uo ul uu hosts req")
  case (Inl e)
  with assms show ?thesis by (simp add: relay_do_def)
next
  case (Inr a)
  obtain q t where a: "relay_plan uo ul uu hosts req = Inr (q, t)" using Inr by (cases a) auto
  obtain qs' where qs: "qs = q # qs'"
    using assms client_from_first [of 9 uo "tr t" q] by (auto simp: relay_do_def a client_do_def split: prod.splits)
  note plan = relay_planD [OF a]
  have heads: "(k, v) = (''User-Agent'', default_ua) \<or>
      (\<exists>k0. (k0, v) \<in> set (rr_headers req) \<and> k = canon_header k0 \<and> List.member forward_headers (to_lower ul k0))"
    if kv: "(k, v) \<in> set (hq_headers q)" for k v
  proof (cases "(k, v) = (''User-Agent'', default_ua)")
    case False
    with kv plan have "(k, v) \<in> set (snd (forward ul (rr_headers req) False []))"
      by (auto simp: upstream_headers_def set_header_def hdr_set_def canon_user_agent split: prod.splits if_splits)
    from forward_headers_from [OF this] show ?thesis by simp
  qed simp
  have "length (hq_body q) \<le> 2 ^ 20" using decode_body_length plan by (fastforce simp: max_body_bytes_def)
  with heads plan check_url_okD [of uo ul hosts "rr_url req"] clamp_timeout_bounds [of "rr_timeout req"]
  show ?thesis by (auto simp: qs a max_timeout_ms_def)
qed

theorem relay_whitelist_witness:
  "\<exists>res qs. relay_do ex_urls id id (\<lambda>_ _. Some ex_answer) relay_hosts ex_relay = (res, qs) \<and> qs \<noteq> [] \<and>
     List.member allowed_methods (hq_method (hd qs))"
proof -
  obtain res qs where r: "relay_do ex_urls id id (\<lambda>_ _. Some ex_answer) relay_hosts ex_relay = (res, qs)"
    by (metis prod.collapse)
  from relay_whitelist [OF r] r show ?thesis by (auto simp: ex_relay_plan)
qed

text \<open>
  C15: Functional. The relay is transparent: when the answer is not a redirect, ends properly and has at
  most 1 MB, the client gets its status and a body that decodes to exactly the upstream's bytes, and
  the upstream got exactly the bytes the client encoded.
\<close>

theorem relay_transparent:
  assumes "relay_plan uo ul uu hosts req = Inr (q, t)" and "rr_body req = std_encode raw"
    and "tr t q = Some p" and "\<not> is_redirect (hp_status p)" and "\<not> hp_broken p" and "length (hp_body p) \<le> 2 ^ 20"
  shows "hq_body q = raw \<and>
     (\<exists>rp. relay_do uo ul uu tr hosts req = (Inr rp, [q]) \<and> rp_status rp = hp_status p \<and>
        std_decode (rp_body rp) = Some (hp_body p))"
proof -
  have "decode_body (std_encode raw) = Inr (hq_body q)" using relay_planD [OF assms(1)] assms(2) by simp
  then have "hq_body q = raw"
    using std_encode_Nil [of raw] by (auto simp: decode_body_def split: if_splits)
  moreover have "client_do uo (tr t) q = (Some p, [q])"
    unfolding client_do_def by (subst client_from.simps) (simp add: assms(3,4))
  ultimately show ?thesis
    using assms(1,5,6)
    by (simp add: relay_do_def relay_finish_def read_limited_def max_body_bytes_def std_decode_encode)
qed

theorem relay_transparent_witness:
  "\<exists>rp. relay_do ex_urls id id (\<lambda>_ _. Some ex_answer) relay_hosts ex_relay = (Inr rp, [ex_plan]) \<and>
     std_decode (rp_body rp) = Some ''hello''"
proof -
  have "rr_body ex_relay = std_encode []" by code_simp
  from relay_transparent [OF ex_relay_plan this, of "\<lambda>_ _. Some ex_answer" ex_answer] show ?thesis
    by (auto simp: ex_answer_def is_redirect_def)
qed

text \<open>
  Functional. Every upstream request has a user agent: the client's, when it sent one that is not
  empty, and the default otherwise; provided that no two fields of the request have the same
  name up to case.
\<close>

theorem relay_user_agent:
  assumes "relay_plan uo ul uu hosts req = Inr (q, t)"
    and "distinct (map (canon_header \<circ> fst) (rr_headers req))"
    and "\<forall>(k, v) \<in> set (rr_headers req). to_lower ul k = ''user-agent'' \<longleftrightarrow> canon_header k = ''User-Agent''"
  shows "hdr_get ''User-Agent'' (hq_headers q) =
     (if \<exists>(k, v) \<in> set (rr_headers req). canon_header k = ''User-Agent'' \<and> v \<noteq> []
      then hdr_get ''User-Agent'' (map (\<lambda>(k, v). (canon_header k, v)) (rr_headers req)) else default_ua)"
proof -
  let ?hs = "rr_headers req"
  obtain ua out where f: "forward ul ?hs False [] = (ua, out)" by fastforce
  have flag: "ua \<longleftrightarrow> (\<exists>(k, v) \<in> set ?hs. canon_header k = ''User-Agent'' \<and> v \<noteq> [])"
    using forward_flag [of ul ?hs False "[]"] assms(3) unfolding case_prod_unfold f by auto
  have heads: "hq_headers q = (if ua then out else set_header ''User-Agent'' default_ua out)"
    using relay_planD [OF assms(1)] by (simp add: upstream_headers_def f)
  show ?thesis
  proof (cases ua)
    case False
    with flag show ?thesis by (simp add: heads canon_user_agent)
  next
    case True
    with flag obtain k v where kv: "(k, v) \<in> set ?hs" "canon_header k = ''User-Agent''" "v \<noteq> []" by auto
    have "List.member forward_headers (to_lower ul k)" using assms(3) kv by (auto simp: forward_headers_def)
    from forward_sets [OF kv(1) this assms(2), of False "[]"] have "hdr_get ''User-Agent'' out = v"
      by (simp add: f kv(2))
    moreover have "map_of (map (\<lambda>(k, v). (canon_header k, v)) ?hs) ''User-Agent'' = Some v"
    proof (rule map_of_is_SomeI)
      show "distinct (map fst (map (\<lambda>(k, v). (canon_header k, v)) ?hs))"
        using assms(2) by (simp add: comp_def case_prod_unfold)
      show "(''User-Agent'', v) \<in> set (map (\<lambda>(k, v). (canon_header k, v)) ?hs)" using kv by force
    qed
    ultimately show ?thesis using True flag by (auto simp: heads hdr_get_def)
  qed
qed

theorem relay_user_agent_witness: "hdr_get ''User-Agent'' (hq_headers ex_plan) = default_ua"
proof -
  have "distinct (map (canon_header \<circ> fst) (rr_headers ex_relay))"
    and "\<forall>(k, v) \<in> set (rr_headers ex_relay). to_lower id k = ''user-agent'' \<longleftrightarrow> canon_header k = ''User-Agent''"
    and "\<not> (\<exists>(k, v) \<in> set (rr_headers ex_relay). canon_header k = ''User-Agent'' \<and> v \<noteq> [])"
    by code_simp+
  with relay_user_agent [OF ex_relay_plan] show ?thesis by auto
qed

text \<open>
  Safety, a defect. The whitelist holds for the first request only: the client follows redirects, so
  an answer of a listed host with a \<^verbatim>\<open>Location\<close> makes the relay fetch whatever that names, which
  \<^verbatim>\<open>Do\<close> itself would refuse, and return it.
\<close>

theorem relay_follows_redirect_off_list:
  assumes "relay_plan uo ul uu hosts req = Inr (q, t)" and "tr t q = Some p" and "is_redirect (hp_status p)"
    and "hdr_get ''Location'' (hp_headers p) = loc" and "loc \<noteq> []" and "uo_resolve uo (hq_url q) loc = Some url"
    and "check_url uo ul hosts url = Inl e"
    and "tr t (redirect_request uo (hp_status p) url q) = Some p'" and "\<not> is_redirect (hp_status p')"
    and "\<not> hp_broken p'" and "length (hp_body p') \<le> 2 ^ 20"
  shows "\<exists>rp. relay_do uo ul uu tr hosts req = (Inr rp, [q, redirect_request uo (hp_status p) url q]) \<and>
     hq_url (redirect_request uo (hp_status p) url q) = url \<and> std_decode (rp_body rp) = Some (hp_body p')"
proof -
  have "client_from 8 uo (tr t) (redirect_request uo (hp_status p) url q) =
      (Some p', [redirect_request uo (hp_status p) url q])"
    by (subst client_from.simps) (simp add: assms(8,9))
  then have "client_do uo (tr t) q = (Some p', [q, redirect_request uo (hp_status p) url q])"
    unfolding client_do_def by (subst client_from.simps) (simp add: assms numeral_eq_Suc)
  with assms(1,10,11) show ?thesis
    by (simp add: relay_do_def relay_finish_def read_limited_def max_body_bytes_def std_decode_encode
        redirect_request_def Let_def)
qed

theorem relay_follows_redirect_off_list_witness:
  "\<exists>tr rp q'. relay_do ex_urls id id tr relay_hosts ex_relay = (Inr rp, [ex_plan, q']) \<and>
     hq_url q' = ''http://10.0.0.1/'' \<and> std_decode (rp_body rp) = Some ''hello''"
proof -
  let ?p = "ex_answer\<lparr>hp_status := 302, hp_headers := [(''Location'', ''http://10.0.0.1/'')]\<rparr>"
  let ?tr = "\<lambda>_ q. if q = ex_plan then Some ?p else Some ex_answer"
  have "check_url ex_urls id relay_hosts ''http://10.0.0.1/'' = Inl (bad_request ''url scheme must be https'')"
    by code_simp
  moreover have "redirect_request ex_urls 302 ''http://10.0.0.1/'' ex_plan \<noteq> ex_plan"
    by (simp add: redirect_request_def ex_plan_def Let_def)
  ultimately show ?thesis
    using relay_follows_redirect_off_list [OF ex_relay_plan, of ?tr ?p "''http://10.0.0.1/''" "''http://10.0.0.1/''" _ ex_answer]
    by (intro exI [of _ ?tr]) (auto simp: ex_answer_def is_redirect_def hdr_get_def ex_urls_def)
qed

text \<open>
  Functional, a defect. When two fields of the request differ in case only, the order in which Go
  visits the map decides: with an empty user agent visited last the upstream gets none at all,
  because the flag has been set by the other one.
\<close>

theorem relay_user_agent_order:
  "hdr_get ''User-Agent'' (upstream_headers id [(''User-Agent'', ''app''), (''user-agent'', [])]) = [] \<and>
   hdr_get ''User-Agent'' (upstream_headers id [(''user-agent'', []), (''User-Agent'', ''app'')]) = ''app''"
  by code_simp

end
