(* ===== verification/Inflight.thy ===== *)
theory Inflight
  imports Prelude
begin

text \<open>
  The interface behind the two tables of work in flight: that of the image relay, whose followers
  wait for the leader of their key, and that of the recovery queue, which drops a job that is
  already under way. A key is entered by one caller at a time and stays until that caller leaves.
\<close>

locale inflight_table =
  fixes busy :: "'s \<Rightarrow> 'k \<Rightarrow> bool"
    and enter :: "'k \<Rightarrow> 's \<Rightarrow> bool \<times> 's"
    and leave :: "'k \<Rightarrow> 's \<Rightarrow> 's"
  assumes enter_won: "enter k s = (True, s') \<Longrightarrow> \<not> busy s k \<and> (\<forall>k'. busy s' k' = (k' = k \<or> busy s k'))"
    and enter_lost: "enter k s = (False, s') \<Longrightarrow> busy s k \<and> s' = s"
    and leave_busy: "busy (leave k s) k' = (k' \<noteq> k \<and> busy s k')"
begin

lemma enter_iff: "fst (enter k s) \<longleftrightarrow> \<not> busy s k"
proof (cases "enter k s")
  case (Pair won s')
  then show ?thesis using enter_won [of k s s'] enter_lost [of k s s'] by (cases won) auto
qed

text \<open>Until the winner leaves, nobody else gets in; afterwards the next one does.\<close>

lemma enter_again: "enter k s = (True, s') \<Longrightarrow> \<not> fst (enter k s')"
  by (simp add: enter_iff) (use enter_won in blast)

lemma enter_after_leave: "fst (enter k (leave k s))"
  by (simp add: enter_iff leave_busy)

text \<open>Other keys do not interfere.\<close>

lemma enter_other: "k' \<noteq> k \<Longrightarrow> fst (enter k' (snd (enter k s))) = fst (enter k' s)"
proof (cases "enter k s")
  case (Pair won s')
  assume "k' \<noteq> k"
  with Pair show ?thesis using enter_won [of k s s'] enter_lost [of k s s'] by (cases won) (auto simp: enter_iff)
qed

end

end
