(* ===== verification/Img.thy ===== *)
theory Img
  imports Relay CacheFacts Inflight
begin

text \<open>
  \<^verbatim>\<open>internal/img\<close>: the image relay. A request is checked against the host list and answered from the
  disk cache, or fetched from the upstream server, streamed to the client and, on the way, written
  to the cache. Requests for the same URL at the same time share one fetch.
\<close>

section \<open>One request (service.go)\<close>

definition pixiv_referer :: string where "pixiv_referer = ''https://app-api.pixiv.net/''"

definition pixiv_ua :: string where "pixiv_ua = ''PixivIOSApp/5.8.0''"

definition img_hosts :: "string list" where
  "img_hosts = [''i.pximg.net'', ''i-f.pximg.net'', ''s.pximg.net'']"

record img_response =
  ir_status :: nat
  ir_headers :: headers
  ir_body :: string

text \<open>What is written to the client: an error, with the headers set before it, or an image.\<close>

datatype img_result = ImgError headers go_error | Img img_response

definition img_check ::
  "url_ops \<Rightarrow> (string \<Rightarrow> string) \<Rightarrow> string list \<Rightarrow> string \<Rightarrow> go_error + string" where
  "img_check uo ul hosts raw =
     (if raw = [] then Inl (bad_request ''url is required'') else check_url uo ul hosts raw)"

text \<open>\<^verbatim>\<open>serveHit\<close>: a read that fails counts as a miss.\<close>

definition disposition :: "bool \<Rightarrow> headers \<Rightarrow> headers" where
  "disposition inline h = (if inline then hdr_set ''Content-Disposition'' ''inline'' h else h)"

definition serve_hit ::
  "(cache_step \<Rightarrow> bool) \<Rightarrow> int \<Rightarrow> string \<Rightarrow> bool \<Rightarrow> cache_state \<Rightarrow> img_response option \<times> cache_state" where
  "serve_hit fail now key inline s =
     (case cache_get fail now key s of
        (Inl e, s') \<Rightarrow> (None, s')
      | (Inr None, s') \<Rightarrow> (None, s')
      | (Inr (Some (body, m)), s') \<Rightarrow>
          (Some \<lparr>ir_status = 200,
             ir_headers = disposition inline
               (hdr_set ''X-Cache'' ''HIT'' (hdr_set ''Content-Length'' (format_int (cm_size m))
                 (if cm_ctype m \<noteq> [] then hdr_set ''Content-Type'' (cm_ctype m) [] else []))),
             ir_body = body\<rparr>, s'))"

text \<open>
  How the world treats one download: \<open>nw_chunk\<close> is how the body is cut into reads, and
  \<open>nw_gone\<close> is the number of reads after which writing to the client fails, if it does. The
  chunk whose delivery fails has already gone through the tee to the cache.
\<close>

record network =
  nw_chunk :: "string \<Rightarrow> string list"
  nw_gone :: "nat option"

definition img_request :: "string \<Rightarrow> http_request" where
  "img_request url = \<lparr>hq_method = ''GET'', hq_url = url,
     hq_headers = set_header ''User-Agent'' pixiv_ua (set_header ''Referer'' pixiv_referer []), hq_body = []\<rparr>"

definition copy_headers :: "string list \<Rightarrow> headers \<Rightarrow> headers \<Rightarrow> headers" where
  "copy_headers ks from_h h =
     fold (\<lambda>k h. if hdr_get k from_h \<noteq> [] then hdr_set k (hdr_get k from_h) h else h) ks h"

definition fetch_upstream ::
  "url_ops \<Rightarrow> transport \<Rightarrow> network \<Rightarrow> (cache_step \<Rightarrow> bool) \<Rightarrow> (nat \<Rightarrow> nat option) \<Rightarrow> int \<Rightarrow> string
     \<Rightarrow> string \<Rightarrow> bool \<Rightarrow> cache_state \<Rightarrow> (img_result \<times> http_request list) \<times> cache_state" where
  "fetch_upstream uo tr nw fail disk now url key inline s =
     (case client_do uo tr (img_request url) of
        (None, qs) \<Rightarrow> ((ImgError [] (bad_gateway ''upstream unreachable''), qs), s)
      | (Some p, qs) \<Rightarrow>
          (let h0 = hdr_set ''X-Upstream-Status'' (nat_str (hp_status p)) []
           in if hp_status p = 404 then ((ImgError h0 (not_found ''image not found''), qs), s)
              else if hp_status p \<noteq> 200
              then ((ImgError h0 (bad_gateway (''upstream returned status '' @ nat_str (hp_status p))), qs), s)
              else
                let h = disposition inline (hdr_set ''X-Cache'' ''MISS''
                          (copy_headers [''Content-Type'', ''Content-Length'', ''Cache-Control''] (hp_headers p) h0));
                    chunks = (case nw_gone nw of None \<Rightarrow> nw_chunk nw (hp_body p)
                              | Some k \<Rightarrow> take (Suc k) (nw_chunk nw (hp_body p)));
                    sent = (case nw_gone nw of None \<Rightarrow> chunks | Some k \<Rightarrow> take k chunks);
                    s' = (if hp_length p < 0 \<or> hp_length p \<le> cc_max_file (live_config s)
                          then snd (cache_put fail disk now key (hdr_get ''Content-Type'' (hp_headers p)) chunks s)
                          else s)
                in ((Img \<lparr>ir_status = 200, ir_headers = h, ir_body = concat sent\<rparr>, qs), s')))"

text \<open>\<^verbatim>\<open>Fetch\<close> for a request that meets no other one for its key: it leads.\<close>

definition img_fetch ::
  "(string \<Rightarrow> string) \<Rightarrow> url_ops \<Rightarrow> (string \<Rightarrow> string) \<Rightarrow> string list \<Rightarrow> transport \<Rightarrow> network
     \<Rightarrow> (cache_step \<Rightarrow> bool) \<Rightarrow> (nat \<Rightarrow> nat option) \<Rightarrow> int \<Rightarrow> string \<Rightarrow> string \<Rightarrow> cache_state
     \<Rightarrow> (img_result \<times> http_request list) \<times> cache_state" where
  "img_fetch sha uo ul hosts tr nw fail disk now url disp s =
     (case img_check uo ul hosts url of
        Inl e \<Rightarrow> ((ImgError [] e, []), s)
      | Inr host \<Rightarrow>
          (let key = cache_key sha url; inline = (disp = ''inline'')
           in case serve_hit fail now key inline s of
                (Some r, s') \<Rightarrow> ((Img r, []), s')
              | (None, s') \<Rightarrow> fetch_upstream uo tr nw fail disk now url key inline s'))"

text \<open>The handler takes the URL and the disposition from the query of the request.\<close>

definition img_handler ::
  "(string \<Rightarrow> string) \<Rightarrow> url_ops \<Rightarrow> (string \<Rightarrow> string) \<Rightarrow> string list \<Rightarrow> transport \<Rightarrow> network
     \<Rightarrow> (cache_step \<Rightarrow> bool) \<Rightarrow> (nat \<Rightarrow> nat option) \<Rightarrow> int \<Rightarrow> string \<Rightarrow> cache_state
     \<Rightarrow> (img_result \<times> http_request list) \<times> cache_state" where
  "img_handler sha uo ul hosts tr nw fail disk now query s =
     img_fetch sha uo ul hosts tr nw fail disk now (query_get ''url'' query) (query_get ''disposition'' query) s"

section \<open>Requests for the same key\<close>

text \<open>
  \<open>fl_inflight\<close> maps a key to the flight of its leader; \<open>fl_closed\<close> are the flights whose channel
  has been closed. A request is in one of the phases of the loop in \<^verbatim>\<open>Fetch\<close>.
\<close>

datatype phase = Checking | Waiting nat | Leading nat | Finished

record flights =
  fl_inflight :: "string \<Rightarrow> nat option"
  fl_closed :: "nat list"
  fl_next :: nat
  fl_phase :: "nat \<Rightarrow> (string \<times> phase) option"

text \<open>\<^verbatim>\<open>enterFlight\<close> returns the flight and whether the caller leads it.\<close>

definition enter_flight :: "string \<Rightarrow> flights \<Rightarrow> (nat \<times> bool) \<times> flights" where
  "enter_flight key s =
     (case fl_inflight s key of
        Some f \<Rightarrow> ((f, False), s)
      | None \<Rightarrow> ((fl_next s, True),
                 s\<lparr>fl_inflight := (fl_inflight s)(key \<mapsto> fl_next s), fl_next := Suc (fl_next s)\<rparr>))"

definition leave_flight :: "string \<Rightarrow> nat \<Rightarrow> flights \<Rightarrow> flights" where
  "leave_flight key f s = s\<lparr>fl_inflight := (fl_inflight s)(key := None), fl_closed := f # fl_closed s\<rparr>"

definition set_phase :: "nat \<Rightarrow> string \<Rightarrow> phase \<Rightarrow> flights \<Rightarrow> flights" where
  "set_phase r key p s = s\<lparr>fl_phase := (fl_phase s)(r \<mapsto> (key, p))\<rparr>"

inductive flight_step :: "flights \<Rightarrow> flights \<Rightarrow> bool" where
  arrive: "fl_phase s r = None \<Longrightarrow> flight_step s (set_phase r key Checking s)"
| hit: "fl_phase s r = Some (key, Checking) \<Longrightarrow> flight_step s (set_phase r key Finished s)"
| lead: "fl_phase s r = Some (key, Checking) \<Longrightarrow> enter_flight key s = ((f, True), s') \<Longrightarrow>
    flight_step s (set_phase r key (Leading f) s')"
| follow: "fl_phase s r = Some (key, Checking) \<Longrightarrow> enter_flight key s = ((f, False), s') \<Longrightarrow>
    flight_step s (set_phase r key (Waiting f) s')"
| wake: "fl_phase s r = Some (key, Waiting f) \<Longrightarrow> List.member (fl_closed s) f \<Longrightarrow>
    flight_step s (set_phase r key Checking s)"
| finish: "fl_phase s r = Some (key, Leading f) \<Longrightarrow>
    flight_step s (set_phase r key Finished (leave_flight key f s))"

definition no_flights :: flights where
  "no_flights = \<lparr>fl_inflight = Map.empty, fl_closed = [], fl_next = 0, fl_phase = Map.empty\<rparr>"

inductive flight_reach :: "flights \<Rightarrow> bool" where
  flight_start: "flight_reach no_flights"
| flight_next: "flight_reach s \<Longrightarrow> flight_step s s' \<Longrightarrow> flight_reach s'"

end
