(* ===== verification/ImgProps.thy ===== *)
theory ImgProps
  imports Img RelayProps CacheProps
begin

text \<open>The properties of the image relay.\<close>

section \<open>The table of flights\<close>

definition flight_busy :: "flights \<Rightarrow> string \<Rightarrow> bool" where
  "flight_busy s key \<longleftrightarrow> fl_inflight s key \<noteq> None"

definition try_flight :: "string \<Rightarrow> flights \<Rightarrow> bool \<times> flights" where
  "try_flight key s = (case enter_flight key s of ((f, won), s') \<Rightarrow> (won, s'))"

definition end_flight :: "string \<Rightarrow> flights \<Rightarrow> flights" where
  "end_flight key s = (case fl_inflight s key of None \<Rightarrow> s | Some f \<Rightarrow> leave_flight key f s)"

interpretation flights: inflight_table flight_busy try_flight end_flight
  by unfold_locales
    (auto simp: flight_busy_def try_flight_def end_flight_def enter_flight_def leave_flight_def
      split: option.splits if_splits)

text \<open>
  The invariant: a key is in the table exactly while some request leads it, with that request's flight,
  and a request that waits, waits for a flight that is closed or whose leader is there.
\<close>

definition flight_inv :: "flights \<Rightarrow> bool" where
  "flight_inv s \<longleftrightarrow>
     (\<forall>key f r. fl_phase s r = Some (key, Leading f) \<longrightarrow> fl_inflight s key = Some f) \<and>
     (\<forall>key f. fl_inflight s key = Some f \<longrightarrow> (\<exists>r. fl_phase s r = Some (key, Leading f))) \<and>
     (\<forall>key r r' f f'. fl_phase s r = Some (key, Leading f) \<longrightarrow> fl_phase s r' = Some (key, Leading f') \<longrightarrow> r = r') \<and>
     (\<forall>key r f. fl_phase s r = Some (key, Waiting f) \<longrightarrow> List.member (fl_closed s) f \<or> fl_inflight s key = Some f)"

lemma flight_invI:
  assumes "\<And>key f r. fl_phase s r = Some (key, Leading f) \<Longrightarrow> fl_inflight s key = Some f"
    and "\<And>key f. fl_inflight s key = Some f \<Longrightarrow> \<exists>r. fl_phase s r = Some (key, Leading f)"
    and "\<And>key r r' f f'. fl_phase s r = Some (key, Leading f) \<Longrightarrow> fl_phase s r' = Some (key, Leading f') \<Longrightarrow> r = r'"
    and "\<And>key r f. fl_phase s r = Some (key, Waiting f) \<Longrightarrow> List.member (fl_closed s) f \<or> fl_inflight s key = Some f"
  shows "flight_inv s"
  unfolding flight_inv_def using assms by blast

lemma flight_invD:
  assumes "flight_inv s"
  shows "fl_phase s r = Some (key, Leading f) \<Longrightarrow> fl_inflight s key = Some f"
    and "fl_inflight s key = Some f \<Longrightarrow> \<exists>r. fl_phase s r = Some (key, Leading f)"
    and "fl_phase s r = Some (key, Leading f) \<Longrightarrow> fl_phase s r' = Some (key, Leading f') \<Longrightarrow> r = r'"
    and "fl_phase s r = Some (key, Waiting f) \<Longrightarrow> List.member (fl_closed s) f \<or> fl_inflight s key = Some f"
  using assms unfolding flight_inv_def by blast+

lemma set_phase_simps [simp]:
  "fl_inflight (set_phase r key p s) = fl_inflight s" "fl_closed (set_phase r key p s) = fl_closed s"
  "fl_phase (set_phase r key p s) = (fl_phase s)(r \<mapsto> (key, p))" "fl_next (set_phase r key p s) = fl_next s"
  by (simp_all add: set_phase_def)

lemma leave_flight_simps [simp]:
  "fl_inflight (leave_flight key f s) = (fl_inflight s)(key := None)" "fl_closed (leave_flight key f s) = f # fl_closed s"
  "fl_phase (leave_flight key f s) = fl_phase s"
  by (simp_all add: leave_flight_def)

lemma flight_inv_quiet:
  assumes "flight_inv s" and "\<And>key f. fl_phase s r \<noteq> Some (key, Leading f)"
    and "\<And>f. p \<noteq> Leading f" and "\<And>f. p = Waiting f \<Longrightarrow> List.member (fl_closed s) f \<or> fl_inflight s key = Some f"
  shows "flight_inv (set_phase r key p s)"
proof (rule flight_invI)
  note D = flight_invD [OF assms(1)]
  let ?s = "set_phase r key p s"
  show "fl_inflight ?s k = Some f" if "fl_phase ?s r' = Some (k, Leading f)" for k f r'
    using that D(1) assms(3) by (auto split: if_splits)
  show "\<exists>r'. fl_phase ?s r' = Some (k, Leading f)" if "fl_inflight ?s k = Some f" for k f
  proof -
    from that D(2) [of k f] obtain r' where "fl_phase s r' = Some (k, Leading f)" by auto
    with assms(2) show ?thesis by (intro exI [of _ r']) auto
  qed
  show "r1 = r2" if "fl_phase ?s r1 = Some (k, Leading f)" "fl_phase ?s r2 = Some (k, Leading f')" for k r1 r2 f f'
    using that D(3) assms(3) by (simp split: if_splits)
  show "List.member (fl_closed ?s) f \<or> fl_inflight ?s k = Some f" if "fl_phase ?s r' = Some (k, Waiting f)" for k r' f
    using that D(4) assms(4) by (simp split: if_splits)
qed

lemma flight_step_inv:
  assumes "flight_step s s'" and "flight_inv s"
  shows "flight_inv s'"
  using assms(1)
proof cases
  case (arrive r key)
  then show ?thesis using flight_inv_quiet [OF assms(2), of r Checking key] by simp
next
  case (hit r key)
  then show ?thesis using flight_inv_quiet [OF assms(2), of r Finished key] by simp
next
  case (lead r key f s1)
  then have none: "fl_inflight s key = None"
    and s1: "fl_inflight s1 = (fl_inflight s)(key \<mapsto> f)" "fl_closed s1 = fl_closed s" "fl_phase s1 = fl_phase s"
    by (auto simp: enter_flight_def split: option.splits)
  note D = flight_invD [OF assms(2)]
  have nolead: "fl_phase s r' \<noteq> Some (key, Leading f')" for r' f' using D(1) none by force
  show ?thesis unfolding lead(1)
  proof (rule flight_invI)
    let ?s = "set_phase r key (Leading f) s1"
    show "fl_inflight ?s k = Some g" if "fl_phase ?s r' = Some (k, Leading g)" for k g r'
      using that D(1) nolead by (auto simp: s1 split: if_splits)
    show "\<exists>r'. fl_phase ?s r' = Some (k, Leading g)" if "fl_inflight ?s k = Some g" for k g
    proof (cases "k = key")
      case True
      with that show ?thesis by (intro exI [of _ r]) (simp add: s1)
    next
      case False
      with that D(2) [of k g] obtain r' where "fl_phase s r' = Some (k, Leading g)" by (auto simp: s1)
      with lead(2) show ?thesis by (intro exI [of _ r']) (auto simp: s1)
    qed
    show "r1 = r2" if "fl_phase ?s r1 = Some (k, Leading g)" "fl_phase ?s r2 = Some (k, Leading g')" for k r1 r2 g g'
      using that D(3) nolead by (auto simp: s1 split: if_splits)
    show "List.member (fl_closed ?s) g \<or> fl_inflight ?s k = Some g" if "fl_phase ?s r' = Some (k, Waiting g)" for k r' g
      using that D(4) [of r' k g] none by (auto simp: s1 split: if_splits)
  qed
next
  case (follow r key f s1)
  then have "s1 = s" "fl_inflight s key = Some f" by (auto simp: enter_flight_def split: option.splits)
  with follow show ?thesis using flight_inv_quiet [OF assms(2), of r "Waiting f" key] by simp
next
  case (wake r key f)
  then show ?thesis using flight_inv_quiet [OF assms(2), of r Checking key] by simp
next
  case (finish r key f)
  note D = flight_invD [OF assms(2)]
  have mine: "fl_inflight s key = Some f" using D(1) finish(2) by blast
  show ?thesis unfolding finish(1)
  proof (rule flight_invI)
    let ?s = "set_phase r key Finished (leave_flight key f s)"
    show "fl_inflight ?s k = Some g" if "fl_phase ?s r' = Some (k, Leading g)" for k g r'
      using that D(1) D(3) [OF finish(2), of r' g] by (auto split: if_splits)
    show "\<exists>r'. fl_phase ?s r' = Some (k, Leading g)" if "fl_inflight ?s k = Some g" for k g
    proof -
      from that have k: "k \<noteq> key" "fl_inflight s k = Some g" by (auto split: if_splits)
      from D(2) [OF k(2)] obtain r' where "fl_phase s r' = Some (k, Leading g)" by auto
      with finish(2) k(1) show ?thesis by (intro exI [of _ r']) auto
    qed
    show "r1 = r2" if "fl_phase ?s r1 = Some (k, Leading g)" "fl_phase ?s r2 = Some (k, Leading g')" for k r1 r2 g g'
      using that D(3) by (simp split: if_splits)
    show "List.member (fl_closed ?s) g \<or> fl_inflight ?s k = Some g" if "fl_phase ?s r' = Some (k, Waiting g)" for k r' g
      using that D(4) [of r' k g] mine by (auto split: if_splits)
  qed
qed

lemma flight_reach_inv: "flight_reach s \<Longrightarrow> flight_inv s"
proof (induction rule: flight_reach.induct)
  case flight_start
  show ?case by (simp add: flight_inv_def no_flights_def)
next
  case (flight_next s s')
  then show ?case by (blast intro: flight_step_inv)
qed

section \<open>A download that is stored\<close>

lemma serve_hit_lookup:
  assumes "cache_lookup s key = Some (body, ct)"
  shows "\<exists>r s'. serve_hit (\<lambda>_. False) now key inline s = (Some r, s') \<and> ir_status r = 200 \<and> ir_body r = body \<and>
     (ct \<noteq> [] \<longrightarrow> hdr_get ''Content-Type'' (ir_headers r) = ct)"
  using assms
  by (auto simp: cache_lookup_def serve_hit_def cache_get_def get_row_def get_file_def disposition_def split: option.splits)

text \<open>
  What both properties of the download share: whatever could be read of the body is stored, and is what
  the next request for the URL gets without asking the upstream server.
\<close>

lemma miss_then_hit:
  assumes "cache_ready s" and "length (sha url) = 32" and "img_check uo ul hosts url = Inr host"
    and "cache_get (\<lambda>_. False) now (cache_key sha url) s = (Inr None, s)"
    and "tr (img_request url) = Some p" and "hp_status p = 200"
    and "concat (nw_chunk nw (hp_body p)) = hp_body p" and "nw_gone nw = None"
    and "hp_length p \<le> cc_max_file (cs_cfg s)" and "int (length (hp_body p)) \<le> cc_max_file (cs_cfg s)"
  shows "\<exists>r s' r' s''.
     img_fetch sha uo ul hosts tr nw (\<lambda>_. False) (\<lambda>_. None) now url disp s = ((Img r, [img_request url]), s') \<and>
     ir_body r = hp_body p \<and>
     img_fetch sha uo ul hosts tr' nw' (\<lambda>_. False) disk' now' url disp' s' = ((Img r', []), s'') \<and>
     ir_status r' = 200 \<and> ir_body r' = hp_body p \<and>
     (hdr_get ''Content-Type'' (hp_headers p) \<noteq> [] \<longrightarrow>
        hdr_get ''Content-Type'' (ir_headers r') = hdr_get ''Content-Type'' (hp_headers p))"
proof -
  let ?key = "cache_key sha url" and ?ct = "hdr_get ''Content-Type'' (hp_headers p)"
  let ?ps = "nw_chunk nw (hp_body p)"
  obtain s' where put: "cache_put (\<lambda>_. False) (\<lambda>_. None) now ?key ?ct ?ps s = (Inr True, s')"
    using cache_put_fits [of ?ps s now ?key ?ct] assms(7,10) by auto
  have "env_put (\<lambda>_. False, \<lambda>_. None, now) ?key ?ct ?ps s = (Inr True, s')" using put by (simp add: env_put_def)
  from disk.put_stored [OF assms(1) cache_key_ok [of sha url, OF assms(2)] this]
  have "cache_lookup s' ?key = Some (hp_body p, ?ct)" by (simp add: assms(7))
  from serve_hit_lookup [OF this, of now' "disp' = ''inline''"] obtain r' s'' where
    hit: "serve_hit (\<lambda>_. False) now' ?key (disp' = ''inline'') s' = (Some r', s'')" "ir_status r' = 200"
      "ir_body r' = hp_body p" "?ct \<noteq> [] \<longrightarrow> hdr_get ''Content-Type'' (ir_headers r') = ?ct" by auto
  have "serve_hit (\<lambda>_. False) now ?key (disp = ''inline'') s = (None, s)" using assms(4) by (simp add: serve_hit_def)
  moreover have "client_do uo tr (img_request url) = (Some p, [img_request url])"
    unfolding client_do_def by (subst client_from.simps) (simp add: assms(5,6) is_redirect_def)
  ultimately have "\<exists>r. img_fetch sha uo ul hosts tr nw (\<lambda>_. False) (\<lambda>_. None) now url disp s =
      ((Img r, [img_request url]), s') \<and> ir_body r = hp_body p"
    using assms(3,6-9) put by (simp add: img_fetch_def fetch_upstream_def live_config_def Let_def)
  moreover have "img_fetch sha uo ul hosts tr' nw' (\<lambda>_. False) disk' now' url disp' s' = ((Img r', []), s'')"
    using hit(1) assms(3) by (simp add: img_fetch_def Let_def)
  ultimately show ?thesis using hit(2-4) by blast
qed

section \<open>Inputs of the witnesses\<close>

definition img_urls :: url_ops where
  "img_urls = ex_urls\<lparr>uo_parse := (\<lambda>s. Some \<lparr>url_scheme = ''https'', url_host = ''i.pximg.net'', url_hostname = ''i.pximg.net''\<rparr>)\<rparr>"

definition ex_sha :: "string \<Rightarrow> string" where "ex_sha _ = replicate 32 CHR ''0''"

definition empty_cache :: cache_state where
  "empty_cache = ex_cache\<lparr>cs_meta := [], cs_files := Map.empty, cs_total := 0\<rparr>"

definition ex_net :: network where "ex_net = \<lparr>nw_chunk = (\<lambda>b. [b]), nw_gone = None\<rparr>"

lemma empty_cache_ready: "cache_ready empty_cache" "cc_max_file (cs_cfg empty_cache) = 8"
  by (simp_all add: cache_ready_def empty_cache_def ex_cache_def ex_cfg_def)

lemma empty_cache_get: "cache_get (\<lambda>_. False) now key empty_cache = (Inr None, empty_cache)"
  by (simp add: cache_get_def get_row_def empty_cache_def)

lemma ex_img_check: "img_check img_urls id img_hosts ''u'' = Inr ''i.pximg.net''"
  by code_simp

section \<open>Properties\<close>

text \<open>
  C16: Functional. A miss is a hit the next time: when a download ends properly, fits and nothing fails,
  the client gets the upstream's bytes, and the next request for the URL gets the same bytes with
  the same content type from the cache, without a request to the upstream server.
\<close>

theorem img_miss_then_hit:
  assumes "cache_ready s" and "length (sha url) = 32" and "img_check uo ul hosts url = Inr host"
    and "cache_get (\<lambda>_. False) now (cache_key sha url) s = (Inr None, s)"
    and "tr (img_request url) = Some p" and "hp_status p = 200" and "\<not> hp_broken p"
    and "concat (nw_chunk nw (hp_body p)) = hp_body p" and "nw_gone nw = None"
    and "hp_length p \<le> cc_max_file (cs_cfg s)" and "int (length (hp_body p)) \<le> cc_max_file (cs_cfg s)"
  shows "\<exists>r s' r' s''.
     img_fetch sha uo ul hosts tr nw (\<lambda>_. False) (\<lambda>_. None) now url disp s = ((Img r, [img_request url]), s') \<and>
     ir_body r = hp_body p \<and>
     img_fetch sha uo ul hosts tr' nw' (\<lambda>_. False) disk' now' url disp' s' = ((Img r', []), s'') \<and>
     ir_status r' = 200 \<and> ir_body r' = hp_body p \<and>
     (hdr_get ''Content-Type'' (hp_headers p) \<noteq> [] \<longrightarrow>
        hdr_get ''Content-Type'' (ir_headers r') = hdr_get ''Content-Type'' (hp_headers p))"
  by (rule miss_then_hit [where tr = tr and nw = nw and sha = sha, OF assms(1-6,8-11)])

theorem img_miss_then_hit_witness:
  "\<exists>r s' r' s''.
     img_fetch ex_sha img_urls id img_hosts (\<lambda>_. Some ex_answer) ex_net (\<lambda>_. False) (\<lambda>_. None) 7 ''u'' [] empty_cache
       = ((Img r, [img_request ''u'']), s') \<and>
     img_fetch ex_sha img_urls id img_hosts (\<lambda>_. None) ex_net (\<lambda>_. False) (\<lambda>_. None) 9 ''u'' [] s' = ((Img r', []), s'') \<and>
     ir_body r' = ''hello''"
proof -
  have "length (ex_sha ''u'') = 32" by (simp add: ex_sha_def)
  from img_miss_then_hit [where sha = ex_sha and s = empty_cache and url = "''u''" and uo = img_urls and ul = id and hosts = img_hosts
      and host = "''i.pximg.net''" and tr' = "\<lambda>_. None" and nw' = ex_net and disk' = "\<lambda>_. None" and tr = "\<lambda>_. Some ex_answer"
      and nw = ex_net and p = ex_answer and now = 7 and now' = 9 and disp = "[]" and disp' = "[]",
      OF empty_cache_ready(1) this ex_img_check empty_cache_get]
  show ?thesis by (simp add: ex_answer_def ex_net_def empty_cache_ready(2)) blast
qed

text \<open>
  Safety, a defect. When the upstream connection breaks off, what came until then is committed as if
  it were the image: the error of the copy is dropped, and the length the upstream announced is not
  compared. Every later request gets the truncated image with status 200 from the cache.
\<close>

theorem truncated_image_is_cached:
  assumes "cache_ready s" and "length (sha url) = 32" and "img_check uo ul hosts url = Inr host"
    and "cache_get (\<lambda>_. False) now (cache_key sha url) s = (Inr None, s)"
    and "tr (img_request url) = Some p" and "hp_status p = 200"
    and "hp_broken p" and "int (length (hp_body p)) < hp_length p"
    and "concat (nw_chunk nw (hp_body p)) = hp_body p" and "nw_gone nw = None"
    and "hp_length p \<le> cc_max_file (cs_cfg s)"
  shows "\<exists>r s' r' s''.
     img_fetch sha uo ul hosts tr nw (\<lambda>_. False) (\<lambda>_. None) now url disp s = ((Img r, [img_request url]), s') \<and>
     img_fetch sha uo ul hosts tr' nw' (\<lambda>_. False) disk' now' url disp' s' = ((Img r', []), s'') \<and>
     ir_status r' = 200 \<and> ir_body r' = hp_body p \<and> int (length (ir_body r')) < hp_length p"
proof -
  have "int (length (hp_body p)) \<le> cc_max_file (cs_cfg s)" using assms(8,11) by simp
  from miss_then_hit [where tr = tr and nw = nw and sha = sha and tr' = tr' and nw' = nw' and disk' = disk' and now' = now' and disp = disp and disp' = disp',
      OF assms(1-6,9-11) this] assms(8)
  show ?thesis by fastforce
qed

theorem truncated_image_is_cached_witness:
  "\<exists>r s' r' s''.
     img_fetch ex_sha img_urls id img_hosts (\<lambda>_. Some (ex_answer\<lparr>hp_broken := True, hp_length := 8\<rparr>)) ex_net
       (\<lambda>_. False) (\<lambda>_. None) 7 ''u'' [] empty_cache = ((Img r, [img_request ''u'']), s') \<and>
     img_fetch ex_sha img_urls id img_hosts (\<lambda>_. None) ex_net (\<lambda>_. False) (\<lambda>_. None) 9 ''u'' [] s' = ((Img r', []), s'') \<and>
     ir_body r' = ''hello''"
proof -
  let ?p = "ex_answer\<lparr>hp_broken := True, hp_length := 8\<rparr>"
  have "length (ex_sha ''u'') = 32" by (simp add: ex_sha_def)
  from truncated_image_is_cached [where sha = ex_sha and s = empty_cache and url = "''u''" and uo = img_urls and ul = id and hosts = img_hosts
      and host = "''i.pximg.net''" and tr' = "\<lambda>_. None" and nw' = ex_net and disk' = "\<lambda>_. None" and tr = "\<lambda>_. Some ?p"
      and nw = ex_net and p = ?p and now = 7 and now' = 9 and disp = "[]" and disp' = "[]",
      OF empty_cache_ready(1) this ex_img_check empty_cache_get]
  show ?thesis by (simp add: ex_answer_def ex_net_def empty_cache_ready(2)) blast
qed

text \<open>
  Safety. Of the requests for one key at most one is fetching, in every reachable state, and no
  request waits for nothing: the flight it waits for has been closed, so that it can go on, or the
  request that leads it is there and can finish.
\<close>

theorem single_flight:
  assumes "flight_reach s"
  shows "(\<forall>key r r' f f'. fl_phase s r = Some (key, Leading f) \<and> fl_phase s r' = Some (key, Leading f') \<longrightarrow> r = r') \<and>
     (\<forall>key r f. fl_phase s r = Some (key, Waiting f) \<longrightarrow>
        flight_step s (set_phase r key Checking s) \<or>
        (\<exists>r'. fl_phase s r' = Some (key, Leading f) \<and> flight_step s (set_phase r' key Finished (leave_flight key f s))))"
proof -
  have inv: "flight_inv s" by (rule flight_reach_inv [OF assms])
  have "flight_step s (set_phase r key Checking s) \<or>
      (\<exists>r'. fl_phase s r' = Some (key, Leading f) \<and> flight_step s (set_phase r' key Finished (leave_flight key f s)))"
    if r: "fl_phase s r = Some (key, Waiting f)" for key r f
  proof (cases "List.member (fl_closed s) f")
    case True
    with r show ?thesis by (blast intro: flight_step.wake)
  next
    case False
    with inv r obtain r' where "fl_phase s r' = Some (key, Leading f)" unfolding flight_inv_def by metis
    then show ?thesis by (blast intro: flight_step.finish)
  qed
  with inv show ?thesis unfolding flight_inv_def by blast
qed

theorem single_flight_witness:
  "\<exists>s. flight_reach s \<and> fl_phase s 1 = Some (''k'', Leading 0) \<and> fl_phase s 2 = Some (''k'', Waiting 0) \<and>
     (\<exists>s'. flight_step s s')"
proof -
  let ?a = "set_phase 2 ''k'' Checking (set_phase 1 ''k'' Checking no_flights)"
  let ?b = "set_phase 1 ''k'' (Leading 0) (snd (enter_flight ''k'' ?a))"
  let ?c = "set_phase 2 ''k'' (Waiting 0) ?b"
  have "flight_reach (set_phase 1 ''k'' Checking no_flights)"
    by (rule flight_next [OF flight_start]) (rule flight_step.arrive, simp add: no_flights_def)
  then have "flight_reach ?a" by (rule flight_next) (rule flight_step.arrive, simp add: no_flights_def)
  then have "flight_reach ?b"
    by (rule flight_next) (rule flight_step.lead, auto simp: no_flights_def enter_flight_def)
  then have c: "flight_reach ?c"
    by (rule flight_next) (rule flight_step.follow, auto simp: no_flights_def enter_flight_def)
  moreover have "fl_phase ?c 1 = Some (''k'', Leading 0)" "fl_phase ?c 2 = Some (''k'', Waiting 0)" by simp_all
  ultimately show ?thesis using single_flight [OF c] by blast
qed

end
