(* ===== verification/Sources.thy ===== *)
theory Sources
  imports Http CacheFacts
begin

text \<open>
  \<^verbatim>\<open>internal/recover/sources\<close>: where the images of a deleted work can still be found. A source asks
  other servers for pages and puts every image it gets into the disk cache. All of them share the
  functions that send a request, probe a URL and fetch an image.
\<close>

section \<open>Constants and data (sources.go)\<close>

definition probe_every :: int where "probe_every = 1000000000"

definition source_slots :: int where "source_slots = 2"

definition min_image_bytes :: int where "min_image_bytes = 1024"

definition max_pages :: nat where "max_pages = 50"

definition source_ua :: string where "source_ua = ''PixivIOSApp/5.8.0''"

definition source_referer :: string where "source_referer = ''https://app-api.pixiv.net/''"

definition err_not_found :: go_error where "err_not_found = Internal ''sources: not found''"

record page =
  pg_page :: int
  pg_url :: string
  pg_width :: int
  pg_height :: int

record snapshot =
  sn_urls :: "string list"
  sn_width :: int
  sn_height :: int
  sn_meta :: "(string \<times> json) list"

text \<open>The parts of \<^verbatim>\<open>Deps\<close> that are numbers, in nanoseconds and slots.\<close>

record source_deps =
  sd_every :: int
  sd_slots :: int

record source_base =
  sb_every :: int
  sb_slots :: int
  sb_referer :: string

definition new_base :: "source_deps \<Rightarrow> string \<Rightarrow> source_base" where
  "new_base d ref =
     \<lparr>sb_every = (if sd_every d \<le> 0 then probe_every else sd_every d),
      sb_slots = (if sd_slots d \<le> 0 then source_slots else sd_slots d), sb_referer = ref\<rparr>"

text \<open>The two implementations of the interface \<^verbatim>\<open>Source\<close>; a mirror has a name and a host.\<close>

datatype source = SnapshotSource source_base | Mirror source_base string string

definition new_mirror :: "string \<Rightarrow> string \<Rightarrow> source_deps \<Rightarrow> source" where
  "new_mirror name host d = Mirror (new_base d []) name host"

definition new_snapshot :: "source_deps \<Rightarrow> source" where
  "new_snapshot d = SnapshotSource (new_base d source_referer)"

fun source_name :: "source \<Rightarrow> string" where
  "source_name (SnapshotSource b) = ''snapshot''"
| "source_name (Mirror b name host) = name"

fun mirror_host :: "source \<Rightarrow> string option" where
  "mirror_host (SnapshotSource b) = None"
| "mirror_host (Mirror b name host) = Some host"

text \<open>An entry of \<^verbatim>\<open>RECOVER_SOURCES\<close> is \<^verbatim>\<open>name\<close> or \<^verbatim>\<open>name=host\<close>; unknown names are skipped.\<close>

definition build_entry :: "(string \<Rightarrow> string) \<Rightarrow> source_deps \<Rightarrow> string \<Rightarrow> source option" where
  "build_entry ul d entry =
     (let (name, host) = (case str_cut CHR ''='' entry of None \<Rightarrow> (entry, []) | Some p \<Rightarrow> p);
          n = to_lower ul (trim_space name)
      in if n = ''snapshot'' then Some (new_snapshot d)
         else if n = ''pixiv_cat''
         then Some (new_mirror ''pixiv_cat'' (if host = [] then ''i.pixiv.cat'' else host) d)
         else if n = ''pixiv_re''
         then Some (new_mirror ''pixiv_re'' (if host = [] then ''i.pixiv.re'' else host) d)
         else None)"

definition build_sources ::
  "(string \<Rightarrow> string) \<Rightarrow> string list \<Rightarrow> source_deps \<Rightarrow> source list \<times> string list" where
  "build_sources ul names d =
     (let out = List.map_filter (build_entry ul d) names in (out, List.map_filter mirror_host out))"

section \<open>The world a source works in\<close>

text \<open>
  A source runs for minutes, so that the answers of the world change under it: its clock \<open>ft_clock\<close>
  counts the steps taken, and the world's functions depend on it. \<open>se_ready\<close>: the rate limiter and
  the slots let a request through before the context is cancelled. \<open>se_dims\<close> is
  \<^verbatim>\<open>image.DecodeConfig\<close>, \<open>se_chunk\<close> cuts a file into reads, \<open>se_tmp\<close> says which operation on the
  temporary file fails.
\<close>

datatype tmp_step = CreateRc | WriteRc | SeekRc bool

record source_env =
  se_ul :: "string \<Rightarrow> string"
  se_uo :: url_ops
  se_sha :: "string \<Rightarrow> string"
  se_dims :: "string \<Rightarrow> (int \<times> int) option"
  se_chunk :: "string \<Rightarrow> string list"
  se_ready :: "nat \<Rightarrow> bool"
  se_net :: "nat \<Rightarrow> transport"
  se_tmp :: "nat \<Rightarrow> tmp_step \<Rightarrow> bool"
  se_fail :: "nat \<Rightarrow> cache_step \<Rightarrow> bool"
  se_disk :: "nat \<Rightarrow> nat \<Rightarrow> nat option"
  se_now :: "nat \<Rightarrow> int"

text \<open>
  \<open>ft_asked\<close> are the requests handed to the client, \<open>ft_sent\<close> those that left the machine, the
  redirected ones included.
\<close>

record fetch_state =
  ft_cache :: cache_state
  ft_clock :: nat
  ft_asked :: "http_request list"
  ft_sent :: "http_request list"

definition tick :: "fetch_state \<Rightarrow> fetch_state" where
  "tick s = s\<lparr>ft_clock := Suc (ft_clock s)\<rparr>"

section \<open>Requests\<close>

definition source_request :: "source_base \<Rightarrow> string \<Rightarrow> string \<Rightarrow> string \<Rightarrow> http_request" where
  "source_request b meth url rng =
     (let h1 = (if sb_referer b \<noteq> [] then set_header ''Referer'' (sb_referer b) [] else []);
          h2 = set_header ''User-Agent'' source_ua h1;
          h3 = (if rng \<noteq> [] then set_header ''Range'' rng h2 else h2)
      in \<lparr>hq_method = meth, hq_url = url, hq_headers = h3, hq_body = []\<rparr>)"

definition source_do ::
  "source_env \<Rightarrow> source_base \<Rightarrow> string \<Rightarrow> string \<Rightarrow> string \<Rightarrow> fetch_state
     \<Rightarrow> (go_error + http_response) \<times> fetch_state" where
  "source_do env b meth url rng s =
     (if \<not> se_ready env (ft_clock s) then (Inl (Internal ''context deadline exceeded''), tick s)
      else if uo_parse (se_uo env) url = None then (Inl (Internal ''sources: build request''), tick s)
      else
        (case client_do (se_uo env) (se_net env (ft_clock s)) (source_request b meth url rng) of
           (r, qs) \<Rightarrow>
             (case r of None \<Rightarrow> Inl (Internal ''sources: request'') | Some p \<Rightarrow> Inr p,
              tick (s\<lparr>ft_asked := ft_asked s @ [source_request b meth url rng], ft_sent := ft_sent s @ qs\<rparr>))))"

definition is_image :: "source_env \<Rightarrow> http_response \<Rightarrow> bool" where
  "is_image env p \<longleftrightarrow> has_prefix (to_lower (se_ul env) (hdr_get ''Content-Type'' (hp_headers p))) ''image/''"

text \<open>\<^verbatim>\<open>probeAlive\<close>: a HEAD request, and a GET of one byte where HEAD is not supported.\<close>

definition looks_alive :: "source_env \<Rightarrow> http_response \<Rightarrow> bool" where
  "looks_alive env p \<longleftrightarrow> (hp_status p = 200 \<or> hp_status p = 206) \<and> is_image env p"

definition probe_alive ::
  "source_env \<Rightarrow> source_base \<Rightarrow> string \<Rightarrow> fetch_state \<Rightarrow> bool \<times> fetch_state" where
  "probe_alive env b url s =
     (case source_do env b ''HEAD'' url [] s of
        (Inl e, s1) \<Rightarrow> (False, s1)
      | (Inr p, s1) \<Rightarrow>
          if hp_status p = 405 \<or> hp_status p = 501 then
            (case source_do env b ''GET'' url ''bytes=0-0'' s1 of
               (Inl e, s2) \<Rightarrow> (False, s2)
             | (Inr p2, s2) \<Rightarrow> (looks_alive env p2, s2))
          else (looks_alive env p, s1))"

section \<open>Fetching an image\<close>

text \<open>\<^verbatim>\<open>decodeDims\<close>, with the zeros its callers use when decoding fails.\<close>

definition decode_dims :: "source_env \<Rightarrow> string \<Rightarrow> int \<times> int" where
  "decode_dims env body = (case se_dims env body of None \<Rightarrow> (0, 0) | Some d \<Rightarrow> d)"

text \<open>What follows a response: the checks, the temporary file and the cache.\<close>

definition store_image ::
  "source_env \<Rightarrow> string \<Rightarrow> http_response \<Rightarrow> fetch_state \<Rightarrow> (go_error + int \<times> int) \<times> fetch_state" where
  "store_image env key p s =
     (let t = ft_clock s; max_file = cc_max_file (live_config (ft_cache s))
      in if hp_status p = 404 then (Inl err_not_found, s)
         else if hp_status p \<noteq> 200 then (Inl (Internal (''sources: upstream status '' @ nat_str (hp_status p))), s)
         else if \<not> is_image env p then (Inl err_not_found, s)
         else if se_tmp env t CreateRc then (Inl (Internal ''sources: create temp''), s)
         else if se_tmp env t WriteRc then (Inl (Internal ''sources: download''), s)
         else
           (case read_limited (nat (wrap64 (max_file + 1))) p of
              None \<Rightarrow> (Inl (Internal ''sources: download''), s)
            | Some raw \<Rightarrow>
                if int (length raw) > max_file \<or> int (length raw) \<le> min_image_bytes then (Inl err_not_found, s)
                else if se_tmp env t (SeekRc False) \<or> se_tmp env t (SeekRc True)
                then (Inl (Internal ''sources: rewind temp''), s)
                else
                  (case cache_put (se_fail env t) (se_disk env t) (se_now env t) key
                          (hdr_get ''Content-Type'' (hp_headers p)) (se_chunk env raw) (ft_cache s) of
                     (Inl e, c) \<Rightarrow> (Inl (Internal ''sources: cache put''), tick (s\<lparr>ft_cache := c\<rparr>))
                   | (Inr stored, c) \<Rightarrow> (Inr (decode_dims env raw), tick (s\<lparr>ft_cache := c\<rparr>)))))"

definition download_image ::
  "source_env \<Rightarrow> source_base \<Rightarrow> string \<Rightarrow> string \<Rightarrow> fetch_state \<Rightarrow> (go_error + int \<times> int) \<times> fetch_state" where
  "download_image env b key url s =
     (case source_do env b ''GET'' url [] s of
        (Inl e, s1) \<Rightarrow> (Inl e, s1)
      | (Inr p, s1) \<Rightarrow> store_image env key p s1)"

definition fetch_image ::
  "source_env \<Rightarrow> source_base \<Rightarrow> string \<Rightarrow> fetch_state \<Rightarrow> (go_error + int \<times> int) \<times> fetch_state" where
  "fetch_image env b url s =
     (let key = cache_key (se_sha env) url; t = ft_clock s
      in case cache_get (se_fail env t) (se_now env t) key (ft_cache s) of
           (Inr (Some (body, m)), c) \<Rightarrow> (Inr (decode_dims env body), tick (s\<lparr>ft_cache := c\<rparr>))
         | (_, c) \<Rightarrow>
             download_image env b key url (tick (s\<lparr>ft_cache := c\<rparr>)))"

section \<open>The mirror (mirror.go)\<close>

definition mirror_base :: "string \<Rightarrow> string \<Rightarrow> string" where
  "mirror_base host pid = ''https://'' @ host @ ''/'' @ pid"

definition mirror_url :: "string \<Rightarrow> string \<Rightarrow> nat \<Rightarrow> string" where
  "mirror_url host pid n =
     (if n = 0 then mirror_base host pid @ ''.jpg''
      else mirror_base host pid @ ''_p'' @ nat_str n @ ''.jpg'')"

text \<open>The loop over the further pages; \<open>miss\<close> counts the pages not found in a row.\<close>

function mirror_pages ::
  "source_env \<Rightarrow> source_base \<Rightarrow> string \<Rightarrow> string \<Rightarrow> nat \<Rightarrow> nat \<Rightarrow> page list \<Rightarrow> fetch_state
     \<Rightarrow> (go_error + page list) \<times> fetch_state" where
  "mirror_pages env b host pid n miss pages s =
     (if n < max_pages \<and> miss < 2 then
        (case fetch_image env b (mirror_url host pid n) s of
           (Inr (w, h), s1) \<Rightarrow>
             mirror_pages env b host pid (Suc n) 0
               (pages @ [\<lparr>pg_page = int n, pg_url = mirror_url host pid n, pg_width = w, pg_height = h\<rparr>]) s1
         | (Inl e, s1) \<Rightarrow>
             if e = err_not_found then mirror_pages env b host pid (Suc n) (Suc miss) pages s1
             else (Inl e, s1))
      else (Inr pages, s))"
  by pat_completeness auto
termination by (relation "measure (\<lambda>(env, b, host, pid, n, miss, pages, s). max_pages - n)") auto

declare mirror_pages.simps [simp del]

definition mirror_fetch ::
  "source_env \<Rightarrow> source_base \<Rightarrow> string \<Rightarrow> string \<Rightarrow> fetch_state \<Rightarrow> (go_error + page list) \<times> fetch_state" where
  "mirror_fetch env b host pid s =
     (case fetch_image env b (mirror_url host pid 0) s of
        (Inl e, s1) \<Rightarrow> (Inl e, s1)
      | (Inr (w, h), s1) \<Rightarrow>
          mirror_pages env b host pid 1 0
            [\<lparr>pg_page = 0, pg_url = mirror_url host pid 0, pg_width = w, pg_height = h\<rparr>] s1)"

section \<open>The snapshot (snapshot.go)\<close>

fun snapshot_pages ::
  "source_env \<Rightarrow> source_base \<Rightarrow> snapshot \<Rightarrow> nat \<Rightarrow> string list \<Rightarrow> fetch_state \<Rightarrow> page list \<times> fetch_state" where
  "snapshot_pages env b snap i [] s = ([], s)"
| "snapshot_pages env b snap i (u # us) s =
     (case probe_alive env b u s of
        (False, s1) \<Rightarrow> snapshot_pages env b snap (Suc i) us s1
      | (True, s1) \<Rightarrow>
          (case fetch_image env b u s1 of
             (Inl e, s2) \<Rightarrow> snapshot_pages env b snap (Suc i) us s2
           | (Inr (w, h), s2) \<Rightarrow>
               (case snapshot_pages env b snap (Suc i) us s2 of
                  (ps, s3) \<Rightarrow>
                    (\<lparr>pg_page = int i, pg_url = u, pg_width = (if w = 0 then sn_width snap else w),
                      pg_height = (if h = 0 then sn_height snap else h)\<rparr> # ps, s3))))"

definition snapshot_fetch ::
  "source_env \<Rightarrow> source_base \<Rightarrow> snapshot option \<Rightarrow> fetch_state \<Rightarrow> (go_error + page list) \<times> fetch_state" where
  "snapshot_fetch env b snap s =
     (case snap of
        None \<Rightarrow> (Inl err_not_found, s)
      | Some sn \<Rightarrow>
          if sn_urls sn = [] then (Inl err_not_found, s)
          else (case snapshot_pages env b sn 0 (sn_urls sn) s of
                  (pages, s1) \<Rightarrow> (if pages = [] then Inl err_not_found else Inr pages, s1)))"

text \<open>The method \<^verbatim>\<open>Fetch\<close> of the interface.\<close>

fun source_fetch ::
  "source_env \<Rightarrow> source \<Rightarrow> string \<Rightarrow> snapshot option \<Rightarrow> fetch_state \<Rightarrow> (go_error + page list) \<times> fetch_state" where
  "source_fetch env (SnapshotSource b) pid snap s = snapshot_fetch env b snap s"
| "source_fetch env (Mirror b name host) pid snap s = mirror_fetch env b host pid s"

end
