(* ===== verification/SourcesFacts.thy ===== *)
theory SourcesFacts
  imports Sources
begin

text \<open>
  What a source does to the log of its requests and to the cache: a fetch asks for one URL at most, and
  leaves the image it reports in the cache, where later fetches do not disturb it.
\<close>

section \<open>Requests\<close>

lemma tick_simps [simp]:
  "ft_cache (tick s) = ft_cache s" "ft_asked (tick s) = ft_asked s" "ft_sent (tick s) = ft_sent s"
  "ft_clock (tick s) = Suc (ft_clock s)"
  by (simp_all add: tick_def)

lemma source_do_cache [simp]: "ft_cache (snd (source_do env b m u r s)) = ft_cache s"
  by (simp add: source_do_def split: prod.split)

lemma source_do_asked:
  "ft_asked (snd (source_do env b m u r s)) = ft_asked s @
     (if se_ready env (ft_clock s) \<and> uo_parse (se_uo env) u \<noteq> None then [source_request b m u r] else [])"
  by (simp add: source_do_def split: prod.split)

lemma store_image_asked [simp]: "ft_asked (snd (store_image env key p s)) = ft_asked s"
  by (simp add: store_image_def Let_def split: option.split sum.split prod.split)

text \<open>A fetch asks for its URL, or not at all when the image is in the cache already.\<close>

lemma download_asked:
  "ft_asked (snd (download_image env b key u s)) = ft_asked s \<or>
   ft_asked (snd (download_image env b key u s)) = ft_asked s @ [source_request b ''GET'' u []]"
proof -
  obtain r s1 where d: "source_do env b ''GET'' u [] s = (r, s1)" by (cases "source_do env b ''GET'' u [] s")
  have "ft_asked s1 = ft_asked s \<or> ft_asked s1 = ft_asked s @ [source_request b ''GET'' u []]"
    using source_do_asked [of env b "''GET''" u "[]" s] d by (auto split: if_splits)
  with d show ?thesis by (cases r) (simp_all add: download_image_def)
qed

lemma fetch_image_cases:
  obtains (hit) body m c where "cache_get (se_fail env (ft_clock s)) (se_now env (ft_clock s)) (cache_key (se_sha env) u) (ft_cache s)
        = (Inr (Some (body, m)), c)"
      and "fetch_image env b u s = (Inr (decode_dims env body), tick (s\<lparr>ft_cache := c\<rparr>))"
  | (miss) r c where "cache_get (se_fail env (ft_clock s)) (se_now env (ft_clock s)) (cache_key (se_sha env) u) (ft_cache s) = (r, c)"
      and "fetch_image env b u s = download_image env b (cache_key (se_sha env) u) u (tick (s\<lparr>ft_cache := c\<rparr>))"
proof (cases "cache_get (se_fail env (ft_clock s)) (se_now env (ft_clock s)) (cache_key (se_sha env) u) (ft_cache s)")
  case (Pair r c)
  show thesis
  proof (cases "\<exists>body m. r = Inr (Some (body, m))")
    case True
    with Pair that(1) show thesis by (auto simp: fetch_image_def)
  next
    case False
    have "fetch_image env b u s = download_image env b (cache_key (se_sha env) u) u (tick (s\<lparr>ft_cache := c\<rparr>))"
      using Pair False by (cases r) (auto simp: fetch_image_def Let_def split: option.split)
    with Pair that(2) show thesis by blast
  qed
qed

lemma fetch_image_asked:
  "\<exists>qs. ft_asked (snd (fetch_image env b u s)) = ft_asked s @ qs \<and> (qs = [] \<or> qs = [source_request b ''GET'' u []])"
proof (rule fetch_image_cases [of env s u b])
  fix body m c
  assume "fetch_image env b u s = (Inr (decode_dims env body), tick (s\<lparr>ft_cache := c\<rparr>))"
  then show ?thesis by simp
next
  fix r c
  assume f: "fetch_image env b u s = download_image env b (cache_key (se_sha env) u) u (tick (s\<lparr>ft_cache := c\<rparr>))"
  show ?thesis
    using download_asked [of env b "cache_key (se_sha env) u" u "tick (s\<lparr>ft_cache := c\<rparr>)"] by (auto simp: f)
qed

section \<open>The pages of a mirror\<close>

text \<open>
  \<open>page_of\<close>: the page is number \<open>n\<close> of the work. \<open>pages_ok\<close>: the first is page 0, each comes after the
  one before it with at most one number left out, and all are among the first fifty.
\<close>

definition page_of :: "string \<Rightarrow> string \<Rightarrow> page \<Rightarrow> bool" where
  "page_of host pid p \<longleftrightarrow>
     0 \<le> pg_page p \<and> pg_page p < int max_pages \<and> pg_url p = mirror_url host pid (nat (pg_page p))"

definition next_page :: "page \<Rightarrow> page \<Rightarrow> bool" where
  "next_page p q \<longleftrightarrow> pg_page p < pg_page q \<and> pg_page q \<le> pg_page p + 2"

definition pages_ok :: "string \<Rightarrow> string \<Rightarrow> page list \<Rightarrow> bool" where
  "pages_ok host pid ps \<longleftrightarrow>
     ps \<noteq> [] \<and> pg_page (hd ps) = 0 \<and> successively next_page ps \<and> list_all (page_of host pid) ps"

lemma pages_ok_snoc:
  assumes "pages_ok host pid ps" and "next_page (last ps) p" and "page_of host pid p"
  shows "pages_ok host pid (ps @ [p])"
  using assms by (auto simp: pages_ok_def successively_append_iff)

lemma mirror_pages_ok:
  assumes "mirror_pages env b host pid n miss ps s = (Inr ps', s')" and "pages_ok host pid ps"
    and "int n = pg_page (last ps) + 1 + int miss" and "miss \<le> 2"
  shows "pages_ok host pid ps'"
  using assms
proof (induction env b host pid n miss ps s arbitrary: ps' s' rule: mirror_pages.induct)
  case (1 env b host pid n miss ps s)
  show ?case
  proof (cases "n < max_pages \<and> miss < 2")
    case False
    with "1.prems" show ?thesis by (subst (asm) mirror_pages.simps) auto
  next
    case more: True
    obtain r s1 where f: "fetch_image env b (mirror_url host pid n) s = (r, s1)" by (cases "fetch_image env b (mirror_url host pid n) s")
    show ?thesis
    proof (cases r)
      case (Inl e)
      with "1.prems"(1) f more have e: "e = err_not_found"
        and rest: "mirror_pages env b host pid (Suc n) (Suc miss) ps s1 = (Inr ps', s')"
        by (subst (asm) mirror_pages.simps, simp split: if_splits)+
      show ?thesis
        by (rule "1.IH"(1) [OF more f [symmetric] Inl e rest]) (use "1.prems" more in simp_all)
    next
      case (Inr d)
      obtain w h where d: "d = (w, h)" by (cases d)
      let ?p = "\<lparr>pg_page = int n, pg_url = mirror_url host pid n, pg_width = w, pg_height = h\<rparr>"
      have rest: "mirror_pages env b host pid (Suc n) 0 (ps @ [?p]) s1 = (Inr ps', s')"
        using "1.prems"(1) f more Inr d by (subst (asm) mirror_pages.simps) simp
      have "pages_ok host pid (ps @ [?p])"
        by (rule pages_ok_snoc [OF "1.prems"(2)]) (use "1.prems"(3) more in \<open>simp_all add: next_page_def page_of_def\<close>,
            metis "1.prems"(3) nat_int)
      then show ?thesis
        by (intro "1.IH"(2) [OF more f [symmetric] Inr d [symmetric] rest]) simp_all
    qed
  qed
qed

lemma mirror_pages_asked:
  "\<exists>qs. ft_asked (snd (mirror_pages env b host pid n miss ps s)) = ft_asked s @ qs \<and> length qs \<le> max_pages - n \<and>
     (\<forall>q \<in> set qs. \<exists>k < max_pages. q = source_request b ''GET'' (mirror_url host pid k) [])"
proof (induction env b host pid n miss ps s rule: mirror_pages.induct)
  case (1 env b host pid n miss ps s)
  show ?case
  proof (cases "n < max_pages \<and> miss < 2")
    case False
    then show ?thesis by (subst mirror_pages.simps) auto
  next
    case more: True
    obtain r s1 where f: "fetch_image env b (mirror_url host pid n) s = (r, s1)" by (cases "fetch_image env b (mirror_url host pid n) s")
    obtain q1 where q1: "ft_asked s1 = ft_asked s @ q1" "q1 = [] \<or> q1 = [source_request b ''GET'' (mirror_url host pid n) []]"
      using fetch_image_asked [of env b "mirror_url host pid n" s] f by auto
    have add: "\<exists>qs. ft_asked s2 = ft_asked s @ qs \<and> length qs \<le> max_pages - n \<and>
        (\<forall>q \<in> set qs. \<exists>k < max_pages. q = source_request b ''GET'' (mirror_url host pid k) [])"
      if "\<exists>qs. ft_asked s2 = ft_asked s1 @ qs \<and> length qs \<le> max_pages - Suc n \<and>
        (\<forall>q \<in> set qs. \<exists>k < max_pages. q = source_request b ''GET'' (mirror_url host pid k) [])" for s2
    proof -
      from that obtain qs where "ft_asked s2 = ft_asked s1 @ qs" "length qs \<le> max_pages - Suc n"
        "\<forall>q \<in> set qs. \<exists>k < max_pages. q = source_request b ''GET'' (mirror_url host pid k) []" by blast
      with q1 more show ?thesis by (intro exI [of _ "q1 @ qs"]) auto
    qed
    show ?thesis
    proof (cases r)
      case (Inl e)
      show ?thesis
      proof (cases "e = err_not_found")
        case True
        with "1.IH"(1) [OF more f [symmetric] Inl True] f more Inl show ?thesis
          by (subst mirror_pages.simps) (simp add: add)
      next
        case False
        with f more Inl q1 show ?thesis by (subst mirror_pages.simps) auto
      qed
    next
      case (Inr d)
      obtain w h where d: "d = (w, h)" by (cases d)
      from "1.IH"(2) [OF more f [symmetric] Inr d [symmetric]] f more Inr d show ?thesis
        by (subst mirror_pages.simps) (simp add: add)
    qed
  qed
qed

section \<open>The cache\<close>

text \<open>A world in which neither the disk nor a statement fails, and a file is read as it was written.\<close>

definition disk_works :: "source_env \<Rightarrow> bool" where
  "disk_works env \<longleftrightarrow> (\<forall>t st. \<not> se_fail env t st) \<and> (\<forall>t i. se_disk env t i = None) \<and>
     (\<forall>body. concat (se_chunk env body) = body)"

definition has_image :: "source_env \<Rightarrow> fetch_state \<Rightarrow> string \<Rightarrow> bool" where
  "has_image env s u \<longleftrightarrow> cache_lookup (ft_cache s) (cache_key (se_sha env) u) \<noteq> None"

definition sha_ok :: "source_env \<Rightarrow> bool" where
  "sha_ok env \<longleftrightarrow> (\<forall>u. length (se_sha env u) = 32)"

lemma disk_worksD:
  assumes "disk_works env"
  shows "se_fail env t = (\<lambda>_. False)" and "se_disk env t = (\<lambda>_. None)" and "concat (se_chunk env body) = body"
  using assms by (auto simp: disk_works_def)

lemma cache_get_lookup:
  assumes "cache_get (\<lambda>_. False) now key s = (r, s')"
  shows "cs_cfg s' = cs_cfg s \<and> (\<forall>k. cache_lookup s k \<noteq> None \<longrightarrow> cache_lookup s' k \<noteq> None) \<and>
     (r = Inr (Some d) \<longrightarrow> cache_lookup s' key \<noteq> None) \<and>
     (\<forall>k x. cache_lookup s' k = Some x \<longrightarrow> cache_lookup s k = Some x)"
proof -
  have touch: "tbl_find cm_key k (touch_row key now ms) =
      map_option (\<lambda>m. if cm_key m = key then m\<lparr>cm_atime := now\<rparr> else m) (tbl_find cm_key k ms)" for k ms
    unfolding touch_row_def tbl_find_def by (subst find_map_same) simp_all
  then have touched: "tbl_find cm_key k (touch_row key now ms) \<noteq> None \<longleftrightarrow> tbl_find cm_key k ms \<noteq> None" for k ms by simp
  have gone: "tbl_find cm_key key (drop_row key ms) = None" for ms
    by (auto simp: drop_row_def tbl_delete_def tbl_find_None_iff)
  have dropped: "tbl_find cm_key k (drop_row key ms) = tbl_find cm_key k ms" if "k \<noteq> key" for k ms
    using that unfolding drop_row_def by (intro tbl_find_delete_other) auto
  show ?thesis
  proof (cases "tbl_find cm_key key (cs_meta s)")
    case None
    with assms show ?thesis by (auto simp: cache_get_def get_row_def)
  next
    case (Some m)
    show ?thesis
    proof (cases "cs_files s (path_for (cs_cfg s) key)")
      case None
      have "cache_lookup s' k \<noteq> None" if "cache_lookup s k \<noteq> None" for k
        using that assms Some None dropped [of k]
        by (cases "k = key") (auto simp: cache_get_def get_row_def get_file_def cache_lookup_def split: option.splits)
      moreover have "cache_lookup s k = Some x" if "cache_lookup s' k = Some x" for k x
        using that assms Some None dropped [of k] gone
        by (cases "k = key") (auto simp: cache_get_def get_row_def get_file_def cache_lookup_def split: option.splits)
      ultimately show ?thesis using assms Some None by (auto simp: cache_get_def get_row_def get_file_def)
    next
      case (Some body)
      have "cache_lookup s' k \<noteq> None" if "cache_lookup s k \<noteq> None" for k
        using that assms Some \<open>tbl_find cm_key key (cs_meta s) = Some m\<close> touched [of k "cs_meta s"]
        by (auto simp: cache_get_def get_row_def get_file_def cache_lookup_def split: option.splits)
      moreover have "cache_lookup s k = Some x" if "cache_lookup s' k = Some x" for k x
        using that assms Some \<open>tbl_find cm_key key (cs_meta s) = Some m\<close> touch [of k "cs_meta s"]
        by (auto simp: cache_get_def get_row_def get_file_def cache_lookup_def split: option.splits if_splits)
      ultimately show ?thesis using assms Some \<open>tbl_find cm_key key (cs_meta s) = Some m\<close>
        by (auto simp: cache_get_def get_row_def get_file_def cache_lookup_def)
    qed
  qed
qed

text \<open>The answer \<open>q\<close> of the network to a request of a source for a URL with the cache key \<open>k\<close>, and a whole image that came so.\<close>

definition answered_for :: "source_env \<Rightarrow> string \<Rightarrow> http_response \<Rightarrow> bool" where
  "answered_for env k q \<longleftrightarrow>
     (\<exists>b u t qs. cache_key (se_sha env) u = k \<and> client_do (se_uo env) (se_net env t) (source_request b ''GET'' u []) = (Some q, qs))"

definition downloaded :: "source_env \<Rightarrow> string \<Rightarrow> string \<Rightarrow> bool" where
  "downloaded env k body \<longleftrightarrow>
     (\<exists>q. answered_for env k q \<and> hp_status q = 200 \<and> is_image env q \<and> \<not> hp_broken q \<and> hp_body q = body)"

text \<open>
  What has an image keeps one, and each image that is there was there before or has been downloaded; the configuration
  of the cache stays: the relation of a fetch.
\<close>

definition keeps_images :: "source_env \<Rightarrow> fetch_state \<Rightarrow> fetch_state \<Rightarrow> bool" where
  "keeps_images env s s' \<longleftrightarrow> cs_cfg (ft_cache s') = cs_cfg (ft_cache s) \<and>
     (\<forall>k. is_key k \<longrightarrow> cache_lookup (ft_cache s) k \<noteq> None \<longrightarrow> cache_lookup (ft_cache s') k \<noteq> None) \<and>
     (\<forall>k body ct. is_key k \<longrightarrow> is_int64 (cc_max_file (cs_cfg (ft_cache s))) \<longrightarrow>
        cache_lookup (ft_cache s') k = Some (body, ct) \<longrightarrow> cache_lookup (ft_cache s) k = Some (body, ct) \<or> downloaded env k body)"

lemma keeps_images_refl [simp]: "keeps_images env s s"
  by (simp add: keeps_images_def)

lemma keeps_images_trans: "keeps_images env s s1 \<Longrightarrow> keeps_images env s1 s2 \<Longrightarrow> keeps_images env s s2"
  unfolding keeps_images_def by (metis (no_types))

lemma keeps_images_ready: "keeps_images env s s' \<Longrightarrow> cache_ready (ft_cache s) \<Longrightarrow> cache_ready (ft_cache s')"
  by (simp add: keeps_images_def cache_ready_def)

lemma keeps_images_same: "ft_cache s' = ft_cache s \<Longrightarrow> keeps_images env s s'"
  by (simp add: keeps_images_def)

lemma has_image_keep: "sha_ok env \<Longrightarrow> keeps_images env s s' \<Longrightarrow> has_image env s u \<Longrightarrow> has_image env s' u"
  by (simp add: keeps_images_def has_image_def sha_ok_def cache_key_ok)

text \<open>A limit of 64 bits lets \<^verbatim>\<open>LimitReader\<close> read a whole body or one byte too many.\<close>

lemma read_whole:
  assumes "read_limited (nat (wrap64 (mx + 1))) q = Some raw" and "int (length raw) \<le> mx" and "min_image_bytes < int (length raw)"
    and "is_int64 mx"
  shows "raw = hp_body q \<and> \<not> hp_broken q"
proof -
  have "mx + 1 \<le> max64"
  proof (rule ccontr)
    assume "\<not> ?thesis"
    then have "mx = max64" using assms(4) by (simp add: is_int64_def)
    then have "nat (wrap64 (mx + 1)) = 0" by (simp add: wrap64_def max64_def)
    with assms(1,3) show False by (auto simp: read_limited_def min_image_bytes_def split: if_splits)
  qed
  moreover have "0 \<le> mx" using assms(2) by linarith
  ultimately have "wrap64 (mx + 1) = mx + 1" using assms(4) by (intro wrap64_id) (simp add: is_int64_def)
  moreover from this assms(2) \<open>0 \<le> mx\<close> have "length raw < nat (wrap64 (mx + 1))" by linarith
  ultimately show ?thesis using assms(1) by (auto simp: read_limited_def split: if_splits)
qed

lemma store_image_effect:
  assumes "store_image env k p s = (r, s')" and "disk_works env" and "cache_ready (ft_cache s)" and "is_key k" and "answered_for env k p"
  shows "keeps_images env s s' \<and> (is_ok r \<longrightarrow> cache_lookup (ft_cache s') k \<noteq> None)"
proof -
  note dw = disk_worksD [OF assms(2)]
  let ?max = "cc_max_file (cs_cfg (ft_cache s))" and ?ct = "hdr_get ''Content-Type'' (hp_headers p)"
  consider (other) e where "r = Inl e" "s' = s"
    | (put) raw res c where "int (length raw) \<le> ?max" "read_limited (nat (wrap64 (?max + 1))) p = Some raw"
        "min_image_bytes < int (length raw)" "hp_status p = 200" "is_image env p"
        "cache_put (\<lambda>_. False) (\<lambda>_. None) (se_now env (ft_clock s)) k ?ct (se_chunk env raw) (ft_cache s) = (res, c)"
        "ft_cache s' = c" "is_ok r = is_ok res"
    using assms(1) dw(1,2) [of "ft_clock s"]
    by (auto simp: store_image_def Let_def live_config_def not_less not_le split: if_splits option.splits prod.splits sum.splits)
  then show ?thesis
  proof cases
    case other
    then show ?thesis by simp
  next
    case put
    from put(1) cache_put_fits [of "se_chunk env raw" "ft_cache s" "se_now env (ft_clock s)" k ?ct] put(6) dw(3)
    have res: "res = Inr True" by auto
    have look: "cache_lookup c k' = (if k' = k then Some (raw, ?ct) else cache_lookup (ft_cache s) k')" if "is_key k'" for k'
      using disk.put_effect [OF assms(3,4) that, of "(\<lambda>_. False, \<lambda>_. None, se_now env (ft_clock s))" ?ct "se_chunk env raw" True c]
        put(6) res dw(3) by (simp add: env_put_def)
    have cfg: "cs_cfg c = cs_cfg (ft_cache s)" using put(6) by (auto simp: cache_put_def dest: commit_cfg split: sum.splits)
    have "downloaded env k raw" if "is_int64 ?max"
      using read_whole [OF put(2,1,3) that] assms(5) put(4,5) by (auto simp: downloaded_def)
    with look cfg put(7) assms(4) show ?thesis by (auto simp: keeps_images_def)
  qed
qed

lemma source_do_answered:
  "source_do env b ''GET'' u [] s = (Inr p, s') \<Longrightarrow> answered_for env (cache_key (se_sha env) u) p"
  by (auto simp: source_do_def answered_for_def split: if_splits prod.splits option.splits)

lemma fetch_image_effect:
  assumes "fetch_image env b u s = (r, s')" and "disk_works env" and "sha_ok env" and "cache_ready (ft_cache s)"
  shows "keeps_images env s s' \<and> (is_ok r \<longrightarrow> has_image env s' u)"
proof -
  let ?k = "cache_key (se_sha env) u"
  have key: "is_key ?k" using assms(3) by (simp add: sha_ok_def cache_key_ok)
  note dw = disk_worksD [OF assms(2)]
  show ?thesis
  proof (rule fetch_image_cases [of env s u b])
    fix body m c
    assume get: "cache_get (se_fail env (ft_clock s)) (se_now env (ft_clock s)) ?k (ft_cache s) = (Inr (Some (body, m)), c)"
      and f: "fetch_image env b u s = (Inr (decode_dims env body), tick (s\<lparr>ft_cache := c\<rparr>))"
    from cache_get_lookup [OF get [unfolded dw(1)], of "(body, m)"] f assms(1) show ?thesis
      by (auto simp: keeps_images_def has_image_def)
  next
    fix g c
    assume get: "cache_get (se_fail env (ft_clock s)) (se_now env (ft_clock s)) ?k (ft_cache s) = (g, c)"
      and f: "fetch_image env b u s = download_image env b ?k u (tick (s\<lparr>ft_cache := c\<rparr>))"
    let ?s1 = "tick (s\<lparr>ft_cache := c\<rparr>)"
    have k1: "keeps_images env s ?s1"
      using cache_get_lookup [OF get [unfolded dw(1)]] by (simp add: keeps_images_def)
    obtain d s2 where d: "source_do env b ''GET'' u [] ?s1 = (d, s2)" by (cases "source_do env b ''GET'' u [] ?s1")
    have k2: "keeps_images env ?s1 s2"
      using source_do_cache [of env b "''GET''" u "[]" ?s1] d by (intro keeps_images_same) simp
    note k12 = keeps_images_trans [OF k1 k2]
    show ?thesis
    proof (cases d)
      case (Inl e)
      with d f assms(1) k12 show ?thesis by (auto simp: download_image_def)
    next
      case (Inr p)
      with d f assms(1) have "store_image env ?k p s2 = (r, s')" by (simp add: download_image_def)
      from store_image_effect [OF this assms(2) keeps_images_ready [OF k12 assms(4)] key source_do_answered [OF d [unfolded Inr]]] k12
      show ?thesis
        by (auto simp: has_image_def intro: keeps_images_trans)
    qed
  qed
qed

section \<open>A whole source\<close>

lemma mirror_pages_effect:
  assumes "mirror_pages env b host pid n miss ps s = (r, s')" and "disk_works env" and "sha_ok env"
    and "cache_ready (ft_cache s)" and "\<forall>p \<in> set ps. has_image env s (pg_url p)"
  shows "keeps_images env s s' \<and> (\<forall>ps'. r = Inr ps' \<longrightarrow> (\<forall>p \<in> set ps'. has_image env s' (pg_url p)))"
  using assms
proof (induction env b host pid n miss ps s arbitrary: r s' rule: mirror_pages.induct)
  case (1 env b host pid n miss ps s)
  show ?case
  proof (cases "n < max_pages \<and> miss < 2")
    case False
    with "1.prems" show ?thesis by (subst (asm) mirror_pages.simps) auto
  next
    case more: True
    obtain d s1 where f: "fetch_image env b (mirror_url host pid n) s = (d, s1)" by (cases "fetch_image env b (mirror_url host pid n) s")
    note eff = fetch_image_effect [OF f "1.prems"(2-4)]
    have k1: "keeps_images env s s1" using eff by blast
    note ready = keeps_images_ready [OF k1 "1.prems"(4)]
    have kept: "\<forall>p \<in> set ps. has_image env s1 (pg_url p)"
      using "1.prems"(3,5) has_image_keep [OF _ k1] by blast
    show ?thesis
    proof (cases d)
      case (Inl e)
      show ?thesis
      proof (cases "e = err_not_found")
        case True
        with "1.prems"(1) f more Inl have "mirror_pages env b host pid (Suc n) (Suc miss) ps s1 = (r, s')"
          by (subst (asm) mirror_pages.simps) simp
        from "1.IH"(1) [OF more f [symmetric] Inl True this "1.prems"(2,3) ready kept] k1 show ?thesis
          by (blast intro: keeps_images_trans)
      next
        case False
        with "1.prems"(1) f more Inl k1 show ?thesis by (subst (asm) mirror_pages.simps) auto
      qed
    next
      case (Inr wh)
      obtain w h where wh: "wh = (w, h)" by (cases wh)
      let ?p = "\<lparr>pg_page = int n, pg_url = mirror_url host pid n, pg_width = w, pg_height = h\<rparr>"
      have rest: "mirror_pages env b host pid (Suc n) 0 (ps @ [?p]) s1 = (r, s')"
        using "1.prems"(1) f more Inr wh by (subst (asm) mirror_pages.simps) simp
      have "\<forall>p \<in> set (ps @ [?p]). has_image env s1 (pg_url p)" using kept eff Inr by simp
      from "1.IH"(2) [OF more f [symmetric] Inr wh [symmetric] rest "1.prems"(2,3) ready this] k1 show ?thesis
        by (blast intro: keeps_images_trans)
    qed
  qed
qed

lemma probe_alive_cache [simp]: "ft_cache (snd (probe_alive env b u s)) = ft_cache s"
proof -
  obtain r s1 where d: "source_do env b ''HEAD'' u [] s = (r, s1)" by (cases "source_do env b ''HEAD'' u [] s")
  obtain g s2 where g: "source_do env b ''GET'' u ''bytes=0-0'' s1 = (g, s2)" by (cases "source_do env b ''GET'' u ''bytes=0-0'' s1")
  have "ft_cache s1 = ft_cache s" using source_do_cache [of env b "''HEAD''" u "[]" s] d by simp
  moreover have "ft_cache s2 = ft_cache s1" using source_do_cache [of env b "''GET''" u "''bytes=0-0''" s1] g by simp
  ultimately show ?thesis using d g by (cases r; cases g) (auto simp: probe_alive_def)
qed

text \<open>The probe of a URL starts with a HEAD request for it, whatever the host.\<close>

lemma probe_alive_asked:
  "\<exists>qs. ft_asked (snd (probe_alive env b u s)) = ft_asked s @ qs \<and>
     (se_ready env (ft_clock s) \<and> uo_parse (se_uo env) u \<noteq> None \<longrightarrow> source_request b ''HEAD'' u [] \<in> set qs)"
proof -
  obtain r s1 where d: "source_do env b ''HEAD'' u [] s = (r, s1)" by (cases "source_do env b ''HEAD'' u [] s")
  obtain g s2 where g: "source_do env b ''GET'' u ''bytes=0-0'' s1 = (g, s2)" by (cases "source_do env b ''GET'' u ''bytes=0-0'' s1")
  have "ft_asked s1 = ft_asked s @ (if se_ready env (ft_clock s) \<and> uo_parse (se_uo env) u \<noteq> None
      then [source_request b ''HEAD'' u []] else [])"
    using source_do_asked [of env b "''HEAD''" u "[]" s] d by simp
  moreover have "\<exists>qs. ft_asked s2 = ft_asked s1 @ qs"
    using source_do_asked [of env b "''GET''" u "''bytes=0-0''" s1] g by auto
  ultimately show ?thesis using d g by (cases r; cases g) (auto simp: probe_alive_def)
qed

lemma snapshot_pages_effect:
  assumes "snapshot_pages env b sn i us s = (ps, s')" and "disk_works env" and "sha_ok env" and "cache_ready (ft_cache s)"
  shows "keeps_images env s s' \<and> (\<forall>p \<in> set ps. has_image env s' (pg_url p))"
  using assms
proof (induction us arbitrary: i s ps s')
  case Nil
  then show ?case by simp
next
  case (Cons u us)
  obtain alive s1 where a: "probe_alive env b u s = (alive, s1)" by (cases "probe_alive env b u s")
  have k1: "keeps_images env s s1" using probe_alive_cache [of env b u s] a by (intro keeps_images_same) simp
  note ready1 = keeps_images_ready [OF k1 Cons.prems(4)]
  show ?case
  proof (cases alive)
    case False
    with Cons.prems(1) a have "snapshot_pages env b sn (Suc i) us s1 = (ps, s')" by simp
    from Cons.IH [OF this Cons.prems(2,3) ready1] k1 show ?thesis by (blast intro: keeps_images_trans)
  next
    case True
    obtain d s2 where f: "fetch_image env b u s1 = (d, s2)" by (cases "fetch_image env b u s1")
    note eff = fetch_image_effect [OF f Cons.prems(2,3) ready1]
    have k2: "keeps_images env s s2" using eff keeps_images_trans [OF k1] by blast
    note ready2 = keeps_images_ready [OF k2 Cons.prems(4)]
    obtain qs s3 where rest: "snapshot_pages env b sn (Suc i) us s2 = (qs, s3)" by (cases "snapshot_pages env b sn (Suc i) us s2")
    note IH = Cons.IH [OF rest Cons.prems(2,3) ready2]
    have k3: "keeps_images env s s3" using IH keeps_images_trans [OF k2] by blast
    show ?thesis
    proof (cases d)
      case (Inl e)
      with Cons.prems(1) a True f rest IH k3 show ?thesis by auto
    next
      case (Inr wh)
      have "has_image env s3 u" using eff Inr IH has_image_keep [OF Cons.prems(3)] by auto
      with Cons.prems(1) a True f rest IH k3 Inr show ?thesis by (auto split: prod.splits)
    qed
  qed
qed

lemma mirror_fetch_effect:
  assumes "mirror_fetch env b host pid s = (r, s')" and "disk_works env" and "sha_ok env" and "cache_ready (ft_cache s)"
  shows "keeps_images env s s' \<and> (\<forall>ps. r = Inr ps \<longrightarrow> (\<forall>p \<in> set ps. has_image env s' (pg_url p)))"
proof -
  obtain d s1 where f: "fetch_image env b (mirror_url host pid 0) s = (d, s1)" by (cases "fetch_image env b (mirror_url host pid 0) s")
  note eff = fetch_image_effect [OF f assms(2-4)]
  have k1: "keeps_images env s s1" using eff by blast
  note ready = keeps_images_ready [OF k1 assms(4)]
  show ?thesis
  proof (cases d)
    case (Inl e)
    with assms(1) f k1 show ?thesis by (auto simp: mirror_fetch_def)
  next
    case (Inr wh)
    obtain w h where wh: "wh = (w, h)" by (cases wh)
    let ?p = "\<lparr>pg_page = 0, pg_url = mirror_url host pid 0, pg_width = w, pg_height = h\<rparr>"
    have rest: "mirror_pages env b host pid 1 0 [?p] s1 = (r, s')"
      using assms(1) f Inr wh by (simp add: mirror_fetch_def)
    have "\<forall>p \<in> set [?p]. has_image env s1 (pg_url p)" using eff Inr by simp
    from mirror_pages_effect [OF rest assms(2,3) ready this] k1 show ?thesis by (blast intro: keeps_images_trans)
  qed
qed

lemma source_fetch_effect:
  assumes "source_fetch env src pid snap s = (r, s')" and "disk_works env" and "sha_ok env" and "cache_ready (ft_cache s)"
  shows "keeps_images env s s' \<and> (\<forall>ps. r = Inr ps \<longrightarrow> (\<forall>p \<in> set ps. has_image env s' (pg_url p)))"
proof (cases src)
  case (SnapshotSource b)
  show ?thesis
  proof (cases "snap = None \<or> (\<exists>sn. snap = Some sn \<and> sn_urls sn = [])")
    case True
    with assms(1) SnapshotSource show ?thesis by (auto simp: snapshot_fetch_def)
  next
    case False
    then obtain sn where sn: "snap = Some sn" "sn_urls sn \<noteq> []" by auto
    obtain qs s1 where p: "snapshot_pages env b sn 0 (sn_urls sn) s = (qs, s1)" by (cases "snapshot_pages env b sn 0 (sn_urls sn) s")
    from snapshot_pages_effect [OF p assms(2-4)] assms(1) SnapshotSource sn p show ?thesis
      by (auto simp: snapshot_fetch_def split: if_splits)
  qed
next
  case (Mirror b name host)
  with assms(1) mirror_fetch_effect [OF _ assms(2-4)] show ?thesis by simp
qed

end
