(* ===== verification/SourcesProps.thy ===== *)
theory SourcesProps
  imports SourcesFacts ImgProps
begin

text \<open>The properties of the recovery sources.\<close>

section \<open>A small world\<close>

text \<open>
  A mirror that has the first page of a work and no other one, and answers 404 to the rest. The hash
  tells that page from the others.
\<close>

definition ex_image :: string where "ex_image = replicate 1025 CHR ''x''"

definition ex_reply :: "nat \<Rightarrow> string \<Rightarrow> http_response" where
  "ex_reply st body = \<lparr>hp_status = st, hp_headers = [(''Content-Type'', ''image/jpeg'')], hp_body = body,
     hp_broken = False, hp_length = -1\<rparr>"

definition ex_world :: source_env where
  "ex_world = \<lparr>se_ul = id, se_uo = ex_urls\<lparr>uo_parse := \<lambda>u. Some \<lparr>url_scheme = ''https'', url_host = u, url_hostname = u\<rparr>\<rparr>,
     se_sha = (\<lambda>u. replicate 32 (if u = ''https://m/7.jpg'' then CHR ''a'' else CHR ''b'')), se_dims = (\<lambda>_. None), se_chunk = (\<lambda>b. [b]),
     se_ready = (\<lambda>_. True),
     se_net = (\<lambda>_ q. Some (if hq_url q = ''https://m/7.jpg'' then ex_reply 200 ex_image else ex_reply 404 [])),
     se_tmp = (\<lambda>_ _. False), se_fail = (\<lambda>_ _. False), se_disk = (\<lambda>_ _. None), se_now = (\<lambda>_. 5)\<rparr>"

definition ex_start :: fetch_state where
  "ex_start = \<lparr>ft_cache = empty_cache\<lparr>cs_cfg := ex_cfg\<lparr>cc_max_file := 2000\<rparr>, cs_max := 100000\<rparr>,
     ft_clock = 0, ft_asked = [], ft_sent = []\<rparr>"

definition ex_base :: source_base where "ex_base = new_base \<lparr>sd_every = 0, sd_slots = 0\<rparr> []"

lemma ex_world_ok: "disk_works ex_world" "sha_ok ex_world" "cache_ready (ft_cache ex_start)"
  by (simp_all add: disk_works_def sha_ok_def ex_world_def ex_start_def cache_ready_def ex_cfg_def)

lemma ex_image_length [simp]: "length ex_image = 1025"
  by (simp add: ex_image_def)

lemma ex_do: "source_do ex_world ex_base m u [] s =
   (Inr (if u = ''https://m/7.jpg'' then ex_reply 200 ex_image else ex_reply 404 []),
    tick (s\<lparr>ft_asked := ft_asked s @ [source_request ex_base m u []], ft_sent := ft_sent s @ [source_request ex_base m u []]\<rparr>))"
proof -
  have "client_do uo (se_net ex_world t) (source_request ex_base m u []) =
      (Some (if u = ''https://m/7.jpg'' then ex_reply 200 ex_image else ex_reply 404 []), [source_request ex_base m u []])" for uo t
    by (subst client_do_plain) (auto simp: ex_world_def ex_reply_def is_redirect_def source_request_def)
  then show ?thesis by (simp add: source_do_def) (simp add: ex_world_def)
qed

lemma ex_404:
  assumes "tbl_find cm_key (cache_key (se_sha ex_world) u) (cs_meta (ft_cache s)) = None" and "u \<noteq> ''https://m/7.jpg''"
  shows "\<exists>s'. fetch_image ex_world ex_base u s = (Inl err_not_found, s') \<and> ft_cache s' = ft_cache s"
proof -
  have "cache_get (se_fail ex_world t) now (cache_key (se_sha ex_world) u) (ft_cache s) = (Inr None, ft_cache s)" for t now
    using assms(1) by (simp add: cache_get_def get_row_def) (simp add: ex_world_def)
  with assms(2) show ?thesis
    by (simp add: fetch_image_def download_image_def ex_do store_image_def ex_reply_def)
qed

lemma ex_200: "\<exists>s'. fetch_image ex_world ex_base ''https://m/7.jpg'' ex_start = (Inr (0, 0), s') \<and>
    map cm_key (cs_meta (ft_cache s')) = [cache_key (se_sha ex_world) ''https://m/7.jpg'']"
proof -
  let ?u = "''https://m/7.jpg''"
  have get: "cache_get (se_fail ex_world t) now k (ft_cache ex_start) = (Inr None, ft_cache ex_start)" for t now k
    by (simp add: cache_get_def get_row_def ex_start_def empty_cache_def ex_world_def)
  have put: "\<exists>c. cache_put (se_fail ex_world t) (se_disk ex_world t) now k ct (se_chunk ex_world ex_image) (ft_cache ex_start)
      = (Inr True, c) \<and> map cm_key (cs_meta c) = [k]" for t now k ct
    by (simp add: cache_put_def new_writer_def commit_def upt_rec Let_def ex_world_def ex_start_def empty_cache_def ex_cfg_def
        writer_write_def tbl_replace_def)
  have tmp: "\<not> se_tmp ex_world t st" "decode_dims ex_world b = (0, 0)" "se_ul ex_world = id" for t st b
    by (simp_all add: ex_world_def decode_dims_def)
  have max: "cc_max_file (live_config (ft_cache ex_start)) = 2000"
    by (simp add: live_config_def ex_start_def)
  have "has_prefix (to_lower id (hdr_get ''Content-Type'' [(''Content-Type'', ''image/jpeg'')])) ''image/''" by code_simp
  then have img: "is_image ex_world (ex_reply 200 ex_image)" by (simp add: is_image_def tmp ex_reply_def)
  have store: "\<exists>s'. store_image ex_world k (ex_reply 200 ex_image) s = (Inr (0, 0), s') \<and> map cm_key (cs_meta (ft_cache s')) = [k]"
    if "ft_cache s = ft_cache ex_start" for s k
  proof -
    let ?t = "ft_clock s" and ?p = "ex_reply 200 ex_image"
    obtain c where c: "cache_put (se_fail ex_world ?t) (se_disk ex_world ?t) (se_now ex_world ?t) k
        (hdr_get ''Content-Type'' (hp_headers ?p)) (se_chunk ex_world ex_image) (ft_cache ex_start) = (Inr True, c)"
      "map cm_key (cs_meta c) = [k]"
      using put [of ?t "se_now ex_world ?t" k "hdr_get ''Content-Type'' (hp_headers ?p)"]
      by (elim exE conjE) (rule that; assumption)
    have "hp_status ?p = 200" "read_limited 2001 ?p = Some ex_image" "wrap64 2001 = 2001"
      by (simp_all add: ex_reply_def read_limited_def is_int64_def min64_def max64_def)
    then show ?thesis using c img that
      by (simp add: store_image_def tmp max Let_def min_image_bytes_def)
  qed
  show ?thesis
    using store by (simp add: fetch_image_def get download_image_def ex_do)
qed

lemma ex_keys: "hex_encode (replicate 32 CHR ''a'') \<noteq> hex_encode (replicate 32 CHR ''b'')"
  by code_simp

lemma mirror_miss:
  "n < max_pages \<Longrightarrow> miss < 2 \<Longrightarrow> fetch_image env b (mirror_url host pid n) s = (Inl err_not_found, s1) \<Longrightarrow>
     mirror_pages env b host pid n miss ps s = mirror_pages env b host pid (Suc n) (Suc miss) ps s1"
  by (subst mirror_pages.simps) simp

lemma ex_mirror: "\<exists>s'. mirror_fetch ex_world ex_base ''m'' ''7'' ex_start =
   (Inr [\<lparr>pg_page = 0, pg_url = ''https://m/7.jpg'', pg_width = 0, pg_height = 0\<rparr>], s')"
proof -
  have urls: "mirror_url ''m'' ''7'' 0 = ''https://m/7.jpg''" "mirror_url ''m'' ''7'' 1 = ''https://m/7_p1.jpg''"
    "mirror_url ''m'' ''7'' (Suc 1) = ''https://m/7_p2.jpg''"
    by code_simp+
  obtain s1 where s1: "fetch_image ex_world ex_base ''https://m/7.jpg'' ex_start = (Inr (0, 0), s1)"
    "map cm_key (cs_meta (ft_cache s1)) = [cache_key (se_sha ex_world) ''https://m/7.jpg'']"
    using ex_200 by (elim exE conjE) (rule that; assumption)
  have other: "cache_key (se_sha ex_world) ''https://m/7.jpg'' \<noteq> cache_key (se_sha ex_world) ''https://m/7_p1.jpg''"
    "cache_key (se_sha ex_world) ''https://m/7.jpg'' \<noteq> cache_key (se_sha ex_world) ''https://m/7_p2.jpg''"
    using ex_keys by (simp_all add: ex_world_def cache_key_def)
  obtain s2 where s2: "fetch_image ex_world ex_base ''https://m/7_p1.jpg'' s1 = (Inl err_not_found, s2)" "ft_cache s2 = ft_cache s1"
    using ex_404 [of "''https://m/7_p1.jpg''" s1] s1(2) other(1) by (auto simp: tbl_find_None_iff map_eq_Cons_conv)
  obtain s3 where s3: "fetch_image ex_world ex_base ''https://m/7_p2.jpg'' s2 = (Inl err_not_found, s3)"
    using ex_404 [of "''https://m/7_p2.jpg''" s2] s1(2) s2(2) other(2) by (auto simp: tbl_find_None_iff map_eq_Cons_conv)
  have "mirror_pages ex_world ex_base ''m'' ''7'' 1 0 ps s1 = mirror_pages ex_world ex_base ''m'' ''7'' (Suc 1) (Suc 0) ps s2" for ps
    by (rule mirror_miss) (simp_all only: urls s2(1), simp_all add: max_pages_def)
  moreover have "mirror_pages ex_world ex_base ''m'' ''7'' (Suc 1) (Suc 0) ps s2 = mirror_pages ex_world ex_base ''m'' ''7'' (Suc (Suc 1)) (Suc (Suc 0)) ps s3" for ps
    by (rule mirror_miss) (simp_all only: urls s3, simp_all add: max_pages_def)
  moreover have "mirror_pages ex_world ex_base ''m'' ''7'' (Suc (Suc 1)) (Suc (Suc 0)) ps s3 = (Inr ps, s3)" for ps by (subst mirror_pages.simps) simp
  ultimately show ?thesis using s1(1) by (simp add: mirror_fetch_def urls(1))
qed

section \<open>Properties\<close>

text \<open>
  C18: Bounds. A mirror is asked for at most fifty pages of the work and for nothing else, each with a GET
  for its own URL; what it returns starts with page 0, goes up with at most one page left out in
  between, and names each page by the URL it came from.
\<close>

theorem mirror_fetch_bounded:
  assumes "mirror_fetch env b host pid s = (r, s')"
  shows "(\<exists>qs. ft_asked s' = ft_asked s @ qs \<and> length qs \<le> 50 \<and>
       (\<forall>q \<in> set qs. \<exists>k < 50. q = source_request b ''GET'' (mirror_url host pid k) [])) \<and>
     (\<forall>ps. r = Inr ps \<longrightarrow> ps \<noteq> [] \<and> pg_page (hd ps) = 0 \<and>
       successively (\<lambda>p q. pg_page p < pg_page q \<and> pg_page q \<le> pg_page p + 2) ps \<and>
       (\<forall>p \<in> set ps. 0 \<le> pg_page p \<and> pg_page p < 50 \<and> pg_url p = mirror_url host pid (nat (pg_page p))))"
proof -
  obtain d s1 where f: "fetch_image env b (mirror_url host pid 0) s = (d, s1)" by (cases "fetch_image env b (mirror_url host pid 0) s")
  obtain q1 where q1: "ft_asked s1 = ft_asked s @ q1" "q1 = [] \<or> q1 = [source_request b ''GET'' (mirror_url host pid 0) []]"
    using fetch_image_asked [of env b "mirror_url host pid 0" s] f by auto
  show ?thesis
  proof (cases d)
    case (Inl e)
    with assms f have "r = Inl e" "s' = s1" by (simp_all add: mirror_fetch_def)
    with q1 show ?thesis by (intro conjI exI [of _ q1]) (auto intro: exI [of _ 0])
  next
    case (Inr wh)
    obtain w h where wh: "wh = (w, h)" by (cases wh)
    let ?p = "\<lparr>pg_page = 0, pg_url = mirror_url host pid 0, pg_width = w, pg_height = h\<rparr>"
    have rest: "mirror_pages env b host pid 1 0 [?p] s1 = (r, s')"
      using assms f Inr wh by (simp add: mirror_fetch_def)
    obtain qs where qs: "ft_asked s' = ft_asked s1 @ qs" "length qs \<le> max_pages - 1"
      "\<forall>q \<in> set qs. \<exists>k < max_pages. q = source_request b ''GET'' (mirror_url host pid k) []"
      using mirror_pages_asked [of env b host pid 1 0 "[?p]" s1] rest by auto
    have "pages_ok host pid ps" if "r = Inr ps" for ps
      by (rule mirror_pages_ok [OF rest [unfolded that]]) (simp_all add: pages_ok_def page_of_def max_pages_def)
    moreover have "\<exists>qs. ft_asked s' = ft_asked s @ qs \<and> length qs \<le> 50 \<and>
       (\<forall>q \<in> set qs. \<exists>k < 50. q = source_request b ''GET'' (mirror_url host pid k) [])"
      using q1 qs by (intro exI [of _ "q1 @ qs"]) (auto simp: max_pages_def intro: exI [of _ 0])
    ultimately show ?thesis
      by (auto simp: pages_ok_def page_of_def next_page_def max_pages_def list_all_iff)
  qed
qed

theorem mirror_fetch_bounded_witness:
  "\<exists>s' p. mirror_fetch ex_world ex_base ''m'' ''7'' ex_start = (Inr [p], s') \<and> pg_url p = mirror_url ''m'' ''7'' 0 \<and>
     length (ft_asked s') \<le> 50"
proof -
  obtain s' where s': "mirror_fetch ex_world ex_base ''m'' ''7'' ex_start =
      (Inr [\<lparr>pg_page = 0, pg_url = ''https://m/7.jpg'', pg_width = 0, pg_height = 0\<rparr>], s')"
    using ex_mirror by (elim exE) (rule that)
  have "ft_asked ex_start = []" by (simp add: ex_start_def)
  with mirror_fetch_bounded [OF s'] s' show ?thesis by auto
qed

text \<open>
  Functional. Every page a source returns is in the disk cache afterwards, under the key of its URL, as
  long as the disk works and nothing is evicted meanwhile.
\<close>

theorem recovered_pages_cached:
  assumes "source_fetch env src pid snap s = (Inr ps, s')" and "disk_works env" and "sha_ok env"
    and "cache_ready (ft_cache s)"
  shows "\<forall>p \<in> set ps. cache_lookup (ft_cache s') (cache_key (se_sha env) (pg_url p)) \<noteq> None"
  using source_fetch_effect [OF assms] by (simp add: has_image_def)

theorem recovered_pages_cached_witness:
  "\<exists>s' p. source_fetch ex_world (Mirror ex_base ''m'' ''m'') ''7'' None ex_start = (Inr [p], s') \<and>
     cache_lookup (ft_cache s') (cache_key (se_sha ex_world) (pg_url p)) \<noteq> None"
proof -
  obtain s' where "mirror_fetch ex_world ex_base ''m'' ''7'' ex_start =
      (Inr [\<lparr>pg_page = 0, pg_url = ''https://m/7.jpg'', pg_width = 0, pg_height = 0\<rparr>], s')"
    using ex_mirror by (elim exE) (rule that)
  then have s': "source_fetch ex_world (Mirror ex_base ''m'' ''m'') ''7'' None ex_start =
      (Inr [\<lparr>pg_page = 0, pg_url = ''https://m/7.jpg'', pg_width = 0, pg_height = 0\<rparr>], s')" by simp
  show ?thesis using recovered_pages_cached [OF s' ex_world_ok] s' by auto
qed

text \<open>
  Safety, a defect. The snapshot source sends a request to every URL of the snapshot: nothing checks
  their scheme or host, and the snapshot is what a client has pushed. A client makes the server
  send requests wherever it likes, also to hosts only the server can reach.
\<close>

theorem snapshot_asks_any_host:
  assumes "\<forall>t. se_ready env t" and "u \<in> set (sn_urls sn)" and "uo_parse (se_uo env) u \<noteq> None"
  shows "\<exists>qs. ft_asked (snd (source_fetch env (SnapshotSource b) pid (Some sn) s)) = ft_asked s @ qs \<and>
     source_request b ''HEAD'' u [] \<in> set qs"
proof -
  have "\<exists>qs. ft_asked (snd (snapshot_pages env b sn i us s)) = ft_asked s @ qs \<and>
      (u \<in> set us \<longrightarrow> source_request b ''HEAD'' u [] \<in> set qs)" for i us
  proof (induction us arbitrary: i s)
    case Nil
    show ?case by simp
  next
    case (Cons v us)
    obtain alive s1 where a: "probe_alive env b v s = (alive, s1)" by (cases "probe_alive env b v s")
    obtain d s2 where f: "fetch_image env b v s1 = (d, s2)" by (cases "fetch_image env b v s1")
    obtain q1 where q1: "ft_asked s1 = ft_asked s @ q1" "u = v \<longrightarrow> source_request b ''HEAD'' u [] \<in> set q1"
      using probe_alive_asked [of env b v s] a assms(1,3) by auto
    obtain q2 where q2: "ft_asked s2 = ft_asked s1 @ q2" using fetch_image_asked [of env b v s1] f by auto
    obtain q3 where q3: "ft_asked (snd (snapshot_pages env b sn (Suc i) us s1)) = ft_asked s1 @ q3"
      "u \<in> set us \<longrightarrow> source_request b ''HEAD'' u [] \<in> set q3"
      using Cons.IH by blast
    obtain q4 where q4: "ft_asked (snd (snapshot_pages env b sn (Suc i) us s2)) = ft_asked s2 @ q4"
      "u \<in> set us \<longrightarrow> source_request b ''HEAD'' u [] \<in> set q4"
      using Cons.IH by blast
    show ?case
    proof (cases alive)
      case False
      with a q1 q3 show ?thesis by (intro exI [of _ "q1 @ q3"]) auto
    next
      case True
      with a f q1 q2 q4 show ?thesis
        by (intro exI [of _ "q1 @ q2 @ q4"]) (cases d; auto split: prod.split)
    qed
  qed
  with assms(2) show ?thesis
    by (auto simp: snapshot_fetch_def split: prod.split) (metis snd_conv)
qed

theorem snapshot_asks_any_host_witness:
  "\<exists>qs. ft_asked (snd (source_fetch ex_world (SnapshotSource ex_base) ''7''
       (Some \<lparr>sn_urls = [''http://169.254.169.254/''], sn_width = 0, sn_height = 0, sn_meta = []\<rparr>) ex_start)) = qs \<and>
     source_request ex_base ''HEAD'' ''http://169.254.169.254/'' [] \<in> set qs"
proof -
  have "\<forall>t. se_ready ex_world t" "uo_parse (se_uo ex_world) u \<noteq> None" "ft_asked ex_start = []" for u
    by (simp_all add: ex_world_def ex_start_def)
  with snapshot_asks_any_host [of ex_world "''http://169.254.169.254/''"
      "\<lparr>sn_urls = [''http://169.254.169.254/''], sn_width = 0, sn_height = 0, sn_meta = []\<rparr>" ex_base "''7''" ex_start]
  show ?thesis by auto
qed

end
