(* ===== verification/ImgStep.thy ===== *)
theory ImgStep
  imports ImgProps SourcesFacts
begin

text \<open>
  Image requests that run at the same time, with the cache between them: the loop of \<^verbatim>\<open>Fetch\<close> for every request, the
  download by the one that leads, and the eviction beside them. Between a miss and \<^verbatim>\<open>enterFlight\<close> others can run.
\<close>

section \<open>Steps\<close>

text \<open>
  \<open>is_missed\<close> are the requests that have missed in the cache and not yet entered a flight, \<open>is_sent\<close> the answers so
  far, and \<open>is_asked\<close> the requests that went to the upstream server.
\<close>

record img_system =
  is_flights :: flights
  is_cache :: cache_state
  is_missed :: "nat list"
  is_sent :: "nat \<Rightarrow> img_result option"
  is_asked :: "nat list"

text \<open>
  The flag of a step is \<open>True\<close> when the cache works and nothing is evicted in it. \<open>url\<close> and \<open>inline\<close> are those of each
  request, whose checks have passed.
\<close>

inductive img_step ::
  "(string \<Rightarrow> string) \<Rightarrow> url_ops \<Rightarrow> (nat \<Rightarrow> string) \<Rightarrow> (nat \<Rightarrow> bool) \<Rightarrow> img_system \<Rightarrow> bool \<Rightarrow> img_system \<Rightarrow> bool"
  for sha :: "string \<Rightarrow> string" and uo :: url_ops and url :: "nat \<Rightarrow> string" and inline :: "nat \<Rightarrow> bool"
where
  arrive: "fl_phase (is_flights y) r = None \<Longrightarrow>
    img_step sha uo url inline y True
      (y\<lparr>is_flights := set_phase r (cache_key sha (url r)) Checking (is_flights y)\<rparr>)"
| hit: "fl_phase (is_flights y) r = Some (key, Checking) \<Longrightarrow> \<not> List.member (is_missed y) r \<Longrightarrow>
    serve_hit fail now key (inline r) (is_cache y) = (Some resp, c) \<Longrightarrow> (quiet \<longrightarrow> fail = (\<lambda>_. False)) \<Longrightarrow>
    img_step sha uo url inline y quiet
      (y\<lparr>is_flights := set_phase r key Finished (is_flights y), is_cache := c, is_sent := (is_sent y)(r \<mapsto> Img resp)\<rparr>)"
| miss: "fl_phase (is_flights y) r = Some (key, Checking) \<Longrightarrow> \<not> List.member (is_missed y) r \<Longrightarrow>
    serve_hit fail now key (inline r) (is_cache y) = (None, c) \<Longrightarrow> (quiet \<longrightarrow> fail = (\<lambda>_. False)) \<Longrightarrow>
    img_step sha uo url inline y quiet (y\<lparr>is_cache := c, is_missed := r # is_missed y\<rparr>)"
| lead: "fl_phase (is_flights y) r = Some (key, Checking) \<Longrightarrow> List.member (is_missed y) r \<Longrightarrow>
    enter_flight key (is_flights y) = ((f, True), fl) \<Longrightarrow>
    img_step sha uo url inline y True
      (y\<lparr>is_flights := set_phase r key (Leading f) fl, is_missed := removeAll r (is_missed y)\<rparr>)"
| follow: "fl_phase (is_flights y) r = Some (key, Checking) \<Longrightarrow> List.member (is_missed y) r \<Longrightarrow>
    enter_flight key (is_flights y) = ((f, False), fl) \<Longrightarrow>
    img_step sha uo url inline y True
      (y\<lparr>is_flights := set_phase r key (Waiting f) fl, is_missed := removeAll r (is_missed y)\<rparr>)"
| wake: "fl_phase (is_flights y) r = Some (key, Waiting f) \<Longrightarrow> List.member (fl_closed (is_flights y)) f \<Longrightarrow>
    img_step sha uo url inline y True (y\<lparr>is_flights := set_phase r key Checking (is_flights y)\<rparr>)"
| download: "fl_phase (is_flights y) r = Some (key, Leading f) \<Longrightarrow> is_sent y r = None \<Longrightarrow>
    fetch_upstream uo tr nw fail disk now (url r) key (inline r) (is_cache y) = ((res, qs), c) \<Longrightarrow>
    img_step sha uo url inline y True
      (y\<lparr>is_cache := c, is_sent := (is_sent y)(r \<mapsto> res), is_asked := r # is_asked y\<rparr>)"
| finish: "fl_phase (is_flights y) r = Some (key, Leading f) \<Longrightarrow> is_sent y r \<noteq> None \<Longrightarrow>
    img_step sha uo url inline y True (y\<lparr>is_flights := set_phase r key Finished (leave_flight key f (is_flights y))\<rparr>)"
| evicted: "evict ef i (is_cache y) = Some c \<Longrightarrow> img_step sha uo url inline y False (y\<lparr>is_cache := c\<rparr>)"

inductive img_run ::
  "(string \<Rightarrow> string) \<Rightarrow> url_ops \<Rightarrow> (nat \<Rightarrow> string) \<Rightarrow> (nat \<Rightarrow> bool) \<Rightarrow> bool \<Rightarrow> img_system \<Rightarrow> img_system \<Rightarrow> bool"
  for sha :: "string \<Rightarrow> string" and uo :: url_ops and url :: "nat \<Rightarrow> string" and inline :: "nat \<Rightarrow> bool" and quiet :: bool
where
  run_refl: "img_run sha uo url inline quiet y y"
| run_step: "img_run sha uo url inline quiet y y' \<Longrightarrow> img_step sha uo url inline y' q y'' \<Longrightarrow> (quiet \<longrightarrow> q) \<Longrightarrow>
    img_run sha uo url inline quiet y y''"


section \<open>The flights among the requests\<close>



section \<open>Found once, found again\<close>




section \<open>Late requests\<close>





section \<open>Where a request is\<close>















lemma img_run_append:
  assumes "img_run sha uo url inline False y0 y" and "img_run sha uo url inline quiet y y'"
  shows "img_run sha uo url inline False y0 y'"
  using assms(2,1) by induction (auto intro: run_step)

section \<open>The property\<close>











end
