(* ===== verification/Recover.thy ===== *)
theory Recover
  imports Sources Sync Inflight "HOL-Library.Product_Lexorder"
begin

text \<open>
  \<^verbatim>\<open>internal/recover\<close>: recovering the images of a deleted work. A query is answered from the table
  \<^verbatim>\<open>recover_cache\<close> or starts a job; the job asks the sources one after the other and writes what it
  found, or that nothing was found, into the table.
\<close>

section \<open>Constants and state (queue.go, service.go)\<close>

definition global_concurrent :: int where "global_concurrent = 8"

definition fetching_guard_ms :: int where "fetching_guard_ms = 15 * 60 * 1000"

definition day_ms :: int where "day_ms = 24 * 60 * 60 * 1000"

definition default_ttl_days :: int where "default_ttl_days = 90"

definition default_neg_days :: int where "default_neg_days = 7"

definition retry_after_sec :: int where "retry_after_sec = 5"

record recover_row =
  rv_account :: int
  rv_pid :: string
  rv_pages :: string
  rv_source :: string
  rv_meta :: string
  rv_status :: string
  rv_expire :: int

definition row_key :: "recover_row \<Rightarrow> int \<times> string" where
  "row_key r = (rv_account r, rv_pid r)"

text \<open>
  \<^verbatim>\<open>Queue\<close> and \<^verbatim>\<open>Service\<close> share their database, cipher and sources; what changes is the table, the
  set of keys in flight and the two lifetimes; \<open>rq_slots\<close> bounds the jobs that ask sources at once.
\<close>

record recover_state =
  rq_rows :: "recover_row list"
  rq_inflight :: "string list"
  rq_ttl :: int
  rq_neg :: int
  rq_slots :: int

text \<open>
  What the service uses of \<^verbatim>\<open>encoding/json\<close>: decoding into \<^verbatim>\<open>any\<close>, printing and reading the pages,
  printing a map, and the conversion of a number to \<^verbatim>\<open>int\<close>. Printing cannot fail on values that
  have been decoded before.
\<close>

record recover_codec =
  rc_unmarshal :: unmarshal
  rc_pages_out :: "page list \<Rightarrow> string"
  rc_pages_in :: "string \<Rightarrow> page list option"
  rc_map_out :: "(string \<times> json) list \<Rightarrow> string"
  rc_int :: "string \<Rightarrow> int"

datatype recover_db = MarkFetching | ReadSnapshot | WriteResult | WriteStatus | LookupRow

record recover_config =
  rf_ttl_days :: int
  rf_neg_days :: int
  rf_concurrent :: int
  rf_tmp_dir :: string
  rf_img_hosts :: "string list"
  rf_sources :: "string list"
  rf_deps :: source_deps

text \<open>\<^verbatim>\<open>newQueue\<close>: the slots, and the lifetimes in milliseconds.\<close>

definition queue_slots :: "int \<Rightarrow> int" where
  "queue_slots n = (if n \<le> 0 then global_concurrent else n)"

definition new_queue :: "int \<Rightarrow> int \<Rightarrow> int \<Rightarrow> recover_row list \<Rightarrow> recover_state" where [simp]:
  "new_queue n ttl neg rows =
     \<lparr>rq_rows = rows, rq_inflight = [], rq_ttl = ttl, rq_neg = neg, rq_slots = queue_slots n\<rparr>"

text \<open>
  \<^verbatim>\<open>NewService\<close>: the state, the sources and the mirror hosts the image relay would refuse, which are
  logged. \<open>ok\<close>: the directory for temporary files could be made.
\<close>

definition new_recover ::
  "(string \<Rightarrow> string) \<Rightarrow> bool \<Rightarrow> recover_config \<Rightarrow> recover_row list
     \<Rightarrow> go_error + (recover_state \<times> source list \<times> string list)" where
  "new_recover ul ok cfg rows =
     (let ttl = (if rf_ttl_days cfg \<le> 0 then default_ttl_days else rf_ttl_days cfg);
          neg = (if rf_neg_days cfg \<le> 0 then default_neg_days else rf_neg_days cfg);
          (srcs, hosts) = build_sources ul (rf_sources cfg) (rf_deps cfg);
          allowed = map (to_lower ul) (rf_img_hosts cfg)
      in if rf_tmp_dir cfg = [] then Inl (Internal ''recover: TmpDir is required'')
         else if \<not> ok then Inl (Internal ''recover: mkdir tmp'')
         else Inr (new_queue (rf_concurrent cfg) (wrap64 (ttl * day_ms)) (wrap64 (neg * day_ms)) rows,
                   srcs, filter (\<lambda>h. \<not> List.member allowed (to_lower ul h)) hosts))"

text \<open>The lifetimes can be changed while the queue is at work; rows that are there keep their expiry.\<close>

definition set_ttls :: "int \<Rightarrow> int \<Rightarrow> recover_state \<Rightarrow> recover_state" where [simp]:
  "set_ttls ttl neg s = s\<lparr>rq_ttl := ttl, rq_neg := neg\<rparr>"

definition ttls :: "recover_state \<Rightarrow> int \<times> int" where [simp]:
  "ttls s = (rq_ttl s, rq_neg s)"

definition set_ttl_days :: "int \<Rightarrow> int \<Rightarrow> recover_state \<Rightarrow> recover_state" where
  "set_ttl_days ttl neg s = set_ttls (wrap64 (ttl * day_ms)) (wrap64 (neg * day_ms)) s"

text \<open>Go's division truncates; the lifetimes are what \<open>set_ttl_days\<close> has stored.\<close>

definition ttl_days :: "recover_state \<Rightarrow> int \<times> int" where
  "ttl_days s =
     (case ttls s of (ttl, neg) \<Rightarrow> (sgn ttl * (\<bar>ttl\<bar> div day_ms), sgn neg * (\<bar>neg\<bar> div day_ms)))"

section \<open>Jobs in flight\<close>

definition job_key :: "int \<Rightarrow> string \<Rightarrow> string" where
  "job_key acc pid = format_int acc @ ''/'' @ pid"

definition job_busy :: "recover_state \<Rightarrow> string \<Rightarrow> bool" where
  "job_busy s key \<longleftrightarrow> List.member (rq_inflight s) key"

text \<open>The part of \<^verbatim>\<open>Enqueue\<close> under the lock, and the deferred function of \<^verbatim>\<open>work\<close>.\<close>

definition enter_job :: "string \<Rightarrow> recover_state \<Rightarrow> bool \<times> recover_state" where
  "enter_job key s =
     (if job_busy s key then (False, s) else (True, s\<lparr>rq_inflight := key # rq_inflight s\<rparr>))"

definition leave_job :: "string \<Rightarrow> recover_state \<Rightarrow> recover_state" where
  "leave_job key s = s\<lparr>rq_inflight := removeAll key (rq_inflight s)\<rparr>"

interpretation jobs: inflight_table job_busy enter_job leave_job
  by unfold_locales (auto simp: job_busy_def enter_job_def leave_job_def split: if_splits)

text \<open>The rest of \<^verbatim>\<open>Enqueue\<close>. A failing statement is only logged; the job starts all the same.\<close>

definition mark_fetching :: "int \<Rightarrow> int \<Rightarrow> string \<Rightarrow> recover_state \<Rightarrow> recover_state" where
  "mark_fetching now acc pid s =
     (let e = wrap64 (now + fetching_guard_ms)
      in s\<lparr>rq_rows := tbl_upsert row_key (\<lambda>r. r\<lparr>rv_status := ''fetching'', rv_expire := e\<rparr>)
             \<lparr>rv_account = acc, rv_pid = pid, rv_pages = ''[]'', rv_source = [], rv_meta = ''{}'',
              rv_status = ''fetching'', rv_expire = e\<rparr> (rq_rows s)\<rparr>)"

definition enqueue ::
  "(recover_db \<Rightarrow> bool) \<Rightarrow> int \<Rightarrow> int \<Rightarrow> string \<Rightarrow> recover_state \<Rightarrow> bool \<times> recover_state" where
  "enqueue fail now acc pid s =
     (case enter_job (job_key acc pid) s of
        (False, s1) \<Rightarrow> (False, s1)
      | (True, s1) \<Rightarrow> (True, if fail MarkFetching then s1 else mark_fetching now acc pid s1))"

section \<open>A job (queue.go)\<close>

definition json_int :: "recover_codec \<Rightarrow> json \<Rightarrow> int" where
  "json_int c v = (case v of JNum n \<Rightarrow> rc_int c n | _ \<Rightarrow> 0)"

fun json_strings :: "json \<Rightarrow> string list" where
  "json_strings (JArr vs) = List.map_filter (\<lambda>v. case v of JStr s \<Rightarrow> Some s | _ \<Rightarrow> None) vs"
| "json_strings _ = []"

text \<open>The loop over the members of the decoded object; a Go map has each name once.\<close>

definition snapshot_of :: "recover_codec \<Rightarrow> (string \<times> json) list \<Rightarrow> snapshot" where
  "snapshot_of c obj =
     \<lparr>sn_urls = (case jget ''imageUrls'' obj of None \<Rightarrow> [] | Some v \<Rightarrow> json_strings v),
      sn_width = (case jget ''width'' obj of None \<Rightarrow> 0 | Some v \<Rightarrow> json_int c v),
      sn_height = (case jget ''height'' obj of None \<Rightarrow> 0 | Some v \<Rightarrow> json_int c v),
      sn_meta = filter (\<lambda>kv. \<not> List.member [''imageUrls'', ''width'', ''height''] (fst kv)) obj\<rparr>"

text \<open>Decoding JSON into a map: \<^verbatim>\<open>null\<close> gives the empty map, other values than objects an error.\<close>

definition decode_map :: "recover_codec \<Rightarrow> string \<Rightarrow> (string \<times> json) list option" where
  "decode_map c t =
     (case rc_unmarshal c t of Some (JObj kvs) \<Rightarrow> Some kvs | Some JNull \<Rightarrow> Some [] | _ \<Rightarrow> None)"

definition load_snapshot ::
  "(recover_db \<Rightarrow> bool) \<Rightarrow> recover_codec \<Rightarrow> cipher \<Rightarrow> sync_entry list \<Rightarrow> int \<Rightarrow> string \<Rightarrow> snapshot option" where
  "load_snapshot fail c enc es acc pid =
     (if fail ReadSnapshot then None
      else
        case List.find (\<lambda>e. entry_key e = (acc, bookmark_domain, pid) \<and> \<not> se_deleted e) es of
          None \<Rightarrow> None
        | Some e \<Rightarrow>
            (case decrypt enc (se_data e) of
               Inl err \<Rightarrow> None
             | Inr text \<Rightarrow> map_option (snapshot_of c) (decode_map c text)))"

definition snapshot_meta :: "snapshot option \<Rightarrow> (string \<times> json) list" where
  "snapshot_meta snap = (case snap of None \<Rightarrow> [] | Some sn \<Rightarrow> sn_meta sn)"

text \<open>The nonces of the two encryptions are arguments.\<close>

definition write_result ::
  "(recover_db \<Rightarrow> bool) \<Rightarrow> recover_codec \<Rightarrow> cipher \<Rightarrow> string \<times> string \<Rightarrow> int \<Rightarrow> string \<Rightarrow> page list \<Rightarrow> string
     \<Rightarrow> (string \<times> json) list \<Rightarrow> int \<Rightarrow> recover_state \<Rightarrow> recover_state" where
  "write_result fail c enc nonces acc pid pages src meta expire s =
     (if fail WriteResult then s
      else
        let pj = encrypt enc (fst nonces) (rc_pages_out c pages);
            mj = encrypt enc (snd nonces) (rc_map_out c meta)
        in s\<lparr>rq_rows := tbl_upsert row_key
               (\<lambda>r. r\<lparr>rv_pages := pj, rv_source := src, rv_meta := mj, rv_status := ''ready'', rv_expire := expire\<rparr>)
               \<lparr>rv_account = acc, rv_pid = pid, rv_pages = pj, rv_source = src, rv_meta = mj,
                rv_status = ''ready'', rv_expire = expire\<rparr> (rq_rows s)\<rparr>)"

definition write_status ::
  "(recover_db \<Rightarrow> bool) \<Rightarrow> int \<Rightarrow> string \<Rightarrow> string \<Rightarrow> int \<Rightarrow> recover_state \<Rightarrow> recover_state" where
  "write_status fail acc pid status expire s =
     (if fail WriteStatus then s
      else s\<lparr>rq_rows := tbl_upsert row_key
               (\<lambda>r. r\<lparr>rv_pages := ''[]'', rv_source := [], rv_meta := ''{}'', rv_status := status, rv_expire := expire\<rparr>)
               \<lparr>rv_account = acc, rv_pid = pid, rv_pages = ''[]'', rv_source = [], rv_meta = ''{}'',
                rv_status = status, rv_expire = expire\<rparr> (rq_rows s)\<rparr>)"

text \<open>The sources in their order, until one has something.\<close>

fun try_sources ::
  "source_env \<Rightarrow> source list \<Rightarrow> string \<Rightarrow> snapshot option \<Rightarrow> fetch_state
     \<Rightarrow> (page list \<times> string) option \<times> fetch_state" where
  "try_sources env [] pid snap f = (None, f)"
| "try_sources env (src # srcs) pid snap f =
     (case source_fetch env src pid snap f of
        (Inl e, f1) \<Rightarrow> try_sources env srcs pid snap f1
      | (Inr pages, f1) \<Rightarrow> (Some (pages, source_name src), f1))"

text \<open>
  \<^verbatim>\<open>work\<close>, in two parts: asking the sources, and writing the outcome at the time \<open>now\<close> and leaving.
\<close>

definition job_finish ::
  "(recover_db \<Rightarrow> bool) \<Rightarrow> recover_codec \<Rightarrow> cipher \<Rightarrow> string \<times> string \<Rightarrow> int \<Rightarrow> int \<Rightarrow> string
     \<Rightarrow> snapshot option \<Rightarrow> (page list \<times> string) option \<Rightarrow> recover_state \<Rightarrow> recover_state" where
  "job_finish fail c enc nonces now acc pid snap found s =
     leave_job (job_key acc pid)
       (case found of
          Some (pages, src) \<Rightarrow>
            write_result fail c enc nonces acc pid pages src (snapshot_meta snap) (wrap64 (now + rq_ttl s)) s
        | None \<Rightarrow> write_status fail acc pid ''not_found'' (wrap64 (now + rq_neg s)) s)"

definition work ::
  "(recover_db \<Rightarrow> bool) \<Rightarrow> recover_codec \<Rightarrow> cipher \<Rightarrow> string \<times> string \<Rightarrow> int \<Rightarrow> source_env \<Rightarrow> source list
     \<Rightarrow> sync_entry list \<Rightarrow> int \<Rightarrow> string \<Rightarrow> recover_state \<times> fetch_state \<Rightarrow> recover_state \<times> fetch_state" where
  "work fail c enc nonces now env srcs es acc pid sf =
     (let snap = load_snapshot fail c enc es acc pid;
          (found, f) = try_sources env srcs pid snap (snd sf)
      in (job_finish fail c enc nonces now acc pid snap found (fst sf), f))"

section \<open>Queries (service.go)\<close>

text \<open>\<open>cw_meta\<close> is an object, or \<^verbatim>\<open>null\<close> when the stored text is.\<close>

record cache_row =
  cw_status :: string
  cw_pages :: "page list"
  cw_source :: string
  cw_meta :: json

definition live_row :: "int \<Rightarrow> recover_row \<Rightarrow> bool" where
  "live_row now r \<longleftrightarrow> rv_expire r > now \<and> (rv_status r = ''ready'' \<or> rv_status r = ''not_found'')"

text \<open>
  The two queries of \<^verbatim>\<open>lookup\<close>. \<^verbatim>\<open>ORDER BY\<close> status first, the latest expiry next; SQLite may choose
  among equals, here the first one comes out.
\<close>

definition row_rank :: "recover_row \<Rightarrow> int \<times> int" where
  "row_rank r = (if rv_status r = ''ready'' then 0 else 1, - rv_expire r)"

definition select_row :: "bool \<Rightarrow> int \<Rightarrow> int \<Rightarrow> string \<Rightarrow> recover_row list \<Rightarrow> recover_row option" where
  "select_row shared now acc pid rows =
     (if shared then
        (case sort_key row_rank (filter (\<lambda>r. rv_pid r = pid \<and> live_row now r) rows) of
           [] \<Rightarrow> None
         | r # rs \<Rightarrow> Some r)
      else List.find (\<lambda>r. row_key r = (acc, pid) \<and> live_row now r) rows)"

definition read_meta :: "recover_codec \<Rightarrow> string \<Rightarrow> json" where
  "read_meta c t =
     (case rc_unmarshal c t of Some (JObj kvs) \<Rightarrow> JObj kvs | Some JNull \<Rightarrow> JNull | _ \<Rightarrow> JObj [])"

definition read_row :: "recover_codec \<Rightarrow> cipher \<Rightarrow> recover_row \<Rightarrow> go_error + cache_row" where
  "read_row c enc r =
     (case decrypt enc (rv_pages r) of
        Inl e \<Rightarrow> Inl (Internal ''recover: decrypt pages'')
      | Inr pj \<Rightarrow>
          (case decrypt enc (rv_meta r) of
             Inl e \<Rightarrow> Inl (Internal ''recover: decrypt meta'')
           | Inr mj \<Rightarrow>
               (case rc_pages_in c pj of
                  None \<Rightarrow> Inl (Internal ''recover: parse pages'')
                | Some pages \<Rightarrow>
                    Inr \<lparr>cw_status = rv_status r, cw_pages = pages, cw_source = rv_source r,
                         cw_meta = read_meta c mj\<rparr>)))"

definition recover_lookup ::
  "(recover_db \<Rightarrow> bool) \<Rightarrow> recover_codec \<Rightarrow> cipher \<Rightarrow> bool \<Rightarrow> int \<Rightarrow> int \<Rightarrow> string \<Rightarrow> recover_state
     \<Rightarrow> go_error + cache_row option" where
  "recover_lookup fail c enc shared now acc pid s =
     (if fail LookupRow then Inl (Internal ''recover: lookup'')
      else case select_row shared now acc pid (rq_rows s) of
             None \<Rightarrow> Inr None
           | Some r \<Rightarrow> map_sum id Some (read_row c enc r))"

definition request_base :: "bool \<Rightarrow> string \<Rightarrow> string" where
  "request_base tls host = (if tls then ''https'' else ''http'') @ ''://'' @ host"

definition is_numeric :: "string \<Rightarrow> bool" where
  "is_numeric pid \<longleftrightarrow> pid \<noteq> [] \<and> list_all (\<lambda>ch. digit_val ch \<noteq> None) pid"

text \<open>The address under which the image relay serves a page.\<close>

definition img_query :: "string \<Rightarrow> string" where
  "img_query url = ''url='' @ query_escape url"

definition wrap_page :: "string \<Rightarrow> page \<Rightarrow> page" where
  "wrap_page base p = p\<lparr>pg_url := base @ ''/img/v1/fetch?'' @ img_query (pg_url p)\<rparr>"

datatype recover_answer =
    RecoverError go_error
  | RecoverNotFound
  | RecoverReady "page list" string json
  | RecoverFetching int

definition answer_status :: "recover_answer \<Rightarrow> nat" where
  "answer_status a =
     (case a of RecoverError e \<Rightarrow> error_status e | RecoverNotFound \<Rightarrow> 404 | RecoverReady _ _ _ \<Rightarrow> 200
      | RecoverFetching _ \<Rightarrow> 202)"

text \<open>\<^verbatim>\<open>Query\<close>. The answer for a row, and the whole; the boolean says whether a job was started.\<close>

definition answer_row :: "string \<Rightarrow> cache_row \<Rightarrow> recover_answer" where
  "answer_row base row =
     (if cw_status row = ''not_found'' then RecoverNotFound
      else RecoverReady (map (wrap_page base) (cw_pages row)) (cw_source row) (cw_meta row))"

definition recover_query ::
  "(recover_db \<Rightarrow> bool) \<Rightarrow> recover_codec \<Rightarrow> cipher \<Rightarrow> bool \<Rightarrow> int \<Rightarrow> int \<Rightarrow> string \<Rightarrow> string \<Rightarrow> recover_state
     \<Rightarrow> (recover_answer \<times> bool) \<times> recover_state" where
  "recover_query fail c enc shared now acc pid base s =
     (if \<not> is_numeric pid then ((RecoverError (bad_request ''pid must be numeric''), False), s)
      else case recover_lookup fail c enc shared now acc pid s of
             Inl e \<Rightarrow> ((RecoverError e, False), s)
           | Inr (Some row) \<Rightarrow> ((answer_row base row, False), s)
           | Inr None \<Rightarrow>
               (case enqueue fail now acc pid s of
                  (started, s1) \<Rightarrow> ((RecoverFetching retry_after_sec, started), s1)))"

section \<open>Queries and jobs together\<close>

text \<open>
  A query that found nothing has not entered its job yet when others run: \<open>missed\<close> are the keys of such
  queries, \<open>running\<close> the jobs that have been started and not finished.
\<close>

record recover_system =
  ry_state :: recover_state
  ry_missed :: "(int \<times> string) list"
  ry_running :: "(int \<times> string) list"

text \<open>
  \<open>fail\<close> says which statements of a step fail; \<open>ok\<close>: none that writes does.
\<close>

inductive recover_step ::
  "recover_codec \<Rightarrow> cipher \<Rightarrow> bool \<Rightarrow> bool \<Rightarrow> recover_system \<Rightarrow> recover_system \<Rightarrow> bool"
  for c :: recover_codec and enc :: cipher and shared :: bool and ok :: bool where
  miss: "is_numeric pid \<Longrightarrow> recover_lookup (\<lambda>_. False) c enc shared now acc pid (ry_state y) = Inr None \<Longrightarrow>
    recover_step c enc shared ok y (y\<lparr>ry_missed := (acc, pid) # ry_missed y\<rparr>)"
| start: "List.member (ry_missed y) (acc, pid) \<Longrightarrow> enqueue fail now acc pid (ry_state y) = (True, s) \<Longrightarrow>
    (ok \<longrightarrow> fail = (\<lambda>_. False)) \<Longrightarrow>
    recover_step c enc shared ok y
      \<lparr>ry_state = s, ry_missed = remove1 (acc, pid) (ry_missed y), ry_running = (acc, pid) # ry_running y\<rparr>"
| join: "List.member (ry_missed y) (acc, pid) \<Longrightarrow> enqueue fail now acc pid (ry_state y) = (False, s) \<Longrightarrow>
    recover_step c enc shared ok y (y\<lparr>ry_state := s, ry_missed := remove1 (acc, pid) (ry_missed y)\<rparr>)"
| finish: "List.member (ry_running y) (acc, pid) \<Longrightarrow> (ok \<longrightarrow> fail = (\<lambda>_. False)) \<Longrightarrow>
    recover_step c enc shared ok y
      (y\<lparr>ry_state := job_finish fail c enc nonces now acc pid snap found (ry_state y),
         ry_running := remove1 (acc, pid) (ry_running y)\<rparr>)"
| limits: "recover_step c enc shared ok y (y\<lparr>ry_state := set_ttl_days t n (ry_state y)\<rparr>)"

text \<open>
  The server starts with the rows of an earlier run: one that was stopped in the middle of a job leaves its row \<^verbatim>\<open>fetching\<close>.
\<close>

inductive recover_reach :: "recover_codec \<Rightarrow> cipher \<Rightarrow> bool \<Rightarrow> bool \<Rightarrow> recover_row list \<Rightarrow> recover_system \<Rightarrow> bool"
  for c :: recover_codec and enc :: cipher and shared :: bool and ok :: bool and rows :: "recover_row list" where
  recover_start: "recover_reach c enc shared ok rows
    \<lparr>ry_state = \<lparr>rq_rows = rows, rq_inflight = [], rq_ttl = t, rq_neg = n, rq_slots = k\<rparr>, ry_missed = [], ry_running = []\<rparr>"
| recover_next: "recover_reach c enc shared ok rows y \<Longrightarrow> recover_step c enc shared ok y y' \<Longrightarrow>
    recover_reach c enc shared ok rows y'"

inductive_cases recover_stepE: "recover_step c enc shared ok y y'"

end
