(* ===== verification/RecoverFacts.thy ===== *)
theory RecoverFacts
  imports Recover SourcesFacts
begin

text \<open>
  Facts on the recovery service: the keys of its jobs, the effect of each operation on the row of a key,
  and the invariant of queries and jobs running together.
\<close>

section \<open>Keys\<close>

lemma nat_str_inj: "nat_str m = nat_str n \<Longrightarrow> m = n"
  by (metis option.inject parse_nat_str)

lemma format_int_inj_all: "format_int i = format_int j \<longleftrightarrow> i = j"
proof
  assume eq: "format_int i = format_int j"
  have sign: "nat_str n \<noteq> CHR ''-'' # ys" "CHR ''-'' # ys \<noteq> nat_str n" for n ys
    using hd_nat_str(1) [of n] by (metis list.sel(1))+
  show "i = j"
  proof (cases "i < 0")
    case True
    with eq sign(2) have "j < 0" by (metis format_int_def)
    with eq True have "nat (- i) = nat (- j)" by (intro nat_str_inj) (simp add: format_int_def)
    with True \<open>j < 0\<close> show ?thesis by simp
  next
    case False
    with eq sign(1) have "\<not> j < 0" by (metis format_int_def)
    with eq False have "nat i = nat j" by (intro nat_str_inj) (simp add: format_int_def)
    with False \<open>\<not> j < 0\<close> show ?thesis by simp
  qed
qed simp

lemma job_key_inj [simp]: "job_key a p = job_key b q \<longleftrightarrow> (a, p) = (b, q)"
proof
  assume eq: "job_key a p = job_key b q"
  have cut: "str_cut CHR ''/'' (job_key a p) = Some (format_int a, p)" for a p
    unfolding job_key_def append_Cons append_Nil by (rule str_cut_append) (rule format_int_no_sep)
  from cut [of a p] cut [of b q] eq show "(a, p) = (b, q)" by (metis format_int_inj_all option.inject prod.inject)
qed auto

section \<open>Operations on the row of a key\<close>

text \<open>What is written for a key, by any operation, and what becomes of the other keys.\<close>

lemma row_key_simps [simp]:
  "row_key (r\<lparr>rv_pages := a\<rparr>) = row_key r" "row_key (r\<lparr>rv_source := b\<rparr>) = row_key r"
  "row_key (r\<lparr>rv_meta := d\<rparr>) = row_key r" "row_key (r\<lparr>rv_status := e\<rparr>) = row_key r"
  "row_key (r\<lparr>rv_expire := x\<rparr>) = row_key r"
  by (simp_all add: row_key_def)

lemma upsert_own:
  assumes "row_key new = k" and "\<And>r. row_key (upd r) = row_key r"
  shows "tbl_find row_key k (tbl_upsert row_key upd new t) =
     Some (case tbl_find row_key k t of None \<Rightarrow> new | Some r \<Rightarrow> upd r)"
  using assms by (simp add: tbl_find_upsert split: option.split)

text \<open>\<open>edits_row acc pid s s'\<close>: the operation from \<open>s\<close> to \<open>s'\<close> touches the table at that key only.\<close>

definition edits_row :: "int \<Rightarrow> string \<Rightarrow> recover_state \<Rightarrow> recover_state \<Rightarrow> bool" where
  "edits_row acc pid s s' \<longleftrightarrow>
     (tbl_unique row_key (rq_rows s) \<longrightarrow> tbl_unique row_key (rq_rows s')) \<and>
     (\<forall>k. k \<noteq> (acc, pid) \<longrightarrow> tbl_find row_key k (rq_rows s') = tbl_find row_key k (rq_rows s))"

lemma edits_row_refl [simp]: "edits_row acc pid s s"
  by (simp add: edits_row_def)

lemma edits_row_upsert:
  assumes "row_key new = (acc, pid)" and "\<And>r. row_key (upd r) = row_key r"
  shows "edits_row acc pid s (s\<lparr>rq_rows := tbl_upsert row_key upd new (rq_rows s)\<rparr>)"
  using assms by (simp add: edits_row_def tbl_unique_upsert tbl_find_upsert)

lemma edits_row_same_rows: "rq_rows s1 = rq_rows s2 \<Longrightarrow> edits_row acc pid s s1 = edits_row acc pid s s2"
  by (simp add: edits_row_def)

lemma enter_job_simps [simp]:
  "rq_rows (snd (enter_job k s)) = rq_rows s" "fst (enter_job k s) = (\<not> job_busy s k)"
  "rq_inflight (snd (enter_job k s)) = (if job_busy s k then rq_inflight s else k # rq_inflight s)"
  by (simp_all add: enter_job_def)

lemma leave_job_simps [simp]:
  "rq_rows (leave_job k s) = rq_rows s" "rq_inflight (leave_job k s) = removeAll k (rq_inflight s)"
  "rq_ttl (leave_job k s) = rq_ttl s" "rq_neg (leave_job k s) = rq_neg s"
  by (simp_all add: leave_job_def)

lemma mark_fetching_find:
  "\<exists>r. tbl_find row_key (acc, pid) (rq_rows (mark_fetching now acc pid s)) = Some r \<and> rv_status r = ''fetching''"
proof -
  have "row_key \<lparr>rv_account = acc, rv_pid = pid, rv_pages = a, rv_source = b, rv_meta = d, rv_status = st, rv_expire = e\<rparr> = (acc, pid)"
    for a b d st e by (simp add: row_key_def)
  then show ?thesis by (simp add: mark_fetching_def Let_def upsert_own split: option.split)
qed

lemma mark_fetching_edits [simp]: "edits_row acc pid s (mark_fetching now acc pid s)"
  unfolding mark_fetching_def Let_def by (rule edits_row_upsert) (simp_all add: row_key_def)

lemma mark_fetching_inflight [simp]: "rq_inflight (mark_fetching now acc pid s) = rq_inflight s"
  by (simp add: mark_fetching_def Let_def)

lemma enqueue_cases:
  assumes "enqueue fail now acc pid s = (started, s')"
  shows "started = (\<not> job_busy s (job_key acc pid)) \<and> edits_row acc pid s s' \<and>
     rq_inflight s' = (if started then job_key acc pid # rq_inflight s else rq_inflight s) \<and>
     (\<not> started \<longrightarrow> s' = s)"
proof (cases "job_busy s (job_key acc pid)")
  case True
  with assms show ?thesis by (auto simp: enqueue_def enter_job_def)
next
  case False
  let ?s = "s\<lparr>rq_inflight := job_key acc pid # rq_inflight s\<rparr>"
  have "edits_row acc pid s ?s" by (simp add: edits_row_def)
  moreover have "edits_row acc pid s (mark_fetching now acc pid ?s)"
    using mark_fetching_edits [of acc pid ?s now] by (simp add: edits_row_def)
  ultimately show ?thesis using assms False by (auto simp: enqueue_def enter_job_def split: if_splits)
qed

lemma enqueue_other:
  assumes "(acc', pid') \<noteq> (acc, pid)"
  shows "job_busy (snd (enqueue fail now acc' pid' s)) (job_key acc pid) = job_busy s (job_key acc pid)"
proof -
  obtain st s' where e: "enqueue fail now acc' pid' s = (st, s')" by (cases "enqueue fail now acc' pid' s")
  have "job_key acc pid \<noteq> job_key acc' pid'" using assms by auto
  with enqueue_cases [OF e] e show ?thesis by (auto simp: job_busy_def)
qed

text \<open>The row a finished job leaves.\<close>

definition final_row ::
  "recover_codec \<Rightarrow> cipher \<Rightarrow> string \<times> string \<Rightarrow> int \<Rightarrow> string \<Rightarrow> snapshot option
     \<Rightarrow> (page list \<times> string) option \<Rightarrow> int \<Rightarrow> recover_row" where
  "final_row c enc nonces acc pid snap found expire =
     (case found of
        Some (pages, src) \<Rightarrow>
          \<lparr>rv_account = acc, rv_pid = pid, rv_pages = encrypt enc (fst nonces) (rc_pages_out c pages), rv_source = src,
           rv_meta = encrypt enc (snd nonces) (rc_map_out c (snapshot_meta snap)), rv_status = ''ready'', rv_expire = expire\<rparr>
      | None \<Rightarrow>
          \<lparr>rv_account = acc, rv_pid = pid, rv_pages = ''[]'', rv_source = [], rv_meta = ''{}'',
           rv_status = ''not_found'', rv_expire = expire\<rparr>)"

definition final_expire :: "int \<Rightarrow> (page list \<times> string) option \<Rightarrow> recover_state \<Rightarrow> int" where
  "final_expire now found s = wrap64 (now + (case found of None \<Rightarrow> rq_neg s | Some _ \<Rightarrow> rq_ttl s))"

lemma job_finish_find:
  "tbl_find row_key (acc, pid) (rq_rows (job_finish (\<lambda>_. False) c enc nonces now acc pid snap found s)) =
     Some (final_row c enc nonces acc pid snap found (final_expire now found s))"
proof -
  have key: "row_key \<lparr>rv_account = acc, rv_pid = pid, rv_pages = a, rv_source = b, rv_meta = d, rv_status = st, rv_expire = e\<rparr>
      = (acc, pid)" for a b d st e by (simp add: row_key_def)
  have same: "r\<lparr>rv_pages := a, rv_source := b, rv_meta := d, rv_status := st, rv_expire := e\<rparr> =
      \<lparr>rv_account = acc, rv_pid = pid, rv_pages = a, rv_source = b, rv_meta = d, rv_status = st, rv_expire = e\<rparr>"
    if "tbl_find row_key (acc, pid) (rq_rows s) = Some r" for r a b d st e
    using tbl_find_SomeD [OF that] by (cases r) (simp add: row_key_def)
  show ?thesis
    by (auto simp: job_finish_def write_result_def write_status_def final_row_def final_expire_def Let_def
        upsert_own key same split: option.split prod.split)
qed

lemma job_finish_edits:
  "edits_row acc pid s (job_finish fail c enc nonces now acc pid snap found s)"
proof -
  have "edits_row acc pid s (write_status fail acc pid st ex s)" for st ex
    unfolding write_status_def by (simp, intro impI, rule edits_row_upsert) (simp_all add: row_key_def)
  moreover have "edits_row acc pid s (write_result fail c enc nonces acc pid pages src meta ex s)" for pages src meta ex
    unfolding write_result_def Let_def by (simp, intro impI, rule edits_row_upsert) (simp_all add: row_key_def)
  moreover have "edits_row acc pid s (leave_job k s') = edits_row acc pid s s'" for k s'
    by (rule edits_row_same_rows) simp
  ultimately show ?thesis by (simp add: job_finish_def split: option.split prod.split)
qed

lemma job_finish_inflight [simp]:
  "rq_inflight (job_finish fail c enc nonces now acc pid snap found s) = removeAll (job_key acc pid) (rq_inflight s)"
  by (simp add: job_finish_def write_result_def write_status_def Let_def split: option.split prod.split)

section \<open>The sources\<close>

lemma try_sources_effect:
  assumes "try_sources env srcs pid snap f = (found, f')" and "disk_works env" and "sha_ok env" and "cache_ready (ft_cache f)"
  shows "keeps_images env f f' \<and> (\<forall>pages src. found = Some (pages, src) \<longrightarrow> (\<forall>p \<in> set pages. has_image env f' (pg_url p)))"
  using assms
proof (induction srcs arbitrary: f)
  case Nil
  then show ?case by simp
next
  case (Cons src srcs)
  obtain r f1 where r: "source_fetch env src pid snap f = (r, f1)" by (cases "source_fetch env src pid snap f")
  note eff = source_fetch_effect [OF r Cons.prems(2-4)]
  show ?case
  proof (cases r)
    case (Inl e)
    with Cons.prems(1) r have rest: "try_sources env srcs pid snap f1 = (found, f')" by simp
    have "keeps_images env f f1" using eff by blast
    with Cons.IH [OF rest Cons.prems(2,3) keeps_images_ready [OF this Cons.prems(4)]]
    show ?thesis by (blast intro: keeps_images_trans)
  next
    case (Inr pages)
    with Cons.prems(1) r eff show ?thesis by auto
  qed
qed

section \<open>Lookups\<close>

text \<open>Without sharing, the lookup depends on the row of its key alone.\<close>

lemma select_own_row:
  "tbl_unique row_key rows \<Longrightarrow> select_row False now acc pid rows =
     (case tbl_find row_key (acc, pid) rows of None \<Rightarrow> None | Some r \<Rightarrow> if live_row now r then Some r else None)"
  by (simp add: select_row_def find_key_and)

lemma lookup_own_row:
  "tbl_unique row_key (rq_rows s) \<Longrightarrow> recover_lookup (\<lambda>_. False) c enc False now acc pid s =
     (case tbl_find row_key (acc, pid) (rq_rows s) of
        None \<Rightarrow> Inr None
      | Some r \<Rightarrow> if live_row now r then map_sum id Some (read_row c enc r) else Inr None)"
  by (simp add: recover_lookup_def select_own_row split: option.split)

text \<open>With sharing it does so as long as no other account has a row for the work.\<close>

definition only_row :: "int \<Rightarrow> string \<Rightarrow> recover_state \<Rightarrow> bool" where
  "only_row acc pid s \<longleftrightarrow> (\<forall>r \<in> set (rq_rows s). rv_pid r = pid \<longrightarrow> row_key r = (acc, pid))"

lemma filter_key:
  "tbl_unique f t \<Longrightarrow> filter (\<lambda>r. f r = k \<and> P r) t = (case tbl_find f k t of None \<Rightarrow> [] | Some r \<Rightarrow> if P r then [r] else [])"
proof (induction t)
  case (Cons r t)
  then have "f r' \<noteq> f r" if "r' \<in> set t" for r' using that by (simp add: tbl_unique_def) (metis image_eqI)
  then have "filter (\<lambda>r. f r = k \<and> P r) t = []" if "f r = k" using that by (auto simp: filter_empty_conv)
  with Cons show ?case by (auto simp: tbl_unique_def tbl_find_def)
qed (simp add: tbl_find_def)

lemma lookup_only_row:
  assumes "tbl_unique row_key (rq_rows s)" and "shared \<longrightarrow> only_row acc pid s"
  shows "recover_lookup fail c enc shared now acc pid s = recover_lookup fail c enc False now acc pid s"
proof (cases shared)
  case True
  have "filter (\<lambda>r. rv_pid r = pid \<and> live_row now r) (rq_rows s) = filter (\<lambda>r. row_key r = (acc, pid) \<and> live_row now r) (rq_rows s)"
    by (rule filter_cong) (use assms(2) True in \<open>auto simp: only_row_def row_key_def\<close>)
  then have "select_row True now acc pid (rq_rows s) = select_row False now acc pid (rq_rows s)"
    using select_own_row [OF assms(1)] by (simp add: select_row_def filter_key [OF assms(1)] split: option.split)
  with True show ?thesis by (simp add: recover_lookup_def)
qed simp

text \<open>Without sharing, the answer to a query depends on the rows and the jobs of its account alone.\<close>

lemma recover_query_cong:
  assumes "filter (\<lambda>r. rv_account r = acc) (rq_rows s') = filter (\<lambda>r. rv_account r = acc) (rq_rows s)"
    and "job_busy s' (job_key acc pid) = job_busy s (job_key acc pid)"
  shows "fst (recover_query fail c enc False now acc pid base s') = fst (recover_query fail c enc False now acc pid base s)"
proof -
  have "select_row False now acc pid rows = select_row False now acc pid (filter (\<lambda>r. rv_account r = acc) rows)" for rows
    unfolding select_row_def by (induction rows) (auto simp: row_key_def)
  then have "recover_lookup fail c enc False now acc pid s' = recover_lookup fail c enc False now acc pid s"
    unfolding recover_lookup_def by (metis assms(1))
  moreover obtain st s1 where q: "enqueue fail now acc pid s = (st, s1)" by (cases "enqueue fail now acc pid s")
  moreover obtain st' s1' where q': "enqueue fail now acc pid s' = (st', s1')" by (cases "enqueue fail now acc pid s'")
  moreover have "st' = st" using enqueue_cases [OF q] enqueue_cases [OF q'] assms(2) by simp
  ultimately show ?thesis by (simp add: recover_query_def split: sum.split option.split)
qed

text \<open>What the service needs of its codec and cipher for the pages and the meta data of a result.\<close>

definition result_kept :: "recover_codec \<Rightarrow> cipher \<Rightarrow> string \<times> string \<Rightarrow> page list \<Rightarrow> (string \<times> json) list \<Rightarrow> bool" where
  "result_kept c enc nonces pages meta \<longleftrightarrow>
     rc_pages_in c (rc_pages_out c pages) = Some pages \<and> rc_unmarshal c (rc_map_out c meta) = Some (JObj meta) \<and>
     cipher_ok enc (fst nonces) \<and> cipher_ok enc (snd nonces) \<and>
     storable enc (rc_pages_out c pages) \<and> storable enc (rc_map_out c meta)"

text \<open>The empty list and the empty object are read as what they are.\<close>

definition empties_ok :: "recover_codec \<Rightarrow> bool" where
  "empties_ok c \<longleftrightarrow> rc_pages_in c ''[]'' = Some [] \<and> rc_unmarshal c ''{}'' = Some (JObj [])"

lemma read_final_row:
  assumes "empties_ok c" and "\<And>pages src. found = Some (pages, src) \<Longrightarrow> result_kept c enc nonces pages (snapshot_meta snap)"
  shows "read_row c enc (final_row c enc nonces acc pid snap found expire) =
     Inr (case found of
        Some (pages, src) \<Rightarrow> \<lparr>cw_status = ''ready'', cw_pages = pages, cw_source = src, cw_meta = JObj (snapshot_meta snap)\<rparr>
      | None \<Rightarrow> \<lparr>cw_status = ''not_found'', cw_pages = [], cw_source = [], cw_meta = JObj []\<rparr>)"
proof (cases found)
  case None
  have "\<not> has_prefix ''[]'' enc_prefix" "\<not> has_prefix ''{}'' enc_prefix" by code_simp+
  with None assms(1) show ?thesis by (simp add: read_row_def final_row_def empties_ok_def read_meta_def)
next
  case (Some d)
  obtain pages src where d: "d = (pages, src)" by (cases d)
  with Some assms(2) [of pages src] show ?thesis
    by (simp add: read_row_def final_row_def result_kept_def decrypt_encrypt read_meta_def)
qed

text \<open>What a query is answered after a job has ended, until its row expires and from then on.\<close>

lemma work_then_query:
  assumes "tbl_unique row_key (rq_rows s)" and "empties_ok c" and "is_numeric pid"
    and "snap = load_snapshot (\<lambda>_. False) c enc es acc pid"
    and "try_sources env srcs pid snap f = (found, f')"
    and "\<forall>pages src. found = Some (pages, src) \<longrightarrow> result_kept c enc nonces pages (snapshot_meta snap)"
    and "work (\<lambda>_. False) c enc nonces now env srcs es acc pid (s, f) = (s', f')"
    and "expire = wrap64 (now + (if found = None then rq_neg s else rq_ttl s))"
    and "tbl_unique row_key (rq_rows s'')" and "shared \<longrightarrow> only_row acc pid s''"
    and "tbl_find row_key (acc, pid) (rq_rows s'') = tbl_find row_key (acc, pid) (rq_rows s')"
  shows "(t < expire \<longrightarrow> recover_query (\<lambda>_. False) c enc shared t acc pid base s'' =
       ((case found of
           Some (pages, src) \<Rightarrow> RecoverReady (map (wrap_page base) pages) src (JObj (snapshot_meta snap))
         | None \<Rightarrow> RecoverNotFound, False), s'')) \<and>
     (expire \<le> t \<longrightarrow> fst (recover_query (\<lambda>_. False) c enc shared t acc pid base s'') =
       (RecoverFetching 5, \<not> job_busy s'' (job_key acc pid)))"
proof -
  have s': "s' = job_finish (\<lambda>_. False) c enc nonces now acc pid snap found s"
    using assms(4,5,7) by (simp add: work_def Let_def split: prod.splits)
  note look = lookup_only_row [OF assms(9,10)] lookup_own_row [OF assms(9)]
  have e: "final_expire now found s = expire" using assms(8) by (simp add: final_expire_def split: option.split)
  have row: "tbl_find row_key (acc, pid) (rq_rows s'') = Some (final_row c enc nonces acc pid snap found expire)"
    unfolding assms(11) s' by (simp add: job_finish_find e)
  have live: "live_row t (final_row c enc nonces acc pid snap found expire) \<longleftrightarrow> t < expire"
    by (simp add: live_row_def final_row_def split: option.split prod.split)
  have read: "read_row c enc (final_row c enc nonces acc pid snap found expire) =
     Inr (case found of
        Some (pages, src) \<Rightarrow> \<lparr>cw_status = ''ready'', cw_pages = pages, cw_source = src, cw_meta = JObj (snapshot_meta snap)\<rparr>
      | None \<Rightarrow> \<lparr>cw_status = ''not_found'', cw_pages = [], cw_source = [], cw_meta = JObj []\<rparr>)"
    by (rule read_final_row [OF assms(2)]) (use assms(6) in blast)
  show ?thesis
  proof (intro conjI impI)
    assume "t < expire"
    then show "recover_query (\<lambda>_. False) c enc shared t acc pid base s'' =
       ((case found of
           Some (pages, src) \<Rightarrow> RecoverReady (map (wrap_page base) pages) src (JObj (snapshot_meta snap))
         | None \<Rightarrow> RecoverNotFound, False), s'')"
      using assms(3) by (simp add: recover_query_def look row live read answer_row_def split: option.split prod.split)
  next
    assume "expire \<le> t"
    then have "recover_lookup (\<lambda>_. False) c enc shared t acc pid s'' = Inr None"
      by (simp add: look row live)
    moreover obtain st s2 where q: "enqueue (\<lambda>_. False) t acc pid s'' = (st, s2)" by (cases "enqueue (\<lambda>_. False) t acc pid s''")
    ultimately show "fst (recover_query (\<lambda>_. False) c enc shared t acc pid base s'') =
        (RecoverFetching 5, \<not> job_busy s'' (job_key acc pid))"
      using assms(3) enqueue_cases [OF q] by (simp add: recover_query_def retry_after_sec_def)
  qed
qed

section \<open>Queries and jobs together\<close>

text \<open>
  The keys in flight are those of the running jobs, each once; the table has one row per key; and a row
  that says \<^verbatim>\<open>fetching\<close> belongs to a running job or is one of the keys \<open>K\<close>.
\<close>

definition recover_inv :: "(int \<times> string) set \<Rightarrow> recover_system \<Rightarrow> bool" where
  "recover_inv K y \<longleftrightarrow>
     distinct (ry_running y) \<and> (\<forall>k. job_busy (ry_state y) k \<longleftrightarrow> k \<in> (\<lambda>(a, p). job_key a p) ` set (ry_running y)) \<and>
     tbl_unique row_key (rq_rows (ry_state y)) \<and>
     (\<forall>a p r. tbl_find row_key (a, p) (rq_rows (ry_state y)) = Some r \<longrightarrow> rv_status r = ''fetching'' \<longrightarrow>
        (a, p) \<in> set (ry_running y) \<or> (a, p) \<in> K)"

text \<open>The rows that may be left over: those of the start, and any when a write has failed.\<close>

definition leftovers :: "bool \<Rightarrow> recover_row list \<Rightarrow> (int \<times> string) set" where
  "leftovers ok rows = (if ok then {k. \<exists>r \<in> set rows. row_key r = k \<and> rv_status r = ''fetching''} else UNIV)"

lemma final_row_status: "rv_status (final_row c enc nonces acc pid snap found e) \<noteq> ''fetching''"
  by (simp add: final_row_def split: option.split prod.split)

lemma busy_key: "recover_inv K y \<Longrightarrow> job_busy (ry_state y) (job_key a p) \<longleftrightarrow> (a, p) \<in> set (ry_running y)"
  by (auto simp: recover_inv_def)

lemma recover_step_inv:
  assumes "recover_step c enc shared ok y y'" and "recover_inv K y" and "\<not> ok \<longrightarrow> K = UNIV"
  shows "recover_inv K y'"
  using assms(1)
proof cases
  case (miss pid now acc)
  with assms(2) show ?thesis by (simp add: recover_inv_def)
next
  case (start acc pid fail now s)
  note e = enqueue_cases [OF start(3)]
  then have new: "(acc, pid) \<notin> set (ry_running y)" using busy_key [OF assms(2)] by auto
  have busy: "job_busy s k \<longleftrightarrow> k = job_key acc pid \<or> job_busy (ry_state y) k" for k
    using e by (auto simp: job_busy_def)
  have "(a, p) \<in> insert (acc, pid) (set (ry_running y)) \<or> (a, p) \<in> K"
    if "tbl_find row_key (a, p) (rq_rows s) = Some r" "rv_status r = ''fetching''" for a p r
  proof (cases "(a, p) = (acc, pid)")
    case False
    with e that(1) have "tbl_find row_key (a, p) (rq_rows (ry_state y)) = Some r" by (simp add: edits_row_def)
    with that(2) assms(2) show ?thesis by (auto simp: recover_inv_def)
  qed auto
  with start(1) new busy e assms(2) show ?thesis by (auto simp: recover_inv_def edits_row_def)
next
  case (join acc pid fail now s)
  with enqueue_cases [OF join(3)] assms(2) show ?thesis by (simp add: recover_inv_def)
next
  case (finish acc pid fail nonces now snap found)
  let ?s = "job_finish fail c enc nonces now acc pid snap found (ry_state y)"
  note e = job_finish_edits [of acc pid "ry_state y" fail c enc nonces now snap found]
  have d: "distinct (ry_running y)" using assms(2) by (simp add: recover_inv_def)
  have busy: "job_busy ?s k \<longleftrightarrow> k \<noteq> job_key acc pid \<and> job_busy (ry_state y) k" for k by (auto simp: job_busy_def)
  have "(a, p) \<in> set (ry_running y) - {(acc, pid)} \<or> (a, p) \<in> K"
    if "tbl_find row_key (a, p) (rq_rows ?s) = Some r" "rv_status r = ''fetching''" for a p r
  proof (cases "(a, p) = (acc, pid)")
    case True
    show ?thesis
    proof (cases ok)
      case ok: True
      with True that(1) finish(3) have "r = final_row c enc nonces acc pid snap found (final_expire now found (ry_state y))"
        by (simp add: job_finish_find)
      with that(2) show ?thesis using final_row_status by metis
    qed (use assms(3) in simp)
  next
    case False
    with e that(1) have "tbl_find row_key (a, p) (rq_rows (ry_state y)) = Some r" by (simp add: edits_row_def)
    with that(2) assms(2) False show ?thesis by (auto simp: recover_inv_def)
  qed
  moreover have "(\<lambda>(a, p). job_key a p) ` (set (ry_running y) - {(acc, pid)}) =
      (\<lambda>(a, p). job_key a p) ` set (ry_running y) - {job_key acc pid}" by auto
  ultimately show ?thesis
    using finish(1) d busy e assms(2) by (simp add: recover_inv_def edits_row_def) blast
next
  case (limits t n)
  with assms(2) show ?thesis by (simp add: recover_inv_def set_ttl_days_def job_busy_def)
qed

lemma recover_reach_inv:
  assumes "recover_reach c enc shared ok rows y" and "tbl_unique row_key rows"
  shows "recover_inv (leftovers ok rows) y"
  using assms(1)
proof (induction rule: recover_reach.induct)
  case (recover_start t n k)
  with assms(2) show ?case by (auto simp: recover_inv_def leftovers_def job_busy_def dest: tbl_find_SomeD)
next
  case (recover_next y y')
  have "\<not> ok \<longrightarrow> leftovers ok rows = UNIV" by (simp add: leftovers_def)
  with recover_next show ?case by (blast intro: recover_step_inv)
qed

end
