(* ===== verification/RecoverProps.thy ===== *)
theory RecoverProps
  imports RecoverFacts SourcesProps
begin

text \<open>The properties of the recovery service.\<close>

section \<open>A small service\<close>

definition ex_page :: page where
  "ex_page = \<lparr>pg_page = 0, pg_url = ''https://m/7.jpg'', pg_width = 0, pg_height = 0\<rparr>"

definition ex_codec :: recover_codec where
  "ex_codec = \<lparr>rc_unmarshal = (\<lambda>t. if t = ''{}'' then Some (JObj []) else None),
     rc_pages_out = (\<lambda>ps. if ps = [] then ''[]'' else ''P''),
     rc_pages_in = (\<lambda>t. if t = ''[]'' then Some [] else if t = ''P'' then Some [ex_page] else None),
     rc_map_out = (\<lambda>m. ''{}''), rc_int = (\<lambda>_. 0)\<rparr>"

definition ex_recover :: recover_state where
  "ex_recover = \<lparr>rq_rows = [], rq_inflight = [], rq_ttl = 100, rq_neg = 10, rq_slots = 8\<rparr>"

definition ex_mirror_source :: source where "ex_mirror_source = Mirror ex_base ''m'' ''m''"

lemma ex_codec_ok: "empties_ok ex_codec" "result_kept ex_codec None ([], []) [ex_page] []"
  by (simp_all add: empties_ok_def result_kept_def ex_codec_def cipher_ok_def storable_def has_prefix_def enc_prefix_def)

lemma ex_found: "\<exists>f. try_sources ex_world [ex_mirror_source] ''7'' None ex_start = (Some ([ex_page], ''m''), f)"
proof -
  obtain f where "mirror_fetch ex_world ex_base ''m'' ''7'' ex_start = (Inr [ex_page], f)"
    using ex_mirror unfolding ex_page_def [symmetric] by (elim exE) (rule that)
  then show ?thesis by (simp add: ex_mirror_source_def)
qed

lemma ex_numeric: "is_numeric ''7''"
  by code_simp

section \<open>Properties\<close>

text \<open>
  C21: Functional. What a job has found is what its account is told, as long as nothing else writes its row (a late
  \<^verbatim>\<open>Enqueue\<close> may, see \<open>late_enqueue_hides_ready\<close>) and, with \<^verbatim>\<open>RECOVER_SHARED\<close>, no other account has a row for the work:
  in every such state, until the row expires, a query answers 200 with the pages, the source and the meta data that were
  found, or 404 when nothing was; from then on it answers 202 and starts a job again, unless one runs.
\<close>

theorem query_after_job:
  assumes "tbl_unique row_key (rq_rows s)" and "empties_ok c" and "is_numeric pid"
    and "snap = load_snapshot (\<lambda>_. False) c enc es acc pid"
    and "try_sources env srcs pid snap f = (found, f')"
    and "\<forall>pages src. found = Some (pages, src) \<longrightarrow> result_kept c enc nonces pages (snapshot_meta snap)"
    and "work (\<lambda>_. False) c enc nonces now env srcs es acc pid (s, f) = (s', f')"
    and "expire = wrap64 (now + (if found = None then rq_neg s else rq_ttl s))"
    and "tbl_unique row_key (rq_rows s'')" and "shared \<longrightarrow> only_row acc pid s''"
    and "tbl_find row_key (acc, pid) (rq_rows s'') = tbl_find row_key (acc, pid) (rq_rows s')"
  shows "(t < expire \<longrightarrow> recover_query (\<lambda>_. False) c enc shared t acc pid base s'' =
       ((case found of
           Some (pages, src) \<Rightarrow> RecoverReady (map (wrap_page base) pages) src (JObj (snapshot_meta snap))
         | None \<Rightarrow> RecoverNotFound, False), s'')) \<and>
     (expire \<le> t \<longrightarrow> fst (recover_query (\<lambda>_. False) c enc shared t acc pid base s'') =
       (RecoverFetching 5, \<not> job_busy s'' (job_key acc pid)))"
  by (rule work_then_query [OF assms])

text \<open>A job of account 2 for the same work ends in between.\<close>

theorem query_after_job_witness:
  "\<exists>s' s'' f'. work (\<lambda>_. False) ex_codec None ([], []) 1000 ex_world [ex_mirror_source] [] 1 ''7'' (ex_recover, ex_start) = (s', f') \<and>
     s'' = job_finish (\<lambda>_. False) ex_codec None ([], []) 1001 2 ''7'' None None s' \<and>
     recover_query (\<lambda>_. False) ex_codec None False 1099 1 ''7'' ''b'' s'' = ((RecoverReady [wrap_page ''b'' ex_page] ''m'' (JObj []), False), s'') \<and>
     fst (recover_query (\<lambda>_. False) ex_codec None False 1100 1 ''7'' ''b'' s') = (RecoverFetching 5, True)"
proof -
  obtain f' where f': "try_sources ex_world [ex_mirror_source] ''7'' None ex_start = (Some ([ex_page], ''m''), f')"
    using ex_found by (elim exE) (rule that)
  have snap: "None = load_snapshot (\<lambda>_. False) ex_codec None [] 1 ''7''" by (simp add: load_snapshot_def)
  obtain s' where s': "work (\<lambda>_. False) ex_codec None ([], []) 1000 ex_world [ex_mirror_source] [] 1 ''7'' (ex_recover, ex_start) = (s', f')"
    using f' by (simp add: work_def snap [symmetric])
  have eq: "s' = job_finish (\<lambda>_. False) ex_codec None ([], []) 1000 1 ''7'' None (Some ([ex_page], ''m'')) ex_recover"
    using s' f' by (simp add: work_def snap [symmetric])
  let ?s = "job_finish (\<lambda>_. False) ex_codec None ([], []) 1001 2 ''7'' None None s'"
  have kept: "\<forall>pages src. Some ([ex_page], ''m'') = Some (pages, src) \<longrightarrow>
      result_kept ex_codec None ([], []) pages (snapshot_meta None)"
    using ex_codec_ok(2) by (simp add: snapshot_meta_def)
  have exp: "1100 = wrap64 (1000 + (if Some ([ex_page], ''m'') = None then rq_neg ex_recover else rq_ttl ex_recover))"
    by (simp add: ex_recover_def is_int64_def min64_def max64_def)
  have uniq: "tbl_unique row_key (rq_rows ex_recover)" by (simp add: ex_recover_def)
  have uniq': "tbl_unique row_key (rq_rows s')"
    using job_finish_edits uniq unfolding eq edits_row_def by blast
  have other: "edits_row 2 ''7'' s' ?s" by (rule job_finish_edits)
  note q = query_after_job [OF uniq ex_codec_ok(1) ex_numeric snap f' kept s' exp, where base = "''b''" and shared = False]
  have "tbl_unique row_key (rq_rows ?s)" "tbl_find row_key (1, ''7'') (rq_rows ?s) = tbl_find row_key (1, ''7'') (rq_rows s')"
    using other uniq' unfolding edits_row_def by auto
  note q1 = q [OF this(1) _ this(2), of 1099] and q2 = q [OF uniq' _ refl, of 1100]
  have "\<not> job_busy s' (job_key 1 ''7'')" by (simp add: eq job_busy_def)
  with s' q1 q2 show ?thesis by (intro exI [of _ s'] exI [of _ ?s] exI [of _ f']) (simp add: snapshot_meta_def)
qed

text \<open>
  Safety. Without \<^verbatim>\<open>RECOVER_SHARED\<close> accounts do not see each other: neither a job nor a query of another
  account, nor one for another work, changes what a query is answered.
\<close>

theorem query_isolated:
  assumes "(acc', pid') \<noteq> (acc, pid)" and "tbl_unique row_key (rq_rows s)"
    and "s' = snd (enqueue fail now acc' pid' s) \<or> s' = job_finish fail c enc nonces now acc' pid' snap found s"
  shows "fst (recover_query (\<lambda>_. False) c enc False t acc pid base s') = fst (recover_query (\<lambda>_. False) c enc False t acc pid base s)"
proof -
  obtain st s1 where q: "enqueue fail now acc' pid' s = (st, s1)" by (cases "enqueue fail now acc' pid' s")
  have "edits_row acc' pid' s (snd (enqueue fail now acc' pid' s))" using enqueue_cases [OF q] q by simp
  with job_finish_edits [of acc' pid' s fail c enc nonces now snap found]
  have edits: "edits_row acc' pid' s s'" using assms(3) by (elim disjE) simp_all
  have busy: "job_busy s' (job_key acc pid) = job_busy s (job_key acc pid)"
    using assms(1,3) enqueue_other [OF assms(1)] by (auto simp: job_busy_def)
  have "recover_lookup (\<lambda>_. False) c enc False t acc pid s' = recover_lookup (\<lambda>_. False) c enc False t acc pid s"
  proof -
    have "tbl_unique row_key (rq_rows s')" "tbl_find row_key (acc, pid) (rq_rows s') = tbl_find row_key (acc, pid) (rq_rows s)"
      using edits assms(1) [symmetric] assms(2) unfolding edits_row_def by blast+
    with assms(2) show ?thesis by (simp add: lookup_own_row)
  qed
  moreover obtain a s2 where a: "enqueue (\<lambda>_. False) t acc pid s' = (a, s2)" by (cases "enqueue (\<lambda>_. False) t acc pid s'")
  moreover obtain b s3 where b: "enqueue (\<lambda>_. False) t acc pid s = (b, s3)" by (cases "enqueue (\<lambda>_. False) t acc pid s")
  moreover have "a = b" using enqueue_cases [OF a] enqueue_cases [OF b] busy by simp
  ultimately show ?thesis by (auto simp: recover_query_def split: sum.split option.split)
qed

theorem query_isolated_witness:
  "fst (recover_query (\<lambda>_. False) ex_codec None False 5 1 ''7'' ''b''
       (job_finish (\<lambda>_. False) ex_codec None ([], []) 1 2 ''7'' None None ex_recover)) =
   fst (recover_query (\<lambda>_. False) ex_codec None False 5 1 ''7'' ''b'' ex_recover)"
  by (rule query_isolated [OF _ _ disjI2 [OF refl]]) (simp_all add: ex_recover_def)

text \<open>
  C22: Invariant. Whatever queries and jobs run at the same time, at most one job runs for each account and
  work. A row that says \<^verbatim>\<open>fetching\<close> has a running job, which can finish, and that leaves a row that is ready or not found;
  or it is left over from an earlier run of the server or from a write that failed, and then a query that misses
  starts its job.
\<close>

theorem fetching_has_job:
  assumes "recover_reach c enc shared ok rows y" and "tbl_unique row_key rows"
  shows "distinct (ry_running y) \<and>
     (\<forall>r \<in> set (rq_rows (ry_state y)). rv_status r = ''fetching'' \<longrightarrow>
        row_key r \<in> set (ry_running y) \<or>
        (ok \<longrightarrow> (\<exists>r0 \<in> set rows. row_key r0 = row_key r \<and> rv_status r0 = ''fetching'')) \<and>
        (\<forall>fail now. fst (enqueue fail now (rv_account r) (rv_pid r) (ry_state y)))) \<and>
     (\<forall>acc pid nonces now snap found. (acc, pid) \<in> set (ry_running y) \<longrightarrow>
       (\<exists>y' r. recover_step c enc shared ok y y' \<and>
          ry_state y' = job_finish (\<lambda>_. False) c enc nonces now acc pid snap found (ry_state y) \<and>
          tbl_find row_key (acc, pid) (rq_rows (ry_state y')) = Some r \<and> rv_status r = (if found = None then ''not_found'' else ''ready'')))"
proof (intro conjI ballI allI impI)
  have inv: "recover_inv (leftovers ok rows) y" by (rule recover_reach_inv [OF assms])
  then show "distinct (ry_running y)" by (simp add: recover_inv_def)
  fix r assume r: "r \<in> set (rq_rows (ry_state y))" "rv_status r = ''fetching''"
  with inv have "tbl_find row_key (row_key r) (rq_rows (ry_state y)) = Some r"
    by (intro tbl_find_unique) (simp_all add: recover_inv_def)
  with inv r(2) have own: "row_key r \<in> set (ry_running y) \<or> row_key r \<in> leftovers ok rows"
    unfolding recover_inv_def by (metis row_key_def)
  show "row_key r \<in> set (ry_running y) \<or>
      (ok \<longrightarrow> (\<exists>r0 \<in> set rows. row_key r0 = row_key r \<and> rv_status r0 = ''fetching'')) \<and>
      (\<forall>fail now. fst (enqueue fail now (rv_account r) (rv_pid r) (ry_state y)))"
  proof (cases "row_key r \<in> set (ry_running y)")
    case False
    then have "\<not> job_busy (ry_state y) (job_key (rv_account r) (rv_pid r))"
      using busy_key [OF inv] by (simp add: row_key_def)
    then have "fst (enqueue fail now (rv_account r) (rv_pid r) (ry_state y))" for fail now
      using enqueue_cases by (metis prod.collapse)
    with own False show ?thesis by (auto simp: leftovers_def)
  qed simp
next
  fix acc pid nonces now snap and found :: "(page list \<times> string) option"
  assume run: "(acc, pid) \<in> set (ry_running y)"
  let ?s = "job_finish (\<lambda>_. False) c enc nonces now acc pid snap found (ry_state y)"
  let ?y = "y\<lparr>ry_state := ?s, ry_running := remove1 (acc, pid) (ry_running y)\<rparr>"
  have "recover_step c enc shared ok y ?y" using run by (intro recover_step.finish) simp_all
  then show "\<exists>y' r. recover_step c enc shared ok y y' \<and> ry_state y' = ?s \<and>
      tbl_find row_key (acc, pid) (rq_rows (ry_state y')) = Some r \<and> rv_status r = (if found = None then ''not_found'' else ''ready'')"
    by (intro exI [of _ ?y]) (auto simp: job_finish_find final_row_def split: option.split)
qed

text \<open>Two queries for the same work have missed, and the first one has started its job.\<close>

definition ex_two_queries :: recover_system where
  "ex_two_queries = \<lparr>ry_state = snd (enqueue (\<lambda>_. False) 0 1 ''7'' ex_recover), ry_missed = [(1, ''7'')], ry_running = [(1, ''7'')]\<rparr>"

lemma ex_two_queries_reach: "recover_reach ex_codec None False True [] ex_two_queries"
proof -
  let ?y0 = "\<lparr>ry_state = ex_recover, ry_missed = [], ry_running = []\<rparr>"
  have miss: "recover_lookup (\<lambda>_. False) ex_codec None False 0 1 ''7'' ex_recover = Inr None"
    by (simp add: recover_lookup_def select_row_def ex_recover_def)
  have "recover_reach ex_codec None False True [] ?y0" unfolding ex_recover_def by (rule recover_start)
  then have "recover_reach ex_codec None False True [] (?y0\<lparr>ry_missed := [(1, ''7'')]\<rparr>)"
    by (rule recover_next) (use recover_step.miss [OF ex_numeric, of ex_codec None False 0 1 ?y0 True] miss in simp)
  then have two: "recover_reach ex_codec None False True [] (?y0\<lparr>ry_missed := [(1, ''7''), (1, ''7'')]\<rparr>)"
    by (rule recover_next)
      (use recover_step.miss [OF ex_numeric, of ex_codec None False 0 1 "?y0\<lparr>ry_missed := [(1, ''7'')]\<rparr>" True] miss in simp)
  obtain s where s: "enqueue (\<lambda>_. False) 0 1 ''7'' ex_recover = (True, s)"
    by (cases "enqueue (\<lambda>_. False) 0 1 ''7'' ex_recover") (auto simp: enqueue_def enter_job_def ex_recover_def job_busy_def)
  show ?thesis
    by (rule recover_next [OF two])
      (use recover_step.start [of "?y0\<lparr>ry_missed := [(1, ''7''), (1, ''7'')]\<rparr>" 1 "''7''" "\<lambda>_. False" 0 s True ex_codec None False] s
        in \<open>simp add: ex_two_queries_def\<close>)
qed

theorem fetching_has_job_witness:
  "row_key (hd (rq_rows (ry_state ex_two_queries))) \<in> set (ry_running ex_two_queries) \<and>
     rv_status (hd (rq_rows (ry_state ex_two_queries))) = ''fetching'' \<and>
     (\<exists>y'. recover_step ex_codec None False True ex_two_queries y')"
proof -
  have row: "hd (rq_rows (ry_state ex_two_queries)) \<in> set (rq_rows (ry_state ex_two_queries))"
    "rv_status (hd (rq_rows (ry_state ex_two_queries))) = ''fetching''"
    by (simp_all add: ex_two_queries_def enqueue_def enter_job_def ex_recover_def job_busy_def mark_fetching_def Let_def tbl_upsert_def)
  have run: "(1, ''7'') \<in> set (ry_running ex_two_queries)" by (simp add: ex_two_queries_def)
  note h = fetching_has_job [OF ex_two_queries_reach tbl_unique_Nil]
  have "\<exists>y'. recover_step ex_codec None False True ex_two_queries y'" using h run by blast
  with h row show ?thesis by auto
qed

text \<open>
  Safety, a defect. A query that found nothing enters its job without looking again. When the job of
  an earlier query has ended in between, the late one marks the ready row as \<^verbatim>\<open>fetching\<close>, and the work,
  which could be served, is fetched once more: the next query is told to wait.
\<close>

theorem late_enqueue_hides_ready:
  assumes "recover_reach c enc False ok rows y" and "tbl_unique row_key rows"
    and "(acc, pid) \<in> set (ry_missed y)" and "(acc, pid) \<in> set (ry_running y)" and "is_numeric pid"
    and "empties_ok c" and "result_kept c enc nonces pages (snapshot_meta snap)"
    and "t < wrap64 (now + rq_ttl (ry_state y))"
  shows "\<exists>y1 y2. recover_step c enc False ok y y1 \<and> recover_step c enc False ok y1 y2 \<and>
     fst (fst (recover_query (\<lambda>_. False) c enc False t acc pid base (ry_state y1))) =
       RecoverReady (map (wrap_page base) pages) src (JObj (snapshot_meta snap)) \<and>
     fst (recover_query (\<lambda>_. False) c enc False t acc pid base (ry_state y2)) = (RecoverFetching 5, False)"
proof -
  let ?found = "Some (pages, src)"
  let ?s1 = "job_finish (\<lambda>_. False) c enc nonces now acc pid snap ?found (ry_state y)"
  let ?y1 = "y\<lparr>ry_state := ?s1, ry_running := remove1 (acc, pid) (ry_running y)\<rparr>"
  have inv: "recover_inv (leftovers ok rows) y" by (rule recover_reach_inv [OF assms(1,2)])
  have all: "\<not> ok \<longrightarrow> leftovers ok rows = UNIV" by (simp add: leftovers_def)
  have step1: "recover_step c enc False ok y ?y1" using assms(4) by (intro recover_step.finish) simp_all
  have uniq1: "tbl_unique row_key (rq_rows ?s1)"
    using recover_step_inv [OF step1 inv all] by (simp add: recover_inv_def)
  obtain st s2 where e: "enqueue (\<lambda>_. False) t acc pid ?s1 = (st, s2)" by (cases "enqueue (\<lambda>_. False) t acc pid ?s1")
  have st: "st = True" using enqueue_cases [OF e] by (simp add: job_busy_def)
  let ?y2 = "\<lparr>ry_state = s2, ry_missed = remove1 (acc, pid) (ry_missed ?y1), ry_running = (acc, pid) # ry_running ?y1\<rparr>"
  have step2: "recover_step c enc False ok ?y1 ?y2"
    by (rule recover_step.start [where fail = "\<lambda>_. False"]) (use assms(3) e st in simp_all)
  have uniq2: "tbl_unique row_key (rq_rows s2)"
    using recover_step_inv [OF step2 recover_step_inv [OF step1 inv all] all] by (simp add: recover_inv_def)
  have ready: "fst (fst (recover_query (\<lambda>_. False) c enc False t acc pid base ?s1)) =
      RecoverReady (map (wrap_page base) pages) src (JObj (snapshot_meta snap))"
  proof -
    have "read_row c enc (final_row c enc nonces acc pid snap ?found ex) =
        Inr \<lparr>cw_status = ''ready'', cw_pages = pages, cw_source = src, cw_meta = JObj (snapshot_meta snap)\<rparr>" for ex
      using read_final_row [OF assms(6), of ?found enc nonces snap acc pid ex] assms(7) by simp
    moreover have "live_row t (final_row c enc nonces acc pid snap ?found (final_expire now ?found (ry_state y)))"
      using assms(8) by (simp add: live_row_def final_row_def final_expire_def)
    ultimately show ?thesis
      using assms(5) by (simp add: recover_query_def lookup_own_row [OF uniq1] job_finish_find answer_row_def)
  qed
  have "fst (recover_query (\<lambda>_. False) c enc False t acc pid base s2) = (RecoverFetching 5, False)"
  proof -
    have s2: "s2 = mark_fetching t acc pid (?s1\<lparr>rq_inflight := job_key acc pid # rq_inflight ?s1\<rparr>)"
      using e st by (simp add: enqueue_def enter_job_def split: if_splits)
    obtain r where r: "tbl_find row_key (acc, pid) (rq_rows s2) = Some r" "rv_status r = ''fetching''"
      using mark_fetching_find s2 by metis
    then have "\<not> live_row t r" by (simp add: live_row_def)
    with r have "recover_lookup (\<lambda>_. False) c enc False t acc pid s2 = Inr None" by (simp add: lookup_own_row [OF uniq2])
    moreover have "enqueue (\<lambda>_. False) t acc pid s2 = (False, s2)"
      by (simp add: enqueue_def enter_job_def s2 job_busy_def)
    ultimately show ?thesis using assms(5) by (simp add: recover_query_def retry_after_sec_def)
  qed
  with step1 step2 ready show ?thesis by (intro exI [of _ ?y1] exI [of _ ?y2]) simp
qed

theorem late_enqueue_hides_ready_witness:
  "\<exists>y1 y2. recover_step ex_codec None False True ex_two_queries y1 \<and> recover_step ex_codec None False True y1 y2 \<and>
     fst (recover_query (\<lambda>_. False) ex_codec None False 50 1 ''7'' ''b'' (ry_state y2)) = (RecoverFetching 5, False)"
proof -
  have "(1, ''7'') \<in> set (ry_missed ex_two_queries)" "(1, ''7'') \<in> set (ry_running ex_two_queries)"
    by (simp_all add: ex_two_queries_def)
  moreover have "result_kept ex_codec None ([], []) [ex_page] (snapshot_meta None)"
    using ex_codec_ok(2) by (simp add: snapshot_meta_def)
  moreover have "50 < wrap64 (7 + rq_ttl (ry_state ex_two_queries))"
    by (simp add: ex_two_queries_def enqueue_def enter_job_def ex_recover_def job_busy_def mark_fetching_def Let_def
        is_int64_def min64_def max64_def)
  ultimately show ?thesis
    using late_enqueue_hides_ready [OF ex_two_queries_reach tbl_unique_Nil _ _ ex_numeric ex_codec_ok(1), where nonces = "([], [])"
        and pages = "[ex_page]" and snap = None and t = 50 and now = 7 and acc = 1 and base = "''b''" and src = "''m''"]
    by (elim meta_impE) (simp_all, blast)
qed

end
