(* ===== verification/RecoverPool.thy ===== *)
theory RecoverPool
  imports Sources
begin

text \<open>
  The jobs of the recovery at work (\<^verbatim>\<open>queue.go\<close>, \<^verbatim>\<open>sources/sources.go\<close>). A job is a goroutine of its own: it waits
  for a slot of the queue, asks the sources request by request, and gives the slot back. A request waits for the limiter
  of its source and for a slot of it, which \<^verbatim>\<open>do\<close> gives back when the response is there and its body has yet to be read.
\<close>

section \<open>Slots\<close>

text \<open>
  A buffered channel as a semaphore: the number of elements in it. Sending waits while it is full, and \<^verbatim>\<open>select\<close> takes
  any of the cases that can go on: \<open>first\<close> is its choice when there is room and the context is cancelled.
\<close>

definition take_slot :: "int \<Rightarrow> nat \<Rightarrow> nat option" where
  "take_slot cap used = (if int used < cap then Some (Suc used) else None)"

definition free_slot :: "nat \<Rightarrow> nat" where
  "free_slot used = used - 1"

definition acquire_slot :: "int \<Rightarrow> bool \<Rightarrow> bool \<Rightarrow> nat \<Rightarrow> (bool \<times> nat) option" where
  "acquire_slot cap cancelled first used =
     (case take_slot cap used of
        Some n \<Rightarrow> Some (if cancelled \<and> \<not> first then (False, used) else (True, n))
      | None \<Rightarrow> if cancelled then Some (False, used) else None)"

lemma take_slot_SomeD: "take_slot cap n = Some m \<Longrightarrow> m = Suc n \<and> int m \<le> cap"
  by (auto simp: take_slot_def split: if_splits)

lemma acquire_slot_TrueD: "acquire_slot cap c p n = Some (True, m) \<Longrightarrow> m = Suc n \<and> int m \<le> cap"
  by (auto simp: acquire_slot_def dest: take_slot_SomeD split: option.splits if_splits)

lemma acquire_slot_FalseD: "acquire_slot cap c p n = Some (False, m) \<Longrightarrow> m = n"
  by (auto simp: acquire_slot_def split: option.splits if_splits)

section \<open>What a job does\<close>

text \<open>
  Where the loops of a job are (\<^verbatim>\<open>work\<close>, \<^verbatim>\<open>Mirror.Fetch\<close>, \<^verbatim>\<open>SnapshotSource.Fetch\<close>): at the source \<open>i\<close>, at its page \<open>n\<close> after \<open>miss\<close>
  pages that were not found, probing the first of the URLs \<open>us\<close> (for the second time with a range), or fetching it;
  \<open>found\<close>: there is a page already. \<open>Ending\<close>: a source has found the work.
\<close>

datatype job_task =
    Trying nat | Mirroring nat nat nat | Probing nat bool "string list" bool | Fetching nat "string list" bool | Ending

text \<open>
  What comes of a request: what is asked for is there, or is not found (or fails its check); \<^verbatim>\<open>HEAD\<close> is not supported;
  another error.
\<close>

datatype task_outcome = Good | Absent | Unsupported | Broken

definition mirror_loop :: "nat \<Rightarrow> nat \<Rightarrow> nat \<Rightarrow> job_task" where
  "mirror_loop i n miss = (if n < max_pages \<and> miss < 2 then Mirroring i n miss else Ending)"

fun snapshot_loop :: "nat \<Rightarrow> string list \<Rightarrow> bool \<Rightarrow> job_task" where
  "snapshot_loop i [] found = (if found then Ending else Trying (Suc i))"
| "snapshot_loop i (u # us) found = Probing i False (u # us) found"

fun task_after :: "task_outcome \<Rightarrow> job_task \<Rightarrow> job_task" where
  "task_after r (Mirroring i n miss) =
     (if r = Good then mirror_loop i (Suc n) 0
      else if r = Absent \<and> 0 < n then mirror_loop i (Suc n) (Suc miss)
      else Trying (Suc i))"
| "task_after r (Probing i second us found) =
     (if r = Unsupported \<and> \<not> second then Probing i True us found
      else if r = Good then Fetching i us found
      else snapshot_loop i (tl us) found)"
| "task_after r (Fetching i us found) = snapshot_loop i (tl us) (found \<or> r = Good)"
| "task_after r t = t"

text \<open>The start of a source, and the end of the job: a source has found the work, or there is none left.\<close>

fun start_source :: "source \<Rightarrow> string list \<Rightarrow> nat \<Rightarrow> job_task" where
  "start_source (SnapshotSource b) us i = snapshot_loop i us False"
| "start_source (Mirror b name host) us i = Mirroring i 0 0"

fun job_over :: "source list \<Rightarrow> job_task \<Rightarrow> bool" where
  "job_over srcs (Trying i) \<longleftrightarrow> length srcs \<le> i"
| "job_over srcs Ending \<longleftrightarrow> True"
| "job_over srcs t \<longleftrightarrow> False"

text \<open>The source a task asks, and whether it is a fetch, which looks into the cache first.\<close>

fun task_source :: "job_task \<Rightarrow> nat option" where
  "task_source (Mirroring i n miss) = Some i"
| "task_source (Probing i second us found) = Some i"
| "task_source (Fetching i us found) = Some i"
| "task_source t = None"

fun fetches :: "job_task \<Rightarrow> bool" where
  "fetches (Mirroring i n miss) = True"
| "fetches (Fetching i us found) = True"
| "fetches t = False"

fun base_of :: "source \<Rightarrow> source_base" where
  "base_of (SnapshotSource b) = b"
| "base_of (Mirror b name host) = b"

lemma loop_source [simp]:
  "task_source (mirror_loop i n miss) = Some j \<Longrightarrow> j = i" "task_source (snapshot_loop i us found) = Some j \<Longrightarrow> j = i"
  by (auto simp: mirror_loop_def split: if_splits) (cases us; simp split: if_splits)

lemma task_after_source: "task_source (task_after r t) = Some i \<Longrightarrow> task_source t = Some i"
  by (cases t) (auto split: if_splits dest: loop_source)

lemma start_source_source: "task_source (start_source src us i) = Some j \<Longrightarrow> j = i"
  by (cases src) (auto dest: loop_source)

section \<open>Jobs\<close>

text \<open>
  Where a job is; a number is the source it asks. \<open>Limiting\<close> is \<^verbatim>\<open>lim.Wait\<close>, \<open>Selecting\<close> the \<^verbatim>\<open>select\<close> after it,
  \<open>Asking\<close> the request to the client, \<open>Reading\<close> what the caller of \<^verbatim>\<open>do\<close> does with the response.
\<close>

datatype job_phase = Queued | Working | Limiting nat | Selecting nat | Asking nat | Reading nat | Left

text \<open>
  \<open>po_used\<close> and \<open>po_source\<close> are the slots taken, of the queue and of each source. Every job comes with the URLs of the
  snapshot it finds when it starts, none where there is no snapshot.
\<close>

type_synonym job_place = "string list \<times> job_task"

record pool =
  po_used :: nat
  po_source :: "nat \<Rightarrow> nat"
  po_jobs :: "(job_phase \<times> job_place) list"

definition in_phase :: "nat \<Rightarrow> job_phase \<Rightarrow> job_place \<Rightarrow> pool \<Rightarrow> bool" where
  "in_phase j p n y \<longleftrightarrow> j < length (po_jobs y) \<and> po_jobs y ! j = (p, n)"

definition put_job :: "nat \<Rightarrow> job_phase \<Rightarrow> job_place \<Rightarrow> pool \<Rightarrow> pool" where
  "put_job j p n y = y\<lparr>po_jobs := (po_jobs y)[j := (p, n)]\<rparr>"

definition put_source :: "nat \<Rightarrow> nat \<Rightarrow> pool \<Rightarrow> pool" where
  "put_source i u y = y\<lparr>po_source := (po_source y)(i := u)\<rparr>"

text \<open>
  One step of a job. \<open>begin\<close> calls \<^verbatim>\<open>Fetch\<close> of the next source. \<open>cached\<close>: the image is in the cache. \<open>no_token\<close> and \<open>gave_up\<close>
  are the errors of \<^verbatim>\<open>acquire\<close>, \<open>failed\<close> those of \<^verbatim>\<open>do\<close> after it: the slot is given back by the deferred call.
\<close>

inductive job_step :: "int \<Rightarrow> source list \<Rightarrow> pool \<Rightarrow> pool \<Rightarrow> bool"
  for slots :: int and srcs :: "source list"
where
  enter: "in_phase j Queued (us, t) y \<Longrightarrow> take_slot slots (po_used y) = Some u \<Longrightarrow>
    job_step slots srcs y (put_job j Working (us, t) (y\<lparr>po_used := u\<rparr>))"
| begin_source: "in_phase j Working (us, Trying i) y \<Longrightarrow> i < length srcs \<Longrightarrow>
    job_step slots srcs y (put_job j Working (us, start_source (srcs ! i) us i) y)"
| cached: "in_phase j Working (us, t) y \<Longrightarrow> fetches t \<Longrightarrow> job_step slots srcs y (put_job j Working (us, task_after Good t) y)"
| ask: "in_phase j Working (us, t) y \<Longrightarrow> task_source t = Some i \<Longrightarrow> job_step slots srcs y (put_job j (Limiting i) (us, t) y)"
| token: "in_phase j (Limiting i) n y \<Longrightarrow> job_step slots srcs y (put_job j (Selecting i) n y)"
| no_token: "in_phase j (Limiting i) (us, t) y \<Longrightarrow> job_step slots srcs y (put_job j Working (us, task_after Broken t) y)"
| got_slot: "in_phase j (Selecting i) n y \<Longrightarrow>
    acquire_slot (sb_slots (base_of (srcs ! i))) cancelled first (po_source y i) = Some (True, u) \<Longrightarrow>
    job_step slots srcs y (put_job j (Asking i) n (put_source i u y))"
| gave_up: "in_phase j (Selecting i) (us, t) y \<Longrightarrow>
    acquire_slot (sb_slots (base_of (srcs ! i))) cancelled first (po_source y i) = Some (False, u) \<Longrightarrow>
    job_step slots srcs y (put_job j Working (us, task_after Broken t) (put_source i u y))"
| answered: "in_phase j (Asking i) n y \<Longrightarrow>
    job_step slots srcs y (put_job j (Reading i) n (put_source i (free_slot (po_source y i)) y))"
| failed: "in_phase j (Asking i) (us, t) y \<Longrightarrow>
    job_step slots srcs y (put_job j Working (us, task_after Broken t) (put_source i (free_slot (po_source y i)) y))"
| read: "in_phase j (Reading i) (us, t) y \<Longrightarrow> job_step slots srcs y (put_job j Working (us, task_after r t) y)"
| leave: "in_phase j Working (us, t) y \<Longrightarrow> job_over srcs t \<Longrightarrow>
    job_step slots srcs y (put_job j Left (us, t) (y\<lparr>po_used := free_slot (po_used y)\<rparr>))"

inductive job_run :: "int \<Rightarrow> source list \<Rightarrow> nat \<Rightarrow> pool \<Rightarrow> pool \<Rightarrow> bool"
  for slots :: int and srcs :: "source list"
where
  job_run_0: "job_run slots srcs 0 y y"
| job_run_Suc: "job_run slots srcs k y y' \<Longrightarrow> job_step slots srcs y' y'' \<Longrightarrow> job_run slots srcs (Suc k) y y''"

text \<open>The queue starts empty; \<^verbatim>\<open>Enqueue\<close> adds jobs at any time.\<close>

definition new_pool :: pool where
  "new_pool = \<lparr>po_used = 0, po_source = (\<lambda>_. 0), po_jobs = []\<rparr>"

definition add_job :: "string list \<Rightarrow> pool \<Rightarrow> pool" where
  "add_job us y = y\<lparr>po_jobs := po_jobs y @ [(Queued, us, Trying 0)]\<rparr>"

inductive pool_reach :: "int \<Rightarrow> source list \<Rightarrow> pool \<Rightarrow> bool"
  for slots :: int and srcs :: "source list"
where
  pool_new: "pool_reach slots srcs new_pool"
| pool_add: "pool_reach slots srcs y \<Longrightarrow> pool_reach slots srcs (add_job us y)"
| pool_job: "pool_reach slots srcs y \<Longrightarrow> job_step slots srcs y y' \<Longrightarrow> pool_reach slots srcs y'"

section \<open>Counting\<close>

definition jobs_in :: "(job_phase \<Rightarrow> bool) \<Rightarrow> pool \<Rightarrow> nat" where
  "jobs_in P y = length (filter (\<lambda>job. P (fst job)) (po_jobs y))"

definition holds_slot :: "job_phase \<Rightarrow> bool" where
  "holds_slot p \<longleftrightarrow> p \<noteq> Queued \<and> p \<noteq> Left"

text \<open>The source a job is at, when there is one.\<close>

fun phase_source :: "job_phase \<Rightarrow> nat option" where
  "phase_source (Limiting i) = Some i"
| "phase_source (Selecting i) = Some i"
| "phase_source (Asking i) = Some i"
| "phase_source (Reading i) = Some i"
| "phase_source _ = None"

lemma length_filter_update:
  "j < length xs \<Longrightarrow> length (filter P (xs[j := v])) + of_bool (P (xs ! j)) = length (filter P xs) + of_bool (P v)"
proof (induction xs arbitrary: j)
  case (Cons x xs)
  then show ?case by (cases j) auto
qed simp

lemma jobs_in_put:
  "in_phase j p n y \<Longrightarrow> jobs_in P (put_job j q m z) + of_bool (P p) = jobs_in P y + of_bool (P q)"
  if "po_jobs z = po_jobs y"
  using that length_filter_update [of j "po_jobs y" "\<lambda>job. P (fst job)" "(q, m)"]
  by (simp add: in_phase_def jobs_in_def put_job_def)

lemma jobs_in_add: "jobs_in P (add_job us y) = jobs_in P y + of_bool (P Queued)"
  by (simp add: jobs_in_def add_job_def)

lemma jobs_in_pos: "0 < jobs_in P y \<Longrightarrow> \<exists>j p n. in_phase j p n y \<and> P p"
  by (fastforce simp: jobs_in_def in_phase_def filter_empty_conv in_set_conv_nth)

lemma in_phase_pos: "in_phase j p n y \<Longrightarrow> P p \<Longrightarrow> 0 < jobs_in P y"
  by (force simp: jobs_in_def in_phase_def filter_empty_conv in_set_conv_nth)

section \<open>What holds of the slots\<close>

text \<open>A job that asks is at the source of its task.\<close>

definition job_ok :: "source list \<Rightarrow> job_phase \<times> job_place \<Rightarrow> bool" where
  "job_ok srcs job \<longleftrightarrow>
     (\<forall>i. phase_source (fst job) = Some i \<longrightarrow> task_source (snd (snd job)) = Some i) \<and>
     (\<forall>i. task_source (snd (snd job)) = Some i \<longrightarrow> i < length srcs)"

definition pool_inv :: "int \<Rightarrow> source list \<Rightarrow> pool \<Rightarrow> bool" where
  "pool_inv slots srcs y \<longleftrightarrow>
     po_used y = jobs_in holds_slot y \<and> int (po_used y) \<le> slots \<and>
     (\<forall>i. po_source y i = jobs_in (\<lambda>p. p = Asking i) y \<and>
        (i < length srcs \<longrightarrow> int (po_source y i) \<le> sb_slots (base_of (srcs ! i)))) \<and>
     (\<forall>job \<in> set (po_jobs y). job_ok srcs job)"

lemma pool_invD:
  assumes "pool_inv slots srcs y"
  shows "po_used y = jobs_in holds_slot y" and "int (po_used y) \<le> slots" and "po_source y i = jobs_in (\<lambda>p. p = Asking i) y"
    and "i < length srcs \<Longrightarrow> int (po_source y i) \<le> sb_slots (base_of (srcs ! i))"
    and "in_phase j p n y \<Longrightarrow> job_ok srcs (p, n)"
  using assms by (auto simp: pool_inv_def in_phase_def dest: nth_mem)

lemma phase_in_range: "job_ok srcs (p, n) \<Longrightarrow> phase_source p = Some i \<Longrightarrow> i < length srcs"
  by (auto simp: job_ok_def)

lemma job_move:
  assumes "pool_inv slots srcs y" and "in_phase j p n y" and "po_jobs z = po_jobs y"
    and "job_ok srcs (q, m)"
    and "int (po_used z) \<le> slots"
    and "po_used z + of_bool (holds_slot p) = po_used y + of_bool (holds_slot q)"
    and "\<And>i. po_source z i + of_bool (p = Asking i) = po_source y i + of_bool (q = Asking i)"
    and "\<And>i. i < length srcs \<Longrightarrow> int (po_source z i) \<le> sb_slots (base_of (srcs ! i))"
  shows "pool_inv slots srcs (put_job j q m z)"
proof -
  note inv = pool_invD [OF assms(1)]
  note count = jobs_in_put [OF assms(3,2), of _ q m]
  have "po_used z = jobs_in holds_slot (put_job j q m z)"
    using count [of holds_slot] inv(1) assms(6) by linarith
  moreover have "po_source z i = jobs_in (\<lambda>p. p = Asking i) (put_job j q m z)" for i
    using count [of "\<lambda>p. p = Asking i"] inv(3) [of i] assms(7) [of i] by linarith
  moreover have "job_ok srcs job" if job: "job \<in> set (po_jobs (put_job j q m z))" for job
  proof -
    from job have "job \<in> set (po_jobs y) \<or> job = (q, m)"
      using set_update_subset_insert [of "po_jobs y" j "(q, m)"] by (auto simp: put_job_def assms(3))
    with assms(1,4) show ?thesis by (auto simp: pool_inv_def)
  qed
  moreover have "po_used (put_job j q m z) = po_used z" "po_source (put_job j q m z) = po_source z" by (simp_all add: put_job_def)
  ultimately show ?thesis using assms(5,8) by (simp add: pool_inv_def)
qed

lemma job_ok_after: "job_ok srcs (p, us, t) \<Longrightarrow> job_ok srcs (Working, us, task_after r t)"
  by (auto simp: job_ok_def dest: task_after_source)

lemma job_step_inv:
  assumes "job_step slots srcs y y'" and "pool_inv slots srcs y"
  shows "pool_inv slots srcs y'"
  using assms(1)
proof cases
  note inv = pool_invD [OF assms(2)]
  {
    case (enter j us t u)
    with inv(5) [OF enter(2)] show ?thesis
      by (auto intro!: job_move [OF assms(2) enter(2)] inv(1-4) simp: holds_slot_def job_ok_def dest!: take_slot_SomeD)
  next
    case (begin_source j us i)
    then show ?thesis
      by (auto intro!: job_move [OF assms(2) begin_source(2)] inv(1-4) simp: holds_slot_def job_ok_def dest!: start_source_source)
  next
    case (cached j us t)
    with job_ok_after [OF inv(5) [OF cached(2)]] show ?thesis by (auto intro!: job_move [OF assms(2) cached(2)] inv(1-4) simp: holds_slot_def)
  next
    case (ask j us t i)
    with inv(5) [OF ask(2)] show ?thesis by (auto intro!: job_move [OF assms(2) ask(2)] inv(1-4) simp: holds_slot_def job_ok_def)
  next
    case (token j i n)
    with inv(5) [OF token(2)] show ?thesis by (auto intro!: job_move [OF assms(2) token(2)] inv(1-4) simp: holds_slot_def job_ok_def)
  next
    case (no_token j i us t)
    with job_ok_after [OF inv(5) [OF no_token(2)]] show ?thesis
      by (auto intro!: job_move [OF assms(2) no_token(2)] inv(1-4) simp: holds_slot_def)
  next
    case (got_slot j i n c p u)
    with inv(5) [OF got_slot(2)] show ?thesis
      by (auto intro!: job_move [OF assms(2) got_slot(2)] inv(1-4) simp: holds_slot_def put_source_def job_ok_def dest!: acquire_slot_TrueD)
  next
    case (gave_up j i us t c p u)
    with job_ok_after [OF inv(5) [OF gave_up(2)]] show ?thesis
      by (auto intro!: job_move [OF assms(2) gave_up(2)] inv(1-4) simp: holds_slot_def put_source_def dest!: acquire_slot_FalseD)
  next
    case (answered j i n)
    have "0 < po_source y i" using in_phase_pos [OF answered(2), of "\<lambda>p. p = Asking i"] by (simp add: inv(3))
    with answered inv(4) [of i] inv(5) [OF answered(2)] show ?thesis
      by (auto intro!: job_move [OF assms(2) answered(2)] inv(1-4) simp: holds_slot_def put_source_def free_slot_def job_ok_def)
  next
    case (failed j i us t)
    have "0 < po_source y i" using in_phase_pos [OF failed(2), of "\<lambda>p. p = Asking i"] by (simp add: inv(3))
    with failed inv(4) [of i] job_ok_after [OF inv(5) [OF failed(2)]] show ?thesis
      by (auto intro!: job_move [OF assms(2) failed(2)] inv(1-4) simp: holds_slot_def put_source_def free_slot_def)
  next
    case (read j i us t r)
    with job_ok_after [OF inv(5) [OF read(2)]] show ?thesis by (auto intro!: job_move [OF assms(2) read(2)] inv(1-4) simp: holds_slot_def)
  next
    case (leave j us t)
    have "0 < po_used y" using in_phase_pos [OF leave(2), of holds_slot] by (simp add: inv(1) holds_slot_def)
    with leave inv(2) inv(5) [OF leave(2)] show ?thesis
      by (auto intro!: job_move [OF assms(2) leave(2)] inv(1-4) simp: holds_slot_def free_slot_def job_ok_def)
  }
qed

lemma pool_reach_inv:
  assumes "pool_reach slots srcs y" and "0 \<le> slots" and "\<And>src. src \<in> set srcs \<Longrightarrow> 0 \<le> sb_slots (base_of src)"
  shows "pool_inv slots srcs y"
  using assms(1)
proof induction
  case pool_new
  show ?case using assms(2,3) by (simp add: pool_inv_def new_pool_def jobs_in_def)
next
  case (pool_add y us)
  then show ?case by (auto simp: pool_inv_def jobs_in_add holds_slot_def) (auto simp: add_job_def job_ok_def)
next
  case (pool_job y y')
  show ?case by (rule job_step_inv [OF pool_job(2,3)])
qed

section \<open>Nobody waits for ever\<close>

text \<open>
  The steps a job has yet to do at most: five for each request that its loops can still make, one for the start of each
  source, and those of the request at hand. A mirror is asked for \<open>max_pages\<close> pages at most, a URL of the snapshot is
  probed twice and fetched.
\<close>

fun source_cost :: "string list \<Rightarrow> source \<Rightarrow> nat" where
  "source_cost us (SnapshotSource b) = 1 + 15 * length us"
| "source_cost us (Mirror b name host) = 6 + 5 * max_pages"

definition rest_cost :: "source list \<Rightarrow> string list \<Rightarrow> nat \<Rightarrow> nat" where
  "rest_cost srcs us i = (\<Sum>src\<leftarrow>drop i srcs. source_cost us src)"

fun task_cost :: "source list \<Rightarrow> string list \<Rightarrow> job_task \<Rightarrow> nat" where
  "task_cost srcs us (Trying i) = rest_cost srcs us i"
| "task_cost srcs us (Mirroring i n miss) = 5 + 5 * (max_pages - n) + rest_cost srcs us (Suc i)"
| "task_cost srcs us (Probing i second vs found) =
     (if second then 10 else 15) + 15 * length (tl vs) + rest_cost srcs us (Suc i)"
| "task_cost srcs us (Fetching i vs found) = 5 + 15 * length (tl vs) + rest_cost srcs us (Suc i)"
| "task_cost srcs us Ending = 0"

fun phase_cost :: "job_phase \<Rightarrow> nat" where
  "phase_cost Queued = 6"
| "phase_cost Working = 5"
| "phase_cost (Limiting i) = 4"
| "phase_cost (Selecting i) = 3"
| "phase_cost (Asking i) = 2"
| "phase_cost (Reading i) = 1"
| "phase_cost Left = 0"

definition job_cost :: "source list \<Rightarrow> job_phase \<times> job_place \<Rightarrow> nat" where
  "job_cost srcs job = (case job of (p, us, t) \<Rightarrow> phase_cost p + task_cost srcs us t)"

definition pool_work :: "source list \<Rightarrow> pool \<Rightarrow> nat" where
  "pool_work srcs y = (\<Sum>job\<leftarrow>po_jobs y. job_cost srcs job)"

lemma rest_cost_Suc: "i < length srcs \<Longrightarrow> rest_cost srcs us i = source_cost us (srcs ! i) + rest_cost srcs us (Suc i)"
  by (simp add: rest_cost_def Cons_nth_drop_Suc [symmetric])

lemma mirror_loop_cost: "task_cost srcs us (mirror_loop i (Suc n) miss) \<le> 5 * (max_pages - n) + rest_cost srcs us (Suc i)"
  by (auto simp: mirror_loop_def)

lemma snapshot_loop_cost: "task_cost srcs us (snapshot_loop i vs found) \<le> 15 * length vs + rest_cost srcs us (Suc i)"
  by (cases vs) auto

text \<open>Each request, whatever comes of it, brings the job five steps nearer to its end.\<close>

lemma task_after_cost: "task_source t \<noteq> None \<Longrightarrow> task_cost srcs us (task_after r t) + 5 \<le> task_cost srcs us t"
proof (cases t)
  case (Mirroring i n miss)
  then show ?thesis
    using mirror_loop_cost [of srcs us i n 0] mirror_loop_cost [of srcs us i n "Suc miss"] by auto
next
  case (Probing i second vs found)
  then show ?thesis using snapshot_loop_cost [of srcs us i "tl vs" found] by auto
next
  case (Fetching i vs found)
  then show ?thesis using snapshot_loop_cost [of srcs us i "tl vs" "found \<or> r = Good"] by auto
qed auto

lemma start_source_cost:
  "i < length srcs \<Longrightarrow> task_cost srcs us (start_source (srcs ! i) us i) < rest_cost srcs us i"
  using snapshot_loop_cost [of srcs us i us False] by (cases "srcs ! i") (auto simp: rest_cost_Suc)

lemma pool_work_less:
  assumes "in_phase j p n y" and "po_jobs z = po_jobs y" and "job_cost srcs (q, m) < job_cost srcs (p, n)"
  shows "pool_work srcs (put_job j q m z) < pool_work srcs y"
proof -
  have "sum_list (map f (xs[j := v])) + f (xs ! j) = sum_list (map f xs) + f v" if "j < length xs"
    for f :: "job_phase \<times> job_place \<Rightarrow> nat" and xs v
    using that
  proof (induction xs arbitrary: j)
    case (Cons x xs)
    then show ?case by (cases j) auto
  qed simp
  from this [of "po_jobs y" "job_cost srcs" "(q, m)"] assms show ?thesis
    by (simp add: pool_work_def put_job_def in_phase_def)
qed

lemma fetches_source: "fetches t \<Longrightarrow> task_source t \<noteq> None"
  by (cases t) auto

lemma job_step_work:
  assumes "job_step slots srcs y y'" and "pool_inv slots srcs y"
  shows "pool_work srcs y' < pool_work srcs y"
proof -
  have after: "job_cost srcs (Working, us, task_after r t) < job_cost srcs (p, us, t)"
    if "in_phase j p (us, t) y" "phase_source p \<noteq> None" for j p us t r
  proof -
    from that pool_invD(5) [OF assms(2) that(1)] have "task_source t \<noteq> None" by (auto simp: job_ok_def)
    moreover have "0 < phase_cost p" using that(2) by (cases p) simp_all
    ultimately show ?thesis using task_after_cost [of t srcs us r] by (simp add: job_cost_def)
  qed
  from assms(1) show ?thesis
  proof cases
    case (begin_source j us i)
    with start_source_cost [of i srcs us] show ?thesis
      by (auto intro!: pool_work_less [OF begin_source(2)] simp: job_cost_def)
  next
    case (cached j us t)
    with task_after_cost [of t srcs us Good] fetches_source show ?thesis
      by (auto intro!: pool_work_less [OF cached(2)] simp: job_cost_def)
  next
    case (no_token j i us t)
    with after [OF no_token(2)] show ?thesis by (auto intro!: pool_work_less [OF no_token(2)])
  next
    case (gave_up j i us t c p u)
    with after [OF gave_up(2)] show ?thesis by (auto intro!: pool_work_less [OF gave_up(2)] simp: put_source_def)
  next
    case (failed j i us t)
    with after [OF failed(2)] show ?thesis by (auto intro!: pool_work_less [OF failed(2)] simp: put_source_def)
  next
    case (read j i us t r)
    with after [OF read(2)] show ?thesis by (auto intro!: pool_work_less [OF read(2)])
  qed (auto intro!: pool_work_less simp: job_cost_def put_source_def split: prod.split)
qed

lemma job_run_inv: "job_run slots srcs k y y' \<Longrightarrow> pool_inv slots srcs y \<Longrightarrow> pool_inv slots srcs y'"
  by (induction rule: job_run.induct) (auto dest: job_step_inv)

lemma job_run_work: "job_run slots srcs k y y' \<Longrightarrow> pool_inv slots srcs y \<Longrightarrow> pool_work srcs y' + k \<le> pool_work srcs y"
proof (induction rule: job_run.induct)
  case (job_run_Suc k y y' y'')
  from job_step_work [OF job_run_Suc(2) job_run_inv [OF job_run_Suc(1,4)]] job_run_Suc(3) [OF job_run_Suc(4)] show ?case by simp
qed simp

lemma job_run_reach: "job_run slots srcs k y y' \<Longrightarrow> pool_reach slots srcs y \<Longrightarrow> pool_reach slots srcs y'"
  by (induction rule: job_run.induct) (auto intro: pool_job)

text \<open>A job that has a slot of the queue, or one that this job waits for, can go on.\<close>

lemma working_steps:
  assumes "pool_inv slots srcs y" and "in_phase j Working (us, t) y"
  shows "\<exists>y'. job_step slots srcs y y'"
proof (cases "task_source t")
  case None
  show ?thesis
  proof (cases "job_over srcs t")
    case True
    with assms(2) show ?thesis by (blast intro: job_step.leave)
  next
    case False
    with None obtain i where "t = Trying i" "i < length srcs" by (cases t) auto
    with assms(2) show ?thesis by (blast intro: job_step.begin_source)
  qed
qed (use assms(2) in \<open>blast intro: job_step.ask\<close>)

lemma holder_steps:
  assumes "pool_inv slots srcs y" and "\<And>src. src \<in> set srcs \<Longrightarrow> 0 < sb_slots (base_of src)"
    and "in_phase j p n y" and "holds_slot p"
  shows "\<exists>y'. job_step slots srcs y y'"
proof (cases p)
  case (Selecting i)
  have "i < length srcs" using phase_in_range [OF pool_invD(5) [OF assms(1,3)]] Selecting by simp
  with assms(2) have pos: "0 < sb_slots (base_of (srcs ! i))" by simp
  show ?thesis
  proof (cases "int (po_source y i) < sb_slots (base_of (srcs ! i))")
    case True
    then have "acquire_slot (sb_slots (base_of (srcs ! i))) False True (po_source y i) = Some (True, Suc (po_source y i))"
      by (simp add: acquire_slot_def take_slot_def)
    with assms(3) Selecting show ?thesis by (blast intro: job_step.got_slot)
  next
    case False
    with pos have "0 < po_source y i" by simp
    then obtain j' us' t' where "in_phase j' (Asking i) (us', t') y"
      using jobs_in_pos [of "\<lambda>p. p = Asking i" y] pool_invD(3) [OF assms(1)] by auto
    then show ?thesis by (blast intro: job_step.failed)
  qed
next
  case Working
  with assms(3) working_steps [OF assms(1), of j "fst n" "snd n"] show ?thesis by simp
next
  case (Reading i)
  with assms(3) have "in_phase j (Reading i) (fst n, snd n) y" by simp
  then show ?thesis by (blast intro: job_step.read)
qed (use assms(3,4) in \<open>auto simp: holds_slot_def intro: job_step.intros\<close>)

lemma pool_progress:
  assumes "pool_inv slots srcs y" and "0 < slots" and "\<And>src. src \<in> set srcs \<Longrightarrow> 0 < sb_slots (base_of src)"
    and "in_phase j p n y" and "p \<noteq> Left"
  shows "\<exists>y'. job_step slots srcs y y'"
proof (cases "holds_slot p")
  case True
  show ?thesis by (rule holder_steps [OF assms(1,3,4) True])
next
  case False
  with assms(5) have p: "p = Queued" by (simp add: holds_slot_def)
  show ?thesis
  proof (cases "int (po_used y) < slots")
    case True
    then have "take_slot slots (po_used y) = Some (Suc (po_used y))" by (simp add: take_slot_def)
    moreover have "in_phase j Queued (fst n, snd n) y" using assms(4) p by simp
    ultimately show ?thesis by (blast intro: job_step.enter)
  next
    case False
    with assms(2) have "0 < po_used y" by simp
    then obtain j' p' n' where "in_phase j' p' n' y" "holds_slot p'"
      using jobs_in_pos [of holds_slot y] pool_invD(1) [OF assms(1)] by auto
    with holder_steps [OF assms(1)] assms(3) show ?thesis by blast
  qed
qed

end
