(* ===== verification/Settings.thy ===== *)
theory Settings
  imports CacheFacts Recover Auth
begin

text \<open>
  \<^verbatim>\<open>internal/admin/settings.go\<close>: the settings that can be changed while the server runs. A value comes
  from the table \<^verbatim>\<open>settings\<close>, from the environment the server was started with, or is the default,
  in this order; applying the settings hands their values to the components they belong to.
  \<^verbatim>\<open>strconv.ParseFloat\<close> is the parameter \<open>pf\<close>.
\<close>

section \<open>Keys, values and parsing\<close>

definition key_cache_max :: string where "key_cache_max = ''cache_max_bytes''"
definition key_cache_mark :: string where "key_cache_mark = ''cache_high_watermark''"
definition key_recover_ttl :: string where "key_recover_ttl = ''recover_ttl_days''"
definition key_recover_neg :: string where "key_recover_neg = ''recover_negative_ttl_days''"
definition key_rate_write :: string where "key_rate_write = ''rate_write_per_min''"
definition key_rate_img :: string where "key_rate_img = ''rate_img_per_min''"
definition key_invites :: string where "key_invites = ''invite_codes''"

definition write_burst :: int where "write_burst = 10"
definition img_burst :: int where "img_burst = 30"

datatype setting_value = SInt int | SFloat float64 | SText string

datatype setting_source = FromDb | FromEnv | FromDefault

type_synonym parse_float = "string \<Rightarrow> float64 option"

definition parse_positive_int :: "string \<Rightarrow> string + setting_value" where
  "parse_positive_int raw =
     (case parse_int64 (trim_space raw) of
        None \<Rightarrow> Inl ''must be a positive integer''
      | Some v \<Rightarrow> if v \<le> 0 then Inl ''must be a positive integer'' else Inr (SInt v))"

text \<open>\<^verbatim>\<open>v >= 1\<close>; like every comparison with a NaN it is false for NaN.\<close>

fun fl_ge_1 :: "float64 \<Rightarrow> bool" where
  "fl_ge_1 (Fin x) = (1 \<le> x)"
| "fl_ge_1 PosInf = True"
| "fl_ge_1 NegInf = False"
| "fl_ge_1 NaN = False"

definition parse_watermark :: "parse_float \<Rightarrow> string \<Rightarrow> string + setting_value" where
  "parse_watermark pf raw =
     (case pf (trim_space raw) of
        None \<Rightarrow> Inl ''must be a float in (0, 1)''
      | Some v \<Rightarrow> if fl_le_0 v \<or> fl_ge_1 v then Inl ''must be a float in (0, 1)'' else Inr (SFloat v))"

text \<open>\<^verbatim>\<open>strings.FieldsFunc\<close>: the maximal parts without a separator.\<close>

fun fields_func :: "(char \<Rightarrow> bool) \<Rightarrow> string \<Rightarrow> string \<Rightarrow> string list" where
  "fields_func sep w [] = (if w = [] then [] else [rev w])"
| "fields_func sep w (c # cs) =
     (if sep c then (if w = [] then fields_func sep [] cs else rev w # fields_func sep [] cs)
      else fields_func sep (c # w) cs)"

definition code_sep :: "char \<Rightarrow> bool" where
  "code_sep c \<longleftrightarrow> List.member [CHR '','', CHR 0x0A, CHR 0x0D, CHR 0x09, CHR '' ''] c"

text \<open>The loop keeps the first of equal codes; \<open>seen\<close> are the ones already kept.\<close>

fun dedupe :: "string list \<Rightarrow> string list \<Rightarrow> string list" where
  "dedupe seen [] = []"
| "dedupe seen (w # ws) = (if List.member seen w then dedupe seen ws else w # dedupe (w # seen) ws)"

definition parse_invite_codes :: "string \<Rightarrow> string + setting_value" where
  "parse_invite_codes raw = Inr (SText (join_with CHR '','' (dedupe [] (fields_func code_sep [] raw))))"

text \<open>\<^verbatim>\<open>settingDefs\<close>: the name of the environment variable, the default and the parser of each key.\<close>

record setting_def =
  sd_env :: string
  sd_default :: setting_value
  sd_parse :: "string \<Rightarrow> string + setting_value"

definition setting_defs :: "parse_float \<Rightarrow> (string \<times> setting_def) list" where
  "setting_defs pf =
     [(key_cache_max, \<lparr>sd_env = ''CACHE_MAX_BYTES'', sd_default = SInt default_max_bytes, sd_parse = parse_positive_int\<rparr>),
      (key_cache_mark, \<lparr>sd_env = ''CACHE_HIGH_WATERMARK'', sd_default = SFloat default_mark, sd_parse = parse_watermark pf\<rparr>),
      (key_recover_ttl, \<lparr>sd_env = ''RECOVER_TTL_DAYS'', sd_default = SInt 90, sd_parse = parse_positive_int\<rparr>),
      (key_recover_neg, \<lparr>sd_env = ''RECOVER_NEGATIVE_TTL_DAYS'', sd_default = SInt 7, sd_parse = parse_positive_int\<rparr>),
      (key_rate_write, \<lparr>sd_env = ''RATE_WRITE_PER_MIN'', sd_default = SInt 60, sd_parse = parse_positive_int\<rparr>),
      (key_rate_img, \<lparr>sd_env = ''RATE_IMG_PER_MIN'', sd_default = SInt 300, sd_parse = parse_positive_int\<rparr>),
      (key_invites, \<lparr>sd_env = ''INVITE_CODES'', sd_default = SText [], sd_parse = parse_invite_codes\<rparr>)]"

definition setting_def_of :: "parse_float \<Rightarrow> string \<Rightarrow> setting_def option" where
  "setting_def_of pf key = map_of (setting_defs pf) key"

section \<open>Resolving\<close>

record setting_row =
  sg_key :: string
  sg_value :: string
  sg_updated :: int

text \<open>\<^verbatim>\<open>EnvSnapshotFromEnv\<close>; \<open>getenv\<close> is the environment of the process.\<close>

definition env_snapshot :: "parse_float \<Rightarrow> (string \<Rightarrow> string option) \<Rightarrow> string \<Rightarrow> setting_value option" where
  "env_snapshot pf getenv key =
     (case setting_def_of pf key of
        None \<Rightarrow> None
      | Some d \<Rightarrow>
          (case getenv (sd_env d) of
             None \<Rightarrow> None
           | Some raw \<Rightarrow> (case sd_parse d raw of Inl e \<Rightarrow> None | Inr v \<Rightarrow> Some v)))"

text \<open>\<open>fail key\<close>: the query for this key fails, which counts as no row.\<close>

definition resolve ::
  "parse_float \<Rightarrow> (string \<Rightarrow> bool) \<Rightarrow> (string \<Rightarrow> setting_value option) \<Rightarrow> setting_row list \<Rightarrow> string
     \<Rightarrow> (setting_value \<times> setting_source) option" where
  "resolve pf fail env rows key =
     (case setting_def_of pf key of
        None \<Rightarrow> None
      | Some d \<Rightarrow>
          let fallback = (case env key of Some v \<Rightarrow> (v, FromEnv) | None \<Rightarrow> (sd_default d, FromDefault))
          in Some (if fail key then fallback
                   else case tbl_find sg_key key rows of
                          None \<Rightarrow> fallback
                        | Some r \<Rightarrow> (case sd_parse d (sg_value r) of Inl e \<Rightarrow> fallback | Inr v \<Rightarrow> (v, FromDb))))"

definition resolve_all ::
  "parse_float \<Rightarrow> (string \<Rightarrow> bool) \<Rightarrow> (string \<Rightarrow> setting_value option) \<Rightarrow> setting_row list
     \<Rightarrow> (string \<times> setting_value \<times> setting_source) list" where
  "resolve_all pf fail env rows =
     List.map_filter (\<lambda>(key, d). map_option (Pair key) (resolve pf fail env rows key)) (setting_defs pf)"

section \<open>Applying\<close>

text \<open>The components the settings reach; the limiters' buckets are those of a parameter.\<close>

record ('r, 'l) live_parts =
  lp_cache :: cache_state
  lp_recover :: recover_state
  lp_write :: "('r, 'l) limiter"
  lp_img :: "('r, 'l) limiter"
  lp_auth :: auth_state

text \<open>The type assertions of \<^verbatim>\<open>applyAll\<close>: a value of another kind would panic, result \<open>None\<close>.\<close>

fun as_int :: "setting_value option \<Rightarrow> int option" where
  "as_int (Some (SInt i)) = Some i"
| "as_int _ = None"

fun as_float :: "setting_value option \<Rightarrow> float64 option" where
  "as_float (Some (SFloat x)) = Some x"
| "as_float _ = None"

fun as_text :: "setting_value option \<Rightarrow> string option" where
  "as_text (Some (SText t)) = Some t"
| "as_text _ = None"

definition csv_to_list :: "string \<Rightarrow> string list" where
  "csv_to_list csv = (if csv = [] then [] else split_on CHR '','' csv)"

text \<open>\<open>rate_of n\<close> is the rate of \<open>n\<close> requests a minute.\<close>

definition apply_values ::
  "('r, 'l) rate_ops \<Rightarrow> (int \<Rightarrow> 'r) \<Rightarrow> int \<Rightarrow> (string \<Rightarrow> setting_value option) \<Rightarrow> ('r, 'l) live_parts
     \<Rightarrow> ('r, 'l) live_parts option" where
  "apply_values ops rate_of now val p =
     (case (as_int (val key_cache_max), as_float (val key_cache_mark), as_int (val key_recover_ttl),
            as_int (val key_recover_neg), as_int (val key_rate_write), as_int (val key_rate_img),
            as_text (val key_invites)) of
        (Some mx, Some mark, Some ttl, Some neg, Some rw, Some ri, Some codes) \<Rightarrow>
          Some \<lparr>lp_cache = set_limits mx mark (lp_cache p),
                lp_recover = set_ttl_days ttl neg (lp_recover p),
                lp_write = set_rate ops now (rate_of rw) write_burst (lp_write p),
                lp_img = set_rate ops now (rate_of ri) img_burst (lp_img p),
                lp_auth = set_invite_codes (csv_to_list codes) (lp_auth p)\<rparr>
      | _ \<Rightarrow> None)"

definition apply_all ::
  "parse_float \<Rightarrow> ('r, 'l) rate_ops \<Rightarrow> (int \<Rightarrow> 'r) \<Rightarrow> int \<Rightarrow> (string \<Rightarrow> bool)
     \<Rightarrow> (string \<Rightarrow> setting_value option) \<Rightarrow> setting_row list \<Rightarrow> ('r, 'l) live_parts
     \<Rightarrow> ('r, 'l) live_parts option" where
  "apply_all pf ops rate_of now fail env rows p =
     apply_values ops rate_of now (\<lambda>key. map_option fst (resolve pf fail env rows key)) p"

section \<open>Changing\<close>

text \<open>The loop of \<^verbatim>\<open>validatePatch\<close>; the list is the order in which Go visits the map.\<close>

fun validate_patch :: "parse_float \<Rightarrow> (string \<times> string) list \<Rightarrow> go_error + (string \<times> string) list" where
  "validate_patch pf [] = Inr []"
| "validate_patch pf ((key, raw) # kvs) =
     (case setting_def_of pf key of
        None \<Rightarrow> Inl (bad_request (''unknown setting key: '' @ key))
      | Some d \<Rightarrow>
          (case sd_parse d raw of
             Inl m \<Rightarrow> Inl (bad_request (''invalid value for '' @ key @ '': '' @ m))
           | Inr v \<Rightarrow>
               (case validate_patch pf kvs of
                  Inl e \<Rightarrow> Inl e
                | Inr kvs' \<Rightarrow> Inr ((key, trim_space raw) # kvs'))))"

datatype setting_step = BeginSettings | UpsertSetting string | CommitSettings

definition put_setting :: "int \<Rightarrow> string \<times> string \<Rightarrow> setting_row list \<Rightarrow> setting_row list" where
  "put_setting now kv rows =
     tbl_upsert sg_key (\<lambda>r. r\<lparr>sg_value := snd kv, sg_updated := now\<rparr>)
       \<lparr>sg_key = fst kv, sg_value = snd kv, sg_updated = now\<rparr> rows"

definition persist_settings ::
  "(setting_step \<Rightarrow> bool) \<Rightarrow> int \<Rightarrow> (string \<times> string) list \<Rightarrow> setting_row list \<Rightarrow> go_error + setting_row list" where
  "persist_settings fail now kvs rows =
     (if fail BeginSettings then Inl (Internal ''begin settings tx'')
      else if list_ex (\<lambda>kv. fail (UpsertSetting (fst kv))) kvs then Inl (Internal ''upsert setting'')
      else if fail CommitSettings then Inl (Internal ''commit settings tx'')
      else Inr (fold (put_setting now) kvs rows))"

section \<open>Facts\<close>

lemma tbl_find_put_setting [table_simps]:
  "map_option sg_value (tbl_find sg_key k (put_setting now kv rows)) =
     (if k = fst kv then Some (snd kv) else map_option sg_value (tbl_find sg_key k rows))"
  by (auto simp: put_setting_def tbl_find_upsert split: option.split)

lemma persist_values:
  assumes "persist_settings fail now kvs rows = Inr rows'" and "distinct (map fst kvs)"
  shows "map_option sg_value (tbl_find sg_key k rows') =
     (case map_of kvs k of Some v \<Rightarrow> Some v | None \<Rightarrow> map_option sg_value (tbl_find sg_key k rows))"
proof -
  have "map_option sg_value (tbl_find sg_key k (fold (put_setting now) kvs rows)) =
      (case map_of kvs k of Some v \<Rightarrow> Some v | None \<Rightarrow> map_option sg_value (tbl_find sg_key k rows))"
    using assms(2)
  proof (induction kvs arbitrary: rows)
    case Nil
    then show ?case by simp
  next
    case (Cons kv kvs)
    then have "map_of kvs (fst kv) = None" by (simp add: map_of_eq_None_iff)
    with Cons show ?case by (cases kv) (auto simp: tbl_find_put_setting split: option.split)
  qed
  with assms(1) show ?thesis by (auto simp: persist_settings_def split: if_splits)
qed

lemma validate_patch_ok:
  "validate_patch pf kvs = Inr kvs' \<Longrightarrow>
     kvs' = map (\<lambda>(k, raw). (k, trim_space raw)) kvs \<and>
     (\<forall>(k, raw) \<in> set kvs. \<exists>d v. setting_def_of pf k = Some d \<and> sd_parse d raw = Inr v)"
  by (induction pf kvs arbitrary: kvs' rule: validate_patch.induct) (auto split: option.splits sum.splits)

end
