(* ===== verification/Config.thy ===== *)
theory Config
  imports Path Strconv Settings
begin

text \<open>
  \<^verbatim>\<open>internal/config\<close>: the settings the server is started with, read from the environment. The parser
  of floats and the parsers of addresses are parameters.
\<close>

section \<open>Reading variables\<close>

type_synonym environment = "string \<Rightarrow> string option"

text \<open>\<^verbatim>\<open>os.Getenv\<close> does not tell an empty variable from a missing one.\<close>

definition env_get :: "environment \<Rightarrow> string \<Rightarrow> string" where
  "env_get env name = (case env name of None \<Rightarrow> [] | Some v \<Rightarrow> v)"

definition env_or :: "environment \<Rightarrow> string \<Rightarrow> string \<Rightarrow> string" where
  "env_or env name dflt = (if env_get env name = [] then dflt else env_get env name)"

definition split_csv :: "string \<Rightarrow> string list" where
  "split_csv s = filter (\<lambda>w. w \<noteq> []) (map trim_space (split_on CHR '','' s))"

definition env_int64 :: "environment \<Rightarrow> string \<Rightarrow> int \<Rightarrow> int" where
  "env_int64 env name dflt = (case parse_int64 (trim_space (env_get env name)) of None \<Rightarrow> dflt | Some v \<Rightarrow> v)"

text \<open>\<^verbatim>\<open>int\<close> has 64 bits.\<close>

definition env_int :: "environment \<Rightarrow> string \<Rightarrow> int \<Rightarrow> int" where
  "env_int env name dflt = wrap64 (env_int64 env name (wrap64 dflt))"

definition env_float :: "parse_float \<Rightarrow> environment \<Rightarrow> string \<Rightarrow> float64 \<Rightarrow> float64" where
  "env_float pf env name dflt = (case pf (trim_space (env_get env name)) of None \<Rightarrow> dflt | Some v \<Rightarrow> v)"

text \<open>\<^verbatim>\<open>v > 0\<close>, false for NaN.\<close>

definition fl_pos :: "float64 \<Rightarrow> bool" where
  "fl_pos v \<longleftrightarrow> \<not> fl_le_0 v \<and> v \<noteq> NaN"

definition env_float_def :: "parse_float \<Rightarrow> environment \<Rightarrow> string \<Rightarrow> float64 \<Rightarrow> float64" where
  "env_float_def pf env name dflt =
     (let v = env_float pf env name (Fin 0) in if fl_pos v then v else dflt)"

definition env_bool :: "(string \<Rightarrow> string) \<Rightarrow> environment \<Rightarrow> string \<Rightarrow> bool" where
  "env_bool ul env name \<longleftrightarrow> List.member [''1'', ''true'', ''yes''] (to_lower ul (trim_space (env_get env name)))"

text \<open>\<^verbatim>\<open>net.ParseIP\<close>, \<^verbatim>\<open>IP.To4() != nil\<close> and \<^verbatim>\<open>net.ParseCIDR\<close>.\<close>

record ('ip, 'net) cidr_ops =
  co_ip :: "string \<Rightarrow> 'ip option"
  co_is4 :: "'ip \<Rightarrow> bool"
  co_cidr :: "string \<Rightarrow> 'net option"

definition cidr_item :: "('ip, 'net) cidr_ops \<Rightarrow> string \<Rightarrow> 'net option" where
  "cidr_item ops item =
     (if List.member item CHR ''/'' then co_cidr ops item
      else case co_ip ops item of
             None \<Rightarrow> None
           | Some ip \<Rightarrow> co_cidr ops (item @ ''/'' @ format_int (if co_is4 ops ip then 32 else 128)))"

definition parse_cidrs :: "('ip, 'net) cidr_ops \<Rightarrow> string \<Rightarrow> 'net list" where
  "parse_cidrs ops s = List.map_filter (cidr_item ops) (split_csv s)"

section \<open>The settings\<close>

record 'net config =
  cf_port :: string
  cf_data_dir :: string
  cf_db_path :: string
  cf_invite_codes :: "string list"
  cf_static_tokens :: "string list"
  cf_relay_hosts :: "string list"
  cf_proxy :: string
  cf_img_hosts :: "string list"
  cf_cache_dir :: string
  cf_cache_tmp :: string
  cf_cache_max :: int
  cf_cache_layout :: string
  cf_cache_mark :: float64
  cf_cache_batch :: int
  cf_sources :: "string list"
  cf_ttl_days :: int
  cf_neg_days :: int
  cf_shared :: bool
  cf_recover_tmp :: string
  cf_web_dir :: string
  cf_origins :: "string list"
  cf_enc_key :: string
  cf_admin_token :: string
  cf_rate_write :: float64
  cf_rate_img :: float64
  cf_rate_register :: float64
  cf_proxies :: "'net list"

definition load_config ::
  "(string \<Rightarrow> string) \<Rightarrow> parse_float \<Rightarrow> ('ip, 'net) cidr_ops \<Rightarrow> environment \<Rightarrow> 'net config" where
  "load_config ul pf ops env =
     (let data_dir = env_or env ''DATA_DIR'' ''./data'';
          sources = split_csv (env_get env ''RECOVER_SOURCES'')
      in \<lparr>cf_port = env_or env ''PORT'' ''8080'',
          cf_data_dir = data_dir,
          cf_db_path = env_or env ''DB_PATH'' (path_join [data_dir, ''relay.db'']),
          cf_invite_codes = split_csv (env_get env ''INVITE_CODES''),
          cf_static_tokens = split_csv (env_get env ''STATIC_TOKENS''),
          cf_relay_hosts = split_csv (env_get env ''RELAY_EXTRA_HOSTS''),
          cf_proxy = trim_space (env_get env ''UPSTREAM_PROXY''),
          cf_img_hosts = split_csv (env_get env ''IMG_EXTRA_HOSTS''),
          cf_cache_dir = env_or env ''CACHE_DIR'' (path_join [data_dir, ''cache'']),
          cf_cache_tmp = env_get env ''CACHE_TMP_DIR'',
          cf_cache_max = env_int64 env ''CACHE_MAX_BYTES'' 0,
          cf_cache_layout = env_get env ''CACHE_LAYOUT'',
          cf_cache_mark = env_float pf env ''CACHE_HIGH_WATERMARK'' (Fin 0),
          cf_cache_batch = env_int env ''CACHE_EVICTION_BATCH'' 0,
          cf_sources = (if sources = [] then [''snapshot'', ''pixiv_cat'', ''pixiv_re''] else sources),
          cf_ttl_days = env_int env ''RECOVER_TTL_DAYS'' 90,
          cf_neg_days = env_int env ''RECOVER_NEGATIVE_TTL_DAYS'' 7,
          cf_shared = env_bool ul env ''RECOVER_SHARED'',
          cf_recover_tmp = env_or env ''RECOVER_TMP_DIR'' (path_join [data_dir, ''recover-tmp'']),
          cf_web_dir = trim_space (env_get env ''WEB_DIR''),
          cf_origins = split_csv (env_get env ''CORS_ORIGINS''),
          cf_enc_key = trim_space (env_get env ''DATA_ENC_KEY''),
          cf_admin_token = trim_space (env_get env ''ADMIN_TOKEN''),
          cf_rate_write = env_float_def pf env ''RATE_WRITE_PER_MIN'' (Fin 60),
          cf_rate_img = env_float_def pf env ''RATE_IMG_PER_MIN'' (Fin 300),
          cf_rate_register = env_float_def pf env ''RATE_REGISTER_PER_HOUR'' (Fin 10),
          cf_proxies = parse_cidrs ops (env_get env ''TRUSTED_PROXIES'')\<rparr>)"

section \<open>Facts\<close>

lemma trim_space_Nil [simp]: "trim_space [] = []"
  by code_simp

lemma split_csv_Nil [simp]: "split_csv [] = []"
  by (simp add: split_csv_def)

lemma env_int_eq: "is_int64 dflt \<Longrightarrow> env_int env name dflt = env_int64 env name dflt"
  using parse_int64_range by (auto simp: env_int_def env_int64_def split: option.split)

text \<open>A text is dense when it has no white space: printable ASCII without the blank.\<close>

definition dense :: "string \<Rightarrow> bool" where
  "dense s \<longleftrightarrow> list_all (\<lambda>c. (33 :: nat) \<le> of_char c \<and> of_char c < (127 :: nat)) s"

lemma dense_no_space:
  assumes "c \<in> set s" and "dense s"
  shows "\<forall>p \<in> set (space_runes @ map rev space_runes). hd p \<noteq> c"
proof -
  have "\<forall>p \<in> set (space_runes @ map rev space_runes). \<not> ((33 :: nat) \<le> of_char (hd p) \<and> of_char (hd p) < (127 :: nat))"
    by code_simp
  with assms show ?thesis by (auto simp: dense_def list_all_iff)
qed

lemma trim_space_dense: "dense s \<Longrightarrow> trim_space s = s"
proof -
  assume d: "dense s"
  have keep: "strip_any ps t = t" if "set t \<subseteq> set s" "set ps \<subseteq> set (space_runes @ map rev space_runes)" for ps t
  proof (rule strip_any_id, intro ballI impI notI)
    fix p assume p: "p \<in> set ps" "p \<noteq> []" "has_prefix t p"
    from p(2) obtain c r where "p = c # r" by (meson neq_Nil_conv)
    with p(3) have "c \<in> set t" by (cases t) (auto simp: has_prefix_def)
    with dense_no_space [OF _ d] that p(1) \<open>p = c # r\<close> show False by fastforce
  qed
  from keep [of s space_runes] keep [of "rev s" "map rev space_runes"] show ?thesis by (simp add: trim_space_def)
qed

lemma fields_split:
  "c \<notin> set w \<Longrightarrow> (\<And>x. x \<in> set s \<Longrightarrow> sep x \<longleftrightarrow> x = c) \<Longrightarrow>
     fields_func sep w s = filter (\<lambda>v. v \<noteq> []) (split_on c (rev w @ s))"
proof (induction s arbitrary: w)
  case Nil
  then show ?case by (simp add: split_on_free)
next
  case (Cons x s)
  show ?case
  proof (cases "x = c")
    case True
    then have "split_on c (rev w @ x # s) = rev w # split_on c s" using Cons.prems(1) by (simp add: split_on_append)
    with True Cons.IH [of "[]"] Cons.prems(2) show ?thesis by auto
  next
    case False
    with Cons.IH [of "x # w"] Cons.prems show ?thesis by simp
  qed
qed

lemma set_dedupe: "set (dedupe seen ws) = set ws - set seen"
  by (induction seen ws rule: dedupe.induct) auto

lemma split_dense: "dense s \<Longrightarrow> w \<in> set (split_on CHR '','' s) \<Longrightarrow> dense w"
proof (induction s arbitrary: w)
  case (Cons x s)
  then show ?case by (auto simp: dense_def split: if_splits list.splits)
qed (simp add: dense_def)

text \<open>For a dense text the two readers of invitation codes agree.\<close>

lemma invite_codes_agree:
  assumes "dense raw"
  shows "\<exists>t. parse_invite_codes raw = Inr (SText t) \<and> set (csv_to_list t) = set (split_csv raw)"
proof -
  let ?ws = "dedupe [] (fields_func code_sep [] raw)"
  have "code_sep x \<longleftrightarrow> x = CHR '',''" if "x \<in> set raw" for x
  proof -
    have "\<forall>x \<in> set [CHR 0x0A, CHR 0x0D, CHR 0x09, CHR '' '']. \<not> (33 :: nat) \<le> of_char x" by code_simp
    moreover have "(33 :: nat) \<le> of_char x" using assms that by (auto simp: dense_def list_all_iff)
    ultimately show ?thesis by (auto simp: code_sep_def)
  qed
  then have fields: "fields_func code_sep [] raw = filter (\<lambda>v. v \<noteq> []) (split_on CHR '','' raw)"
    using fields_split [of "CHR '',''" "[]" raw code_sep] by simp
  have "map trim_space (split_on CHR '','' raw) = split_on CHR '','' raw"
    by (rule map_idI) (rule trim_space_dense, rule split_dense [OF assms])
  then have ws: "set ?ws = set (split_csv raw)" by (simp add: set_dedupe fields split_csv_def)
  have no_comma: "\<forall>w \<in> set ?ws. CHR '','' \<notin> set w"
    by (auto simp: set_dedupe fields dest: split_on_no_sep)
  have "csv_to_list (join_with CHR '','' ?ws) = ?ws"
  proof (cases ?ws)
    case Nil
    then show ?thesis by (simp add: csv_to_list_def)
  next
    case (Cons w ws)
    moreover have "w \<noteq> []" using Cons set_dedupe [of "[]" "fields_func code_sep [] raw"] fields by auto
    ultimately have "join_with CHR '','' ?ws \<noteq> []" by (cases ws) auto
    then show ?thesis using split_join [of ?ws] no_comma Cons by (simp add: csv_to_list_def)
  qed
  with ws show ?thesis by (simp add: parse_invite_codes_def)
qed

end
