(* ===== verification/Db.thy ===== *)
theory Db
  imports Prelude "HOL-Library.Char_ord" "HOL-Library.List_Lexorder"
begin

text \<open>
  \<^verbatim>\<open>internal/db\<close>: the connection string and the migrations. SQLite is a parameter: \<open>exec\<close> runs the
  text of a migration on the data and fails or returns the new data.
\<close>

section \<open>Opening (db.go)\<close>

definition db_dsn :: "string \<Rightarrow> string" where
  "db_dsn path =
     ''file:'' @ path @
     ''?_pragma=journal_mode(WAL)&_pragma=synchronous(NORMAL)&_pragma=foreign_keys(ON)&_pragma=busy_timeout(5000)''"

datatype db_step =
    OpenDb | PingDb | CreateLedger | ReadDir | CheckApplied string | ReadSql string | BeginMigration string
  | RecordMigration string | CommitMigration string

definition db_open :: "(string \<Rightarrow> 'db) \<Rightarrow> (db_step \<Rightarrow> bool) \<Rightarrow> string \<Rightarrow> go_error + 'db" where
  "db_open connect fail path =
     (if fail OpenDb then Inl (Internal ''open sqlite'')
      else if fail PingDb then Inl (Internal ''ping sqlite'')
      else Inr (connect (db_dsn path)))"

section \<open>Migrations (migrate.go)\<close>

text \<open>The ledger \<^verbatim>\<open>schema_migrations\<close> has the names and times of the applied migrations.\<close>

record 'd database =
  db_ledger :: "(string \<times> int) list"
  db_data :: 'd

text \<open>An embedded file: its name, and its text or \<open>None\<close> for a directory.\<close>

type_synonym embedded = "(string \<times> string option) list"

definition has_suffix :: "string \<Rightarrow> string \<Rightarrow> bool" where
  "has_suffix s x \<longleftrightarrow> has_prefix (rev s) (rev x)"

definition migration_names :: "embedded \<Rightarrow> string list" where
  "migration_names fs = sort (map fst (filter (\<lambda>(n, c). c \<noteq> None \<and> has_suffix n ''.sql'') fs))"

definition applied :: "string \<Rightarrow> 'd database \<Rightarrow> bool" where
  "applied name d \<longleftrightarrow> list_ex (\<lambda>r. fst r = name) (db_ledger d)"

text \<open>
  One migration: the transaction runs its text and writes the ledger, both or none. The primary key of
  the ledger cannot be hit, since the name has just been looked up.
\<close>

definition migrate_one ::
  "(string \<Rightarrow> 'd \<Rightarrow> 'd option) \<Rightarrow> (db_step \<Rightarrow> bool) \<Rightarrow> embedded \<Rightarrow> int \<Rightarrow> string \<Rightarrow> 'd database
     \<Rightarrow> (go_error + unit) \<times> 'd database" where
  "migrate_one exec fail fs now name d =
     (if fail (CheckApplied name) then (Inl (Internal ''check migration''), d)
      else if applied name d then (Inr (), d)
      else
        (case map_of fs name of
           Some (Some sql) \<Rightarrow>
             if fail (ReadSql name) then (Inl (Internal ''read migration''), d)
             else if fail (BeginMigration name) then (Inl (Internal ''begin migration''), d)
             else
               (case exec sql (db_data d) of
                  None \<Rightarrow> (Inl (Internal ''apply migration''), d)
                | Some x \<Rightarrow>
                    if fail (RecordMigration name) then (Inl (Internal ''record migration''), d)
                    else if fail (CommitMigration name) then (Inl (Internal ''commit migration''), d)
                    else (Inr (), \<lparr>db_ledger = db_ledger d @ [(name, now)], db_data = x\<rparr>))
         | _ \<Rightarrow> (Inl (Internal ''read migration''), d)))"

fun migrate_all ::
  "(string \<Rightarrow> 'd \<Rightarrow> 'd option) \<Rightarrow> (db_step \<Rightarrow> bool) \<Rightarrow> embedded \<Rightarrow> int \<Rightarrow> string list \<Rightarrow> 'd database
     \<Rightarrow> (go_error + unit) \<times> 'd database" where
  "migrate_all exec fail fs now [] d = (Inr (), d)"
| "migrate_all exec fail fs now (name # names) d =
     (case migrate_one exec fail fs now name d of
        (Inl e, d') \<Rightarrow> (Inl e, d')
      | (Inr u, d') \<Rightarrow> migrate_all exec fail fs now names d')"

definition migrate ::
  "(string \<Rightarrow> 'd \<Rightarrow> 'd option) \<Rightarrow> (db_step \<Rightarrow> bool) \<Rightarrow> embedded \<Rightarrow> int \<Rightarrow> 'd database
     \<Rightarrow> (go_error + unit) \<times> 'd database" where
  "migrate exec fail fs now d =
     (if fail CreateLedger then (Inl (Internal ''create schema_migrations''), d)
      else if fail ReadDir then (Inl (Internal ''read migrations dir''), d)
      else migrate_all exec fail fs now (migration_names fs) d)"

section \<open>Facts\<close>

text \<open>Texts run one after the other.\<close>

fun run_sqls :: "(string \<Rightarrow> 'd \<Rightarrow> 'd option) \<Rightarrow> string list \<Rightarrow> 'd \<Rightarrow> 'd option" where
  "run_sqls exec [] x = Some x"
| "run_sqls exec (q # qs) x = (case exec q x of None \<Rightarrow> None | Some y \<Rightarrow> run_sqls exec qs y)"

definition sql_of :: "embedded \<Rightarrow> string \<Rightarrow> string" where
  "sql_of fs name = (case map_of fs name of Some (Some q) \<Rightarrow> q | _ \<Rightarrow> [])"

definition pending :: "'d database \<Rightarrow> string list \<Rightarrow> string list" where
  "pending d names = filter (\<lambda>n. \<not> applied n d) names"

text \<open>Two databases that differ in the times of the ledger only.\<close>

definition same_db :: "'d database \<Rightarrow> 'd database \<Rightarrow> bool" where
  "same_db a b \<longleftrightarrow> map fst (db_ledger a) = map fst (db_ledger b) \<and> db_data a = db_data b"

lemma same_db_refl [simp]: "same_db d d"
  by (simp add: same_db_def)

lemma applied_iff: "applied name d \<longleftrightarrow> name \<in> set (map fst (db_ledger d))"
  by (auto simp: applied_def list_ex_iff)

lemma applied_same: "same_db a b \<Longrightarrow> applied name a = applied name b"
  by (simp only: applied_iff same_db_def)

lemma migrate_one_cases:
  assumes "migrate_one exec fail fs now name d = (r, d')"
  obtains (failed) e where "r = Inl e" "d' = d"
  | (present) "r = Inr ()" "applied name d" "d' = d"
  | (run) sql x where "r = Inr ()" "\<not> applied name d" "map_of fs name = Some (Some sql)"
      "exec sql (db_data d) = Some x" "d' = \<lparr>db_ledger = db_ledger d @ [(name, now)], db_data = x\<rparr>"
proof (cases r)
  case (Inl e)
  with assms have "d' = d" by (simp add: migrate_one_def split: if_split_asm option.split_asm)
  with Inl failed show ?thesis by blast
next
  case (Inr u)
  show ?thesis
  proof (cases "applied name d")
    case True
    with assms Inr have "d' = d" by (simp add: migrate_one_def split: if_split_asm)
    with Inr True present show ?thesis by simp
  next
    case False
    with assms Inr obtain sql x where "map_of fs name = Some (Some sql)" "exec sql (db_data d) = Some x"
      "d' = \<lparr>db_ledger = db_ledger d @ [(name, now)], db_data = x\<rparr>"
      by (simp add: migrate_one_def split: if_split_asm option.split_asm)
    with Inr False run show ?thesis by simp
  qed
qed

text \<open>Without failures of the database a run depends on the names in the ledger only.\<close>

lemma migrate_all_same:
  assumes "same_db a b" and "migrate_all exec (\<lambda>_. False) fs now names a = (Inr (), a')"
  shows "\<exists>b'. migrate_all exec (\<lambda>_. False) fs now' names b = (Inr (), b') \<and> same_db a' b'"
  using assms
proof (induction names arbitrary: a b)
  case Nil
  then show ?case by simp
next
  case (Cons name names)
  obtain r a1 where one: "migrate_one exec (\<lambda>_. False) fs now name a = (r, a1)" by fastforce
  with Cons.prems(2) have r: "r = Inr ()" and rest: "migrate_all exec (\<lambda>_. False) fs now names a1 = (Inr (), a')"
    by (auto split: sum.splits)
  from one show ?case
  proof (cases rule: migrate_one_cases)
    case (failed e)
    with r show ?thesis by simp
  next
    case present
    with Cons.prems(1) have "migrate_one exec (\<lambda>_. False) fs now' name b = (Inr (), b)"
      by (simp add: migrate_one_def applied_same)
    moreover have "same_db a1 b" using Cons.prems(1) present(3) by simp
    ultimately show ?thesis using Cons.IH [OF _ rest, of b] by simp
  next
    case (run sql x)
    let ?b1 = "\<lparr>db_ledger = db_ledger b @ [(name, now')], db_data = x\<rparr>"
    have "same_db a1 ?b1" using run(5) Cons.prems(1) by (simp add: same_db_def)
    moreover have "migrate_one exec (\<lambda>_. False) fs now' name b = (Inr (), ?b1)"
      using run applied_same [OF Cons.prems(1)] Cons.prems(1) by (simp add: migrate_one_def same_db_def)
    ultimately show ?thesis using Cons.IH [OF _ rest, of ?b1] by simp
  qed
qed

lemma migrate_all_keeps:
  "migrate_all exec fail fs now names d = (r, d') \<Longrightarrow> applied n d \<Longrightarrow> applied n d'"
proof (induction names arbitrary: d)
  case (Cons name names)
  obtain r1 d1 where one: "migrate_one exec fail fs now name d = (r1, d1)" by fastforce
  then have "applied n d1"
    by (cases rule: migrate_one_cases) (use Cons.prems(2) in \<open>auto simp: applied_def\<close>)
  with Cons one show ?case by (auto split: sum.splits)
qed simp

lemma migrate_all_noop:
  "\<forall>n \<in> set names. applied n d \<Longrightarrow> migrate_all exec (\<lambda>_. False) fs now names d = (Inr (), d)"
  by (induction names) (simp_all add: migrate_one_def)

lemma migrate_all_effect:
  "migrate_all exec fail fs now names d = (Inr (), d') \<Longrightarrow> distinct names \<Longrightarrow>
     map fst (db_ledger d') = map fst (db_ledger d) @ pending d names \<and>
     run_sqls exec (map (sql_of fs) (pending d names)) (db_data d) = Some (db_data d') \<and>
     (\<forall>n \<in> set names. applied n d')"
proof (induction names arbitrary: d)
  case Nil
  then show ?case by (simp add: pending_def)
next
  case (Cons name names)
  obtain r1 d1 where one: "migrate_one exec fail fs now name d = (r1, d1)" by fastforce
  with Cons.prems(1) have r1: "r1 = Inr ()" and rest: "migrate_all exec fail fs now names d1 = (Inr (), d')"
    by (auto split: sum.splits)
  note IH = Cons.IH [OF rest] and keeps = migrate_all_keeps [OF rest, of name]
  from one show ?case
  proof (cases rule: migrate_one_cases)
    case (failed e)
    with r1 show ?thesis by simp
  next
    case present
    with IH keeps Cons.prems(2) show ?thesis by (simp add: pending_def)
  next
    case (run sql x)
    then have "applied n d1 \<longleftrightarrow> n = name \<or> applied n d" for n by (auto simp: applied_iff)
    moreover from this Cons.prems(2) have "pending d1 names = pending d names"
      by (auto simp: pending_def intro!: filter_cong)
    ultimately show ?thesis
      using IH keeps Cons.prems(2) run by (simp add: pending_def sql_of_def)
  qed
qed

text \<open>After a run that failed, a run without failures comes to the same end as one from the start.\<close>

lemma migrate_all_resume:
  assumes "migrate_all exec fail fs now names d = (r, d')"
    and "migrate_all exec (\<lambda>_. False) fs now0 names d = (Inr (), t)"
  shows "\<exists>t'. migrate_all exec (\<lambda>_. False) fs now1 names d' = (Inr (), t') \<and> same_db t t'"
  using assms
proof (induction names arbitrary: d t)
  case Nil
  then show ?case by simp
next
  case (Cons name names)
  obtain r1 d1 where one: "migrate_one exec fail fs now name d = (r1, d1)" by fastforce
  show ?case
  proof (cases r1)
    case (Inl e)
    with one have "d1 = d" by (cases rule: migrate_one_cases) auto
    with Inl one Cons.prems(1) have "d' = d" by simp
    with migrate_all_same [OF same_db_refl Cons.prems(2)] show ?thesis by blast
  next
    case (Inr u)
    with one Cons.prems(1) have rest: "migrate_all exec fail fs now names d1 = (r, d')" by simp
    obtain d0 where zero: "migrate_one exec (\<lambda>_. False) fs now0 name d = (Inr (), d0)"
      and rest0: "migrate_all exec (\<lambda>_. False) fs now0 names d0 = (Inr (), t)"
      using Cons.prems(2) by (auto split: prod.splits sum.splits)
    have same: "same_db d0 d1" and app: "applied name d1"
    proof -
      from one have "same_db d0 d1 \<and> applied name d1"
      proof (cases rule: migrate_one_cases)
        case (failed e)
        with Inr show ?thesis by simp
      next
        case present
        with zero show ?thesis by (simp add: migrate_one_def)
      next
        case (run sql x)
        with zero show ?thesis by (auto simp: migrate_one_def same_db_def applied_iff)
      qed
      then show "same_db d0 d1" "applied name d1" by blast+
    qed
    obtain t2 where t2: "migrate_all exec (\<lambda>_. False) fs now0 names d1 = (Inr (), t2)" "same_db t t2"
      using migrate_all_same [OF same rest0] by blast
    obtain t' where t': "migrate_all exec (\<lambda>_. False) fs now1 names d' = (Inr (), t')" "same_db t2 t'"
      using Cons.IH [OF rest t2(1)] by blast
    have "migrate_one exec (\<lambda>_. False) fs now1 name d' = (Inr (), d')"
      using migrate_all_keeps [OF rest app] by (simp add: migrate_one_def)
    with t' t2(2) show ?thesis by (auto simp: same_db_def)
  qed
qed

lemma migration_names_distinct: "distinct (map fst fs) \<Longrightarrow> distinct (migration_names fs)"
  by (simp add: migration_names_def distinct_map_filter)

section \<open>A small set of migrations\<close>

definition ex_migrations :: embedded where
  "ex_migrations = [(''0002_b.sql'', Some ''b''), (''README'', Some ''x''), (''0001_a.sql'', Some ''a'')]"

definition ex_exec :: "string \<Rightarrow> string \<Rightarrow> string option" where
  "ex_exec q x = Some (x @ q)"

section \<open>Property\<close>

text \<open>
  C29: Error. Migrations can be broken off and repeated. A run that succeeds has executed exactly the
  migrations the ledger did not have, in the order of their names, and a further run does nothing. After
  a run that failed anywhere, the next one ends with the data and the ledger (up to its times) a single
  run would have given.
\<close>

theorem migrate_resumes:
  assumes "migrate exec fail fs now d = (r, d')" and "distinct (map fst fs)"
  shows "(r = Inr () \<longrightarrow>
        map fst (db_ledger d') = map fst (db_ledger d) @ pending d (migration_names fs) \<and>
        run_sqls exec (map (sql_of fs) (pending d (migration_names fs))) (db_data d) = Some (db_data d') \<and>
        (\<forall>now1. migrate exec (\<lambda>_. False) fs now1 d' = (Inr (), d'))) \<and>
     (\<forall>now0 now1 t. migrate exec (\<lambda>_. False) fs now0 d = (Inr (), t) \<longrightarrow>
        (\<exists>t'. migrate exec (\<lambda>_. False) fs now1 d' = (Inr (), t') \<and> same_db t t'))"
proof (intro conjI impI allI)
  assume r: "r = Inr ()"
  then have "migrate_all exec fail fs now (migration_names fs) d = (Inr (), d')"
    using assms(1) by (simp add: migrate_def split: if_splits)
  note eff = migrate_all_effect [OF this migration_names_distinct [OF assms(2)]]
  then show "map fst (db_ledger d') = map fst (db_ledger d) @ pending d (migration_names fs)"
    "run_sqls exec (map (sql_of fs) (pending d (migration_names fs))) (db_data d) = Some (db_data d')" by blast+
  fix now1 show "migrate exec (\<lambda>_. False) fs now1 d' = (Inr (), d')"
    using migrate_all_noop [of "migration_names fs" d'] eff by (simp add: migrate_def)
next
  fix now0 now1 t assume t: "migrate exec (\<lambda>_. False) fs now0 d = (Inr (), t)"
  then have t: "migrate_all exec (\<lambda>_. False) fs now0 (migration_names fs) d = (Inr (), t)" by (simp add: migrate_def)
  from assms(1) consider "d' = d" | "migrate_all exec fail fs now (migration_names fs) d = (r, d')"
    by (auto simp: migrate_def split: if_splits)
  then show "\<exists>t'. migrate exec (\<lambda>_. False) fs now1 d' = (Inr (), t') \<and> same_db t t'"
    using migrate_all_same [OF same_db_refl t] migrate_all_resume [OF _ t] by cases (simp_all add: migrate_def)
qed

theorem migrate_resumes_witness:
  "\<exists>t'. migrate ex_exec (\<lambda>st. st = CommitMigration ''0002_b.sql'') ex_migrations 7 \<lparr>db_ledger = [], db_data = []\<rparr>
          = (Inl (Internal ''commit migration''), \<lparr>db_ledger = [(''0001_a.sql'', 7)], db_data = ''a''\<rparr>) \<and>
        migrate ex_exec (\<lambda>_. False) ex_migrations 9 \<lparr>db_ledger = [(''0001_a.sql'', 7)], db_data = ''a''\<rparr> = (Inr (), t') \<and>
        db_data t' = ''ab''"
proof -
  let ?d = "\<lparr>db_ledger = [], db_data = []\<rparr> :: string database"
  have broken: "migrate ex_exec (\<lambda>st. st = CommitMigration ''0002_b.sql'') ex_migrations 7 ?d =
      (Inl (Internal ''commit migration''), \<lparr>db_ledger = [(''0001_a.sql'', 7)], db_data = ''a''\<rparr>)" by code_simp
  have whole: "migrate ex_exec (\<lambda>_. False) ex_migrations 8 ?d =
      (Inr (), \<lparr>db_ledger = [(''0001_a.sql'', 8), (''0002_b.sql'', 8)], db_data = ''ab''\<rparr>)" by code_simp
  have "distinct (map fst ex_migrations)" by (simp add: ex_migrations_def)
  note migrate_resumes [OF broken this, THEN conjunct2, rule_format, OF whole, of 9]
  with broken show ?thesis by (auto simp: same_db_def)
qed

end
