(* ===== verification/Web.thy ===== *)
theory Web
  imports Common Path
begin

text \<open>
  \<^verbatim>\<open>internal/web\<close>: the static files of the front end with the fallback to \<^verbatim>\<open>index.html\<close>, and the
  cross-origin headers. The files are a parameter; \<^verbatim>\<open>http.ServeContent\<close>, which answers conditional
  and range requests for an opened file, is the end of the model.
\<close>

section \<open>Opening a file\<close>

datatype fs_node = FsFile string | FsDir

text \<open>\<open>stat_ok\<close>: whether \<^verbatim>\<open>Stat\<close> on the opened file succeeds.\<close>

record web_root =
  wr_node :: "string \<Rightarrow> fs_node option"
  wr_stat_ok :: "string \<Rightarrow> bool"

text \<open>\<^verbatim>\<open>utf8.ValidString\<close>.\<close>

definition byte_in :: "char \<Rightarrow> nat \<Rightarrow> nat \<Rightarrow> bool" where
  "byte_in c a b \<longleftrightarrow> a \<le> of_char c \<and> of_char c \<le> b"

fun valid_utf8 :: "string \<Rightarrow> bool" where
  "valid_utf8 [] = True"
| "valid_utf8 (a # s) =
     (if byte_in a 0 0x7F then valid_utf8 s
      else
        (case s of
           b # s1 \<Rightarrow>
             if byte_in a 0xC2 0xDF \<and> byte_in b 0x80 0xBF then valid_utf8 s1
             else
               (case s1 of
                  c # s2 \<Rightarrow>
                    if (byte_in a 0xE0 0xE0 \<and> byte_in b 0xA0 0xBF \<or> byte_in a 0xE1 0xEC \<and> byte_in b 0x80 0xBF \<or>
                        byte_in a 0xED 0xED \<and> byte_in b 0x80 0x9F \<or> byte_in a 0xEE 0xEF \<and> byte_in b 0x80 0xBF) \<and>
                       byte_in c 0x80 0xBF
                    then valid_utf8 s2
                    else
                      (case s2 of
                         d # s3 \<Rightarrow>
                           (byte_in a 0xF0 0xF0 \<and> byte_in b 0x90 0xBF \<or> byte_in a 0xF1 0xF3 \<and> byte_in b 0x80 0xBF \<or>
                            byte_in a 0xF4 0xF4 \<and> byte_in b 0x80 0x8F) \<and>
                           byte_in c 0x80 0xBF \<and> byte_in d 0x80 0xBF \<and> valid_utf8 s3
                       | [] \<Rightarrow> False)
                | [] \<Rightarrow> False)
         | [] \<Rightarrow> False))"

text \<open>\<^verbatim>\<open>fs.ValidPath\<close>: what both kinds of root demand of a name before they look at it.\<close>

definition valid_path :: "string \<Rightarrow> bool" where
  "valid_path name \<longleftrightarrow>
     valid_utf8 name \<and>
     (name = dot \<or> list_all (\<lambda>w. w \<noteq> [] \<and> w \<noteq> dot \<and> w \<noteq> dotdot) (split_on CHR ''/'' name))"

definition fs_open :: "web_root \<Rightarrow> string \<Rightarrow> fs_node option" where
  "fs_open root name = (if valid_path name then wr_node root name else None)"

section \<open>The handler (spa.go)\<close>

definition static_cache_control :: string where "static_cache_control = ''public, max-age=86400''"

definition index_name :: string where "index_name = ''index.html''"

definition content_types :: "(string \<times> string) list" where
  "content_types =
     [(''.html'', ''text/html; charset=utf-8''), (''.js'', ''text/javascript; charset=utf-8''),
      (''.mjs'', ''text/javascript; charset=utf-8''), (''.css'', ''text/css; charset=utf-8''),
      (''.json'', ''application/json; charset=utf-8''), (''.map'', ''application/json; charset=utf-8''),
      (''.png'', ''image/png''), (''.jpg'', ''image/jpeg''), (''.jpeg'', ''image/jpeg''), (''.gif'', ''image/gif''),
      (''.webp'', ''image/webp''), (''.svg'', ''image/svg+xml''), (''.ico'', ''image/x-icon''),
      (''.txt'', ''text/plain; charset=utf-8''), (''.woff'', ''font/woff''), (''.woff2'', ''font/woff2''),
      (''.ttf'', ''font/ttf''), (''.wasm'', ''application/wasm'')]"

text \<open>\<^verbatim>\<open>path.Ext\<close>: from the last dot of the last component on.\<close>

definition path_ext :: "string \<Rightarrow> string" where
  "path_ext s =
     (let base = takeWhile (\<lambda>c. c \<noteq> CHR ''/'') (rev s)
      in if List.member base CHR ''.'' then CHR ''.'' # rev (takeWhile (\<lambda>c. c \<noteq> CHR ''.'') base) else [])"

text \<open>\<open>mime\<close> is \<^verbatim>\<open>mime.TypeByExtension\<close>, \<open>ul\<close> the Unicode case table.\<close>

definition content_type :: "(string \<Rightarrow> string) \<Rightarrow> (string \<Rightarrow> string) \<Rightarrow> string \<Rightarrow> string" where
  "content_type ul mime name =
     (let ext = to_lower ul (path_ext name)
      in case map_of content_types ext of
           Some ct \<Rightarrow> ct
         | None \<Rightarrow> if mime ext \<noteq> [] then mime ext else ''application/octet-stream'')"

text \<open>
  A reply: an error text, a file with its name, type and cache policy, or \<^verbatim>\<open>index.html\<close> when that is a
  directory, whose content cannot be read.
\<close>

datatype spa_reply =
    SpaError nat string
  | SpaFile string string string string
  | SpaNoContent string string

definition serve_index :: "web_root \<Rightarrow> spa_reply" where
  "serve_index root =
     (case fs_open root index_name of
        None \<Rightarrow> SpaError 404 ''index.html not found''
      | Some (FsFile body) \<Rightarrow> SpaFile index_name body ''text/html; charset=utf-8'' ''no-cache''
      | Some FsDir \<Rightarrow> SpaNoContent ''text/html; charset=utf-8'' ''no-cache'')"

definition spa_name :: "string \<Rightarrow> string" where
  "spa_name url_path =
     (let name = path_clean (case cut_prefix url_path ''/'' of None \<Rightarrow> url_path | Some p \<Rightarrow> p)
      in if name = dot \<or> name = [] then index_name else name)"

definition spa_serve :: "(string \<Rightarrow> string) \<Rightarrow> (string \<Rightarrow> string) \<Rightarrow> web_root \<Rightarrow> string \<Rightarrow> spa_reply" where
  "spa_serve ul mime root url_path =
     (let name = spa_name url_path
      in if has_prefix name dotdot then SpaError 400 ''invalid path''
         else if name = index_name then serve_index root
         else case fs_open root name of
                Some (FsFile body) \<Rightarrow>
                  if wr_stat_ok root name
                  then SpaFile name body (content_type ul mime name) static_cache_control
                  else serve_index root
              | _ \<Rightarrow> serve_index root)"

text \<open>
  \<^verbatim>\<open>SPAHandler\<close>: the directory of the settings, which must be one, or else the embedded files.
  \<open>stat\<close> says of a path whether it is a directory, and \<open>dir_fs\<close> is \<^verbatim>\<open>os.DirFS\<close>.
\<close>

definition spa_root ::
  "(string \<Rightarrow> bool option) \<Rightarrow> (string \<Rightarrow> web_root) \<Rightarrow> web_root \<Rightarrow> string \<Rightarrow> go_error + web_root" where
  "spa_root stat dir_fs embedded web_dir =
     (if web_dir = [] then Inr embedded
      else case stat web_dir of
             None \<Rightarrow> Inl (Internal ''web static dir: stat'')
           | Some False \<Rightarrow> Inl (Internal ''web static dir: stat: invalid argument'')
           | Some True \<Rightarrow> Inr (dir_fs web_dir))"

section \<open>Cross-origin requests (cors.go)\<close>

definition api_path_prefixes :: "string list" where
  "api_path_prefixes = [''/auth/'', ''/relay/'', ''/img/'', ''/sync/'', ''/recover/'', ''/admin/'', ''/healthz'']"

definition is_api_path :: "string \<Rightarrow> bool" where
  "is_api_path p \<longleftrightarrow> list_ex (has_prefix p) api_path_prefixes"

definition hdr_add :: "string \<Rightarrow> string \<Rightarrow> headers \<Rightarrow> headers" where
  "hdr_add k v h = h @ [(k, v)]"

text \<open>
  \<^verbatim>\<open>CORS\<close>: the request is answered with 204 and these headers (\<open>Inl\<close>), or goes on with them
  (\<open>Inr\<close>). \<open>req\<close> are the headers of the request, \<open>h\<close> those of the response so far.
\<close>

definition cors :: "string list \<Rightarrow> string \<Rightarrow> string \<Rightarrow> headers \<Rightarrow> headers \<Rightarrow> headers + headers" where
  "cors origins meth url_path req h =
     (let origin = hdr_get ''Origin'' req
      in if origins = [] \<or> origin = [] \<or> \<not> List.member origins origin \<or> \<not> is_api_path url_path then Inr h
         else
           let h1 = hdr_add ''Vary'' ''Origin'' (hdr_set ''Access-Control-Allow-Origin'' origin h)
           in if meth = ''OPTIONS'' \<and> hdr_get ''Access-Control-Request-Method'' req \<noteq> [] then
                Inl (hdr_set ''Access-Control-Max-Age'' ''86400''
                      (hdr_set ''Access-Control-Allow-Headers'' ''Authorization, Content-Type''
                        (hdr_set ''Access-Control-Allow-Methods'' ''GET, POST, PATCH, DELETE, OPTIONS'' h1)))
              else Inr h1)"

section \<open>Facts\<close>

lemma hdr_get_add [simp]:
  "hdr_get k (hdr_add k' v h) = (if k = k' \<and> map_of h k = None then v else hdr_get k h)"
  by (auto simp: hdr_get_def hdr_add_def map_add_def split: option.split)

text \<open>The names that reach the file system: components without dots, joined by slashes.\<close>

lemma spa_name_comps:
  assumes "spa_name p = name" and "\<not> has_prefix name dotdot" and "valid_path name"
  shows "\<exists>ws. ws \<noteq> [] \<and> (\<forall>w \<in> set ws. plain w) \<and> name = join_with CHR ''/'' ws"
proof -
  have "name \<noteq> dot" using assms(1) by (auto simp: spa_name_def Let_def dot_def index_name_def split: if_splits)
  with assms(3) have "\<forall>w \<in> set (split_on CHR ''/'' name). plain w"
    by (auto simp: valid_path_def list_all_iff plain_def dest: split_on_no_sep)
  moreover have "join_with CHR ''/'' (split_on CHR ''/'' name) = name"
  proof (induction name)
    case (Cons x xs)
    obtain w ws where "split_on CHR ''/'' xs = w # ws" by (metis split_on_not_Nil list.exhaust)
    with Cons show ?case by (cases ws) auto
  qed simp
  ultimately show ?thesis by (metis split_on_not_Nil)
qed

lemma path_clean_plain:
  assumes "ws \<noteq> []" and "\<forall>w \<in> set ws. plain w"
  shows "path_clean (join_with CHR ''/'' ws) = join_with CHR ''/'' ws"
proof -
  obtain w ws' where ws: "ws = w # ws'" using assms(1) by (cases ws) auto
  have "w \<noteq> []" "CHR ''/'' \<notin> set w" using assms(2) ws by (auto simp: plain_def)
  then have "\<not> is_rooted w" by (cases w) (auto simp: is_rooted_def has_prefix_def)
  then have r: "\<not> is_rooted (join_with CHR ''/'' ws)" using is_rooted_join [OF \<open>w \<noteq> []\<close>] ws by simp
  have "split_on CHR ''/'' (join_with CHR ''/'' ws) = ws"
    by (rule split_join) (use assms in \<open>auto simp: plain_def\<close>)
  with r assms show ?thesis
    by (simp add: path_clean_def path_comps_def foldl_path_step_plain path_str_def)
qed

end
