(* ===== verification/Admin.thy ===== *)
theory Admin
  imports Settings
begin

text \<open>
  \<^verbatim>\<open>internal/admin\<close>: the administrator's interface. It reads and writes what the other components
  own: the settings, the cache, the accounts with their devices, synchronised data and recovery rows.
\<close>

section \<open>State (service.go)\<close>

definition admin_version :: string where "admin_version = ''1.2.0''"

record ('r, 'l) admin_state =
  ad_settings :: "setting_row list"
  ad_env :: "string \<Rightarrow> setting_value option"
  ad_live :: "('r, 'l) live_parts"
  ad_sync :: sync_state

definition all_accounts :: "('r, 'l) admin_state \<Rightarrow> account list" where
  "all_accounts s = accounts (lp_auth (ad_live s))"

definition all_devices :: "('r, 'l) admin_state \<Rightarrow> device list" where
  "all_devices s = devices (lp_auth (ad_live s))"

definition all_recover :: "('r, 'l) admin_state \<Rightarrow> recover_row list" where
  "all_recover s = rq_rows (lp_recover (ad_live s))"

datatype admin_step =
    CountAccounts | CountDevices | CountRecover | CacheStep cache_step | ResolveKey string | ListAccountsSql
  | ListDevicesSql | DeleteDeviceSql | AdminBegin | CascadeDelete nat | DeleteAccountSql | AdminCommit

text \<open>\<^verbatim>\<open>NewService\<close> applies the settings at once; \<open>None\<close> where \<open>apply_all\<close> would panic.\<close>

definition new_admin ::
  "parse_float \<Rightarrow> ('r, 'l) rate_ops \<Rightarrow> (int \<Rightarrow> 'r) \<Rightarrow> int \<Rightarrow> (admin_step \<Rightarrow> bool) \<Rightarrow> (string \<Rightarrow> string option)
     \<Rightarrow> setting_row list \<Rightarrow> ('r, 'l) live_parts \<Rightarrow> sync_state \<Rightarrow> ('r, 'l) admin_state option" where
  "new_admin pf ops rate_of now fail getenv rows p sy =
     (let env = env_snapshot pf getenv
      in map_option (\<lambda>p'. \<lparr>ad_settings = rows, ad_env = env, ad_live = p', ad_sync = sy\<rparr>)
           (apply_all pf ops rate_of now (\<lambda>k. fail (ResolveKey k)) env rows p))"

section \<open>Overview and cache\<close>

record overview =
  ov_accounts :: nat
  ov_devices :: nat
  ov_cache :: "int \<times> int"
  ov_recover :: "(string \<times> nat) list"
  ov_settings :: "(string \<times> setting_value \<times> setting_source) list"

definition count_by :: "('a \<Rightarrow> 'b) \<Rightarrow> 'a list \<Rightarrow> ('b \<times> nat) list" where
  "count_by f xs = map (\<lambda>b. (b, length (filter (\<lambda>x. f x = b) xs))) (remdups (map f xs))"

definition get_overview ::
  "parse_float \<Rightarrow> (admin_step \<Rightarrow> bool) \<Rightarrow> ('r, 'l) admin_state \<Rightarrow> go_error + overview" where
  "get_overview pf fail s =
     (if fail CountAccounts then Inl (Internal ''count accounts'')
      else if fail CountDevices then Inl (Internal ''count devices'')
      else case cache_stats (\<lambda>st. fail (CacheStep st)) (lp_cache (ad_live s)) of
             Inl e \<Rightarrow> Inl e
           | Inr stats \<Rightarrow>
               if fail CountRecover then Inl (Internal ''count recover_cache'')
               else Inr \<lparr>ov_accounts = length (all_accounts s), ov_devices = length (all_devices s), ov_cache = stats,
                         ov_recover = count_by rv_status (all_recover s),
                         ov_settings = resolve_all pf (\<lambda>k. fail (ResolveKey k)) (ad_env s) (ad_settings s)\<rparr>)"

record cache_report =
  cp_bytes :: int
  cp_entries :: int
  cp_max :: int
  cp_mark :: float64
  cp_layout :: string
  cp_dir :: string

definition get_cache_report :: "(admin_step \<Rightarrow> bool) \<Rightarrow> ('r, 'l) admin_state \<Rightarrow> go_error + cache_report" where
  "get_cache_report fail s =
     (case cache_stats (\<lambda>st. fail (CacheStep st)) (lp_cache (ad_live s)) of
        Inl e \<Rightarrow> Inl e
      | Inr (b, n) \<Rightarrow>
          let cfg = live_config (lp_cache (ad_live s))
          in Inr \<lparr>cp_bytes = b, cp_entries = n, cp_max = cc_max cfg, cp_mark = cc_mark cfg,
                  cp_layout = cc_layout cfg, cp_dir = cc_dir cfg\<rparr>)"

record evict_report =
  er_freed_bytes :: int
  er_freed_entries :: int
  er_bytes :: int
  er_entries :: int

text \<open>
  \<^verbatim>\<open>EvictCache\<close> waits for the eviction, which may not end: then the result is \<open>None\<close>. The statistics
  before and after can fail independently (\<open>fail False\<close>, \<open>fail True\<close>).
\<close>

definition evict_cache ::
  "(bool \<Rightarrow> cache_step \<Rightarrow> bool) \<Rightarrow> (nat \<Rightarrow> cache_step \<Rightarrow> bool) \<Rightarrow> ('r, 'l) admin_state
     \<Rightarrow> ((go_error + evict_report) \<times> ('r, 'l) admin_state) option" where
  "evict_cache fail evict_fail s =
     (case cache_stats (fail False) (lp_cache (ad_live s)) of
        Inl e \<Rightarrow> Some (Inl e, s)
      | Inr (b0, n0) \<Rightarrow>
          (case evict evict_fail 0 (lp_cache (ad_live s)) of
             None \<Rightarrow> None
           | Some c \<Rightarrow>
               let s' = s\<lparr>ad_live := (ad_live s)\<lparr>lp_cache := c\<rparr>\<rparr>
               in Some (case cache_stats (fail True) c of
                          Inl e \<Rightarrow> (Inl e, s')
                        | Inr (b1, n1) \<Rightarrow>
                            (Inr \<lparr>er_freed_bytes = wrap64 (b0 - b1), er_freed_entries = n0 - n1,
                                  er_bytes = b1, er_entries = n1\<rparr>, s'))))"

section \<open>Accounts and devices\<close>

text \<open>A place in the listing of the accounts, which goes by creation time and then by id.\<close>

datatype place = Place (pl_time: int) (pl_id: int)

instantiation place :: linorder
begin

definition less_eq_place :: "place \<Rightarrow> place \<Rightarrow> bool" where
  "less_eq_place p q \<longleftrightarrow> pl_time p < pl_time q \<or> pl_time p = pl_time q \<and> pl_id p \<le> pl_id q"

definition less_place :: "place \<Rightarrow> place \<Rightarrow> bool" where
  "less_place p q \<longleftrightarrow> pl_time p < pl_time q \<or> pl_time p = pl_time q \<and> pl_id p < pl_id q"

instance
  by standard (auto simp: less_eq_place_def less_place_def intro: place.expand)

end

definition account_place :: "account \<Rightarrow> place" where
  "account_place a = Place (ac_created a) (ac_id a)"

record account_item =
  ai_id :: int
  ai_created :: int
  ai_devices :: nat
  ai_entries :: nat

definition account_item_of :: "('r, 'l) admin_state \<Rightarrow> account \<Rightarrow> account_item" where
  "account_item_of s a =
     \<lparr>ai_id = ac_id a, ai_created = ac_created a,
      ai_devices = length (filter (\<lambda>d. dv_account d = ac_id a) (all_devices s)),
      ai_entries = length (filter (\<lambda>e. se_account e = ac_id a) (entries (ad_sync s)))\<rparr>"

text \<open>The \<^verbatim>\<open>WHERE\<close> clause of a cursor, or none.\<close>

definition cursor_place :: "string \<Rightarrow> go_error + place option" where
  "cursor_place cursor =
     (if cursor = [] then Inr None
      else case decode_cursor cursor of
             Inl e \<Rightarrow> Inl e
           | Inr (ts, i) \<Rightarrow>
               (case parse_int64 i of
                  None \<Rightarrow> Inl (bad_request ''invalid cursor'')
                | Some n \<Rightarrow> Inr (Some (Place ts n))))"

definition after :: "place option \<Rightarrow> account \<Rightarrow> bool" where
  "after p a \<longleftrightarrow> (case p of None \<Rightarrow> True | Some q \<Rightarrow> q < account_place a)"

definition account_cursor :: "account \<Rightarrow> string" where
  "account_cursor a = encode_cursor (ac_created a) (format_int (ac_id a))"

text \<open>One row more than the limit is read to see whether there is a next page.\<close>

definition list_accounts ::
  "(admin_step \<Rightarrow> bool) \<Rightarrow> string \<Rightarrow> int \<Rightarrow> ('r, 'l) admin_state \<Rightarrow> go_error + (account_item list \<times> string)" where
  "list_accounts fail cursor limit s =
     (case cursor_place cursor of
        Inl e \<Rightarrow> Inl e
      | Inr p \<Rightarrow>
          if fail ListAccountsSql then Inl (Internal ''list accounts'')
          else
            let rows = take (nat (limit + 1)) (sort_key account_place (filter (after p) (all_accounts s)));
                page = take (nat limit) rows
            in Inr (map (account_item_of s) page,
                    if int (length rows) > limit then account_cursor (last page) else []))"

record device_item =
  di_id :: int
  di_name :: string
  di_created :: int
  di_access_exp :: int
  di_refresh_exp :: int

definition list_devices :: "(admin_step \<Rightarrow> bool) \<Rightarrow> int \<Rightarrow> ('r, 'l) admin_state \<Rightarrow> go_error + device_item list" where
  "list_devices fail acc s =
     (if fail ListDevicesSql then Inl (Internal ''list devices'')
      else Inr (map (\<lambda>d. \<lparr>di_id = dv_id d, di_name = dv_name d, di_created = dv_created d,
                        di_access_exp = dv_access_exp d, di_refresh_exp = dv_refresh_exp d\<rparr>)
             (sort_key dv_id (filter (\<lambda>d. dv_account d = acc) (all_devices s)))))"

definition delete_device ::
  "(admin_step \<Rightarrow> bool) \<Rightarrow> int \<Rightarrow> ('r, 'l) admin_state \<Rightarrow> (go_error + unit) \<times> ('r, 'l) admin_state" where
  "delete_device fail i s =
     (if fail DeleteDeviceSql then (Inl (Internal ''delete device''), s)
      else
        let a = lp_auth (ad_live s); ds = tbl_delete (\<lambda>d. dv_id d = i) (devices a);
            s' = s\<lparr>ad_live := (ad_live s)\<lparr>lp_auth := a\<lparr>devices := ds\<rparr>\<rparr>\<rparr>
        in if length ds = length (devices a) then (Inl (not_found ''device not found''), s') else (Inr (), s'))"

text \<open>
  The transaction of \<^verbatim>\<open>DeleteAccount\<close>; the cursors of the synchronisation are in memory and stay.
\<close>

definition erase_account :: "int \<Rightarrow> ('r, 'l) admin_state \<Rightarrow> ('r, 'l) admin_state" where
  "erase_account i s =
     (let p = ad_live s; a = lp_auth p; r = lp_recover p; sy = ad_sync s
      in s\<lparr>ad_live := p\<lparr>lp_auth := a\<lparr>devices := tbl_delete (\<lambda>d. dv_account d = i) (devices a),
                                   accounts := tbl_delete (\<lambda>x. ac_id x = i) (accounts a)\<rparr>,
                      lp_recover := r\<lparr>rq_rows := tbl_delete (\<lambda>x. rv_account x = i) (rq_rows r)\<rparr>\<rparr>,
           ad_sync := sy\<lparr>entries := tbl_delete (\<lambda>e. se_account e = i) (entries sy),
                       domains := tbl_delete (\<lambda>d. dr_account d = i) (domains sy)\<rparr>\<rparr>)"

definition delete_account ::
  "(admin_step \<Rightarrow> bool) \<Rightarrow> int \<Rightarrow> ('r, 'l) admin_state \<Rightarrow> (go_error + unit) \<times> ('r, 'l) admin_state" where
  "delete_account fail i s =
     (if fail AdminBegin then (Inl (Internal ''begin delete account tx''), s)
      else if list_ex (\<lambda>k. fail (CascadeDelete k)) [0..<4] then (Inl (Internal ''cascade delete''), s)
      else if fail DeleteAccountSql then (Inl (Internal ''delete account''), s)
      else if \<not> list_ex (\<lambda>a. ac_id a = i) (all_accounts s) then (Inl (not_found ''account not found''), s)
      else if fail AdminCommit then (Inl (Internal ''commit delete account tx''), s)
      else (Inr (), erase_account i s))"

section \<open>Authorization (middleware.go)\<close>

text \<open>\<^verbatim>\<open>Wrap\<close>: the limiter by client address, then the token; the request goes on with \<open>Inr\<close>.\<close>

definition admin_authorized :: "string \<Rightarrow> string \<Rightarrow> bool" where
  "admin_authorized token hdr \<longleftrightarrow>
     (case str_cut CHR '' '' hdr of
        None \<Rightarrow> False
      | Some (scheme, tok) \<Rightarrow> equal_fold scheme ''bearer'' \<and> tok = token)"

definition admin_guard ::
  "('r, 'l) rate_ops \<Rightarrow> ('r \<Rightarrow> int) \<Rightarrow> string \<Rightarrow> headers \<Rightarrow> string \<Rightarrow> string \<Rightarrow> string \<Rightarrow> int
     \<Rightarrow> ('r, 'l) limiter \<Rightarrow> (json_response + unit) \<times> ('r, 'l) limiter" where
  "admin_guard ops retry_of token h rid ip auth_hdr now l =
     (case limit_request ops retry_of h rid ip now l of
        (Inl resp, l') \<Rightarrow> (Inl resp, l')
      | (Inr u, l') \<Rightarrow>
          if admin_authorized token auth_hdr then (Inr (), l')
          else (Inl (write_error h rid (unauthorized ''invalid admin token'')), l'))"

section \<open>Handlers (routes.go)\<close>

definition path_id :: "string \<Rightarrow> go_error + int" where
  "path_id raw = (case parse_int64 raw of None \<Rightarrow> Inl (bad_request ''id must be an integer'') | Some i \<Rightarrow> Inr i)"

text \<open>
  A value of the patch as text: a number, a text, or \<^verbatim>\<open>null\<close>, which decodes into an empty
  \<^verbatim>\<open>json.Number\<close> without an error.
\<close>

fun patch_text :: "json \<Rightarrow> string option" where
  "patch_text (JNum n) = Some n"
| "patch_text (JStr t) = Some t"
| "patch_text JNull = Some []"
| "patch_text _ = None"

fun patch_texts :: "(string \<times> json) list \<Rightarrow> go_error + (string \<times> string) list" where
  "patch_texts [] = Inr []"
| "patch_texts ((key, v) # kvs) =
     (case patch_text v of
        None \<Rightarrow> Inl (bad_request (''invalid value for '' @ key @ '': must be a number or a string''))
      | Some t \<Rightarrow> (case patch_texts kvs of Inl e \<Rightarrow> Inl e | Inr kvs' \<Rightarrow> Inr ((key, t) # kvs')))"

text \<open>
  \<^verbatim>\<open>PATCH /admin/v1/settings\<close>; \<open>None\<close> where applying would panic. The settings that are returned are
  resolved once more. The time \<open>now\<close> is in milliseconds, the limiters count nanoseconds.
\<close>

definition patch_settings ::
  "(string \<Rightarrow> (string \<times> json) list option) \<Rightarrow> parse_float \<Rightarrow> ('r, 'l) rate_ops \<Rightarrow> (int \<Rightarrow> 'r)
     \<Rightarrow> (setting_step \<Rightarrow> bool) \<Rightarrow> (string \<Rightarrow> bool) \<Rightarrow> int \<Rightarrow> string \<Rightarrow> ('r, 'l) admin_state
     \<Rightarrow> ((go_error + (string \<times> setting_value \<times> setting_source) list) \<times> ('r, 'l) admin_state) option" where
  "patch_settings decode pf ops rate_of sfail rfail now body s =
     (case decode_json decode body of
        Inl e \<Rightarrow> Some (Inl e, s)
      | Inr obj \<Rightarrow>
     (case patch_texts obj of
        Inl e \<Rightarrow> Some (Inl e, s)
      | Inr texts \<Rightarrow>
     (case validate_patch pf texts of
        Inl e \<Rightarrow> Some (Inl e, s)
      | Inr kvs \<Rightarrow>
     (case persist_settings sfail now kvs (ad_settings s) of
        Inl e \<Rightarrow> Some (Inl e, s)
      | Inr rows \<Rightarrow>
          map_option (\<lambda>p. (Inr (resolve_all pf rfail (ad_env s) rows), s\<lparr>ad_settings := rows, ad_live := p\<rparr>))
            (apply_all pf ops rate_of (1000000 * now) rfail (ad_env s) rows (ad_live s))))))"

definition list_accounts_handler ::
  "(admin_step \<Rightarrow> bool) \<Rightarrow> string \<Rightarrow> ('r, 'l) admin_state \<Rightarrow> go_error + (account_item list \<times> string)" where
  "list_accounts_handler fail q s =
     list_accounts fail (query_get ''cursor'' q) (parse_limit (query_get ''limit'' q)) s"

definition list_devices_handler ::
  "(admin_step \<Rightarrow> bool) \<Rightarrow> string \<Rightarrow> ('r, 'l) admin_state \<Rightarrow> go_error + device_item list" where
  "list_devices_handler fail raw s =
     (case path_id raw of Inl e \<Rightarrow> Inl e | Inr i \<Rightarrow> list_devices fail i s)"

definition delete_device_handler ::
  "(admin_step \<Rightarrow> bool) \<Rightarrow> string \<Rightarrow> ('r, 'l) admin_state \<Rightarrow> (go_error + json) \<times> ('r, 'l) admin_state" where
  "delete_device_handler fail raw s =
     (case path_id raw of
        Inl e \<Rightarrow> (Inl e, s)
      | Inr i \<Rightarrow> apfst (map_sum id (\<lambda>_. JObj [(''deleted'', JBool True)])) (delete_device fail i s))"

definition delete_account_handler ::
  "(admin_step \<Rightarrow> bool) \<Rightarrow> string \<Rightarrow> ('r, 'l) admin_state \<Rightarrow> (go_error + json) \<times> ('r, 'l) admin_state" where
  "delete_account_handler fail raw s =
     (case path_id raw of
        Inl e \<Rightarrow> (Inl e, s)
      | Inr i \<Rightarrow> apfst (map_sum id (\<lambda>_. JObj [(''deleted'', JBool True)])) (delete_account fail i s))"

end
