(* ===== verification/Startup.thy ===== *)
theory Startup
  imports Config Db Web Relay Img Sync Admin
begin

text \<open>
  \<^verbatim>\<open>internal/app\<close> and \<^verbatim>\<open>cmd/server\<close>: the server is put together from its settings and the stored data.
  What is not written in this repository is a record of parameters.
\<close>

section \<open>The surroundings\<close>

text \<open>
  SHA-256, the Unicode case tables, URLs, the token bucket, \<^verbatim>\<open>rate.Limit(x / 60)\<close> and the seconds until
  its next token, the float parser, AES-GCM, addresses, file types and the JSON of the recovery rows.
\<close>

record ('r, 'l, 'ip, 'net) platform =
  x_sha :: "string \<Rightarrow> string"
  x_ul :: "string \<Rightarrow> string"
  x_uu :: "string \<Rightarrow> string"
  x_uo :: url_ops
  x_ops :: "('r, 'l) rate_ops"
  x_rate :: "float64 \<Rightarrow> 'r"
  x_retry :: "'r \<Rightarrow> int"
  x_float :: parse_float
  x_aead :: "string \<Rightarrow> go_error + aead"
  x_net :: "('ip, 'net) net_ops"
  x_cidr :: "('ip, 'net) cidr_ops"
  x_mime :: "string \<Rightarrow> string"
  x_codec :: recover_codec

text \<open>The stored data: the tables and the files of the cache.\<close>

record stored =
  so_accounts :: "account list"
  so_devices :: "device list"
  so_meta :: "cache_meta list"
  so_files :: "string \<Rightarrow> string option"
  so_entries :: "sync_entry list"
  so_domains :: "domain_row list"
  so_rows :: "recover_row list"
  so_settings :: "setting_row list"

text \<open>What can fail while the server starts, and the directories of the front end.\<close>

record startup =
  st_auth :: "auth_step \<Rightarrow> bool"
  st_cache :: "cache_step \<Rightarrow> bool"
  st_evict :: "nat \<Rightarrow> cache_step \<Rightarrow> bool"
  st_tokens_ok :: bool
  st_mkdir_ok :: bool
  st_setting :: "string \<Rightarrow> bool"
  st_stat :: "string \<Rightarrow> bool option"
  st_dir :: "string \<Rightarrow> web_root"
  st_embedded :: web_root

section \<open>Rates\<close>

text \<open>\<^verbatim>\<open>float64(n)\<close>, and the division by 60 in \<^verbatim>\<open>auth.RegisterRoutes\<close>.\<close>

definition float_of_int :: "int \<Rightarrow> float64" where
  "float_of_int n = Fin (round53 (of_int n))"

fun per_hour :: "float64 \<Rightarrow> float64" where
  "per_hour (Fin q) = Fin (round53 (q / 60))"
| "per_hour v = v"

definition new_register_limiter :: "(float64 \<Rightarrow> 'r) \<Rightarrow> float64 \<Rightarrow> ('r, 'l) limiter" where
  "new_register_limiter rate v = new_limiter (rate (per_hour (if fl_pos v then v else Fin 10))) 3"

text \<open>
  The limiter of the administrator's interface: \<^verbatim>\<open>NewLimiter\<close> takes requests a minute and is given
  \<^verbatim>\<open>30.0/60\<close>, so this is one request in two minutes after the first five.
\<close>

definition new_admin_limiter :: "(float64 \<Rightarrow> 'r) \<Rightarrow> ('r, 'l) limiter" where
  "new_admin_limiter rate = new_limiter (rate (Fin (30 / 60))) 5"

section \<open>Assembling (app.go)\<close>

definition new_upstream :: "url_ops \<Rightarrow> string \<Rightarrow> go_error + unit" where
  "new_upstream uo proxy =
     (if proxy \<noteq> [] \<and> uo_parse uo proxy = None then Inl (Internal ''parse UPSTREAM_PROXY'') else Inr ())"

definition cache_config_of :: "'net config \<Rightarrow> cache_config" where
  "cache_config_of cfg =
     \<lparr>cc_dir = cf_cache_dir cfg, cc_tmp = cf_cache_tmp cfg, cc_max = cf_cache_max cfg, cc_max_file = 0,
      cc_layout = cf_cache_layout cfg, cc_mark = cf_cache_mark cfg, cc_batch = cf_cache_batch cfg\<rparr>"

definition recover_config_of :: "'net config \<Rightarrow> recover_config" where
  "recover_config_of cfg =
     \<lparr>rf_ttl_days = cf_ttl_days cfg, rf_neg_days = cf_neg_days cfg, rf_concurrent = 0,
      rf_tmp_dir = cf_recover_tmp cfg, rf_img_hosts = cf_img_hosts cfg, rf_sources = cf_sources cfg,
      rf_deps = \<lparr>sd_every = 0, sd_slots = 0\<rparr>\<rparr>"

text \<open>
  The running server. \<open>ap_state\<close> is what the handlers share and the administrator can change;
  \<open>ap_admin\<close> is the token and the limiter of the administrator's interface, when it is on.
\<close>

record ('r, 'l, 'net) app =
  ap_enc :: cipher
  ap_mw :: auth_mw
  ap_register :: "('r, 'l) limiter"
  ap_relay_hosts :: "string list"
  ap_img_hosts :: "string list"
  ap_sources :: "source list"
  ap_shared :: bool
  ap_state :: "('r, 'l) admin_state"
  ap_admin :: "(string \<times> ('r, 'l) limiter) option"
  ap_root :: web_root
  ap_origins :: "string list"
  ap_proxies :: "'net list"

text \<open>
  \<^verbatim>\<open>NewWithClient\<close>, in its order. The result is \<open>None\<close> where opening the cache does not end or applying
  the settings panics; an error makes the process exit.
\<close>

definition admin_part ::
  "('r, 'l, 'ip, 'net) platform \<Rightarrow> startup \<Rightarrow> environment \<Rightarrow> int \<Rightarrow> string \<Rightarrow> ('r, 'l) admin_state
     \<Rightarrow> ((string \<times> ('r, 'l) limiter) option \<times> ('r, 'l) admin_state) option" where
  "admin_part x st env now token s =
     (if token = [] then Some (None, s)
      else map_option (Pair (Some (token, new_admin_limiter (x_rate x))))
             (new_admin (x_float x) (x_ops x) (\<lambda>n. x_rate x (float_of_int n)) (1000000 * now)
                (\<lambda>step. case step of ResolveKey k \<Rightarrow> st_setting st k | _ \<Rightarrow> False)
                env (ad_settings s) (ad_live s) (ad_sync s)))"

definition new_app ::
  "('r, 'l, 'ip, 'net) platform \<Rightarrow> startup \<Rightarrow> environment \<Rightarrow> int \<Rightarrow> 'net config \<Rightarrow> stored
     \<Rightarrow> (go_error + ('r, 'l, 'net) app) option" where
  "new_app x st env now cfg d =
     (case load_key (x_aead x) (cf_enc_key cfg) of
        Inl e \<Rightarrow> Some (Inl e)
      | Inr enc \<Rightarrow>
     (case new_middleware (x_sha x) (st_auth st) now (cf_static_tokens cfg)
             (new_auth (so_accounts d) (so_devices d) (cf_invite_codes cfg)) of
        (Inl e, _) \<Rightarrow> Some (Inl e)
      | (Inr mw, au) \<Rightarrow>
     (case new_upstream (x_uo x) (cf_proxy cfg) of
        Inl e \<Rightarrow> Some (Inl e)
      | Inr _ \<Rightarrow>
     (case open_cache (st_cache st) (st_evict st) (cache_config_of cfg) (so_meta d) (so_files d) of
        None \<Rightarrow> None
      | Some (Inl e) \<Rightarrow> Some (Inl e)
      | Some (Inr c) \<Rightarrow>
     (case new_service (st_tokens_ok st) (so_entries d) (so_domains d) of
        Inl e \<Rightarrow> Some (Inl e)
      | Inr sy \<Rightarrow>
     (case new_recover (x_ul x) (st_mkdir_ok st) (recover_config_of cfg) (so_rows d) of
        Inl e \<Rightarrow> Some (Inl e)
      | Inr (rq, srcs, _) \<Rightarrow>
     (case admin_part x st env now (cf_admin_token cfg)
             \<lparr>ad_settings = so_settings d, ad_env = (\<lambda>_. None),
              ad_live = \<lparr>lp_cache = c, lp_recover = rq, lp_write = new_limiter (x_rate x (cf_rate_write cfg)) 10,
                         lp_img = new_limiter (x_rate x (cf_rate_img cfg)) 30, lp_auth = au\<rparr>,
              ad_sync = sy\<rparr> of
        None \<Rightarrow> None
      | Some (adm, s) \<Rightarrow>
     (case spa_root (st_stat st) (st_dir st) (st_embedded st) (cf_web_dir cfg) of
        Inl e \<Rightarrow> Some (Inl e)
      | Inr web \<Rightarrow>
          Some (Inr \<lparr>ap_enc = enc, ap_mw = mw, ap_register = new_register_limiter (x_rate x) (cf_rate_register cfg),
                     ap_relay_hosts = allowed_hosts (x_ul x) relay_hosts (cf_relay_hosts cfg),
                     ap_img_hosts = allowed_hosts (x_ul x) img_hosts (cf_img_hosts cfg),
                     ap_sources = srcs, ap_shared = cf_shared cfg, ap_state = s, ap_admin = adm, ap_root = web,
                     ap_origins = cf_origins cfg, ap_proxies = cf_proxies cfg\<rparr>)))))))))"

section \<open>Starting the process (main.go)\<close>

text \<open>
  The data directory, the database and its migrations, then the server; an error ends the process
  with exit code 1.
\<close>

definition boot ::
  "('r, 'l, 'ip, 'net) platform \<Rightarrow> startup \<Rightarrow> (string \<Rightarrow> bool) \<Rightarrow> (db_step \<Rightarrow> bool)
     \<Rightarrow> (string \<Rightarrow> stored \<Rightarrow> stored option) \<Rightarrow> embedded \<Rightarrow> (string \<Rightarrow> stored database) \<Rightarrow> environment \<Rightarrow> int
     \<Rightarrow> (go_error + (string \<times> ('r, 'l, 'net) app)) option" where
  "boot x st mkdir_ok fail exec migrations connect env now =
     (let cfg = load_config (x_ul x) (x_float x) (x_cidr x) env
      in if \<not> mkdir_ok (cf_data_dir cfg) then Some (Inl (Internal ''create data dir failed''))
         else
     (case db_open connect fail (cf_db_path cfg) of
        Inl e \<Rightarrow> Some (Inl e)
      | Inr d \<Rightarrow>
     (case migrate exec fail migrations now d of
        (Inl e, _) \<Rightarrow> Some (Inl e)
      | (Inr _, d') \<Rightarrow>
     (case new_app x st env now cfg (db_data d') of
        None \<Rightarrow> None
      | Some (Inl e) \<Rightarrow> Some (Inl e)
      | Some (Inr a) \<Rightarrow> Some (Inr (CHR '':'' # cf_port cfg, a))))))"

end
