(* ===== verification/AdminFacts.thy ===== *)
theory AdminFacts
  imports Admin AuthFacts CacheEvict
begin

text \<open>
  Facts on the administrator's operations: the settings always have a value of
  their kind, and the listing of the accounts by cursor cuts the ordered list.
\<close>

section \<open>Settings have a value of their kind\<close>

definition same_kind :: "setting_value \<Rightarrow> setting_value \<Rightarrow> bool" where
  "same_kind v w \<longleftrightarrow>
     (case (v, w) of (SInt _, SInt _) \<Rightarrow> True | (SFloat _, SFloat _) \<Rightarrow> True | (SText _, SText _) \<Rightarrow> True | _ \<Rightarrow> False)"

lemmas setting_keys = key_cache_max_def key_cache_mark_def key_recover_ttl_def key_recover_neg_def
  key_rate_write_def key_rate_img_def key_invites_def

lemma same_kind_refl [simp]: "same_kind v v"
  by (cases v) (simp_all add: same_kind_def)

lemma parsers_kind:
  "parse_positive_int raw = Inr v \<Longrightarrow> \<exists>i. v = SInt i \<and> 0 < i \<and> is_int64 i"
  "parse_watermark pf raw = Inr v \<Longrightarrow> \<exists>x. v = SFloat x \<and> \<not> fl_le_0 x \<and> \<not> fl_ge_1 x"
  "parse_invite_codes raw = Inr v \<Longrightarrow> \<exists>t. v = SText t"
  by (auto simp: parse_positive_int_def parse_watermark_def parse_invite_codes_def
      dest: parse_int64_range split: option.splits if_splits)

lemma parse_kind:
  assumes "setting_def_of pf key = Some d" and "sd_parse d raw = Inr v"
  shows "same_kind v (sd_default d)"
  using assms
  by (auto simp: setting_def_of_def setting_defs_def same_kind_def dest!: parsers_kind split: if_splits)

text \<open>What is stored is trimmed; this changes nothing but the ends of the invite codes.\<close>

lemma parse_trimmed:
  assumes "setting_def_of pf key = Some d" and "sd_parse d raw = Inr v"
  shows "\<exists>w. sd_parse d (trim_space raw) = Inr w \<and> (key \<noteq> key_invites \<longrightarrow> w = v)"
  using assms
  by (auto simp: setting_def_of_def setting_defs_def parse_positive_int_def parse_watermark_def parse_invite_codes_def
      split: if_splits)

lemma resolve_kind:
  assumes "setting_def_of pf key = Some d" and "env = env_snapshot pf getenv"
  shows "\<exists>v src. resolve pf fail env rows key = Some (v, src) \<and> same_kind v (sd_default d)"
proof -
  have "same_kind v (sd_default d)" if "env key = Some v" for v
    using that assms parse_kind [OF assms(1)] by (auto simp: env_snapshot_def split: option.splits sum.splits)
  then show ?thesis
    using assms(1) parse_kind [OF assms(1)] by (auto simp: resolve_def Let_def split: option.split sum.split)
qed

lemma setting_def_simps:
  "setting_def_of pf key_cache_max = Some \<lparr>sd_env = ''CACHE_MAX_BYTES'', sd_default = SInt default_max_bytes, sd_parse = parse_positive_int\<rparr>"
  "setting_def_of pf key_cache_mark = Some \<lparr>sd_env = ''CACHE_HIGH_WATERMARK'', sd_default = SFloat default_mark, sd_parse = parse_watermark pf\<rparr>"
  "setting_def_of pf key_recover_ttl = Some \<lparr>sd_env = ''RECOVER_TTL_DAYS'', sd_default = SInt 90, sd_parse = parse_positive_int\<rparr>"
  "setting_def_of pf key_recover_neg = Some \<lparr>sd_env = ''RECOVER_NEGATIVE_TTL_DAYS'', sd_default = SInt 7, sd_parse = parse_positive_int\<rparr>"
  "setting_def_of pf key_rate_write = Some \<lparr>sd_env = ''RATE_WRITE_PER_MIN'', sd_default = SInt 60, sd_parse = parse_positive_int\<rparr>"
  "setting_def_of pf key_rate_img = Some \<lparr>sd_env = ''RATE_IMG_PER_MIN'', sd_default = SInt 300, sd_parse = parse_positive_int\<rparr>"
  "setting_def_of pf key_invites = Some \<lparr>sd_env = ''INVITE_CODES'', sd_default = SText [], sd_parse = parse_invite_codes\<rparr>"
  by (simp_all add: setting_def_of_def setting_defs_def setting_keys)

lemma same_kind_casts:
  "same_kind v (SInt j) \<Longrightarrow> \<exists>i. v = SInt i" "same_kind v (SFloat y) \<Longrightarrow> \<exists>x. v = SFloat x"
  "same_kind v (SText u) \<Longrightarrow> \<exists>t. v = SText t"
  by (cases v; simp add: same_kind_def)+

lemma as_int_iff: "as_int v = Some i \<longleftrightarrow> v = Some (SInt i)"
  by (cases v rule: as_int.cases) simp_all

lemma as_float_iff: "as_float v = Some x \<longleftrightarrow> v = Some (SFloat x)"
  by (cases v rule: as_float.cases) simp_all

lemma as_text_iff: "as_text v = Some t \<longleftrightarrow> v = Some (SText t)"
  by (cases v rule: as_text.cases) simp_all

lemmas cast_iffs = as_int_iff as_float_iff as_text_iff

lemma resolve_casts:
  assumes "env = env_snapshot pf getenv"
  shows "\<exists>i. as_int (map_option fst (resolve pf fail env rows key_cache_max)) = Some i"
    and "\<exists>x. as_float (map_option fst (resolve pf fail env rows key_cache_mark)) = Some x"
    and "\<exists>i. as_int (map_option fst (resolve pf fail env rows key_recover_ttl)) = Some i"
    and "\<exists>i. as_int (map_option fst (resolve pf fail env rows key_recover_neg)) = Some i"
    and "\<exists>i. as_int (map_option fst (resolve pf fail env rows key_rate_write)) = Some i"
    and "\<exists>i. as_int (map_option fst (resolve pf fail env rows key_rate_img)) = Some i"
    and "\<exists>t. as_text (map_option fst (resolve pf fail env rows key_invites)) = Some t"
  using resolve_kind [OF setting_def_simps(1) assms, of fail rows] resolve_kind [OF setting_def_simps(2) assms, of fail rows]
    resolve_kind [OF setting_def_simps(3) assms, of fail rows] resolve_kind [OF setting_def_simps(4) assms, of fail rows]
    resolve_kind [OF setting_def_simps(5) assms, of fail rows] resolve_kind [OF setting_def_simps(6) assms, of fail rows]
    resolve_kind [OF setting_def_simps(7) assms, of fail rows]
  by (fastforce dest: same_kind_casts)+

lemma apply_all_total:
  assumes "env = env_snapshot pf getenv"
  shows "\<exists>p'. apply_all pf ops rate_of now fail env rows p = Some p'"
proof -
  note c = resolve_casts [OF assms, of fail rows]
  from c(1) obtain a where a: "as_int (map_option fst (resolve pf fail env rows key_cache_max)) = Some a" ..
  from c(2) obtain b where b: "as_float (map_option fst (resolve pf fail env rows key_cache_mark)) = Some b" ..
  from c(3) obtain d where d: "as_int (map_option fst (resolve pf fail env rows key_recover_ttl)) = Some d" ..
  from c(4) obtain e where e: "as_int (map_option fst (resolve pf fail env rows key_recover_neg)) = Some e" ..
  from c(5) obtain f where f: "as_int (map_option fst (resolve pf fail env rows key_rate_write)) = Some f" ..
  from c(6) obtain g where g: "as_int (map_option fst (resolve pf fail env rows key_rate_img)) = Some g" ..
  from c(7) obtain h where h: "as_text (map_option fst (resolve pf fail env rows key_invites)) = Some h" ..
  show ?thesis by (simp add: apply_all_def apply_values_def a b d e f g h)
qed

section \<open>The listing of the accounts\<close>

lemma account_place_inj:
  "tbl_unique ac_id as \<Longrightarrow> a \<in> set as \<Longrightarrow> b \<in> set as \<Longrightarrow> account_place a = account_place b \<Longrightarrow> a = b"
  by (auto simp: tbl_unique_def distinct_map account_place_def dest: inj_onD)

text \<open>The accounts in order, with no two in the same place.\<close>

definition ordered_accounts :: "account list \<Rightarrow> account list" where
  "ordered_accounts as = sort_key account_place as"

lemma ordered_places:
  assumes "tbl_unique ac_id as"
  shows "sorted_wrt (\<lambda>a b. account_place a < account_place b) (ordered_accounts as)"
proof -
  have "distinct (map account_place as)"
    using assms account_place_inj [OF assms] by (auto simp: tbl_unique_def distinct_map inj_on_def)
  then have "distinct (map account_place (ordered_accounts as))"
    by (simp add: ordered_accounts_def distinct_map)
  moreover have "sorted (map account_place (ordered_accounts as))" by (simp add: ordered_accounts_def)
  ultimately have "sorted_wrt (<) (map account_place (ordered_accounts as))" by (simp add: strict_sorted_iff)
  then show ?thesis by (simp add: sorted_wrt_map)
qed

text \<open>What comes after the last account of a first part is the rest.\<close>

lemma after_rest:
  assumes "sorted_wrt (\<lambda>a b. account_place a < account_place b) (xs @ a # ys)"
  shows "filter (after (Some (account_place a))) (xs @ a # ys) = ys"
proof -
  have "\<not> account_place a < account_place x" if "x \<in> set xs" for x
    using assms that by (auto simp: sorted_wrt_append dest: less_asym)
  moreover have "account_place a < account_place y" if "y \<in> set ys" for y
    using assms that by (auto simp: sorted_wrt_append)
  ultimately show ?thesis by (auto simp: after_def filter_empty_conv filter_id_conv)
qed

definition cursor_fits :: "account \<Rightarrow> bool" where
  "cursor_fits a \<longleftrightarrow> is_int64 (ac_created a) \<and> is_int64 (ac_id a)"

lemma cursor_place_account:
  assumes "cursor_fits a"
  shows "cursor_place (account_cursor a) = Inr (Some (account_place a)) \<and> account_cursor a \<noteq> []"
proof -
  have d: "decode_cursor (account_cursor a) = Inr (ac_created a, format_int (ac_id a))"
    using assms by (simp add: account_cursor_def cursor_fits_def decode_encode_cursor)
  have "decode_cursor [] = Inl (bad_request ''invalid cursor'')" by code_simp
  with d have "account_cursor a \<noteq> []" by auto
  with d assms show ?thesis by (simp add: cursor_place_def cursor_fits_def account_place_def)
qed

text \<open>A client that follows the cursors from \<open>cursor\<close> on, through at most \<open>n\<close> pages.\<close>

fun account_pages :: "nat \<Rightarrow> string \<Rightarrow> int \<Rightarrow> ('r, 'l) admin_state \<Rightarrow> account_item list option" where
  "account_pages 0 cursor limit s = None"
| "account_pages (Suc n) cursor limit s =
     (case list_accounts (\<lambda>_. False) cursor limit s of
        Inl e \<Rightarrow> None
      | Inr (items, next) \<Rightarrow>
          if next = [] then Some items else map_option ((@) items) (account_pages n next limit s))"

lemma list_accounts_page:
  assumes "cursor_place cursor = Inr p" and "0 < limit"
    and "filter (after p) (ordered_accounts (all_accounts s)) = zs"
  shows "list_accounts (\<lambda>_. False) cursor limit s =
     Inr (map (account_item_of s) (take (nat limit) zs),
          if length zs > nat limit then account_cursor (zs ! (nat limit - 1)) else [])"
proof -
  have rows: "sort_key account_place (filter (after p) (all_accounts s)) = zs"
    using assms(3) by (simp add: ordered_accounts_def filter_sort)
  have lim: "nat (limit + 1) = Suc (nat limit)" "int (nat limit) = limit" using assms(2) by simp_all
  have "last (take (nat limit) zs) = zs ! (nat limit - 1)" if "nat limit < length zs"
  proof -
    have "take (nat limit) zs \<noteq> []" "length (take (nat limit) zs) = nat limit" using that assms(2) by auto
    then show ?thesis using assms(2) by (simp add: last_conv_nth)
  qed
  then show ?thesis
    using assms(1,2) lim by (auto simp: list_accounts_def rows Let_def min_def)
qed

lemma account_pages_rest:
  assumes "tbl_unique ac_id (all_accounts s)" and "\<forall>a \<in> set (all_accounts s). cursor_fits a" and "0 < limit"
    and "cursor_place cursor = Inr p" and "ordered_accounts (all_accounts s) = xs @ zs"
    and "filter (after p) (ordered_accounts (all_accounts s)) = zs" and "length zs < n"
  shows "account_pages n cursor limit s = Some (map (account_item_of s) zs)"
  using assms(4-7)
proof (induction n arbitrary: cursor p xs zs)
  case 0
  then show ?case by simp
next
  case (Suc n)
  note page = list_accounts_page [OF Suc.prems(1) assms(3) Suc.prems(3)]
  show ?case
  proof (cases "length zs > nat limit")
    case False
    with page show ?thesis by simp
  next
    case True
    let ?k = "nat limit - 1" and ?a = "zs ! (nat limit - 1)"
    have k: "Suc ?k = nat limit" using assms(3) by simp
    have split: "zs = take ?k zs @ ?a # drop (nat limit) zs"
      using True k id_take_nth_drop [of ?k zs] by (simp add: less_imp_diff_less)
    have a: "?a \<in> set (all_accounts s)"
    proof -
      have "?a \<in> set (ordered_accounts (all_accounts s))" using True Suc.prems(2) by (simp add: less_imp_diff_less)
      then show ?thesis by (simp add: ordered_accounts_def)
    qed
    have whole: "ordered_accounts (all_accounts s) = (xs @ take ?k zs) @ ?a # drop (nat limit) zs"
      using Suc.prems(2) split by simp
    note sorted = ordered_places [OF assms(1), unfolded whole]
    have cur: "cursor_place (account_cursor ?a) = Inr (Some (account_place ?a))" "account_cursor ?a \<noteq> []"
      using cursor_place_account [of ?a] assms(2) a by blast+
    have rest: "filter (after (Some (account_place ?a))) (ordered_accounts (all_accounts s)) = drop (nat limit) zs"
      using after_rest [OF sorted] by (simp only: whole)
    have "account_pages n (account_cursor ?a) limit s = Some (map (account_item_of s) (drop (nat limit) zs))"
      by (rule Suc.IH [OF cur(1) _ rest, of "xs @ take (nat limit) zs"]) (use Suc.prems(2,4) True assms(3) in simp_all)
    with page True cur(2) show ?thesis by (simp flip: map_append)
  qed
qed

section \<open>Deleting\<close>

lemma erase_account_parts:
  "all_devices (erase_account i s) = tbl_delete (\<lambda>d. dv_account d = i) (all_devices s)"
  "all_accounts (erase_account i s) = tbl_delete (\<lambda>a. ac_id a = i) (all_accounts s)"
  "all_recover (erase_account i s) = tbl_delete (\<lambda>r. rv_account r = i) (all_recover s)"
  "entries (ad_sync (erase_account i s)) = tbl_delete (\<lambda>e. se_account e = i) (entries (ad_sync s))"
  "domains (ad_sync (erase_account i s)) = tbl_delete (\<lambda>d. dr_account d = i) (domains (ad_sync s))"
  by (simp_all add: erase_account_def Let_def all_devices_def all_accounts_def all_recover_def)

lemma erase_account_inv [keeps_inv]:
  "auth_inv (lp_auth (ad_live s)) \<Longrightarrow> auth_inv (lp_auth (ad_live (erase_account i s)))"
  using erase_account_parts(1,2) [of i s]
  by (auto simp: auth_inv_def all_devices_def all_accounts_def keeps_inv)

lemma delete_account_cases:
  assumes "delete_account fail i s = (r, s')"
  shows "(\<exists>e. r = Inl e \<and> s' = s) \<or> (r = Inr () \<and> s' = erase_account i s \<and> i \<in> ac_id ` set (all_accounts s))"
  using assms by (auto simp: delete_account_def list_ex_iff split: if_splits)

end
