(* ===== verification/StartupFacts.thy ===== *)
theory StartupFacts
  imports Startup CacheEvict AdminFacts
begin

text \<open>
  Facts on starting the server: rounding keeps the sign, eviction keeps the limits, and what each of
  the two readers of the environment, that of the configuration and that of the administrator's
  settings, makes of a variable.
\<close>

section \<open>Rounding keeps the sign\<close>

lemma powi_below: "0 < y \<Longrightarrow> 2 powi (log2_floor y - 52) \<le> y"
proof -
  assume y: "0 < y"
  have "(2 :: rat) powi (log2_floor y - 52) \<le> 2 powi log2_floor y" by (rule power_int_increasing) simp_all
  with log2_floor_bounds [OF y] show ?thesis by linarith
qed

lemma round53_pos: "0 < x \<Longrightarrow> 0 < round53 x"
proof -
  assume x: "0 < x"
  let ?p = "2 powi (log2_floor x - 52) :: rat"
  have p: "0 < ?p" by simp
  have "?p \<le> x" using powi_below [OF x] .
  with p have "1 \<le> x / ?p" by (simp only: le_divide_eq_1_pos)
  then have "1 \<le> \<lfloor>x / ?p\<rfloor>" by (simp only: le_floor_iff of_int_1)
  moreover have "\<lfloor>y\<rfloor> \<le> round_even y" for y by (simp add: round_even_def Let_def)
  ultimately have "1 \<le> round_even (x / ?p)" by (rule order_trans)
  with x p show ?thesis by (simp add: round53_def Let_def)
qed

lemma round53_neg: "x < 0 \<Longrightarrow> round53 x < 0"
proof -
  assume x: "x < 0"
  let ?p = "2 powi (log2_floor \<bar>x\<bar> - 52) :: rat"
  have p: "0 < ?p" by simp
  have "?p \<le> \<bar>x\<bar>" by (rule powi_below) (use x in simp)
  with p x have "x / ?p \<le> of_int (- 1)" by (simp add: divide_le_eq)
  then have "round_even (x / ?p) \<le> - 1" by (rule round_even_le)
  with x p show ?thesis by (simp add: round53_def Let_def mult_less_0_iff)
qed

lemma fl_pos_of_int: "fl_pos (float_of_int i) \<longleftrightarrow> 0 < i"
  using round53_pos [of "of_int i"] round53_neg [of "of_int i"]
  by (cases "i = 0"; cases "0 < i") (auto simp: fl_pos_def float_of_int_def round53_zero)

lemma float_of_60: "float_of_int 60 = Fin 60" and float_of_300: "float_of_int 300 = Fin 300"
  by code_simp+

section \<open>Eviction keeps the limits\<close>

lemma evict_keeps_limits: "evict fail i s = Some s' \<Longrightarrow> cs_max s' = cs_max s \<and> cs_mark s' = cs_mark s"
proof (rule evict.raw_induct [where P = "\<lambda>fail i s s'. cs_max s' = cs_max s \<and> cs_mark s' = cs_mark s"], goal_cases)
  case (1 rec fail i s s')
  then show ?case by (auto split: if_splits)
qed

lemma open_cache_limits:
  assumes "open_cache fail evict_fail cfg ms fs = Some (Inr s)"
  shows "cs_max s = cc_max (fill_defaults cfg) \<and> cs_mark s = cc_mark (fill_defaults cfg)"
proof -
  obtain cfg' s0 where cfg': "normal_config cfg = Inr cfg'" and ev: "evict evict_fail 0 s0 = Some s"
    and s0: "cs_max s0 = cc_max cfg'" "cs_mark s0 = cc_mark cfg'"
    using assms by (auto simp: open_cache_def split: sum.splits if_splits option.splits)
  then have "cfg' = fill_defaults cfg" by (auto simp: normal_config_def split: if_splits)
  with evict_keeps_limits [OF ev] s0 show ?thesis by simp
qed

section \<open>The two readers of the environment\<close>

text \<open>What the administrator's part takes for a key when the table of settings is empty.\<close>

lemma resolve_env:
  assumes "setting_def_of pf key = Some d"
  shows "map_option fst (resolve pf fail (env_snapshot pf env) [] key) =
     Some (case env (sd_env d) of None \<Rightarrow> sd_default d
           | Some raw \<Rightarrow> (case sd_parse d raw of Inl e \<Rightarrow> sd_default d | Inr v \<Rightarrow> v))"
  using assms by (auto simp: resolve_def env_snapshot_def Let_def split: option.split sum.split)

lemma parse_int64_Nil: "parse_int64 [] = None"
  by code_simp

text \<open>Integers with a default for values that are not positive.\<close>

lemma int_readers_agree:
  assumes "0 < dflt" and "other \<le> 0 \<or> other = dflt"
  shows "(case env name of None \<Rightarrow> SInt dflt
          | Some raw \<Rightarrow> (case parse_positive_int raw of Inl e \<Rightarrow> SInt dflt | Inr v \<Rightarrow> v)) =
     SInt (if env_int64 env name other \<le> 0 then dflt else env_int64 env name other)"
  using assms parse_int64_Nil
  by (auto simp: env_int64_def env_get_def parse_positive_int_def split: option.split)

text \<open>The law of the float parser the comparison needs: it reads a decimal integer as the nearest float.\<close>

definition reads_integers :: "parse_float \<Rightarrow> bool" where
  "reads_integers pf \<longleftrightarrow> pf [] = None \<and> (\<forall>t i. parse_int64 t = Some i \<longrightarrow> pf t = Some (float_of_int i))"

text \<open>A variable for a rate is plain when it is missing, not positive, or a decimal integer.\<close>

definition plain_rate :: "parse_float \<Rightarrow> environment \<Rightarrow> string \<Rightarrow> bool" where
  "plain_rate pf env name \<longleftrightarrow>
     parse_int64 (trim_space (env_get env name)) \<noteq> None \<or> \<not> fl_pos (env_float pf env name (Fin 0))"

lemma rate_readers_agree:
  assumes "reads_integers pf" and "plain_rate pf env name" and "0 < dflt"
  shows "(case env name of None \<Rightarrow> SInt dflt
          | Some raw \<Rightarrow> (case parse_positive_int raw of Inl e \<Rightarrow> SInt dflt | Inr v \<Rightarrow> v)) = SInt n \<Longrightarrow>
     env_float_def pf env name (float_of_int dflt) = float_of_int n"
proof -
  let ?t = "trim_space (env_get env name)"
  assume n: "(case env name of None \<Rightarrow> SInt dflt
    | Some raw \<Rightarrow> (case parse_positive_int raw of Inl e \<Rightarrow> SInt dflt | Inr v \<Rightarrow> v)) = SInt n"
  have unset: "\<not> fl_pos (Fin 0)" by (simp add: fl_pos_def)
  show ?thesis
  proof (cases "parse_int64 ?t")
    case None
    then have "n = dflt" using n by (auto simp: parse_positive_int_def env_get_def split: option.splits)
    moreover have "\<not> fl_pos (env_float pf env name (Fin 0))" using assms(2) None by (simp add: plain_rate_def)
    ultimately show ?thesis by (simp add: env_float_def_def)
  next
    case (Some i)
    then obtain raw where raw: "env name = Some raw"
      using parse_int64_Nil by (cases "env name") (auto simp: env_get_def)
    have "env_float pf env name (Fin 0) = float_of_int i"
      using assms(1) Some by (simp add: env_float_def reads_integers_def)
    with raw Some n assms(3) show ?thesis
      by (auto simp: env_float_def_def fl_pos_of_int parse_positive_int_def env_get_def split: if_splits)
  qed
qed

lemma mark_readers_agree:
  assumes "pf [] = None" and "env_float pf env name (Fin 0) \<noteq> Fin 1"
  shows "(case env name of None \<Rightarrow> SFloat default_mark
          | Some raw \<Rightarrow> (case parse_watermark pf raw of Inl e \<Rightarrow> SFloat default_mark | Inr v \<Rightarrow> v)) =
     SFloat (let v = env_float pf env name (Fin 0) in if fl_le_0 v \<or> fl_gt_1 v then default_mark else v)"
proof -
  have ge: "fl_ge_1 v \<longleftrightarrow> fl_gt_1 v \<or> v = Fin 1" for v by (cases v) auto
  show ?thesis
    using assms
    by (auto simp: env_float_def env_get_def parse_watermark_def ge Let_def split: option.split)
qed

end
