(* ===== verification/StartupProps.thy ===== *)
theory StartupProps
  imports StartupFacts
begin

text \<open>The property of starting the server with and without the administrator's interface.\<close>

section \<open>The limits in force\<close>

definition limits_in_force ::
  "('r, 'l) admin_state \<Rightarrow> (int \<times> float64) \<times> (int \<times> int) \<times> ('r \<times> int) \<times> ('r \<times> int) \<times> string set" where
  "limits_in_force s =
     (let p = ad_live s
      in ((cs_max (lp_cache p), cs_mark (lp_cache p)), (rq_ttl (lp_recover p), rq_neg (lp_recover p)),
          (l_rate (lp_write p), l_burst (lp_write p)), (l_rate (lp_img p), l_burst (lp_img p)),
          set (invites (lp_auth p))))"

text \<open>
  The environment is plain when the two rates are decimal integers (or not positive), the watermark is
  not exactly one, and the invitation codes have no white space.
\<close>

definition plain_env :: "parse_float \<Rightarrow> environment \<Rightarrow> bool" where
  "plain_env pf env \<longleftrightarrow>
     plain_rate pf env ''RATE_WRITE_PER_MIN'' \<and> plain_rate pf env ''RATE_IMG_PER_MIN'' \<and>
     env_float pf env ''CACHE_HIGH_WATERMARK'' (Fin 0) \<noteq> Fin 1 \<and> dense (env_get env ''INVITE_CODES'')"

text \<open>What the administrator's part makes of the limits, when the table of settings is empty.\<close>

lemma apply_all_env:
  assumes pf: "reads_integers pf" and env: "plain_env pf env"
    and app: "apply_all pf ops (\<lambda>n. rate (float_of_int n)) now fail (env_snapshot pf env) [] p = Some p'"
  shows "cs_max (lp_cache p') = (if env_int64 env ''CACHE_MAX_BYTES'' 0 \<le> 0 then default_max_bytes else env_int64 env ''CACHE_MAX_BYTES'' 0)"
    and "cs_mark (lp_cache p') = (let v = env_float pf env ''CACHE_HIGH_WATERMARK'' (Fin 0) in if fl_le_0 v \<or> fl_gt_1 v then default_mark else v)"
    and "rq_ttl (lp_recover p') = wrap64 ((if env_int64 env ''RECOVER_TTL_DAYS'' 90 \<le> 0 then 90 else env_int64 env ''RECOVER_TTL_DAYS'' 90) * day_ms)"
    and "rq_neg (lp_recover p') = wrap64 ((if env_int64 env ''RECOVER_NEGATIVE_TTL_DAYS'' 7 \<le> 0 then 7 else env_int64 env ''RECOVER_NEGATIVE_TTL_DAYS'' 7) * day_ms)"
    and "l_rate (lp_write p') = rate (env_float_def pf env ''RATE_WRITE_PER_MIN'' (Fin 60))" and "l_burst (lp_write p') = 10"
    and "l_rate (lp_img p') = rate (env_float_def pf env ''RATE_IMG_PER_MIN'' (Fin 300))" and "l_burst (lp_img p') = 30"
    and "set (invites (lp_auth p')) = set (split_csv (env_get env ''INVITE_CODES''))"
proof -
  let ?val = "\<lambda>key. map_option fst (resolve pf fail (env_snapshot pf env) [] key)"
  note res = setting_def_simps [of pf, THEN resolve_env, of fail env, unfolded setting_def.select_convs]
  have pf0: "pf [] = None" using pf by (simp add: reads_integers_def)
  from app obtain mx mark ttl neg rw ri codes where v:
      "?val key_cache_max = Some (SInt mx)" "?val key_cache_mark = Some (SFloat mark)" "?val key_recover_ttl = Some (SInt ttl)"
      "?val key_recover_neg = Some (SInt neg)" "?val key_rate_write = Some (SInt rw)" "?val key_rate_img = Some (SInt ri)"
      "?val key_invites = Some (SText codes)"
    and p': "p' = \<lparr>lp_cache = set_limits mx mark (lp_cache p), lp_recover = set_ttl_days ttl neg (lp_recover p),
                lp_write = set_rate ops now (rate (float_of_int rw)) write_burst (lp_write p),
                lp_img = set_rate ops now (rate (float_of_int ri)) img_burst (lp_img p),
                lp_auth = set_invite_codes (csv_to_list codes) (lp_auth p)\<rparr>"
    by (auto simp: apply_all_def apply_values_def cast_iffs split: option.splits)
  note v = v [unfolded res, unfolded option.inject]
  show "cs_max (lp_cache p') = (if env_int64 env ''CACHE_MAX_BYTES'' 0 \<le> 0 then default_max_bytes else env_int64 env ''CACHE_MAX_BYTES'' 0)"
    using v(1) int_readers_agree [of default_max_bytes 0 env "''CACHE_MAX_BYTES''"]
    by (simp add: p' set_limits_def default_max_bytes_def)
  show "cs_mark (lp_cache p') = (let v = env_float pf env ''CACHE_HIGH_WATERMARK'' (Fin 0) in if fl_le_0 v \<or> fl_gt_1 v then default_mark else v)"
    using v(2) mark_readers_agree [where pf = pf and env = env and name = "''CACHE_HIGH_WATERMARK''"] pf0 env by (simp add: p' set_limits_def plain_env_def)
  show "rq_ttl (lp_recover p') = wrap64 ((if env_int64 env ''RECOVER_TTL_DAYS'' 90 \<le> 0 then 90 else env_int64 env ''RECOVER_TTL_DAYS'' 90) * day_ms)"
    using v(3) int_readers_agree [of 90 90 env "''RECOVER_TTL_DAYS''"] by (simp add: p' set_ttl_days_def)
  show "rq_neg (lp_recover p') = wrap64 ((if env_int64 env ''RECOVER_NEGATIVE_TTL_DAYS'' 7 \<le> 0 then 7 else env_int64 env ''RECOVER_NEGATIVE_TTL_DAYS'' 7) * day_ms)"
    using v(4) int_readers_agree [of 7 7 env "''RECOVER_NEGATIVE_TTL_DAYS''"] by (simp add: p' set_ttl_days_def)
  show "l_rate (lp_write p') = rate (env_float_def pf env ''RATE_WRITE_PER_MIN'' (Fin 60))"
    using v(5) rate_readers_agree [OF pf, of env "''RATE_WRITE_PER_MIN''" 60 rw] env
    by (simp add: p' set_rate_def plain_env_def float_of_60)
  show "l_rate (lp_img p') = rate (env_float_def pf env ''RATE_IMG_PER_MIN'' (Fin 300))"
    using v(6) rate_readers_agree [OF pf, of env "''RATE_IMG_PER_MIN''" 300 ri] env
    by (simp add: p' set_rate_def plain_env_def float_of_300)
  show "l_burst (lp_write p') = 10" "l_burst (lp_img p') = 30"
    by (simp_all add: p' set_rate_def write_burst_def img_burst_def)
  show "set (invites (lp_auth p')) = set (split_csv (env_get env ''INVITE_CODES''))"
  proof (cases "env ''INVITE_CODES''")
    case None
    with v(7) show ?thesis by (simp add: p' set_invite_codes_def env_get_def csv_to_list_def)
  next
    case (Some raw)
    with env have "dense raw" by (simp add: plain_env_def env_get_def)
    then obtain t where "parse_invite_codes raw = Inr (SText t)" "set (csv_to_list t) = set (split_csv raw)"
      using invite_codes_agree by blast
    with Some v(7) show ?thesis by (simp add: p' set_invite_codes_def env_get_def)
  qed
qed

section \<open>Property\<close>

lemma new_app_parts:
  assumes "new_app x st env now cfg d = Some (Inr a)"
  obtains enc mw au c sy rq srcs logged adm s where
    "load_key (x_aead x) (cf_enc_key cfg) = Inr enc"
    "new_middleware (x_sha x) (st_auth st) now (cf_static_tokens cfg)
       (new_auth (so_accounts d) (so_devices d) (cf_invite_codes cfg)) = (Inr mw, au)"
    "new_upstream (x_uo x) (cf_proxy cfg) = Inr ()"
    "open_cache (st_cache st) (st_evict st) (cache_config_of cfg) (so_meta d) (so_files d) = Some (Inr c)"
    "new_service (st_tokens_ok st) (so_entries d) (so_domains d) = Inr sy"
    "new_recover (x_ul x) (st_mkdir_ok st) (recover_config_of cfg) (so_rows d) = Inr (rq, srcs, logged)"
    "admin_part x st env now (cf_admin_token cfg)
       \<lparr>ad_settings = so_settings d, ad_env = (\<lambda>_. None),
        ad_live = \<lparr>lp_cache = c, lp_recover = rq, lp_write = new_limiter (x_rate x (cf_rate_write cfg)) 10,
                   lp_img = new_limiter (x_rate x (cf_rate_img cfg)) 30, lp_auth = au\<rparr>,
        ad_sync = sy\<rparr> = Some (adm, s)"
    "spa_root (st_stat st) (st_dir st) (st_embedded st) (cf_web_dir cfg) = Inr (ap_root a)"
    "ap_state a = s" "ap_admin a = adm"
  using assms
  by (auto simp: new_app_def split: sum.splits prod.splits option.splits)

lemma middleware_invites: "new_middleware sha fail now toks s = (r, s') \<Longrightarrow> invites s' = invites s"
  by (auto simp: new_middleware_def ensure_static_account_def Let_def split: if_splits option.splits prod.splits sum.splits)

text \<open>
  C32: Equivalence. Switching the administrator's interface on does not change the limits in force, as
  long as no setting is stored and the environment is plain: the limits of the cache, the lifetimes of
  recovered rows, the rates and bursts of both limiters and the invitation codes are those of the
  configuration. Nor does it keep the server from starting.
\<close>

theorem admin_keeps_config:
  assumes "new_app x st env now (cfg\<lparr>cf_admin_token := []\<rparr>) d = Some (Inr a)"
    and "cfg = load_config (x_ul x) (x_float x) (x_cidr x) env" and "cf_admin_token cfg \<noteq> []"
    and "so_settings d = []" and "reads_integers (x_float x)" and "plain_env (x_float x) env"
  shows "\<exists>a'. new_app x st env now cfg d = Some (Inr a') \<and> ap_admin a' \<noteq> None \<and> ap_admin a = None \<and>
     limits_in_force (ap_state a') = limits_in_force (ap_state a)"
proof -
  obtain enc mw au c sy rq srcs logged adm s where parts:
    "load_key (x_aead x) (cf_enc_key cfg) = Inr enc"
    "new_middleware (x_sha x) (st_auth st) now (cf_static_tokens cfg)
       (new_auth (so_accounts d) (so_devices d) (cf_invite_codes cfg)) = (Inr mw, au)"
    "new_upstream (x_uo x) (cf_proxy cfg) = Inr ()"
    "open_cache (st_cache st) (st_evict st) (cache_config_of cfg) (so_meta d) (so_files d) = Some (Inr c)"
    "new_service (st_tokens_ok st) (so_entries d) (so_domains d) = Inr sy"
    "new_recover (x_ul x) (st_mkdir_ok st) (recover_config_of cfg) (so_rows d) = Inr (rq, srcs, logged)"
    and adm: "admin_part x st env now []
       \<lparr>ad_settings = so_settings d, ad_env = (\<lambda>_. None),
        ad_live = \<lparr>lp_cache = c, lp_recover = rq, lp_write = new_limiter (x_rate x (cf_rate_write cfg)) 10,
                   lp_img = new_limiter (x_rate x (cf_rate_img cfg)) 30, lp_auth = au\<rparr>,
        ad_sync = sy\<rparr> = Some (adm, s)"
    and web: "spa_root (st_stat st) (st_dir st) (st_embedded st) (cf_web_dir cfg) = Inr (ap_root a)"
    and a: "ap_state a = s" "ap_admin a = adm"
    by (rule new_app_parts [OF assms(1)]) (auto simp: cache_config_of_def recover_config_of_def)
  let ?p = "\<lparr>lp_cache = c, lp_recover = rq, lp_write = new_limiter (x_rate x (cf_rate_write cfg)) 10,
    lp_img = new_limiter (x_rate x (cf_rate_img cfg)) 30, lp_auth = au\<rparr>"
  have s: "adm = None" "ad_live s = ?p" using adm by (auto simp: admin_part_def)
  obtain p' where p': "apply_all (x_float x) (x_ops x) (\<lambda>n. x_rate x (float_of_int n)) (1000000 * now) (\<lambda>k. st_setting st k)
      (env_snapshot (x_float x) env) [] ?p = Some p'"
    using apply_all_total [OF refl] by blast
  note env = apply_all_env [OF assms(5,6) p']
  define s' where "s' = \<lparr>ad_settings = [], ad_env = env_snapshot (x_float x) env, ad_live = p', ad_sync = sy\<rparr>"
  have "admin_part x st env now (cf_admin_token cfg)
       \<lparr>ad_settings = so_settings d, ad_env = (\<lambda>_. None), ad_live = ?p, ad_sync = sy\<rparr>
     = Some (Some (cf_admin_token cfg, new_admin_limiter (x_rate x)), s')"
    using assms(3,4) p' by (simp add: admin_part_def new_admin_def s'_def)
  then have "\<exists>a'. new_app x st env now cfg d = Some (Inr a') \<and> ap_admin a' \<noteq> None \<and> ap_state a' = s'"
    by (simp add: new_app_def parts web)
  moreover have "limits_in_force s' = limits_in_force s"
  proof -
    have "cs_max c = cs_max (lp_cache p') \<and> cs_mark c = cs_mark (lp_cache p')"
      using open_cache_limits [OF parts(4)] env(1,2)
      by (simp add: cache_config_of_def fill_defaults_def assms(2) load_config_def Let_def)
    moreover have "rq_ttl rq = rq_ttl (lp_recover p') \<and> rq_neg rq = rq_neg (lp_recover p')"
      using parts(6) env(3,4)
      by (auto simp: new_recover_def recover_config_of_def Let_def assms(2) load_config_def env_int_eq is_int64_def
          min64_def max64_def default_ttl_days_def default_neg_days_def split: prod.splits if_splits)
    moreover have "set (invites au) = set (invites (lp_auth p'))"
      using middleware_invites [OF parts(2)] env(9) by (simp add: new_auth_def assms(2) load_config_def Let_def)
    ultimately show ?thesis
      using env(5-8) by (simp add: limits_in_force_def s s'_def new_limiter_def assms(2) load_config_def Let_def)
  qed
  ultimately show ?thesis using a s by auto
qed

section \<open>A server without data\<close>

definition ex_platform :: "(float64, unit, unit, unit) platform" where
  "ex_platform = \<lparr>x_sha = id, x_ul = id, x_uu = id,
     x_uo = \<lparr>uo_parse = (\<lambda>_. None), uo_resolve = (\<lambda>_ _. None), uo_keep = (\<lambda>_ _ h. h)\<rparr>,
     x_ops = \<lparr>rl_new = (\<lambda>_ _. ()), rl_allow = (\<lambda>_ _. (True, ())), rl_set_limit = (\<lambda>_ _ _. ()), rl_set_burst = (\<lambda>_ _ _. ())\<rparr>,
     x_rate = id, x_retry = (\<lambda>_. 1), x_float = (\<lambda>t. map_option float_of_int (parse_int64 t)),
     x_aead = (\<lambda>_. Inl (Internal [])),
     x_net = \<lparr>split_host_port = (\<lambda>_. None), parse_ip = (\<lambda>_. None), is_loopback = (\<lambda>_. False), net_contains = (\<lambda>_ _. False)\<rparr>,
     x_cidr = \<lparr>co_ip = (\<lambda>_. None), co_is4 = (\<lambda>_. True), co_cidr = (\<lambda>_. None)\<rparr>, x_mime = (\<lambda>_. []),
     x_codec = \<lparr>rc_unmarshal = (\<lambda>_. None), rc_pages_out = (\<lambda>_. []), rc_pages_in = (\<lambda>_. None), rc_map_out = (\<lambda>_. []), rc_int = (\<lambda>_. 0)\<rparr>\<rparr>"

definition ex_startup :: startup where
  "ex_startup = \<lparr>st_auth = (\<lambda>_. False), st_cache = (\<lambda>_. False), st_evict = (\<lambda>_ _. False), st_tokens_ok = True,
     st_mkdir_ok = True, st_setting = (\<lambda>_. False), st_stat = (\<lambda>_. None),
     st_dir = (\<lambda>_. \<lparr>wr_node = (\<lambda>_. None), wr_stat_ok = (\<lambda>_. True)\<rparr>),
     st_embedded = \<lparr>wr_node = (\<lambda>_. None), wr_stat_ok = (\<lambda>_. True)\<rparr>\<rparr>"

definition ex_env :: environment where
  "ex_env name = (if name = ''ADMIN_TOKEN'' then Some ''secret''
     else if name = ''RATE_WRITE_PER_MIN'' then Some ''120'' else None)"

definition ex_stored :: stored where
  "ex_stored = \<lparr>so_accounts = [], so_devices = [], so_meta = [], so_files = (\<lambda>_. None), so_entries = [],
     so_domains = [], so_rows = [], so_settings = []\<rparr>"

definition ex_config :: "unit config" where
  "ex_config = load_config (x_ul ex_platform) (x_float ex_platform) (x_cidr ex_platform) ex_env"

lemma ex_config_simps:
  "cf_admin_token ex_config = ''secret''" "cf_enc_key ex_config = []" "cf_static_tokens ex_config = []"
  "cf_proxy ex_config = []" "cf_cache_dir ex_config = ''data/cache''" "cf_cache_layout ex_config = []"
  "cf_recover_tmp ex_config = ''data/recover-tmp''" "cf_web_dir ex_config = []"
proof -
  have "path_join [''./data'', ''cache''] = ''data/cache''" "path_join [''./data'', ''recover-tmp''] = ''data/recover-tmp''"
    "trim_space ''secret'' = ''secret''" by code_simp+
  then show "cf_admin_token ex_config = ''secret''" "cf_enc_key ex_config = []" "cf_static_tokens ex_config = []"
    "cf_proxy ex_config = []" "cf_cache_dir ex_config = ''data/cache''" "cf_cache_layout ex_config = []"
    "cf_recover_tmp ex_config = ''data/recover-tmp''" "cf_web_dir ex_config = []"
    by (simp_all add: ex_config_def load_config_def Let_def env_or_def env_get_def ex_env_def)
qed

lemma evict_empty: "cs_meta s = [] \<Longrightarrow> evict fail i s = Some s"
  by (subst evict.simps) (simp add: evict_batch_def)

lemma new_app_starts:
  assumes "load_key (x_aead x) (cf_enc_key cfg) = Inr enc"
    and "new_middleware (x_sha x) (st_auth st) now (cf_static_tokens cfg)
       (new_auth (so_accounts d) (so_devices d) (cf_invite_codes cfg)) = (Inr mw, au)"
    and "new_upstream (x_uo x) (cf_proxy cfg) = Inr ()"
    and "open_cache (st_cache st) (st_evict st) (cache_config_of cfg) (so_meta d) (so_files d) = Some (Inr c)"
    and "new_service (st_tokens_ok st) (so_entries d) (so_domains d) = Inr sy"
    and "new_recover (x_ul x) (st_mkdir_ok st) (recover_config_of cfg) (so_rows d) = Inr (rq, srcs, logged)"
    and "cf_admin_token cfg = []" and "spa_root (st_stat st) (st_dir st) (st_embedded st) (cf_web_dir cfg) = Inr web"
  shows "\<exists>a. new_app x st env now cfg d = Some (Inr a)"
  by (simp add: new_app_def admin_part_def assms)

lemma ex_starts: "\<exists>a. new_app ex_platform ex_startup ex_env 0 (ex_config\<lparr>cf_admin_token := []\<rparr>) ex_stored = Some (Inr a)"
proof -
  have cache: "\<exists>c. open_cache (\<lambda>_. False) (\<lambda>_ _. False) (cache_config_of (ex_config\<lparr>cf_admin_token := []\<rparr>)) [] (\<lambda>_. None) = Some (Inr c)"
    by (simp add: open_cache_def normal_config_def fill_defaults_def cache_config_of_def ex_config_simps is_int64_def
        min64_def max64_def evict_empty)
  have queue: "\<exists>rq srcs logged. new_recover ul True (recover_config_of (ex_config\<lparr>cf_admin_token := []\<rparr>)) [] = Inr (rq, srcs, logged)" for ul
    by (simp add: new_recover_def recover_config_of_def ex_config_simps Let_def split: prod.split)
  from cache obtain c where "open_cache (st_cache ex_startup) (st_evict ex_startup) (cache_config_of (ex_config\<lparr>cf_admin_token := []\<rparr>))
      (so_meta ex_stored) (so_files ex_stored) = Some (Inr c)"
    by (auto simp: ex_startup_def ex_stored_def)
  moreover have "new_service (st_tokens_ok ex_startup) (so_entries ex_stored) (so_domains ex_stored)
      = Inr \<lparr>entries = [], domains = [], cursors = Map.empty\<rparr>"
    by (simp add: ex_startup_def ex_stored_def new_service_def load_tokens_def)
  moreover obtain rq srcs logged where
    "new_recover (x_ul ex_platform) (st_mkdir_ok ex_startup) (recover_config_of (ex_config\<lparr>cf_admin_token := []\<rparr>))
       (so_rows ex_stored) = Inr (rq, srcs, logged)"
    using queue [of "x_ul ex_platform"] by (auto simp: ex_startup_def ex_stored_def)
  ultimately show ?thesis
    by (rule new_app_starts [rotated 3])
      (simp_all add: load_key_def new_middleware_def new_upstream_def ex_config_simps spa_root_def)
qed

theorem admin_keeps_config_witness:
  "\<exists>a a'. new_app ex_platform ex_startup ex_env 0 (ex_config\<lparr>cf_admin_token := []\<rparr>) ex_stored = Some (Inr a) \<and>
     new_app ex_platform ex_startup ex_env 0 ex_config ex_stored = Some (Inr a') \<and>
     limits_in_force (ap_state a') = limits_in_force (ap_state a)"
proof -
  obtain a where a: "new_app ex_platform ex_startup ex_env 0 (ex_config\<lparr>cf_admin_token := []\<rparr>) ex_stored = Some (Inr a)"
    using ex_starts by blast
  have "parse_int64 (trim_space ''120'') = Some 120" by code_simp
  then have "plain_env (x_float ex_platform) ex_env"
    by (simp add: plain_env_def plain_rate_def env_float_def env_get_def ex_env_def ex_platform_def fl_pos_def dense_def
        parse_int64_Nil)
  moreover have "reads_integers (x_float ex_platform)"
    by (simp add: reads_integers_def ex_platform_def parse_int64_Nil)
  ultimately show ?thesis
    using admin_keeps_config [OF a ex_config_def] a by (auto simp: ex_config_simps ex_stored_def)
qed

text \<open>Outside the plain environments the two readers part: half a request a minute becomes sixty.\<close>

lemma fraction_becomes_default:
  assumes "env ''RATE_WRITE_PER_MIN'' = Some ''0.5''" and "pf ''0.5'' = Some (Fin (1 / 2))"
  shows "env_float_def pf env ''RATE_WRITE_PER_MIN'' (Fin 60) = Fin (1 / 2)"
    and "map_option fst (resolve pf fail (env_snapshot pf env) [] key_rate_write) = Some (SInt 60)"
proof -
  have trim: "trim_space ''0.5'' = ''0.5''" "parse_int64 ''0.5'' = None" by code_simp+
  show "env_float_def pf env ''RATE_WRITE_PER_MIN'' (Fin 60) = Fin (1 / 2)"
    using assms trim by (simp add: env_float_def_def env_float_def env_get_def fl_pos_def)
  show "map_option fst (resolve pf fail (env_snapshot pf env) [] key_rate_write) = Some (SInt 60)"
    using assms trim by (subst resolve_env [OF setting_def_simps(5)]) (simp add: parse_positive_int_def)
qed

end
