(* ===== verification/RecoverPoolProps.thy ===== *)
theory RecoverPoolProps
  imports RecoverPool RecoverFacts StartupProps
begin

text \<open>
  How many recovery jobs are at work and ask one source at once, that they all come to their end, and what the slots of a
  source do not bound.
\<close>

section \<open>The tasks of a job are the loops of its sources\<close>

text \<open>
  What the functions of \<^verbatim>\<open>Sources\<close> do for a task, and so what its outcome is. \<open>task_next\<close> goes on by one request or by the
  start of a source.
\<close>

definition fetch_outcome :: "go_error + 'a \<Rightarrow> task_outcome" where
  "fetch_outcome r = (case r of Inl e \<Rightarrow> if e = err_not_found then Absent else Broken | Inr x \<Rightarrow> Good)"

definition probe_outcome :: "source_env \<Rightarrow> bool \<Rightarrow> go_error + http_response \<Rightarrow> task_outcome" where
  "probe_outcome env second r =
     (case r of
        Inl e \<Rightarrow> Broken
      | Inr p \<Rightarrow> if \<not> second \<and> (hp_status p = 405 \<or> hp_status p = 501) then Unsupported
          else if looks_alive env p then Good else Absent)"

fun task_request ::
  "source_env \<Rightarrow> source list \<Rightarrow> string \<Rightarrow> job_task \<Rightarrow> fetch_state \<Rightarrow> task_outcome \<times> fetch_state" where
  "task_request env srcs pid (Mirroring i n miss) s =
     apfst fetch_outcome (fetch_image env (base_of (srcs ! i)) (mirror_url (the (mirror_host (srcs ! i))) pid n) s)"
| "task_request env srcs pid (Probing i second us found) s =
     apfst (probe_outcome env second)
       (source_do env (base_of (srcs ! i)) (if second then ''GET'' else ''HEAD'') (hd us) (if second then ''bytes=0-0'' else []) s)"
| "task_request env srcs pid (Fetching i us found) s = apfst fetch_outcome (fetch_image env (base_of (srcs ! i)) (hd us) s)"
| "task_request env srcs pid t s = (Broken, s)"

definition task_next ::
  "source_env \<Rightarrow> source list \<Rightarrow> string \<Rightarrow> string list \<Rightarrow> job_task \<times> fetch_state \<Rightarrow> job_task \<times> fetch_state" where
  "task_next env srcs pid us c =
     (case c of (t, s) \<Rightarrow>
        (case t of
           Trying i \<Rightarrow> if i < length srcs then (start_source (srcs ! i) us i, s) else c
         | _ \<Rightarrow> (case task_request env srcs pid t s of (r, s1) \<Rightarrow> (task_after r t, s1))))"

definition task_path ::
  "source_env \<Rightarrow> source list \<Rightarrow> string \<Rightarrow> string list \<Rightarrow> job_task \<times> fetch_state \<Rightarrow> job_task \<times> fetch_state \<Rightarrow> bool" where
  "task_path env srcs pid us c c' \<longleftrightarrow> (\<exists>k. (task_next env srcs pid us ^^ k) c = c')"

lemma task_path_refl [simp]: "task_path env srcs pid us c c"
  unfolding task_path_def by (rule exI [of _ 0]) simp

lemma task_path_step: "task_path env srcs pid us (task_next env srcs pid us c) c' \<Longrightarrow> task_path env srcs pid us c c'"
  unfolding task_path_def by (elim exE) (rule exI, subst funpow_Suc_right, simp)

lemma task_path_next:
  "task_next env srcs pid us c = c1 \<Longrightarrow> task_path env srcs pid us c1 c' \<Longrightarrow> task_path env srcs pid us c c'"
  using task_path_step by blast

lemma task_path_trans:
  assumes "task_path env srcs pid us c c'" and "task_path env srcs pid us c' c''"
  shows "task_path env srcs pid us c c''"
proof -
  from assms obtain k k' where "(task_next env srcs pid us ^^ k) c = c'" "(task_next env srcs pid us ^^ k') c' = c''"
    by (auto simp: task_path_def)
  then have "(task_next env srcs pid us ^^ (k' + k)) c = c''" by (simp add: funpow_add)
  then show ?thesis unfolding task_path_def ..
qed

lemma mirror_tasks:
  assumes "srcs ! i = Mirror b name host" and "0 < n" and "mirror_pages env b host pid n miss pages s = (r, s')"
  shows "task_path env srcs pid us (mirror_loop i n miss, s) (if is_ok r then Ending else Trying (Suc i), s')"
  using assms
proof (induction env b host pid n miss pages s arbitrary: r s' rule: mirror_pages.induct)
  case (1 env b host pid n miss pages s)
  show ?case
  proof (cases "n < max_pages \<and> miss < 2")
    case True
    obtain x s1 where img: "fetch_image env b (mirror_url host pid n) s = (x, s1)" by fastforce
    have "task_path env srcs pid us (task_after (fetch_outcome x) (Mirroring i n miss), s1)
        (if is_ok r then Ending else Trying (Suc i), s')"
    proof (cases x)
      case (Inl e)
      with True img 1(1) [OF True img [symmetric] Inl _ 1(3)] 1(4,5) show ?thesis
        by (auto simp: mirror_pages.simps [of env b host pid n miss] fetch_outcome_def split: if_splits)
    next
      case (Inr d)
      obtain w h where d: "d = (w, h)" by (cases d)
      with True img Inr 1(2) [OF True img [symmetric] Inr d [symmetric] 1(3)] 1(5) show ?thesis
        by (simp add: mirror_pages.simps [of env b host pid n miss] fetch_outcome_def)
    qed
    moreover have "mirror_loop i n miss = Mirroring i n miss" using True by (simp add: mirror_loop_def)
    ultimately show ?thesis using 1(3) img by - (rule task_path_step, simp add: task_next_def)
  next
    case False
    with 1(5) have "r = Inr pages" "s' = s" by (auto simp: mirror_pages.simps [of env b host pid n miss])
    moreover have "mirror_loop i n miss = Ending" using False by (auto simp: mirror_loop_def)
    ultimately show ?thesis by simp
  qed
qed

lemma probe_tasks:
  assumes "base_of (srcs ! i) = b" and "probe_alive env b u s = (ok, s1)"
  shows "task_path env srcs pid vs (Probing i False (u # us) found, s)
     (if ok then Fetching i (u # us) found else snapshot_loop i us found, s1)"
proof -
  obtain x s2 where req: "source_do env b ''HEAD'' u [] s = (x, s2)" by fastforce
  obtain x' s3 where req2: "source_do env b ''GET'' u ''bytes=0-0'' s2 = (x', s3)" by fastforce
  show ?thesis
  proof (cases "probe_outcome env False x = Unsupported")
    case True
    then have "task_next env srcs pid vs (Probing i False (u # us) found, s) = (Probing i True (u # us) found, s2)"
      by (simp add: task_next_def assms(1) req)
    moreover have "task_next env srcs pid vs (Probing i True (u # us) found, s2) =
        (if ok then Fetching i (u # us) found else snapshot_loop i us found, s1)"
      using True assms(2) req req2
      by (auto simp: task_next_def assms(1) probe_alive_def probe_outcome_def split: sum.splits if_splits)
    ultimately show ?thesis by (rule task_path_next [OF _ task_path_next [OF _ task_path_refl]])
  next
    case False
    then have "task_next env srcs pid vs (Probing i False (u # us) found, s) =
        (if ok then Fetching i (u # us) found else snapshot_loop i us found, s1)"
      using assms(2) req by (auto simp: task_next_def assms(1) probe_alive_def probe_outcome_def split: sum.splits if_splits)
    then show ?thesis by (rule task_path_next [OF _ task_path_refl])
  qed
qed

lemma snapshot_tasks:
  assumes "base_of (srcs ! i) = b" and "snapshot_pages env b sn k us s = (ps, s')"
  shows "task_path env srcs pid vs (snapshot_loop i us found, s) (if found \<or> ps \<noteq> [] then Ending else Trying (Suc i), s')"
  using assms(2)
proof (induction us arbitrary: k s ps s' found)
  case (Cons u us)
  obtain ok s1 where probe: "probe_alive env b u s = (ok, s1)" by fastforce
  note start = probe_tasks [OF assms(1) probe, of pid vs us found]
  show ?case
  proof (cases ok)
    case False
    with Cons.prems probe have "snapshot_pages env b sn (Suc k) us s1 = (ps, s')" by simp
    from task_path_trans [OF start [unfolded if_not_P [OF False]] Cons.IH [OF this]] show ?thesis by simp
  next
    case True
    obtain x s2 where img: "fetch_image env b u s1 = (x, s2)" by fastforce
    obtain ps' s3 where rest: "snapshot_pages env b sn (Suc k) us s2 = (ps', s3)" by fastforce
    have s3: "s3 = s'" "ps = [] \<longleftrightarrow> ps' = [] \<and> \<not> is_ok x" using Cons.prems probe True img rest by (auto split: sum.splits)
    have "task_next env srcs pid vs (Fetching i (u # us) found, s1) = (snapshot_loop i us (found \<or> is_ok x), s2)"
      using img by (auto simp: task_next_def assms(1) fetch_outcome_def split: sum.split)
    with Cons.IH [OF rest, of "found \<or> is_ok x"] s3
    have "task_path env srcs pid vs (Fetching i (u # us) found, s1) (if found \<or> ps \<noteq> [] then Ending else Trying (Suc i), s')"
      by - (rule task_path_step, auto simp: disj_ac)
    from task_path_trans [OF start [unfolded if_P [OF True]] this] show ?thesis by simp
  qed
qed simp

lemma source_tasks:
  assumes "i < length srcs" and "source_fetch env (srcs ! i) pid snap s = (r, s')"
    and "us = (case snap of None \<Rightarrow> [] | Some sn \<Rightarrow> sn_urls sn)"
  shows "task_path env srcs pid us (Trying i, s) (if is_ok r then Ending else Trying (Suc i), s')"
proof (rule task_path_step)
  show "task_path env srcs pid us (task_next env srcs pid us (Trying i, s)) (if is_ok r then Ending else Trying (Suc i), s')"
  proof (cases "srcs ! i")
    case (SnapshotSource b)
    show ?thesis
    proof (cases "us = []")
      case True
      with assms SnapshotSource show ?thesis by (auto simp: task_next_def snapshot_fetch_def split: option.splits)
    next
      case False
      then obtain sn where sn: "snap = Some sn" "us = sn_urls sn" using assms(3) by (auto split: option.splits)
      obtain ps s1 where ps: "snapshot_pages env b sn 0 us s = (ps, s1)" by fastforce
      with assms(2) SnapshotSource sn False have "s' = s1" "is_ok r \<longleftrightarrow> ps \<noteq> []" by (auto simp: snapshot_fetch_def)
      with snapshot_tasks [OF _ ps, of srcs i pid us False] assms(1) SnapshotSource show ?thesis by (simp add: task_next_def)
    qed
  next
    case (Mirror b name host)
    obtain x s1 where img: "fetch_image env b (mirror_url host pid 0) s = (x, s1)" by fastforce
    have next0: "task_next env srcs pid us (Mirroring i 0 0, s) = (if is_ok x then mirror_loop i 1 0 else Trying (Suc i), s1)"
      using img Mirror by (auto simp: task_next_def fetch_outcome_def split: sum.split)
    have "task_path env srcs pid us (if is_ok x then mirror_loop i 1 0 else Trying (Suc i), s1)
        (if is_ok r then Ending else Trying (Suc i), s')"
    proof (cases x)
      case (Inr d)
      obtain w h where d: "d = (w, h)" by (cases d)
      from assms(2) Mirror img Inr d have "mirror_pages env b host pid 1 0
          [\<lparr>pg_page = 0, pg_url = mirror_url host pid 0, pg_width = w, pg_height = h\<rparr>] s1 = (r, s')" by (simp add: mirror_fetch_def)
      from mirror_tasks [OF Mirror _ this] Inr show ?thesis by simp
    qed (use assms(2) Mirror img in \<open>auto simp: mirror_fetch_def\<close>)
    moreover have "task_next env srcs pid us (Trying i, s) = (Mirroring i 0 0, s)" using assms(1) Mirror by (simp add: task_next_def)
    ultimately show ?thesis using task_path_next [OF next0] by simp
  qed
qed

text \<open>A job alone, from its first source to the end: its tasks are what \<open>try_sources\<close> does.\<close>

lemma try_sources_tasks:
  assumes "us = (case snap of None \<Rightarrow> [] | Some sn \<Rightarrow> sn_urls sn)" and "i \<le> length srcs"
  shows "task_path env srcs pid us (Trying i, s)
     (if fst (try_sources env (drop i srcs) pid snap s) = None then Trying (length srcs) else Ending,
      snd (try_sources env (drop i srcs) pid snap s))"
  using assms(2)
proof (induction "length srcs - i" arbitrary: i s)
  case (Suc k)
  then have i: "i < length srcs" "drop i srcs = srcs ! i # drop (Suc i) srcs" by (simp_all add: Cons_nth_drop_Suc)
  obtain r s1 where src: "source_fetch env (srcs ! i) pid snap s = (r, s1)" by fastforce
  note path = source_tasks [OF i(1) src assms(1)]
  show ?case
  proof (cases r)
    case (Inl e)
    have "task_path env srcs pid us (Trying (Suc i), s1)
       (if fst (try_sources env (drop (Suc i) srcs) pid snap s1) = None then Trying (length srcs) else Ending,
        snd (try_sources env (drop (Suc i) srcs) pid snap s1))"
      by (rule Suc(1)) (use Suc(2) i(1) in simp_all)
    with task_path_trans [OF path] Inl show ?thesis by (simp add: i(2) src)
  next
    case (Inr ps)
    with path show ?thesis by (simp add: i(2) src)
  qed
qed simp

section \<open>The queue of the server\<close>

lemma build_entry_slots: "build_entry ul d entry = Some src \<Longrightarrow> sb_slots (base_of src) = (if sd_slots d \<le> 0 then source_slots else sd_slots d)"
  by (auto simp: build_entry_def Let_def new_snapshot_def new_mirror_def new_base_def split: option.splits prod.splits if_splits)

text \<open>The server leaves both limits at their defaults.\<close>

lemma server_slots:
  assumes "new_recover ul ok (recover_config_of cfg) rows = Inr (s, srcs, hosts)"
  shows "rq_slots s = 8" and "src \<in> set srcs \<Longrightarrow> sb_slots (base_of src) = 2"
proof -
  from assms show "rq_slots s = 8"
    by (auto simp: new_recover_def recover_config_of_def queue_slots_def global_concurrent_def Let_def split: if_splits prod.splits)
  from assms have srcs: "srcs = List.map_filter (build_entry ul \<lparr>sd_every = 0, sd_slots = 0\<rparr>) (cf_sources cfg)"
    by (auto simp: new_recover_def recover_config_of_def build_sources_def Let_def split: if_splits)
  show "sb_slots (base_of src) = 2" if "src \<in> set srcs"
  proof -
    from that obtain entry where "build_entry ul \<lparr>sd_every = 0, sd_slots = 0\<rparr> entry = Some src"
      by (auto simp: srcs map_filter_def)
    then show ?thesis by (simp add: build_entry_slots source_slots_def)
  qed
qed

lemma server_pool_inv:
  assumes "new_recover ul ok (recover_config_of cfg) rows = Inr (s, srcs, hosts)"
    and "pool_reach (rq_slots s) srcs y"
  shows "pool_inv 8 srcs y"
  using pool_reach_inv [OF assms(2)] server_slots [OF assms(1)] by simp

section \<open>A job at work\<close>

definition ex_queue_config :: "unit config" where
  "ex_queue_config = ex_config\<lparr>cf_sources := [''snapshot'']\<rparr>"

abbreviation ex_queue_sources :: "source list" where
  "ex_queue_sources \<equiv> [new_snapshot \<lparr>sd_every = 0, sd_slots = 0\<rparr>]"

lemma ex_queue: "\<exists>s. new_recover id True (recover_config_of ex_queue_config) [] = Inr (s, ex_queue_sources, [])"
proof -
  have "trim_space ''snapshot'' = ''snapshot''" by code_simp
  then have "build_entry id d ''snapshot'' = Some (new_snapshot d)" for d
    by (simp add: build_entry_def to_lower_def lower_ascii_def)
  then show ?thesis
    by (simp add: new_recover_def recover_config_of_def ex_queue_config_def ex_config_simps build_sources_def map_filter_def
        new_snapshot_def)
qed

lemma ex_asking:
  "\<exists>y. pool_reach 8 ex_queue_sources y \<and> in_phase 0 (Asking 0) ([''u''], Probing 0 False [''u''] False) y"
proof -
  let ?srcs = ex_queue_sources
  let ?us = "[''u'']"
  let ?y = "\<lambda>u f p t. \<lparr>po_used = u, po_source = (\<lambda>_. 0)(0 := f), po_jobs = [(p, ?us, t)]\<rparr>"
  let ?probe = "Probing 0 False ?us False"
  have at: "in_phase 0 p (?us, t) (?y u f p t)" for u f p t by (simp add: in_phase_def)
  have slots: "sb_slots (base_of (?srcs ! 0)) = 2" by (simp add: new_snapshot_def new_base_def source_slots_def)
  have "pool_reach 8 ?srcs (?y 0 0 Queued (Trying 0))"
    using pool_add [OF pool_new, of 8 ?srcs ?us] by (simp add: new_pool_def add_job_def fun_upd_idem)
  from pool_job [OF this job_step.enter [OF at]] have "pool_reach 8 ?srcs (?y 1 0 Working (Trying 0))"
    by (simp add: take_slot_def put_job_def)
  from pool_job [OF this job_step.begin_source [OF at]] have "pool_reach 8 ?srcs (?y 1 0 Working ?probe)"
    by (simp add: put_job_def new_snapshot_def)
  from pool_job [OF this job_step.ask [OF at]] have "pool_reach 8 ?srcs (?y 1 0 (Limiting 0) ?probe)" by (simp add: put_job_def)
  from pool_job [OF this job_step.token [OF at]] have "pool_reach 8 ?srcs (?y 1 0 (Selecting 0) ?probe)" by (simp add: put_job_def)
  from pool_job [OF this job_step.got_slot [where cancelled = False and first = True and u = "1", OF at]] slots
  have "pool_reach 8 ?srcs (?y 1 1 (Asking 0) ?probe)"
    by (simp add: acquire_slot_def take_slot_def put_job_def put_source_def)
  with at [of "Asking 0" ?probe 1 1] show ?thesis by blast
qed

section \<open>The properties\<close>

text \<open>
  C19: Bounds. With the limits the server has, at most eight recovery jobs are at work and at most two requests to a
  source wait for its response, whatever the order of their steps and the errors in them.
\<close>

theorem recovery_slots_bound:
  assumes "new_recover ul ok (recover_config_of cfg) rows = Inr (s, srcs, hosts)"
    and "pool_reach (rq_slots s) srcs y"
  shows "jobs_in holds_slot y \<le> 8 \<and> jobs_in (\<lambda>p. p = Asking i) y \<le> 2"
proof
  note inv = pool_invD [OF server_pool_inv [OF assms]]
  show "jobs_in holds_slot y \<le> 8" using inv(1,2) by simp
  show "jobs_in (\<lambda>p. p = Asking i) y \<le> 2"
  proof (cases "i < length srcs")
    case True
    then have "sb_slots (base_of (srcs ! i)) = 2" by (intro server_slots(2) [OF assms(1)] nth_mem)
    with True inv(3) [of i] inv(4) [of i] show ?thesis by simp
  next
    case False
    then have "\<not> 0 < jobs_in (\<lambda>p. p = Asking i) y"
      using jobs_in_pos [of "\<lambda>p. p = Asking i" y] phase_in_range [OF inv(5)] by fastforce
    then show ?thesis by simp
  qed
qed

theorem recovery_slots_bound_witness:
  "\<exists>y. pool_reach 8 ex_queue_sources y \<and> 0 < jobs_in (\<lambda>p. p = Asking 0) y \<and>
     jobs_in (\<lambda>p. p = Asking 0) y \<le> 2 \<and> jobs_in holds_slot y \<le> 8"
proof -
  obtain s where s: "new_recover id True (recover_config_of ex_queue_config) [] = Inr (s, ex_queue_sources, [])" using ex_queue by blast
  obtain y where y: "pool_reach (rq_slots s) ex_queue_sources y" "in_phase 0 (Asking 0) ([''u''], Probing 0 False [''u''] False) y"
    using ex_asking server_slots(1) [OF s] by metis
  with recovery_slots_bound [OF s y(1), of 0] in_phase_pos [OF y(2), of "\<lambda>p. p = Asking 0"] server_slots(1) [OF s] show ?thesis
    by auto
qed

text \<open>
  C20: Termination. From every state of the queue the jobs in it make finitely many steps, at most \<open>pool_work\<close>: what the loops over
  sources, pages and URLs still allow. As long as one of them has not left some job can make a step: none waits for a
  slot for ever, whatever errors occur. And the tasks of a job are those of the code: by itself it goes through the
  requests of \<open>try_sources\<close> and to the same end.
\<close>

theorem recovery_jobs_end:
  assumes "new_recover ul ok (recover_config_of cfg) rows = Inr (s, srcs, hosts)"
    and "pool_reach (rq_slots s) srcs y" and "job_run (rq_slots s) srcs k y y'"
  shows "k \<le> pool_work srcs y \<and>
     (list_all (\<lambda>(p, n). p = Left) (po_jobs y') \<or> (\<exists>y''. job_step (rq_slots s) srcs y' y'')) \<and>
     (\<forall>env pid snap f. \<exists>t. job_over srcs t \<and> (t = Ending \<longleftrightarrow> fst (try_sources env srcs pid snap f) \<noteq> None) \<and>
        task_path env srcs pid (case snap of None \<Rightarrow> [] | Some sn \<Rightarrow> sn_urls sn) (Trying 0, f) (t, snd (try_sources env srcs pid snap f)))"
proof (intro conjI allI)
  show "k \<le> pool_work srcs y" using job_run_work [OF assms(3) ] server_pool_inv [OF assms(1,2)] server_slots(1) [OF assms(1)] by simp
  note slots = server_slots [OF assms(1)]
  have inv: "pool_inv 8 srcs y'" by (rule server_pool_inv [OF assms(1) job_run_reach [OF assms(3,2)]])
  show "list_all (\<lambda>(p, n). p = Left) (po_jobs y') \<or> (\<exists>y''. job_step (rq_slots s) srcs y' y'')"
  proof (cases "\<exists>j p n. in_phase j p n y' \<and> p \<noteq> Left")
    case True
    then obtain j p n where "in_phase j p n y'" "p \<noteq> Left" by blast
    from pool_progress [OF inv _ _ this] slots show ?thesis by simp
  next
    case False
    then show ?thesis by (fastforce simp: list_all_iff in_phase_def in_set_conv_nth)
  qed
  fix env pid snap f
  show "\<exists>t. job_over srcs t \<and> (t = Ending \<longleftrightarrow> fst (try_sources env srcs pid snap f) \<noteq> None) \<and>
      task_path env srcs pid (case snap of None \<Rightarrow> [] | Some sn \<Rightarrow> sn_urls sn) (Trying 0, f) (t, snd (try_sources env srcs pid snap f))"
    using try_sources_tasks [OF refl, of 0 srcs env pid snap f]
    by (intro exI [of _ "if fst (try_sources env srcs pid snap f) = None then Trying (length srcs) else Ending"]) simp
qed

theorem recovery_jobs_end_witness:
  "\<exists>y y'. pool_reach 8 ex_queue_sources y \<and> job_run 8 ex_queue_sources 1 y y' \<and> 1 \<le> pool_work ex_queue_sources y \<and>
     (\<exists>y''. job_step 8 ex_queue_sources y' y'')"
proof -
  obtain s where s: "new_recover id True (recover_config_of ex_queue_config) [] = Inr (s, ex_queue_sources, [])" using ex_queue by blast
  note slots = server_slots(1) [OF s]
  obtain y where y: "pool_reach (rq_slots s) ex_queue_sources y"
    "in_phase 0 (Asking 0) ([''u''], Probing 0 False [''u''] False) y"
    using ex_asking slots by metis
  let ?y = "put_job 0 Working ([''u''], task_after Broken (Probing 0 False [''u''] False)) (put_source 0 (free_slot (po_source y 0)) y)"
  have run: "job_run (rq_slots s) ex_queue_sources 1 y ?y"
    using job_run_Suc [OF job_run_0 job_step.failed [OF y(2)]] by simp
  have "\<not> list_all (\<lambda>(p, n). p = Left) (po_jobs ?y)"
    using y(2) by (auto simp: list_all_iff in_phase_def put_job_def put_source_def intro: set_update_memI)
  with recovery_jobs_end [OF s y(1) run] y(1) run slots show ?thesis by metis
qed

section \<open>Bodies are read without a slot\<close>

text \<open>
  The slot of a source is given back before the body is read, so that it does not bound the downloads: all eight jobs can
  read from one source at once.
\<close>

lemma begin_asks:
  "\<exists>t. task_source t = Some i \<and> start_source src us i = t" if "us \<noteq> []"
  using that by (cases src; cases us) auto

lemma reading_grows:
  assumes "pool_reach slots srcs y" and "srcs \<noteq> []" and "0 < sb_slots (base_of (srcs ! 0))" and "int k < slots"
    and "start_source (srcs ! 0) [''u''] 0 = t"
    and "y = \<lparr>po_used = k, po_source = (\<lambda>_. 0), po_jobs = replicate k (Reading 0, [''u''], t)\<rparr>"
  shows "pool_reach slots srcs \<lparr>po_used = Suc k, po_source = (\<lambda>_. 0), po_jobs = replicate (Suc k) (Reading 0, [''u''], t)\<rparr>"
proof -
  let ?us = "[''u'']"
  let ?jobs = "\<lambda>p t'. replicate k (Reading 0, ?us, t) @ [(p, ?us, t')]"
  let ?y = "\<lambda>u f p t'. \<lparr>po_used = u, po_source = (\<lambda>_. 0)(0 := f), po_jobs = ?jobs p t'\<rparr>"
  have at: "in_phase k p (?us, t') (?y u f p t')" for u f p t' by (simp add: in_phase_def nth_append)
  have src: "task_source t = Some 0" using begin_asks [of ?us 0 "srcs ! 0"] assms(5) by auto
  have "pool_reach slots srcs (?y k 0 Queued (Trying 0))"
    using pool_add [OF assms(1), of ?us] by (simp add: assms(6) add_job_def fun_upd_idem)
  from pool_job [OF this job_step.enter [OF at]] have "pool_reach slots srcs (?y (Suc k) 0 Working (Trying 0))"
    using assms(4) by (simp add: take_slot_def put_job_def list_update_append)
  from pool_job [OF this job_step.begin_source [OF at]] have "pool_reach slots srcs (?y (Suc k) 0 Working t)"
    using assms(2,5) by (simp add: put_job_def list_update_append)
  from pool_job [OF this job_step.ask [OF at src]]
  have "pool_reach slots srcs (?y (Suc k) 0 (Limiting 0) t)" by (simp add: put_job_def list_update_append)
  from pool_job [OF this job_step.token [OF at]] have "pool_reach slots srcs (?y (Suc k) 0 (Selecting 0) t)"
    by (simp add: put_job_def list_update_append)
  from pool_job [OF this job_step.got_slot [where cancelled = False and first = True and u = "1", OF at]]
  have "pool_reach slots srcs (?y (Suc k) 1 (Asking 0) t)"
    using assms(3) by (simp add: acquire_slot_def take_slot_def put_job_def put_source_def list_update_append)
  from pool_job [OF this job_step.answered [OF at]] have "pool_reach slots srcs (?y (Suc k) 0 (Reading 0) t)"
    by (simp add: free_slot_def put_job_def put_source_def list_update_append)
  then show ?thesis by (simp add: replicate_append_same fun_upd_idem)
qed

theorem slots_do_not_bound_downloads:
  assumes "new_recover ul ok (recover_config_of cfg) rows = Inr (s, srcs, hosts)" and "srcs \<noteq> []"
  shows "\<exists>y. pool_reach (rq_slots s) srcs y \<and> jobs_in (\<lambda>p. p = Reading 0) y = 8"
proof -
  note slots = server_slots [OF assms(1)]
  obtain t where t: "start_source (srcs ! 0) [''u''] 0 = t" by blast
  have "k \<le> 8 \<Longrightarrow> pool_reach 8 srcs
      \<lparr>po_used = k, po_source = (\<lambda>_. 0), po_jobs = replicate k (Reading 0, [''u''], t)\<rparr>" for k
  proof (induction k)
    case 0
    show ?case using pool_new by (simp add: new_pool_def)
  next
    case (Suc k)
    have "sb_slots (base_of (srcs ! 0)) = 2" using assms(2) by (intro slots(2) nth_mem) simp
    with Suc assms(2) show ?case by (intro reading_grows [OF _ _ _ _ t refl]) simp_all
  qed
  from this [of 8] slots(1) show ?thesis by (intro exI conjI) (simp, simp add: jobs_in_def)
qed

end
