(* ===== verification/AdminProps.thy ===== *)
theory AdminProps
  imports AdminFacts AuthProps CacheProps RecoverFacts
begin

text \<open>The properties of the administrator's interface.\<close>

section \<open>A small server\<close>

definition ex_rates :: "(int, unit) rate_ops" where
  "ex_rates = \<lparr>rl_new = (\<lambda>_ _. ()), rl_allow = (\<lambda>_ _. (True, ())), rl_set_limit = (\<lambda>_ _ _. ()), rl_set_burst = (\<lambda>_ _ _. ())\<rparr>"

text \<open>A float parser that knows two texts.\<close>

definition ex_float :: parse_float where
  "ex_float t = (if t = ''NaN'' then Some NaN else if t = ''0.5'' then Some (Fin (1 / 2)) else None)"

definition ex_account :: "int \<Rightarrow> int \<Rightarrow> account" where
  "ex_account i t = \<lparr>ac_id = i, ac_key_hash = format_int i, ac_created = t\<rparr>"

definition ex_auth :: auth_state where
  "ex_auth = \<lparr>accounts = [ex_account 1 50, ex_account 2 40, ex_account 3 40],
     devices = [\<lparr>dv_id = 1, dv_account = 3, dv_name = ''phone'', dv_access = hash_token id ''t'', dv_refresh = hash_token id ''r'',
                 dv_invite = None, dv_created = 0, dv_access_exp = 100, dv_refresh_exp = 100\<rparr>], invites = [''inv'']\<rparr>"

definition ex_live :: "(int, unit) live_parts" where
  "ex_live = \<lparr>lp_cache = ex_cache, lp_recover = \<lparr>rq_rows = [], rq_inflight = [], rq_ttl = 1, rq_neg = 1, rq_slots = 8\<rparr>,
     lp_write = new_limiter 60 10, lp_img = new_limiter 300 30, lp_auth = ex_auth\<rparr>"

definition ex_admin :: "(int, unit) admin_state" where
  "ex_admin = \<lparr>ad_settings = [], ad_env = (\<lambda>_. None), ad_live = ex_live, ad_sync = \<lparr>entries = [], domains = [], cursors = Map.empty\<rparr>\<rparr>"

lemma ex_env: "(\<lambda>_. None) = env_snapshot pf (\<lambda>_. None)"
  by (simp add: env_snapshot_def fun_eq_iff split: option.split)

lemma ex_auth_inv: "auth_inv ex_auth"
  by (simp add: auth_inv_def ex_auth_def tbl_unique_def ex_account_def format_int_inj_all)

section \<open>Properties\<close>

text \<open>
  C23: Equivalence. Paging through the accounts is the same as listing them all: a client that follows the
  cursors, with any page size, gets every account once, in the order of creation time and id, and is
  done after at most one page per account plus one.
\<close>

theorem account_pages_equiv:
  assumes "tbl_unique ac_id (all_accounts s)"
    and "\<forall>a \<in> set (all_accounts s). is_int64 (ac_created a) \<and> is_int64 (ac_id a)" and "0 < limit"
  shows "account_pages (Suc (length (all_accounts s))) [] limit s =
     Some (map (account_item_of s) (sort_key account_place (all_accounts s)))"
proof -
  have "filter (after None) as = as" for as by (simp add: after_def)
  moreover have "cursor_place [] = Inr None" by (simp add: cursor_place_def)
  ultimately show ?thesis
    using account_pages_rest [of s limit "[]" None "[]" "ordered_accounts (all_accounts s)" "Suc (length (all_accounts s))"] assms
    by (simp add: ordered_accounts_def cursor_fits_def)
qed

theorem account_pages_equiv_witness:
  "map_option (map ai_id) (account_pages 4 [] 2 ex_admin) = Some [2, 3, 1]"
proof -
  have accs: "all_accounts ex_admin = [ex_account 1 50, ex_account 2 40, ex_account 3 40]"
    by (simp add: all_accounts_def ex_admin_def ex_live_def ex_auth_def)
  then have "tbl_unique ac_id (all_accounts ex_admin)"
    "\<forall>a \<in> set (all_accounts ex_admin). is_int64 (ac_created a) \<and> is_int64 (ac_id a)"
    by (simp_all add: tbl_unique_def ex_account_def is_int64_def min64_def max64_def)
  moreover have "sort_key account_place [ex_account 1 50, ex_account 2 40, ex_account 3 40] =
      [ex_account 2 40, ex_account 3 40, ex_account 1 50]"
    by (simp add: account_place_def ex_account_def less_eq_place_def)
  ultimately show ?thesis
    using account_pages_equiv [of ex_admin 2] accs
    by (simp add: account_item_of_def numeral_eq_Suc) (simp add: ex_account_def)
qed

text \<open>
  C24: Safety. Deleting an account leaves nothing of it in any of the five tables and keeps every row of the other
  accounts in each of them; its tokens are refused from then on. When it fails, nothing has changed.
\<close>

theorem delete_account_erases:
  assumes "delete_account fail i s = (r, s')" and "auth_inv (lp_auth (ad_live s))"
  shows "(\<forall>e. r = Inl e \<longrightarrow> s' = s) \<and>
     (r = Inr () \<longrightarrow>
        i \<notin> ac_id ` set (all_accounts s') \<and> i \<notin> dv_account ` set (all_devices s') \<and>
        i \<notin> rv_account ` set (all_recover s') \<and> i \<notin> se_account ` set (entries (ad_sync s')) \<and>
        i \<notin> dr_account ` set (domains (ad_sync s')) \<and>
        (\<forall>a. a \<noteq> i \<longrightarrow>
           filter (\<lambda>x. ac_id x = a) (all_accounts s') = filter (\<lambda>x. ac_id x = a) (all_accounts s) \<and>
           filter (\<lambda>d. dv_account d = a) (all_devices s') = filter (\<lambda>d. dv_account d = a) (all_devices s) \<and>
           filter (\<lambda>x. rv_account x = a) (all_recover s') = filter (\<lambda>x. rv_account x = a) (all_recover s) \<and>
           filter (\<lambda>e. se_account e = a) (entries (ad_sync s')) = filter (\<lambda>e. se_account e = a) (entries (ad_sync s)) \<and>
           filter (\<lambda>d. dr_account d = a) (domains (ad_sync s')) = filter (\<lambda>d. dr_account d = a) (domains (ad_sync s))) \<and>
        (\<forall>sha mw t tok d. d \<in> set (all_devices s) \<and> dv_account d = i \<and> dv_access d = hash_token sha tok \<and>
           tok \<noteq> [] \<and> \<not> List.member (mw_static mw) tok \<longrightarrow>
           authenticate sha (\<lambda>_. False) mw t (''Bearer '' @ tok) (lp_auth (ad_live s')) =
             Inl (unauthorized ''access token invalid or expired'')))"
  using delete_account_cases [OF assms(1)]
proof (elim disjE exE conjE)
  fix e assume "r = Inl e" "s' = s"
  then show ?thesis by simp
next
  assume ok: "r = Inr ()" "s' = erase_account i s"
  have "authenticate sha (\<lambda>_. False) mw t (''Bearer '' @ tok) (lp_auth (ad_live s')) =
      Inl (unauthorized ''access token invalid or expired'')"
    if d: "d \<in> set (all_devices s)" "dv_account d = i" "dv_access d = hash_token sha tok"
      and tok: "tok \<noteq> []" "\<not> List.member (mw_static mw) tok" for sha mw t tok d
  proof -
    have "x = d" if "x \<in> set (all_devices s)" "dv_access x = hash_token sha tok" for x
      using that d tbl_find_unique [OF auth_invD(4) [OF assms(2)]] unfolding all_devices_def by (metis option.inject)
    with d(2) have "tbl_find dv_access (hash_token sha tok) (tbl_delete (\<lambda>d. dv_account d = i) (all_devices s)) = None"
      by (auto simp: tbl_find_None_iff)
    then have "access_view (lp_auth (ad_live s')) (hash_token sha tok) = None"
      using erase_account_parts(1) [of i s] ok(2) by (simp add: access_view_def all_devices_def)
    moreover have "auth_inv (lp_auth (ad_live s'))" unfolding ok(2) by (rule erase_account_inv [OF assms(2)])
    ultimately show ?thesis using tok by (subst authenticate_view [OF _ bearer_token_Bearer]) simp_all
  qed
  with ok show ?thesis by (auto simp: erase_account_parts tbl_delete_def intro!: filter_cong)
qed

theorem delete_account_erases_witness:
  "\<exists>s'. delete_account (\<lambda>_. False) 3 ex_admin = (Inr (), s') \<and> 3 \<notin> dv_account ` set (all_devices s') \<and>
     authenticate id (\<lambda>_. False) no_mw 50 (''Bearer '' @ ''t'') (lp_auth (ad_live s')) =
       Inl (unauthorized ''access token invalid or expired'')"
proof -
  have inv: "auth_inv (lp_auth (ad_live ex_admin))" by (simp add: ex_admin_def ex_live_def ex_auth_inv)
  have "3 \<in> ac_id ` set (all_accounts ex_admin)"
    by (simp add: all_accounts_def ex_admin_def ex_live_def ex_auth_def ex_account_def)
  then have del: "delete_account (\<lambda>_. False) 3 ex_admin = (Inr (), erase_account 3 ex_admin)"
    by (auto simp: delete_account_def list_ex_iff)
  let ?d = "hd (all_devices ex_admin)"
  have d: "?d \<in> set (all_devices ex_admin)" "dv_account ?d = 3" "dv_access ?d = hash_token id ''t''"
    by (simp_all add: all_devices_def ex_admin_def ex_live_def ex_auth_def)
  have mw: "\<not> List.member (mw_static no_mw) ''t''" by (simp add: no_mw_def)
  note h = delete_account_erases [OF del inv, THEN conjunct2, rule_format, OF refl]
  have "3 \<notin> dv_account ` set (all_devices (erase_account 3 ex_admin))" using h by blast
  moreover have "authenticate id (\<lambda>_. False) no_mw 50 (''Bearer '' @ ''t'') (lp_auth (ad_live (erase_account 3 ex_admin))) =
       Inl (unauthorized ''access token invalid or expired'')"
    using h d mw by blast
  ultimately show ?thesis using del by blast
qed

text \<open>
  C25: Type. Whatever is in the table and in the environment, every setting has a value of its kind, so that the
  type assertions of \<^verbatim>\<open>applyAll\<close> do not panic: the numbers are positive 64-bit integers, and the watermark is
  strictly between 0 and 1, or else NaN, which passes the two comparisons of its check and nothing else does.
\<close>

theorem settings_never_panic:
  "list_all (\<lambda>key. \<exists>i src. resolve pf fail (env_snapshot pf getenv) rows key = Some (SInt i, src) \<and> 0 < i \<and> is_int64 i)
     [key_cache_max, key_recover_ttl, key_recover_neg, key_rate_write, key_rate_img] \<and>
   (\<exists>x src. resolve pf fail (env_snapshot pf getenv) rows key_cache_mark = Some (SFloat x, src) \<and>
      (x = NaN \<or> (\<exists>r. x = Fin r \<and> 0 < r \<and> r < 1))) \<and>
   (\<exists>t src. resolve pf fail (env_snapshot pf getenv) rows key_invites = Some (SText t, src)) \<and>
   (\<exists>p'. apply_all pf ops rate_of now fail (env_snapshot pf getenv) rows p = Some p')"
proof -
  let ?env = "env_snapshot pf getenv"
  define good :: "string \<Rightarrow> setting_value \<Rightarrow> bool" where
    "good key v \<longleftrightarrow> (case v of SInt i \<Rightarrow> 0 < i \<and> is_int64 i | SFloat x \<Rightarrow> \<not> fl_le_0 x \<and> \<not> fl_ge_1 x | SText _ \<Rightarrow> True)" for key v
  have parsed: "good key v" if "setting_def_of pf key = Some d" "sd_parse d raw = Inr v" for key d raw v
    using that by (auto simp: setting_def_of_def setting_defs_def good_def dest!: parsers_kind split: if_splits)
  have defaults: "good key (sd_default d)" if "setting_def_of pf key = Some d" for key d
    using that
    by (auto simp: setting_def_of_def setting_defs_def good_def default_max_bytes_def default_mark_def is_int64_def
        min64_def max64_def split: if_splits)
  have "good key v" if res: "resolve pf fail ?env rows key = Some (v, src)" for key v src
  proof -
    obtain d where d: "setting_def_of pf key = Some d"
      using res by (cases "setting_def_of pf key") (auto simp: resolve_def)
    have "good key w" if "?env key = Some w" for w
      using that d parsed [OF d] by (auto simp: env_snapshot_def split: option.splits sum.splits)
    with res d parsed [OF d] defaults [OF d] show ?thesis
      by (auto simp: resolve_def Let_def split: option.splits sum.splits if_splits)
  qed
  note good = this
  have int: "\<exists>i src. resolve pf fail ?env rows key = Some (SInt i, src) \<and> 0 < i \<and> is_int64 i"
    if d: "setting_def_of pf key = Some d" "sd_default d = SInt j" for key d j
  proof -
    obtain v src where v: "resolve pf fail ?env rows key = Some (v, src)" "same_kind v (SInt j)"
      using resolve_kind [OF d(1) refl, where fail = fail and rows = rows and getenv = getenv] d(2) by auto
    then obtain i where "v = SInt i" using same_kind_casts(1) by blast
    with v(1) good [OF v(1)] show ?thesis by (simp add: good_def)
  qed
  obtain v src where v: "resolve pf fail ?env rows key_cache_mark = Some (v, src)" "same_kind v (SFloat default_mark)"
    using resolve_kind [OF setting_def_simps(2) refl, where pf = pf and fail = fail and rows = rows and getenv = getenv] by auto
  then obtain x where "v = SFloat x" using same_kind_casts(2) by blast
  moreover have "x = NaN \<or> (\<exists>r. x = Fin r \<and> 0 < r \<and> r < 1)" if "\<not> fl_le_0 x" "\<not> fl_ge_1 x" for x
    using that by (cases x) simp_all
  ultimately have "\<exists>x src. resolve pf fail ?env rows key_cache_mark = Some (SFloat x, src) \<and> (x = NaN \<or> (\<exists>r. x = Fin r \<and> 0 < r \<and> r < 1))"
    using v(1) good [OF v(1)] by (auto simp: good_def)
  moreover obtain w src' where w: "resolve pf fail ?env rows key_invites = Some (w, src')" "same_kind w (SText [])"
    using resolve_kind [OF setting_def_simps(7) refl, where pf = pf and fail = fail and rows = rows and getenv = getenv] by auto
  moreover from w(2) obtain t where "w = SText t" using same_kind_casts(3) by blast
  ultimately show ?thesis
    using int [OF setting_def_simps(1)] int [OF setting_def_simps(3)] int [OF setting_def_simps(4)]
      int [OF setting_def_simps(5)] int [OF setting_def_simps(6)] apply_all_total [OF refl, where pf = pf and ops = ops and rate_of = rate_of and now = now and fail = fail and getenv = getenv and rows = rows and p = p]
    by simp
qed

text \<open>A stored watermark \<^verbatim>\<open>NaN\<close> is in force, although the error text of the check asks for a number in (0,1).\<close>

lemma nan_watermark_accepted:
  "resolve ex_float (\<lambda>_. False) (\<lambda>_. None) [\<lparr>sg_key = key_cache_mark, sg_value = ''NaN'', sg_updated = 0\<rparr>] key_cache_mark =
     Some (SFloat NaN, FromDb)"
  by code_simp

text \<open>
  C26: Functional. A change of the settings is all or nothing. When it succeeds, each key of the patch
  has the value its trimmed text stands for (for all but the invite codes the same as that of the text
  itself) and comes from the table, the other keys are as before, and all seven settings are in force when it
  returns: the limits of the cache, both lifetimes, both limiters with the buckets they have, and the invitation codes.
  When it does not, nothing has changed. (A change alone; for two at the same time see \<open>stale_settings_applied\<close>.)
\<close>

theorem patch_settings_effect:
  assumes "patch_settings decode pf ops rate_of sfail (\<lambda>_. False) now body s = Some (r, s')"
    and "decode (take max_body body) = Some obj" and "patch_texts obj = Inr texts" and "distinct (map fst texts)"
  shows "(\<forall>e. r = Inl e \<longrightarrow> s' = s) \<and>
     (is_ok r \<longrightarrow>
        (\<forall>key raw. map_of texts key = Some raw \<longrightarrow>
           (\<exists>d v w. setting_def_of pf key = Some d \<and> sd_parse d raw = Inr v \<and>
              sd_parse d (trim_space raw) = Inr w \<and> (key \<noteq> key_invites \<longrightarrow> w = v) \<and>
              resolve pf (\<lambda>_. False) (ad_env s') (ad_settings s') key = Some (w, FromDb))) \<and>
        (\<forall>key. map_of texts key = None \<longrightarrow>
           resolve pf (\<lambda>_. False) (ad_env s') (ad_settings s') key = resolve pf (\<lambda>_. False) (ad_env s) (ad_settings s) key) \<and>
        (\<exists>mx mark ttl neg rw ri codes.
           (\<forall>(key, v) \<in> {(key_cache_max, SInt mx), (key_cache_mark, SFloat mark), (key_recover_ttl, SInt ttl), (key_recover_neg, SInt neg),
               (key_rate_write, SInt rw), (key_rate_img, SInt ri), (key_invites, SText codes)}.
              map_option fst (resolve pf (\<lambda>_. False) (ad_env s') (ad_settings s') key) = Some v) \<and>
           cs_max (lp_cache (ad_live s')) = mx \<and> cs_mark (lp_cache (ad_live s')) = mark \<and>
           rq_ttl (lp_recover (ad_live s')) = wrap64 (ttl * day_ms) \<and> rq_neg (lp_recover (ad_live s')) = wrap64 (neg * day_ms) \<and>
           lp_write (ad_live s') = set_rate ops (1000000 * now) (rate_of rw) write_burst (lp_write (ad_live s)) \<and>
           lp_img (ad_live s') = set_rate ops (1000000 * now) (rate_of ri) img_burst (lp_img (ad_live s)) \<and>
           invites (lp_auth (ad_live s')) = csv_to_list codes))"
proof -
  have dec: "decode_json decode body = Inr obj" using assms(2) by (simp add: decode_json_def)
  show ?thesis
  proof (cases r)
    case (Inl e)
    with assms(1,3) dec show ?thesis by (auto simp: patch_settings_def split: sum.splits)
  next
    case (Inr out)
    obtain kvs rows p where kvs: "validate_patch pf texts = Inr kvs"
      and rows: "persist_settings sfail now kvs (ad_settings s) = Inr rows"
      and p: "apply_all pf ops rate_of (1000000 * now) (\<lambda>_. False) (ad_env s) rows (ad_live s) = Some p"
      and s': "s' = s\<lparr>ad_settings := rows, ad_live := p\<rparr>"
      using assms(1,3) dec Inr by (auto simp: patch_settings_def split: sum.splits)
    note ok = validate_patch_ok [OF kvs]
    have kvs_of: "map_of kvs k = map_option trim_space (map_of texts k)" for k
    proof -
      have "kvs = map (\<lambda>(k, raw). (k, trim_space raw)) texts" using ok by blast
      then show ?thesis by (simp add: map_of_map)
    qed
    have "distinct (map fst kvs)" using assms(4) ok by (simp add: comp_def case_prod_beta)
    note val = persist_values [OF rows this]
    have res: "resolve pf (\<lambda>_. False) (ad_env s) rows' key =
        (case setting_def_of pf key of
           None \<Rightarrow> None
         | Some d \<Rightarrow> (case map_option sg_value (tbl_find sg_key key rows') of
              None \<Rightarrow> resolve pf (\<lambda>_. False) (ad_env s) [] key
            | Some raw \<Rightarrow> (case sd_parse d raw of
                 Inl e \<Rightarrow> resolve pf (\<lambda>_. False) (ad_env s) [] key | Inr v \<Rightarrow> Some (v, FromDb))))" for rows' key
      by (auto simp: resolve_def Let_def split: option.split sum.split)
    have patched: "\<exists>d v w. setting_def_of pf key = Some d \<and> sd_parse d raw = Inr v \<and>
        sd_parse d (trim_space raw) = Inr w \<and> (key \<noteq> key_invites \<longrightarrow> w = v) \<and>
        resolve pf (\<lambda>_. False) (ad_env s) rows key = Some (w, FromDb)" if m: "map_of texts key = Some raw" for key raw
    proof -
      from m ok obtain d v where d: "setting_def_of pf key = Some d" "sd_parse d raw = Inr v"
        by (auto dest!: map_of_SomeD)
      have "map_option sg_value (tbl_find sg_key key rows) = Some (trim_space raw)"
        using val [of key] m by (simp add: kvs_of)
      with d parse_trimmed [OF d] show ?thesis by (auto simp: res [of rows])
    qed
    have others: "resolve pf (\<lambda>_. False) (ad_env s) rows key = resolve pf (\<lambda>_. False) (ad_env s) (ad_settings s) key"
      if "map_of texts key = None" for key
    proof -
      have "map_option sg_value (tbl_find sg_key key rows) = map_option sg_value (tbl_find sg_key key (ad_settings s))"
        using val [of key] that by (simp add: kvs_of)
      then show ?thesis by (simp only: res [of rows] res [of "ad_settings s"])
    qed
    from p obtain mx mark ttl neg rw ri codes where
      "as_int (map_option fst (resolve pf (\<lambda>_. False) (ad_env s) rows key_cache_max)) = Some mx"
      "as_float (map_option fst (resolve pf (\<lambda>_. False) (ad_env s) rows key_cache_mark)) = Some mark"
      "as_int (map_option fst (resolve pf (\<lambda>_. False) (ad_env s) rows key_recover_ttl)) = Some ttl"
      "as_int (map_option fst (resolve pf (\<lambda>_. False) (ad_env s) rows key_recover_neg)) = Some neg"
      "as_int (map_option fst (resolve pf (\<lambda>_. False) (ad_env s) rows key_rate_write)) = Some rw"
      "as_int (map_option fst (resolve pf (\<lambda>_. False) (ad_env s) rows key_rate_img)) = Some ri"
      "as_text (map_option fst (resolve pf (\<lambda>_. False) (ad_env s) rows key_invites)) = Some codes"
      "p = \<lparr>lp_cache = set_limits mx mark (lp_cache (ad_live s)), lp_recover = set_ttl_days ttl neg (lp_recover (ad_live s)),
        lp_write = set_rate ops (1000000 * now) (rate_of rw) write_burst (lp_write (ad_live s)),
        lp_img = set_rate ops (1000000 * now) (rate_of ri) img_burst (lp_img (ad_live s)),
        lp_auth = set_invite_codes (csv_to_list codes) (lp_auth (ad_live s))\<rparr>"
      by (auto simp: apply_all_def apply_values_def split: option.splits)
    then have "ad_env s' = ad_env s" "ad_settings s' = rows"
      "map_option fst (resolve pf (\<lambda>_. False) (ad_env s) rows key_cache_max) = Some (SInt mx)"
      "map_option fst (resolve pf (\<lambda>_. False) (ad_env s) rows key_cache_mark) = Some (SFloat mark)"
      "map_option fst (resolve pf (\<lambda>_. False) (ad_env s) rows key_recover_ttl) = Some (SInt ttl)"
      "map_option fst (resolve pf (\<lambda>_. False) (ad_env s) rows key_recover_neg) = Some (SInt neg)"
      "map_option fst (resolve pf (\<lambda>_. False) (ad_env s) rows key_rate_write) = Some (SInt rw)"
      "map_option fst (resolve pf (\<lambda>_. False) (ad_env s) rows key_rate_img) = Some (SInt ri)"
      "map_option fst (resolve pf (\<lambda>_. False) (ad_env s) rows key_invites) = Some (SText codes)"
      "ad_live s' = p" "cs_max (lp_cache p) = mx" "cs_mark (lp_cache p) = mark" "rq_ttl (lp_recover p) = wrap64 (ttl * day_ms)"
      "rq_neg (lp_recover p) = wrap64 (neg * day_ms)"
      "lp_write p = set_rate ops (1000000 * now) (rate_of rw) write_burst (lp_write (ad_live s))"
      "lp_img p = set_rate ops (1000000 * now) (rate_of ri) img_burst (lp_img (ad_live s))"
      "invites (lp_auth p) = csv_to_list codes"
      by (simp_all only: cast_iffs s') (simp_all add: set_limits_def maybe_evict_def set_ttl_days_def set_invite_codes_def)
    note force = this
    show ?thesis
    proof (intro conjI impI)
      show "\<forall>key raw. map_of texts key = Some raw \<longrightarrow> (\<exists>d v w. setting_def_of pf key = Some d \<and> sd_parse d raw = Inr v \<and>
          sd_parse d (trim_space raw) = Inr w \<and> (key \<noteq> key_invites \<longrightarrow> w = v) \<and>
          resolve pf (\<lambda>_. False) (ad_env s') (ad_settings s') key = Some (w, FromDb))"
        unfolding force(1,2) using patched by blast
      show "\<forall>key. map_of texts key = None \<longrightarrow>
          resolve pf (\<lambda>_. False) (ad_env s') (ad_settings s') key = resolve pf (\<lambda>_. False) (ad_env s) (ad_settings s) key"
        unfolding force(1,2) using others by blast
    qed (use Inr in simp, unfold force(1,2,10), intro exI [of _ mx] exI [of _ mark] exI [of _ ttl] exI [of _ neg]
        exI [of _ rw] exI [of _ ri] exI [of _ codes], simp only: force ball_simps insert_iff empty_iff prod.case simp_thms)
  qed
qed

theorem patch_settings_effect_witness:
  "\<exists>out s'. patch_settings (\<lambda>_. Some [(key_cache_mark, JStr '' 0.5 '')]) ex_float ex_rates id (\<lambda>_. False) (\<lambda>_. False) 9 [] ex_admin
       = Some (Inr out, s') \<and> cs_mark (lp_cache (ad_live s')) = Fin (1 / 2)"
proof -
  let ?decode = "\<lambda>_ :: string. Some [(key_cache_mark, JStr '' 0.5 '')]"
  let ?rows = "[\<lparr>sg_key = key_cache_mark, sg_value = ''0.5'', sg_updated = 9\<rparr>]"
  have trim: "trim_space '' 0.5 '' = ''0.5''" by code_simp
  have parse: "parse_watermark ex_float '' 0.5 '' = Inr (SFloat (Fin (1 / 2)))" "parse_watermark ex_float ''0.5'' = Inr (SFloat (Fin (1 / 2)))"
    using trim trim_space_idem [of "'' 0.5 ''"] by (simp_all add: parse_watermark_def ex_float_def)
  have valid: "validate_patch ex_float [(key_cache_mark, '' 0.5 '')] = Inr [(key_cache_mark, ''0.5'')]"
    by (simp add: setting_def_simps parse trim)
  have rows: "persist_settings (\<lambda>_. False) 9 [(key_cache_mark, ''0.5'')] [] = Inr ?rows"
    by (simp add: persist_settings_def put_setting_def tbl_upsert_def)
  obtain p where "apply_all ex_float ex_rates id (1000000 * 9) (\<lambda>_. False) (\<lambda>_. None) ?rows ex_live = Some p"
    using apply_all_total [OF ex_env] by blast
  then have "\<exists>out s'. patch_settings ?decode ex_float ex_rates id (\<lambda>_. False) (\<lambda>_. False) 9 [] ex_admin = Some (Inr out, s')"
    using valid rows by (simp add: patch_settings_def decode_json_def ex_admin_def)
  then obtain out s' where patch: "patch_settings ?decode ex_float ex_rates id (\<lambda>_. False) (\<lambda>_. False) 9 [] ex_admin = Some (Inr out, s')"
    by (elim exE) (rule that)
  have "distinct (map fst [(key_cache_mark, '' 0.5 '')])" "patch_texts [(key_cache_mark, JStr '' 0.5 '')] = Inr [(key_cache_mark, '' 0.5 '')]"
    "is_ok (Inr out :: go_error + (string \<times> setting_value \<times> setting_source) list)"
    "map_of [(key_cache_mark, '' 0.5 '')] key_cache_mark = Some '' 0.5 ''" by simp_all
  note h = patch_settings_effect [OF patch refl this(2,1), THEN conjunct2, THEN mp, OF this(3)] and m = this(4)
  obtain d w where d: "setting_def_of ex_float key_cache_mark = Some d" "sd_parse d (trim_space '' 0.5 '') = Inr w"
    "resolve ex_float (\<lambda>_. False) (ad_env s') (ad_settings s') key_cache_mark = Some (w, FromDb)"
    using h [THEN conjunct1, THEN spec, THEN spec, THEN mp, OF m] by (elim exE conjE) (rule that)
  obtain mark where "map_option fst (resolve ex_float (\<lambda>_. False) (ad_env s') (ad_settings s') key_cache_mark) = Some (SFloat mark)"
    "cs_mark (lp_cache (ad_live s')) = mark"
    using h [THEN conjunct2, THEN conjunct2] by (elim exE conjE) (simp only: ball_simps prod.case)
  with d have "cs_mark (lp_cache (ad_live s')) = Fin (1 / 2)"
    by (auto simp: setting_def_simps trim parse)
  with patch show ?thesis by blast
qed

section \<open>Changes at the same time\<close>

text \<open>
  \<^verbatim>\<open>applyAll\<close> reads the table and applies what it has read without a lock. A change that has read the table before another
  one stored a list of invitation codes, and applies it afterwards, leaves the registration open although the table and
  the answers to both say that a code is needed; it stays so until the next change or restart.
\<close>

theorem stale_settings_applied:
  "\<exists>p p'. apply_all ex_float ex_rates id 9 (\<lambda>_. False) (\<lambda>_. None) (put_setting 9 (key_invites, ''abc'') []) ex_live = Some p \<and>
     apply_all ex_float ex_rates id 9 (\<lambda>_. False) (\<lambda>_. None) [] p = Some p' \<and>
     invites (lp_auth p) = [''abc''] \<and> invites (lp_auth p') = [] \<and>
     resolve ex_float (\<lambda>_. False) (\<lambda>_. None) (put_setting 9 (key_invites, ''abc'') []) key_invites = Some (SText ''abc'', FromDb)"
proof -
  let ?rows = "put_setting 9 (key_invites, ''abc'') []"
  have rows: "?rows = [\<lparr>sg_key = key_invites, sg_value = ''abc'', sg_updated = 9\<rparr>]" by (simp add: put_setting_def tbl_upsert_def)
  have codes: "parse_invite_codes ''abc'' = Inr (SText ''abc'')" by code_simp
  have res: "resolve ex_float (\<lambda>_. False) (\<lambda>_. None) ?rows key_invites = Some (SText ''abc'', FromDb)"
    "resolve ex_float (\<lambda>_. False) (\<lambda>_. None) [] key_invites = Some (SText [], FromDefault)"
    by (simp_all add: rows resolve_def setting_def_simps codes tbl_find_def)
  have split: "csv_to_list ''abc'' = [''abc'']" "csv_to_list [] = []" by code_simp+
  obtain p where p: "apply_all ex_float ex_rates id 9 (\<lambda>_. False) (\<lambda>_. None) ?rows ex_live = Some p"
    using apply_all_total [OF ex_env] by blast
  obtain p' where p': "apply_all ex_float ex_rates id 9 (\<lambda>_. False) (\<lambda>_. None) [] p = Some p'"
    using apply_all_total [OF ex_env] by blast
  from p have "lp_auth p = set_invite_codes [''abc''] (lp_auth ex_live)"
    by (auto simp: apply_all_def apply_values_def res split split: option.splits)
  moreover from p' have "lp_auth p' = set_invite_codes [] (lp_auth p)"
    by (auto simp: apply_all_def apply_values_def res split split: option.splits)
  ultimately show ?thesis using p p' res(1) by (simp add: set_invite_codes_def)
qed

end
