(* ===== verification/WebProps.thy ===== *)
theory WebProps
  imports Web
begin

text \<open>The properties of the static files and of the cross-origin headers.\<close>

section \<open>A small root\<close>

definition ex_root :: web_root where
  "ex_root = \<lparr>wr_node = (\<lambda>n. if n = ''index.html'' then Some (FsFile ''<html>'')
                           else if n = ''assets/app.js'' then Some (FsFile ''1'')
                           else if n = ''assets'' then Some FsDir else None),
              wr_stat_ok = (\<lambda>_. True)\<rparr>"

section \<open>Properties\<close>

lemma plain_index: "plain index_name"
  by code_simp

lemma serve_index_file:
  assumes "serve_index root = SpaFile name body ct cc"
  shows "name = index_name \<and> wr_node root index_name = Some (FsFile body) \<and> cc = ''no-cache''"
  using assms by (auto simp: serve_index_def fs_open_def split: option.splits fs_node.splits if_splits)

lemma spa_sent:
  assumes "spa_serve ul mime root p = SpaFile name body ct cc"
  shows "(\<exists>ws. ws \<noteq> [] \<and> (\<forall>w \<in> set ws. plain w) \<and> name = join_with CHR ''/'' ws) \<and>
     wr_node root name = Some (FsFile body) \<and> (name = spa_name p \<or> name = index_name) \<and>
     (cc = ''no-cache'' \<longleftrightarrow> name = index_name)"
proof -
  consider (fallback) "serve_index root = SpaFile name body ct cc"
    | (named) "name = spa_name p" "\<not> has_prefix name dotdot" "name \<noteq> index_name"
        "fs_open root name = Some (FsFile body)" "cc = static_cache_control"
    using assms by (auto simp: spa_serve_def Let_def split: if_splits option.splits fs_node.splits)
  then show ?thesis
  proof cases
    case fallback
    have "\<forall>w \<in> set [index_name]. plain w" "index_name = join_with CHR ''/'' [index_name]" by (simp_all add: plain_index)
    then show ?thesis using serve_index_file [OF fallback] by (metis list.distinct(1))
  next
    case named
    then have "valid_path name" "wr_node root name = Some (FsFile body)" by (simp_all add: fs_open_def split: if_splits)
    moreover have "static_cache_control \<noteq> ''no-cache''" by (simp add: static_cache_control_def)
    ultimately show ?thesis using spa_name_comps [of p name] named by simp
  qed
qed

lemma spa_named:
  assumes "ws \<noteq> []" "\<forall>w \<in> set ws. plain w" and p: "p = CHR ''/'' # name" and name: "name = join_with CHR ''/'' ws"
    and "valid_utf8 name" "\<not> has_prefix name dotdot" "name \<noteq> index_name"
    and "wr_node root name = Some (FsFile body)" "wr_stat_ok root name"
  shows "spa_serve ul mime root p = SpaFile name body (content_type ul mime name) static_cache_control"
proof -
  have comps: "split_on CHR ''/'' name = ws" unfolding name by (rule split_join) (use assms in \<open>auto simp: plain_def\<close>)
  have "\<forall>w \<in> set (split_on CHR ''/'' dot). \<not> plain w" "\<forall>w \<in> set (split_on CHR ''/'' []). \<not> plain w" by code_simp+
  then have "name \<noteq> dot" "name \<noteq> []" using comps assms(1,2) by (metis list.set_intros(1) neq_Nil_conv)+
  moreover have "cut_prefix p ''/'' = Some name" using p by (simp add: cut_prefix_def has_prefix_def)
  ultimately have "spa_name p = name"
    using path_clean_plain [OF assms(1,2)] name by (simp add: spa_name_def)
  moreover have "valid_path name" using assms(2,5) comps by (auto simp: valid_path_def list_all_iff plain_def)
  ultimately show ?thesis using assms(6-9) by (simp add: spa_serve_def fs_open_def)
qed

text \<open>
  C27: Safety. Whatever the path of the request, a file that is sent lies below the root: its name
  consists of ordinary components, and it is the file the cleaned path names or \<^verbatim>\<open>index.html\<close>, which
  alone must not be cached. A file that exists is sent under its own path; for any other path that does
  not start with two dots the answer is \<^verbatim>\<open>index.html\<close>.
\<close>

theorem spa_stays_inside:
  "(\<forall>name body ct cc. spa_serve ul mime root p = SpaFile name body ct cc \<longrightarrow>
      (\<exists>ws. ws \<noteq> [] \<and> (\<forall>w \<in> set ws. plain w) \<and> name = join_with CHR ''/'' ws) \<and>
      wr_node root name = Some (FsFile body) \<and> (name = spa_name p \<or> name = index_name) \<and>
      (cc = ''no-cache'' \<longleftrightarrow> name = index_name)) \<and>
   (\<forall>ws body. ws \<noteq> [] \<and> (\<forall>w \<in> set ws. plain w) \<and> p = CHR ''/'' # join_with CHR ''/'' ws \<and>
      valid_utf8 (join_with CHR ''/'' ws) \<and> \<not> has_prefix (join_with CHR ''/'' ws) dotdot \<and>
      join_with CHR ''/'' ws \<noteq> index_name \<and> wr_node root (join_with CHR ''/'' ws) = Some (FsFile body) \<and>
      wr_stat_ok root (join_with CHR ''/'' ws) \<longrightarrow>
      spa_serve ul mime root p =
        SpaFile (join_with CHR ''/'' ws) body (content_type ul mime (join_with CHR ''/'' ws)) static_cache_control) \<and>
   (\<not> has_prefix (spa_name p) dotdot \<and> (\<forall>body. fs_open root (spa_name p) \<noteq> Some (FsFile body)) \<longrightarrow>
      spa_serve ul mime root p = serve_index root)"
proof (intro conjI)
  show "\<forall>name body ct cc. spa_serve ul mime root p = SpaFile name body ct cc \<longrightarrow>
      (\<exists>ws. ws \<noteq> [] \<and> (\<forall>w \<in> set ws. plain w) \<and> name = join_with CHR ''/'' ws) \<and>
      wr_node root name = Some (FsFile body) \<and> (name = spa_name p \<or> name = index_name) \<and>
      (cc = ''no-cache'' \<longleftrightarrow> name = index_name)"
    using spa_sent by blast
next
  show "\<forall>ws body. ws \<noteq> [] \<and> (\<forall>w \<in> set ws. plain w) \<and> p = CHR ''/'' # join_with CHR ''/'' ws \<and>
      valid_utf8 (join_with CHR ''/'' ws) \<and> \<not> has_prefix (join_with CHR ''/'' ws) dotdot \<and>
      join_with CHR ''/'' ws \<noteq> index_name \<and> wr_node root (join_with CHR ''/'' ws) = Some (FsFile body) \<and>
      wr_stat_ok root (join_with CHR ''/'' ws) \<longrightarrow>
      spa_serve ul mime root p =
        SpaFile (join_with CHR ''/'' ws) body (content_type ul mime (join_with CHR ''/'' ws)) static_cache_control"
    using spa_named by blast
next
  show "\<not> has_prefix (spa_name p) dotdot \<and> (\<forall>body. fs_open root (spa_name p) \<noteq> Some (FsFile body)) \<longrightarrow>
      spa_serve ul mime root p = serve_index root"
    by (auto simp: spa_serve_def Let_def split: option.split fs_node.split)
qed

theorem spa_stays_inside_witness:
  "spa_serve id (\<lambda>_. []) ex_root ''/assets/app.js'' =
     SpaFile ''assets/app.js'' ''1'' ''text/javascript; charset=utf-8'' ''public, max-age=86400'' \<and>
   spa_serve id (\<lambda>_. []) ex_root ''/settings'' = serve_index ex_root"
proof -
  have join: "join_with CHR ''/'' [''assets'', ''app.js''] = ''assets/app.js''" by simp
  have ok: "\<forall>w \<in> set [''assets'', ''app.js'']. plain w" "valid_utf8 ''assets/app.js''" "\<not> has_prefix ''assets/app.js'' dotdot"
    by code_simp+
  have "spa_serve id (\<lambda>_. []) ex_root ''/assets/app.js'' =
      SpaFile ''assets/app.js'' ''1'' (content_type id (\<lambda>_. []) ''assets/app.js'') static_cache_control"
    using spa_stays_inside [of id "\<lambda>_. []" ex_root "''/assets/app.js''", THEN conjunct2, THEN conjunct1, rule_format,
        of "[''assets'', ''app.js'']" "''1''"] ok join
    by (simp add: ex_root_def index_name_def)
  moreover have "content_type id (\<lambda>_. []) ''assets/app.js'' = ''text/javascript; charset=utf-8''" by code_simp
  moreover have "spa_name ''/settings'' = ''settings''" "\<not> has_prefix ''settings'' dotdot" by code_simp+
  then have "spa_serve id (\<lambda>_. []) ex_root ''/settings'' = serve_index ex_root"
    using spa_stays_inside [of id "\<lambda>_. []" ex_root "''/settings''", THEN conjunct2, THEN conjunct2]
    by (simp add: fs_open_def ex_root_def)
  ultimately show ?thesis by (simp add: static_cache_control_def)
qed

text \<open>
  C28: Safety. A response carries an allowed origin only when the request came to an interface path
  with an origin of the list, and then it is this origin; every header but the ones for cross-origin
  requests stays as it was. Only preflight requests from such an origin are answered on the spot.
\<close>

theorem cors_only_listed:
  assumes "hdr_get ''Access-Control-Allow-Origin'' h = []"
    and "h' = (case cors origins meth p req h of Inl a \<Rightarrow> a | Inr a \<Rightarrow> a)"
  shows "(let origin = hdr_get ''Origin'' req; listed = (origin \<noteq> [] \<and> origin \<in> set origins \<and> is_api_path p)
     in hdr_get ''Access-Control-Allow-Origin'' h' = (if listed then origin else []) \<and>
        (isl (cors origins meth p req h) \<longleftrightarrow>
           listed \<and> meth = ''OPTIONS'' \<and> hdr_get ''Access-Control-Request-Method'' req \<noteq> []) \<and>
        (\<not> listed \<longrightarrow> h' = h) \<and>
        (\<forall>k. \<not> has_prefix k ''Access-Control-'' \<and> k \<noteq> ''Vary'' \<longrightarrow> hdr_get k h' = hdr_get k h))"
proof -
  have names: "has_prefix ''Access-Control-Allow-Origin'' ''Access-Control-''" "has_prefix ''Access-Control-Max-Age'' ''Access-Control-''"
    "has_prefix ''Access-Control-Allow-Headers'' ''Access-Control-''" "has_prefix ''Access-Control-Allow-Methods'' ''Access-Control-''"
    by code_simp+
  show ?thesis
    unfolding Let_def
  proof (intro conjI allI impI)
    fix k assume "\<not> has_prefix k ''Access-Control-'' \<and> k \<noteq> ''Vary''"
    then have "k \<noteq> ''Access-Control-Allow-Origin''" "k \<noteq> ''Access-Control-Max-Age''"
      "k \<noteq> ''Access-Control-Allow-Headers''" "k \<noteq> ''Access-Control-Allow-Methods''" "k \<noteq> ''Vary''"
      using names by auto
    then show "hdr_get k h' = hdr_get k h" using assms(2) by (simp add: cors_def Let_def split: sum.splits)
  qed (use assms in \<open>auto simp: cors_def Let_def\<close>)
qed

theorem cors_only_listed_witness:
  "isl (cors [''https://a''] ''OPTIONS'' ''/sync/v1/pull'' [(''Origin'', ''https://a''), (''Access-Control-Request-Method'', ''GET'')] []) \<and>
   cors [''https://a''] ''OPTIONS'' ''/sync/v1/pull'' [(''Origin'', ''https://b''), (''Access-Control-Request-Method'', ''GET'')] [] = Inr []"
proof -
  have none: "hdr_get ''Access-Control-Allow-Origin'' [] = []" by (simp add: hdr_get_def)
  have api: "is_api_path ''/sync/v1/pull''" by code_simp
  let ?a = "[(''Origin'', ''https://a''), (''Access-Control-Request-Method'', ''GET'')]"
  let ?b = "[(''Origin'', ''https://b''), (''Access-Control-Request-Method'', ''GET'')]"
  have "isl (cors [''https://a''] ''OPTIONS'' ''/sync/v1/pull'' ?a [])"
    using cors_only_listed [OF none refl, where origins = "[''https://a'']" and meth = "''OPTIONS''" and p = "''/sync/v1/pull''" and req = ?a] api
    by (simp add: Let_def hdr_get_def)
  moreover have "\<not> isl (cors [''https://a''] ''OPTIONS'' ''/sync/v1/pull'' ?b [])"
    "(case cors [''https://a''] ''OPTIONS'' ''/sync/v1/pull'' ?b [] of Inl a \<Rightarrow> a | Inr a \<Rightarrow> a) = []"
    using cors_only_listed [OF none refl, where origins = "[''https://a'']" and meth = "''OPTIONS''" and p = "''/sync/v1/pull''" and req = ?b]
    by (simp_all add: Let_def hdr_get_def)
  ultimately show ?thesis by (auto split: sum.splits)
qed

end
