(* ===== verification/App.thy ===== *)
theory App
  imports Startup SyncPull
begin

text \<open>
  \<^verbatim>\<open>internal/app\<close>: one request through the server. The request id, the cross-origin headers and the
  routes come first, then the guards of the route (token, limiter), then its handler. The answers of
  the handlers are kept as values; how they are printed is in \<^verbatim>\<open>Reply\<close>.
\<close>

section \<open>Routes\<close>

datatype endpoint =
    Healthz | AuthRegister | AuthRefresh | RelayRequest | ImgFetch | SyncPush | SyncPull | RecoverIllust
  | AdminOverview | AdminGetSettings | AdminPatchSettings | AdminCacheStats | AdminCacheEvict
  | AdminAccounts | AdminDevices | AdminDeleteDevice | AdminDeleteAccount | StaticFile

datatype seg = Lit string | Wild

type_synonym pattern = "string \<times> seg list \<times> endpoint"

text \<open>The patterns each part registers, and those of the guards: none, a token, the administrator's token.\<close>

named_theorems route_tables "the patterns of the router"

definition auth_routes :: "pattern list" where [route_tables]:
  "auth_routes =
     [(''POST'', [Lit ''auth'', Lit ''v1'', Lit ''register''], AuthRegister),
      (''POST'', [Lit ''auth'', Lit ''v1'', Lit ''refresh''], AuthRefresh)]"

definition relay_routes :: "pattern list" where [route_tables]:
  "relay_routes = [(''POST'', [Lit ''relay'', Lit ''v1'', Lit ''request''], RelayRequest)]"

definition img_routes :: "pattern list" where [route_tables]:
  "img_routes = [(''GET'', [Lit ''img'', Lit ''v1'', Lit ''fetch''], ImgFetch)]"

definition sync_routes :: "pattern list" where [route_tables]:
  "sync_routes =
     [(''POST'', [Lit ''sync'', Lit ''v1'', Lit ''push''], SyncPush),
      (''GET'', [Lit ''sync'', Lit ''v1'', Lit ''pull''], SyncPull)]"

definition recover_routes :: "pattern list" where [route_tables]:
  "recover_routes = [(''GET'', [Lit ''recover'', Lit ''v1'', Lit ''illust'', Wild], RecoverIllust)]"

definition open_routes :: "pattern list" where [route_tables]:
  "open_routes = (''GET'', [Lit ''healthz''], Healthz) # auth_routes"

definition token_routes :: "pattern list" where [route_tables]:
  "token_routes = relay_routes @ img_routes @ sync_routes @ recover_routes"

definition admin_routes :: "pattern list" where [route_tables]:
  "admin_routes =
     [(''GET'', [Lit ''admin'', Lit ''v1'', Lit ''overview''], AdminOverview),
      (''GET'', [Lit ''admin'', Lit ''v1'', Lit ''settings''], AdminGetSettings),
      (''PATCH'', [Lit ''admin'', Lit ''v1'', Lit ''settings''], AdminPatchSettings),
      (''GET'', [Lit ''admin'', Lit ''v1'', Lit ''cache'', Lit ''stats''], AdminCacheStats),
      (''POST'', [Lit ''admin'', Lit ''v1'', Lit ''cache'', Lit ''evict''], AdminCacheEvict),
      (''GET'', [Lit ''admin'', Lit ''v1'', Lit ''accounts''], AdminAccounts),
      (''GET'', [Lit ''admin'', Lit ''v1'', Lit ''accounts'', Wild, Lit ''devices''], AdminDevices),
      (''DELETE'', [Lit ''admin'', Lit ''v1'', Lit ''devices'', Wild], AdminDeleteDevice),
      (''DELETE'', [Lit ''admin'', Lit ''v1'', Lit ''accounts'', Wild], AdminDeleteAccount)]"

text \<open>
  \<^verbatim>\<open>http.ServeMux\<close>: the path is cleaned, and a request for an unclean one is redirected. A pattern
  matches segment by segment after unescaping, \<^verbatim>\<open>GET\<close> also matches \<^verbatim>\<open>HEAD\<close>. The pattern \<^verbatim>\<open>GET /\<close>
  matches every path, so that nothing is not found.
\<close>

fun path_unescape :: "string \<Rightarrow> string option" where
  "path_unescape [] = Some []"
| "path_unescape (c # cs) =
     (if c = CHR ''%'' then
        (case cs of
           a # b # cs' \<Rightarrow>
             (case (hex_value a, hex_value b) of
                (Some x, Some y) \<Rightarrow> map_option (Cons (char_of (16 * x + y))) (path_unescape cs')
              | _ \<Rightarrow> None)
         | _ \<Rightarrow> None)
      else map_option (Cons c) (path_unescape cs))"

definition clean_path :: "string \<Rightarrow> string" where
  "clean_path p =
     (let p' = (if has_prefix p ''/'' then p else CHR ''/'' # p); np = path_clean p'
      in if last p' = CHR ''/'' \<and> np \<noteq> ''/'' then np @ ''/'' else np)"

definition path_segments :: "string \<Rightarrow> string list" where
  "path_segments p =
     map (\<lambda>s. case path_unescape s of None \<Rightarrow> s | Some u \<Rightarrow> u) (split_on CHR ''/'' (drop 1 p))"

fun match_segs :: "seg list \<Rightarrow> string list \<Rightarrow> string list option" where
  "match_segs [] [] = Some []"
| "match_segs (Lit a # ps) (s # ss) = (if s = a then match_segs ps ss else None)"
| "match_segs (Wild # ps) (s # ss) = (if s = [] \<or> s = ''/'' then None else map_option (Cons s) (match_segs ps ss))"
| "match_segs _ _ = None"

definition match_method :: "string \<Rightarrow> string \<Rightarrow> bool" where
  "match_method pat meth \<longleftrightarrow> meth = pat \<or> pat = ''GET'' \<and> meth = ''HEAD''"

fun find_route :: "pattern list \<Rightarrow> string \<Rightarrow> string list \<Rightarrow> (endpoint \<times> string list) option" where
  "find_route [] meth segs = None"
| "find_route ((m, ps, ep) # pats) meth segs =
     (if match_method m meth then
        (case match_segs ps segs of None \<Rightarrow> find_route pats meth segs | Some ws \<Rightarrow> Some (ep, ws))
      else find_route pats meth segs)"

datatype route = To endpoint "string list" | MovedTo string | NotAllowed

definition mux :: "bool \<Rightarrow> string \<Rightarrow> string \<Rightarrow> route" where
  "mux admin_on meth path =
     (if meth \<noteq> ''CONNECT'' \<and> clean_path path \<noteq> path then MovedTo (clean_path path)
      else
        (case find_route (open_routes @ token_routes @ (if admin_on then admin_routes else [])) meth (path_segments path) of
           Some (ep, ws) \<Rightarrow> To ep ws
         | None \<Rightarrow> if match_method ''GET'' meth then To StaticFile [] else NotAllowed))"

section \<open>A request and what surrounds it\<close>

record request =
  hr_method :: string
  hr_path :: string
  hr_query :: string
  hr_headers :: headers
  hr_body :: string
  hr_remote :: string
  hr_host :: string
  hr_tls :: bool

definition url_path :: "request \<Rightarrow> string" where
  "url_path req = (case path_unescape (hr_path req) of None \<Rightarrow> [] | Some p \<Rightarrow> p)"

text \<open>The JSON decoders at the types of the requests.\<close>

record codecs =
  k_register :: "string \<Rightarrow> register_request option"
  k_refresh :: "string \<Rightarrow> string option"
  k_relay :: "string \<Rightarrow> relay_request option"
  k_push :: "string \<Rightarrow> push_request option"
  k_patch :: "string \<Rightarrow> (string \<times> json) list option"
  k_unmarshal :: unmarshal

text \<open>
  Time, randomness, the network and the failures while one request is served. \<open>mo_hangs\<close>: the server an image request goes
  to, or the image request it waits for, neither answers nor fails; no time limit ends either wait.
\<close>

record moment =
  mo_ms :: int
  mo_ns :: int
  mo_fresh :: string
  mo_auth :: "auth_step \<Rightarrow> bool"
  mo_keys :: "string option \<times> string option \<times> string option"
  mo_send :: "int \<Rightarrow> transport"
  mo_img :: transport
  mo_hangs :: bool
  mo_net :: network
  mo_cache :: "cache_step \<Rightarrow> bool"
  mo_disk :: "nat \<Rightarrow> nat option"
  mo_sql :: "sql_step \<Rightarrow> bool"
  mo_nonces :: "nat \<Rightarrow> string"
  mo_rnd :: rnd3
  mo_pull_ok :: bool
  mo_recover :: "recover_db \<Rightarrow> bool"
  mo_admin :: "admin_step \<Rightarrow> bool"
  mo_setting :: "setting_step \<Rightarrow> bool"
  mo_stats :: "bool \<Rightarrow> cache_step \<Rightarrow> bool"
  mo_evict :: "nat \<Rightarrow> cache_step \<Rightarrow> bool"

datatype answer =
    Refused json_response | Health | Tokens json | Relayed relay_response | Image img_result
  | Pushed push_response | Pulled pull_response | Recovery recover_answer
  | OverviewInfo overview | SettingsInfo "(string \<times> setting_value \<times> setting_source) list"
  | CacheInfo cache_report | Evicted evict_report | AccountList "account_item list" string
  | DeviceList "device_item list" | Deleted json
  | Page spa_reply | Preflight headers | Moved string | MethodNotAllowed

section \<open>Parts of the server\<close>

definition live :: "('r, 'l, 'net) app \<Rightarrow> ('r, 'l) live_parts" where
  "live a = ad_live (ap_state a)"

definition put_live :: "('r, 'l) live_parts \<Rightarrow> ('r, 'l, 'net) app \<Rightarrow> ('r, 'l, 'net) app" where
  "put_live p a = a\<lparr>ap_state := (ap_state a)\<lparr>ad_live := p\<rparr>\<rparr>"

definition put_auth :: "auth_state \<Rightarrow> ('r, 'l, 'net) app \<Rightarrow> ('r, 'l, 'net) app" where
  "put_auth au a = put_live ((live a)\<lparr>lp_auth := au\<rparr>) a"

definition put_cache :: "cache_state \<Rightarrow> ('r, 'l, 'net) app \<Rightarrow> ('r, 'l, 'net) app" where
  "put_cache c a = put_live ((live a)\<lparr>lp_cache := c\<rparr>) a"

definition put_recover :: "recover_state \<Rightarrow> ('r, 'l, 'net) app \<Rightarrow> ('r, 'l, 'net) app" where
  "put_recover rq a = put_live ((live a)\<lparr>lp_recover := rq\<rparr>) a"

definition put_sync :: "sync_state \<Rightarrow> ('r, 'l, 'net) app \<Rightarrow> ('r, 'l, 'net) app" where
  "put_sync sy a = a\<lparr>ap_state := (ap_state a)\<lparr>ad_sync := sy\<rparr>\<rparr>"

definition put_state :: "('r, 'l) admin_state \<Rightarrow> ('r, 'l, 'net) app \<Rightarrow> ('r, 'l, 'net) app" where
  "put_state s a = a\<lparr>ap_state := s\<rparr>"

section \<open>Guards\<close>

definition request_ip :: "('r, 'l, 'ip, 'net) platform \<Rightarrow> request \<Rightarrow> ('r, 'l, 'net) app \<Rightarrow> string" where
  "request_ip x req a =
     client_ip (x_net x) (ap_proxies a) (hr_remote req) (hdr_get ''X-Forwarded-For'' (hr_headers req))
       (hdr_get ''X-Real-Ip'' (hr_headers req))"

definition token_account ::
  "('r, 'l, 'ip, 'net) platform \<Rightarrow> moment \<Rightarrow> request \<Rightarrow> ('r, 'l, 'net) app \<Rightarrow> go_error + int" where
  "token_account x mo req a =
     map_sum id fst (authenticate (x_sha x) (mo_auth mo) (ap_mw a) (mo_ms mo)
       (hdr_get ''Authorization'' (hr_headers req)) (lp_auth (live a)))"

definition account_key :: "int \<Rightarrow> string" where "account_key acc = format_int acc"

text \<open>The limiters by account, in front of the handlers that write and of the image relay.\<close>

definition limit_write ::
  "('r, 'l, 'ip, 'net) platform \<Rightarrow> moment \<Rightarrow> headers \<Rightarrow> string \<Rightarrow> int \<Rightarrow> ('r, 'l, 'net) app
     \<Rightarrow> (json_response + unit) \<times> ('r, 'l, 'net) app" where
  "limit_write x mo h rid acc a =
     apsnd (\<lambda>l. put_live ((live a)\<lparr>lp_write := l\<rparr>) a)
       (limit_request (x_ops x) (x_retry x) h rid (account_key acc) (mo_ns mo) (lp_write (live a)))"

definition limit_img ::
  "('r, 'l, 'ip, 'net) platform \<Rightarrow> moment \<Rightarrow> headers \<Rightarrow> string \<Rightarrow> int \<Rightarrow> ('r, 'l, 'net) app
     \<Rightarrow> (json_response + unit) \<times> ('r, 'l, 'net) app" where
  "limit_img x mo h rid acc a =
     apsnd (\<lambda>l. put_live ((live a)\<lparr>lp_img := l\<rparr>) a)
       (limit_request (x_ops x) (x_retry x) h rid (account_key acc) (mo_ns mo) (lp_img (live a)))"

definition limit_register ::
  "('r, 'l, 'ip, 'net) platform \<Rightarrow> moment \<Rightarrow> headers \<Rightarrow> string \<Rightarrow> string \<Rightarrow> ('r, 'l, 'net) app
     \<Rightarrow> (json_response + unit) \<times> ('r, 'l, 'net) app" where
  "limit_register x mo h rid ip a =
     apsnd (\<lambda>l. a\<lparr>ap_register := l\<rparr>) (limit_request (x_ops x) (x_retry x) h rid ip (mo_ns mo) (ap_register a))"

definition token_guard ::
  "('r, 'l, 'ip, 'net) platform \<Rightarrow> moment \<Rightarrow> headers \<Rightarrow> string \<Rightarrow> endpoint \<Rightarrow> request \<Rightarrow> ('r, 'l, 'net) app
     \<Rightarrow> (json_response + int) \<times> ('r, 'l, 'net) app" where
  "token_guard x mo h rid ep req a =
     (case token_account x mo req a of
        Inl e \<Rightarrow> (Inl (write_error h rid e), a)
      | Inr acc \<Rightarrow>
          if ep = SyncPull then (Inr acc, a)
          else (case (if ep = ImgFetch then limit_img else limit_write) x mo h rid acc a of
                  (Inl resp, a') \<Rightarrow> (Inl resp, a')
                | (Inr u, a') \<Rightarrow> (Inr acc, a')))"

section \<open>Handlers behind a token\<close>

text \<open>
  The account comes from the token. The second result says whether a recovery job was started, and for
  which work.
\<close>

definition answer_sum :: "headers \<Rightarrow> string \<Rightarrow> ('b \<Rightarrow> answer) \<Rightarrow> go_error + 'b \<Rightarrow> answer" where
  "answer_sum h rid f r = (case r of Inl e \<Rightarrow> Refused (write_error h rid e) | Inr v \<Rightarrow> f v)"

definition serve_token ::
  "('r, 'l, 'ip, 'net) platform \<Rightarrow> codecs \<Rightarrow> moment \<Rightarrow> headers \<Rightarrow> string \<Rightarrow> endpoint \<Rightarrow> string list \<Rightarrow> request
     \<Rightarrow> int \<Rightarrow> ('r, 'l, 'net) app \<Rightarrow> (answer \<times> bool) \<times> ('r, 'l, 'net) app" where
  "serve_token x k mo h rid ep ws req acc a =
     (let q = (\<lambda>name. query_get name (hr_query req))
      in case ep of
           RelayRequest \<Rightarrow>
             ((answer_sum h rid Relayed
                 (fst (relay_handler (k_relay k) (x_uo x) (x_ul x) (x_uu x) (mo_send mo) (ap_relay_hosts a) (hr_body req))),
               False), a)
         | ImgFetch \<Rightarrow>
             (case img_handler (x_sha x) (x_uo x) (x_ul x) (ap_img_hosts a) (mo_img mo) (mo_net mo) (mo_cache mo)
                     (mo_disk mo) (mo_ms mo) (hr_query req) (lp_cache (live a)) of
                ((r, _), c) \<Rightarrow> ((Image r, False), put_cache c a))
         | SyncPush \<Rightarrow>
             (case push_handler (k_push k) (k_unmarshal k) (x_ul x) (mo_sql mo) (ap_enc a) (mo_nonces mo) (mo_rnd mo)
                     acc (hr_body req) (mo_ms mo) (ad_sync (ap_state a)) of
                (r, sy) \<Rightarrow> ((answer_sum h rid Pushed r, False), put_sync sy a))
         | SyncPull \<Rightarrow>
             ((answer_sum h rid Pulled
                 (pull_handler (mo_pull_ok mo) (ap_enc a) (mo_rnd mo) acc (q ''domain'') (q ''since'') (q ''limit'')
                    (mo_ms mo) (ad_sync (ap_state a))), False), a)
         | _ \<Rightarrow>
             (case recover_query (mo_recover mo) (x_codec x) (ap_enc a) (ap_shared a) (mo_ms mo) acc (concat ws)
                     (request_base (hr_tls req) (hr_host req)) (lp_recover (live a)) of
                ((r, started), rq) \<Rightarrow> ((Recovery r, started), put_recover rq a)))"

text \<open>An image request that is not answered from the cache waits for the upstream server.\<close>

definition img_waits ::
  "('r, 'l, 'ip, 'net) platform \<Rightarrow> moment \<Rightarrow> endpoint \<Rightarrow> request \<Rightarrow> ('r, 'l, 'net) app \<Rightarrow> bool" where
  "img_waits x mo ep req a \<longleftrightarrow> ep = ImgFetch \<and> mo_hangs mo \<and>
     snd (fst (img_handler (x_sha x) (x_uo x) (x_ul x) (ap_img_hosts a) (mo_img mo) (mo_net mo) (mo_cache mo)
       (mo_disk mo) (mo_ms mo) (hr_query req) (lp_cache (live a)))) \<noteq> []"

section \<open>Handlers of the administrator\<close>

definition serve_admin ::
  "('r, 'l, 'ip, 'net) platform \<Rightarrow> codecs \<Rightarrow> moment \<Rightarrow> headers \<Rightarrow> string \<Rightarrow> endpoint \<Rightarrow> string list \<Rightarrow> request
     \<Rightarrow> ('r, 'l, 'net) app \<Rightarrow> (answer \<times> ('r, 'l, 'net) app) option" where
  "serve_admin x k mo h rid ep ws req a =
     (let s = ap_state a; res = (\<lambda>key. mo_admin mo (ResolveKey key))
      in case ep of
           AdminOverview \<Rightarrow> Some (answer_sum h rid OverviewInfo (get_overview (x_float x) (mo_admin mo) s), a)
         | AdminGetSettings \<Rightarrow> Some (SettingsInfo (resolve_all (x_float x) res (ad_env s) (ad_settings s)), a)
         | AdminPatchSettings \<Rightarrow>
             map_option (\<lambda>(r, s'). (answer_sum h rid SettingsInfo r, put_state s' a))
               (patch_settings (k_patch k) (x_float x) (x_ops x) (\<lambda>n. x_rate x (float_of_int n)) (mo_setting mo) res
                  (mo_ms mo) (hr_body req) s)
         | AdminCacheStats \<Rightarrow> Some (answer_sum h rid CacheInfo (get_cache_report (mo_admin mo) s), a)
         | AdminCacheEvict \<Rightarrow>
             map_option (\<lambda>(r, s'). (answer_sum h rid Evicted r, put_state s' a))
               (evict_cache (mo_stats mo) (mo_evict mo) s)
         | AdminAccounts \<Rightarrow>
             Some (answer_sum h rid (\<lambda>(items, next). AccountList items next)
                     (list_accounts_handler (mo_admin mo) (hr_query req) s), a)
         | AdminDevices \<Rightarrow>
             Some (answer_sum h rid DeviceList (list_devices_handler (mo_admin mo) (concat ws) s), a)
         | AdminDeleteDevice \<Rightarrow>
             (case delete_device_handler (mo_admin mo) (concat ws) s of
                (r, s') \<Rightarrow> Some (answer_sum h rid Deleted r, put_state s' a))
         | _ \<Rightarrow>
             (case delete_account_handler (mo_admin mo) (concat ws) s of
                (r, s') \<Rightarrow> Some (answer_sum h rid Deleted r, put_state s' a)))"

section \<open>One request\<close>

text \<open>
  A request as a whole, without others beside it: \<open>None\<close> when it is never answered. (Requests that run at the same time
  are in the step relations of the components.)
\<close>

definition dispatch ::
  "('r, 'l, 'ip, 'net) platform \<Rightarrow> codecs \<Rightarrow> moment \<Rightarrow> headers \<Rightarrow> string \<Rightarrow> endpoint \<Rightarrow> string list \<Rightarrow> request
     \<Rightarrow> ('r, 'l, 'net) app \<Rightarrow> ((answer \<times> (int \<times> string) option) \<times> ('r, 'l, 'net) app) option" where
  "dispatch x k mo h rid ep ws req a =
     (if ep = Healthz then Some ((Health, None), a)
      else if ep = StaticFile then Some ((Page (spa_serve (x_ul x) (x_mime x) (ap_root a) (url_path req)), None), a)
      else if ep = AuthRegister then
        (case limit_register x mo h rid (request_ip x req a) a of
           (Inl resp, a') \<Rightarrow> Some ((Refused resp, None), a')
         | (Inr u, a') \<Rightarrow>
             (case mo_keys mo of
                (rk, ra, rr) \<Rightarrow>
                  (case register_handler (k_register k) (x_sha x) (mo_auth mo) rk ra rr (mo_ms mo) (hr_body req) (lp_auth (live a')) of
                     (r, au) \<Rightarrow> Some ((answer_sum h rid Tokens r, None), put_auth au a'))))
      else if ep = AuthRefresh then
        (case mo_keys mo of
           (rk, ra, rr) \<Rightarrow>
             (case refresh_handler (k_refresh k) (x_sha x) (mo_auth mo) ra rr (mo_ms mo) (hr_body req) (lp_auth (live a)) of
                (r, au) \<Rightarrow> Some ((answer_sum h rid Tokens r, None), put_auth au a)))
      else if List.member [RelayRequest, ImgFetch, SyncPush, SyncPull, RecoverIllust] ep then
        (case token_guard x mo h rid ep req a of
           (Inl resp, a') \<Rightarrow> Some ((Refused resp, None), a')
         | (Inr acc, a') \<Rightarrow>
             if img_waits x mo ep req a' then None
             else
               (case serve_token x k mo h rid ep ws req acc a' of
                  ((r, started), a'') \<Rightarrow> Some ((r, if started then Some (acc, concat ws) else None), a'')))
      else
        (case ap_admin a of
           None \<Rightarrow> Some ((MethodNotAllowed, None), a)
         | Some (token, l) \<Rightarrow>
             (case admin_guard (x_ops x) (x_retry x) token h rid (request_ip x req a)
                     (hdr_get ''Authorization'' (hr_headers req)) (mo_ns mo) l of
                (Inl resp, l') \<Rightarrow> Some ((Refused resp, None), a\<lparr>ap_admin := Some (token, l')\<rparr>)
              | (Inr u, l') \<Rightarrow>
                  map_option (\<lambda>(r, a'). ((r, None), a'))
                    (serve_admin x k mo h rid ep ws req (a\<lparr>ap_admin := Some (token, l')\<rparr>)))))"

definition handle ::
  "('r, 'l, 'ip, 'net) platform \<Rightarrow> codecs \<Rightarrow> moment \<Rightarrow> request \<Rightarrow> ('r, 'l, 'net) app
     \<Rightarrow> ((answer \<times> (int \<times> string) option) \<times> ('r, 'l, 'net) app) option" where
  "handle x k mo req a =
     (let rid = request_id (hdr_get ''X-Request-Id'' (hr_headers req)) (mo_fresh mo)
      in case cors (ap_origins a) (hr_method req) (url_path req) (hr_headers req) (hdr_set ''X-Request-Id'' rid []) of
           Inl h \<Rightarrow> Some ((Preflight h, None), a)
         | Inr h \<Rightarrow>
             (case mux (ap_admin a \<noteq> None) (hr_method req) (hr_path req) of
                MovedTo p \<Rightarrow> Some ((Moved p, None), a)
              | NotAllowed \<Rightarrow> Some ((MethodNotAllowed, None), a)
              | To ep ws \<Rightarrow> dispatch x k mo h rid ep ws req a))"

end
