(* ===== verification/AppFacts.thy ===== *)
theory AppFacts
  imports App AdminFacts CacheProps SyncFacts RecoverFacts StartupFacts
begin

text \<open>
  Facts on one request: which routes there are, what the guards let through, what each handler can
  change, and that every request and every job keeps the invariants of the components.
\<close>

section \<open>Routes\<close>

lemma find_route_in: "find_route pats meth segs = Some (ep, ws) \<Longrightarrow> ep \<in> (\<lambda>(m, ps, ep). ep) ` set pats"
  by (induction pats meth segs rule: find_route.induct) (auto split: if_splits option.splits)

definition token_endpoints :: "endpoint list" where
  "token_endpoints = [RelayRequest, ImgFetch, SyncPush, SyncPull, RecoverIllust]"

definition admin_endpoints :: "endpoint list" where
  "admin_endpoints = [AdminOverview, AdminGetSettings, AdminPatchSettings, AdminCacheStats, AdminCacheEvict,
     AdminAccounts, AdminDevices, AdminDeleteDevice, AdminDeleteAccount]"

lemma mux_endpoints:
  assumes "mux on meth path = To ep ws"
  shows "ep \<in> {Healthz, AuthRegister, AuthRefresh, StaticFile} \<or> ep \<in> set token_endpoints \<or>
     on \<and> ep \<in> set admin_endpoints"
  using assms
  by (auto simp: mux_def route_tables token_endpoints_def admin_endpoints_def
      dest!: find_route_in split: if_splits option.splits)

section \<open>Parts of the server\<close>

lemma live_put [simp]:
  "live (put_live p a) = p" "live (put_auth au a) = (live a)\<lparr>lp_auth := au\<rparr>"
  "live (put_cache c a) = (live a)\<lparr>lp_cache := c\<rparr>" "live (put_recover rq a) = (live a)\<lparr>lp_recover := rq\<rparr>"
  "live (put_sync sy a) = live a" "live (put_state s a) = ad_live s"
  by (simp_all add: live_def put_live_def put_auth_def put_cache_def put_recover_def put_sync_def put_state_def)

lemma state_put [simp]:
  "ap_state (put_live p a) = (ap_state a)\<lparr>ad_live := p\<rparr>" "ap_state (put_auth au a) = (ap_state a)\<lparr>ad_live := (live a)\<lparr>lp_auth := au\<rparr>\<rparr>"
  "ap_state (put_cache c a) = (ap_state a)\<lparr>ad_live := (live a)\<lparr>lp_cache := c\<rparr>\<rparr>"
  "ap_state (put_recover rq a) = (ap_state a)\<lparr>ad_live := (live a)\<lparr>lp_recover := rq\<rparr>\<rparr>"
  "ap_state (put_sync sy a) = (ap_state a)\<lparr>ad_sync := sy\<rparr>" "ap_state (put_state s a) = s"
  by (simp_all add: live_def put_live_def put_auth_def put_cache_def put_recover_def put_sync_def put_state_def)

text \<open>Two servers that hold the same data, limiters aside.\<close>

definition same_data :: "('r, 'l, 'net) app \<Rightarrow> ('r, 'l, 'net) app \<Rightarrow> bool" where
  "same_data a a' \<longleftrightarrow>
     ad_settings (ap_state a') = ad_settings (ap_state a) \<and> ad_env (ap_state a') = ad_env (ap_state a) \<and>
     ad_sync (ap_state a') = ad_sync (ap_state a) \<and> lp_cache (live a') = lp_cache (live a) \<and>
     lp_recover (live a') = lp_recover (live a) \<and> lp_auth (live a') = lp_auth (live a)"

lemma same_data_refl [simp]: "same_data a a"
  by (simp add: same_data_def)

text \<open>Only the data of the account \<open>acc\<close> may differ, and the shared image cache.\<close>

definition only_account :: "int \<Rightarrow> ('r, 'l, 'net) app \<Rightarrow> ('r, 'l, 'net) app \<Rightarrow> bool" where
  "only_account acc a a' \<longleftrightarrow>
     ad_settings (ap_state a') = ad_settings (ap_state a) \<and> ad_env (ap_state a') = ad_env (ap_state a) \<and>
     lp_auth (live a') = lp_auth (live a) \<and>
     (\<forall>i d. i \<noteq> acc \<longrightarrow> filter (in_domain i d) (entries (ad_sync (ap_state a'))) = filter (in_domain i d) (entries (ad_sync (ap_state a)))) \<and>
     filter (\<lambda>r. dr_account r \<noteq> acc) (domains (ad_sync (ap_state a'))) = filter (\<lambda>r. dr_account r \<noteq> acc) (domains (ad_sync (ap_state a))) \<and>
     (\<forall>i p. i \<noteq> acc \<longrightarrow> tbl_find row_key (i, p) (rq_rows (lp_recover (live a'))) = tbl_find row_key (i, p) (rq_rows (lp_recover (live a))))"

lemma same_then_only: "same_data a b \<Longrightarrow> only_account acc b a' \<Longrightarrow> only_account acc a a'"
  by (simp add: same_data_def only_account_def)

section \<open>Guards\<close>

lemma apsnd_eq: "apsnd f z = (r, y) \<longleftrightarrow> fst z = r \<and> f (snd z) = y"
  by (cases z) simp

lemma limits_same_data:
  "limit_write x mo h rid acc a = (r, a') \<Longrightarrow> same_data a a'" "limit_img x mo h rid acc a = (r, a') \<Longrightarrow> same_data a a'"
  "limit_register x mo h rid ip a = (r, a') \<Longrightarrow> same_data a a'"
  by (auto simp: limit_write_def limit_img_def limit_register_def same_data_def live_def put_live_def apsnd_eq)

lemma token_guard_data: "token_guard x mo h rid ep req a = (r, a') \<Longrightarrow> same_data a a'"
  using limits_same_data(1,2) [of x mo h rid _ a]
  by (auto simp: token_guard_def split: sum.splits if_splits prod.splits)

lemma token_guard_account: "token_guard x mo h rid ep req a = (Inr acc, a') \<Longrightarrow> token_account x mo req a = Inr acc"
  by (auto simp: token_guard_def split: sum.splits if_splits prod.splits)

lemma token_guard_refuses:
  "token_account x mo req a = Inl e \<Longrightarrow> token_guard x mo h rid ep req a = (Inl (write_error h rid e), a)"
  by (simp add: token_guard_def)

section \<open>What the handlers change\<close>

lemma push_handler_other:
  assumes "push_handler dec unm ul fail c nonces r acc body now s = (res, s')" and "i \<noteq> acc"
  shows "filter (in_domain i d) (entries s') = filter (in_domain i d) (entries s)"
  using assms push_locked_other [of fail c nonces r acc _ _ now s _ s' i d]
  by (auto simp: push_handler_def push_def split: sum.splits option.splits)

lemma push_handler_domains:
  assumes "push_handler dec unm ul fail c nonces r acc body now s = (res, s')"
  shows "filter (\<lambda>r. dr_account r \<noteq> acc) (domains s') = filter (\<lambda>r. dr_account r \<noteq> acc) (domains s)"
  using assms push_locked_domains_other [of fail c nonces r acc _ _ now s _ s']
  by (auto simp: push_handler_def push_def split: sum.splits option.splits)

lemma recover_query_effect:
  assumes "recover_query fail c enc shared now acc pid base s = ((r, started), s')"
  shows "edits_row acc pid s s'"
    and "rq_inflight s' = (if started then job_key acc pid # rq_inflight s else rq_inflight s)"
    and "started \<longrightarrow> \<not> job_busy s (job_key acc pid)"
  using assms
  by (auto simp: recover_query_def dest!: enqueue_cases split: if_splits sum.splits option.splits prod.splits)

lemma serve_token_cases:
  assumes "serve_token x k mo h rid ep ws req acc a = ((r, started), a')"
  obtains (same) "a' = a" "\<not> started" | (cache) q c where
      "img_handler (x_sha x) (x_uo x) (x_ul x) (ap_img_hosts a) (mo_img mo) (mo_net mo) (mo_cache mo)
         (mo_disk mo) (mo_ms mo) (hr_query req) (lp_cache (live a)) = (q, c)" "a' = put_cache c a" "\<not> started"
  | (push) res sy where
      "push_handler (k_push k) (k_unmarshal k) (x_ul x) (mo_sql mo) (ap_enc a) (mo_nonces mo) (mo_rnd mo)
         acc (hr_body req) (mo_ms mo) (ad_sync (ap_state a)) = (res, sy)" "a' = put_sync sy a" "\<not> started"
  | (query) res rq where
      "recover_query (mo_recover mo) (x_codec x) (ap_enc a) (ap_shared a) (mo_ms mo) acc (concat ws)
         (request_base (hr_tls req) (hr_host req)) (lp_recover (live a)) = ((res, started), rq)" "a' = put_recover rq a"
proof (cases "ep = RelayRequest \<or> ep = SyncPull")
  case True
  with assms same show ?thesis by (elim disjE) (simp_all add: serve_token_def Let_def)
next
  case False
  let ?img = "img_handler (x_sha x) (x_uo x) (x_ul x) (ap_img_hosts a) (mo_img mo) (mo_net mo) (mo_cache mo)
     (mo_disk mo) (mo_ms mo) (hr_query req) (lp_cache (live a))"
  let ?push = "push_handler (k_push k) (k_unmarshal k) (x_ul x) (mo_sql mo) (ap_enc a) (mo_nonces mo) (mo_rnd mo)
     acc (hr_body req) (mo_ms mo) (ad_sync (ap_state a))"
  let ?query = "recover_query (mo_recover mo) (x_codec x) (ap_enc a) (ap_shared a) (mo_ms mo) acc (concat ws)
     (request_base (hr_tls req) (hr_host req)) (lp_recover (live a))"
  show ?thesis
  proof (cases "ep = ImgFetch \<or> ep = SyncPush")
    case True
    obtain q c where q: "?img = (q, c)" by (cases ?img)
    obtain res sy where p: "?push = (res, sy)" by (cases ?push)
    from True show ?thesis
    proof
      assume "ep = ImgFetch"
      with assms q have "a' = put_cache c a" "\<not> started" by (simp_all add: serve_token_def split: prod.splits)
      with cache [OF q] show ?thesis by simp
    next
      assume "ep = SyncPush"
      with assms p have "a' = put_sync sy a" "\<not> started" by (simp_all add: serve_token_def)
      with push [OF p] show ?thesis by simp
    qed
  next
    case other: False
    obtain res st rq where q: "?query = ((res, st), rq)" by (metis surj_pair)
    with assms False other have "a' = put_recover rq a" "st = started"
      by (cases ep; simp add: serve_token_def)+
    with query q show ?thesis by simp
  qed
qed

lemma serve_token_effect:
  assumes "serve_token x k mo h rid ep ws req acc a = ((r, started), a')"
  shows "only_account acc a a'"
  using assms
proof (cases rule: serve_token_cases)
  case (push res sy)
  with push_handler_other [OF push(1)] push_handler_domains [OF push(1)] show ?thesis by (simp add: only_account_def)
next
  case (query res rq)
  with recover_query_effect(1) [OF query(1)] show ?thesis by (simp add: only_account_def edits_row_def)
qed (simp_all add: only_account_def)

section \<open>What the handlers read\<close>

text \<open>Two servers that differ at most in what they have stored of accounts other than \<open>acc\<close>: entries, cursors, recovery rows and jobs.\<close>

definition put_others :: "sync_state \<Rightarrow> recover_state \<Rightarrow> ('r, 'l, 'net) app \<Rightarrow> ('r, 'l, 'net) app" where
  "put_others sy rq a = put_sync sy (put_recover rq a)"

definition own_agree :: "int \<Rightarrow> sync_state \<Rightarrow> recover_state \<Rightarrow> ('r, 'l, 'net) app \<Rightarrow> bool" where
  "own_agree acc sy rq a \<longleftrightarrow>
     (\<forall>d. filter (in_domain acc d) (entries sy) = filter (in_domain acc d) (entries (ad_sync (ap_state a))) \<and>
        cursors sy (token_key acc d) = cursors (ad_sync (ap_state a)) (token_key acc d)) \<and>
     filter (\<lambda>r. rv_account r = acc) (rq_rows rq) = filter (\<lambda>r. rv_account r = acc) (rq_rows (lp_recover (live a))) \<and>
     (\<forall>pid. job_busy rq (job_key acc pid) = job_busy (lp_recover (live a)) (job_key acc pid))"

lemma put_others_simps [simp]:
  "lp_cache (live (put_others sy rq a)) = lp_cache (live a)" "lp_auth (live (put_others sy rq a)) = lp_auth (live a)"
  "lp_write (live (put_others sy rq a)) = lp_write (live a)" "lp_img (live (put_others sy rq a)) = lp_img (live a)"
  "lp_recover (live (put_others sy rq a)) = rq" "ad_sync (ap_state (put_others sy rq a)) = sy"
  "ap_enc (put_others sy rq a) = ap_enc a" "ap_mw (put_others sy rq a) = ap_mw a"
  "ap_relay_hosts (put_others sy rq a) = ap_relay_hosts a" "ap_img_hosts (put_others sy rq a) = ap_img_hosts a"
  "ap_shared (put_others sy rq a) = ap_shared a" "ap_admin (put_others sy rq a) = ap_admin a"
  "ap_origins (put_others sy rq a) = ap_origins a"
  by (simp_all add: put_others_def put_sync_def put_recover_def put_live_def live_def)

lemma put_others_limits:
  "limit_write x mo h rid acc (put_others sy rq a) = apsnd (put_others sy rq) (limit_write x mo h rid acc a)"
  "limit_img x mo h rid acc (put_others sy rq a) = apsnd (put_others sy rq) (limit_img x mo h rid acc a)"
  by (simp_all add: limit_write_def limit_img_def apsnd_def map_prod_def case_prod_beta)
    (simp_all add: put_others_def put_sync_def put_recover_def put_live_def live_def)

lemma token_guard_others:
  "token_guard x mo h rid ep req (put_others sy rq a) = apsnd (put_others sy rq) (token_guard x mo h rid ep req a)"
  by (auto simp: token_guard_def token_account_def put_others_limits split: sum.split prod.split)

lemma token_guard_keeps:
  assumes "token_guard x mo h rid ep req a = (g, b)"
  shows "own_agree acc sy rq b = own_agree acc sy rq a" and "ap_shared b = ap_shared a" and "ap_img_hosts b = ap_img_hosts a"
proof -
  show "own_agree acc sy rq b = own_agree acc sy rq a"
    using token_guard_data [OF assms] by (simp add: own_agree_def same_data_def)
  show "ap_shared b = ap_shared a" "ap_img_hosts b = ap_img_hosts a"
    using assms by (auto simp: token_guard_def limit_write_def limit_img_def put_live_def apsnd_eq split: sum.splits if_splits prod.splits)
qed

text \<open>Without \<^verbatim>\<open>RECOVER_SHARED\<close> a handler behind a token answers the same in both.\<close>

lemma serve_token_reads:
  assumes "own_agree acc sy rq a" and "\<not> ap_shared a"
  shows "fst (serve_token x k mo h rid ep ws req acc (put_others sy rq a)) = fst (serve_token x k mo h rid ep ws req acc a)"
proof -
  have push: "fst (push_handler dec unm ul fail c nonces r acc body now sy) = fst (push_handler dec unm ul fail c nonces r acc body now (ad_sync (ap_state a)))"
    for dec unm ul fail c nonces r body now
    using assms(1) push_cong [of acc _ sy "ad_sync (ap_state a)"] by (simp add: push_handler_def own_agree_def split: sum.split option.split)
  have pull: "pull_handler ok c r acc d since limit now sy = pull_handler ok c r acc d since limit now (ad_sync (ap_state a))"
    for ok c r d since limit now
    using assms(1) pull_cong [of acc d sy "ad_sync (ap_state a)"] by (simp add: pull_handler_def own_agree_def split: option.split)
  have query: "fst (recover_query fail c enc False now acc pid base rq) = fst (recover_query fail c enc False now acc pid base (lp_recover (live a)))"
    for fail c enc now pid base
    using assms(1) by (intro recover_query_cong) (simp_all add: own_agree_def)
  show ?thesis
    using push pull query assms(2)
    by (cases ep) (simp_all add: serve_token_def Let_def case_prod_beta prod_eq_iff)
qed

lemma img_waits_others [simp]: "img_waits x mo ep req (put_others sy rq a) = img_waits x mo ep req a"
  by (simp add: img_waits_def)

lemma dispatch_behind_token:
  assumes "ep \<in> set token_endpoints"
  shows "dispatch x k mo h rid ep ws req a =
      (case token_guard x mo h rid ep req a of
         (Inl resp, a') \<Rightarrow> Some ((Refused resp, None), a')
       | (Inr acc, a') \<Rightarrow>
           if img_waits x mo ep req a' then None
           else
             (case serve_token x k mo h rid ep ws req acc a' of
                ((r, started), a'') \<Rightarrow> Some ((r, if started then Some (acc, concat ws) else None), a'')))"
  using assms by (auto simp: dispatch_def token_endpoints_def)

lemma dispatch_reads:
  assumes "ep \<in> set token_endpoints" and "token_account x mo req a = Inr acc" and "own_agree acc sy rq a" and "\<not> ap_shared a"
  shows "map_option fst (dispatch x k mo h rid ep ws req (put_others sy rq a)) = map_option fst (dispatch x k mo h rid ep ws req a)"
proof -
  obtain g b where g: "token_guard x mo h rid ep req a = (g, b)" by fastforce
  have own: "fst (serve_token x k mo h rid ep ws req acc (put_others sy rq b)) = fst (serve_token x k mo h rid ep ws req acc b)"
    using token_guard_keeps [OF g] assms(3,4) by (intro serve_token_reads) simp_all
  have step: "map_option fst (dispatch x k mo h rid ep ws req z) =
      (case token_guard x mo h rid ep req z of
         (Inl resp, a') \<Rightarrow> Some (Refused resp, None)
       | (Inr i, a') \<Rightarrow>
           if img_waits x mo ep req a' then None
           else (case fst (serve_token x k mo h rid ep ws req i a') of (r, started) \<Rightarrow> Some (r, if started then Some (i, concat ws) else None)))"
    for z by (simp add: dispatch_behind_token [OF assms(1)] case_prod_beta split: sum.split)
  show ?thesis
  proof (cases g)
    case (Inr i)
    then have "i = acc" using token_guard_account [OF g [unfolded Inr]] assms(2) by simp
    with own Inr show ?thesis by (simp add: step token_guard_others g)
  qed (simp add: step token_guard_others g)
qed

section \<open>One request\<close>

lemma register_handler_inv:
  assumes "register_handler dec sha fail rk ra rr now body s = (r, s')" and "auth_inv s"
  shows "auth_inv s'"
  using assms by (auto simp: register_handler_def dest: register_inv split: sum.splits option.splits prod.splits)

lemma refresh_handler_inv:
  assumes "refresh_handler dec sha fail ra rr now body s = (r, s')" and "auth_inv s"
  shows "auth_inv s'"
  using assms by (auto simp: refresh_handler_def dest: refresh_inv split: sum.splits option.splits prod.splits)

lemma dispatch_auth:
  assumes "dispatch x k mo h rid ep ws req a = Some ((ans, job), a')" and "ep = AuthRegister \<or> ep = AuthRefresh"
  shows "job = None \<and> (same_data a a' \<or> (\<exists>b au. same_data a b \<and> a' = put_auth au b \<and> (auth_inv (lp_auth (live a)) \<longrightarrow> auth_inv au)))"
proof (cases "mo_keys mo")
  case keys: (fields rk ra rr)
  from assms(2) show ?thesis
  proof
    assume ep: "ep = AuthRegister"
    obtain g b where g: "limit_register x mo h rid (request_ip x req a) a = (g, b)" by fastforce
    note data = limits_same_data(3) [OF g]
    show ?thesis
    proof (cases g)
      case (Inl resp)
      with assms(1) ep g data show ?thesis by (simp add: dispatch_def)
    next
      case (Inr u)
      obtain r au where r: "register_handler (k_register k) (x_sha x) (mo_auth mo) rk ra rr (mo_ms mo) (hr_body req) (lp_auth (live b)) = (r, au)"
        by fastforce
      with assms(1) ep g Inr keys have "a' = put_auth au b" "job = None" by (simp_all add: dispatch_def)
      moreover have "lp_auth (live b) = lp_auth (live a)" using data by (simp add: same_data_def)
      ultimately show ?thesis using data register_handler_inv [OF r] by auto
    qed
  next
    assume ep: "ep = AuthRefresh"
    obtain r au where r: "refresh_handler (k_refresh k) (x_sha x) (mo_auth mo) ra rr (mo_ms mo) (hr_body req) (lp_auth (live a)) = (r, au)"
      by fastforce
    with assms(1) ep keys have "a' = put_auth au a" "job = None" by (simp_all add: dispatch_def)
    moreover have "same_data a a" by simp
    ultimately show ?thesis using refresh_handler_inv [OF r] by blast
  qed
qed

lemma dispatch_token:
  assumes "dispatch x k mo h rid ep ws req a = Some ((ans, job), a')" and "ep \<in> set token_endpoints"
  shows "same_data a a' \<and> job = None \<or>
     (\<exists>acc b started. token_account x mo req a = Inr acc \<and> same_data a b \<and>
        serve_token x k mo h rid ep ws req acc b = ((ans, started), a') \<and> job = (if started then Some (acc, concat ws) else None))"
proof -
  obtain g b where g: "token_guard x mo h rid ep req a = (g, b)" by fastforce
  note data = token_guard_data [OF g]
  note step = dispatch_behind_token [OF assms(2), of x k mo h rid ws req a, unfolded g]
  show ?thesis
  proof (cases g)
    case (Inl resp)
    with step assms(1) data show ?thesis by simp
  next
    case (Inr acc)
    obtain r st c where s: "serve_token x k mo h rid ep ws req acc b = ((r, st), c)" by (metis surj_pair)
    with step assms(1) Inr have "r = ans" "c = a'" "job = (if st then Some (acc, concat ws) else None)"
      by (simp_all split: if_splits)
    with s data token_guard_account [OF g [unfolded Inr]] show ?thesis by blast
  qed
qed

lemma dispatch_admin:
  assumes "dispatch x k mo h rid ep ws req a = Some ((ans, job), a')" and "ep \<in> set admin_endpoints"
  shows "job = None \<and> (same_data a a' \<or>
     (\<exists>tok l b. ap_admin a = Some (tok, l) \<and> admin_authorized tok (hdr_get ''Authorization'' (hr_headers req)) \<and>
        same_data a b \<and> serve_admin x k mo h rid ep ws req b = Some (ans, a')))"
proof -
  have step: "dispatch x k mo h rid ep ws req a =
     (case ap_admin a of
        None \<Rightarrow> Some ((MethodNotAllowed, None), a)
      | Some (token, l) \<Rightarrow>
          (case admin_guard (x_ops x) (x_retry x) token h rid (request_ip x req a)
                  (hdr_get ''Authorization'' (hr_headers req)) (mo_ns mo) l of
             (Inl resp, l') \<Rightarrow> Some ((Refused resp, None), a\<lparr>ap_admin := Some (token, l')\<rparr>)
           | (Inr u, l') \<Rightarrow>
               map_option (\<lambda>(r, a'). ((r, None), a'))
                 (serve_admin x k mo h rid ep ws req (a\<lparr>ap_admin := Some (token, l')\<rparr>))))"
    using assms(2) by (auto simp: dispatch_def admin_endpoints_def)
  have data: "same_data a (a\<lparr>ap_admin := z\<rparr>)" for z by (simp add: same_data_def live_def)
  show ?thesis
  proof (cases "ap_admin a")
    case None
    with step assms(1) show ?thesis by simp
  next
    case (Some tl)
    obtain tok l where tl: "tl = (tok, l)" by (cases tl)
    obtain g l' where g: "admin_guard (x_ops x) (x_retry x) tok h rid (request_ip x req a)
        (hdr_get ''Authorization'' (hr_headers req)) (mo_ns mo) l = (g, l')" by fastforce
    show ?thesis
    proof (cases g)
      case (Inl resp)
      with step assms(1) Some tl g data show ?thesis by auto
    next
      case (Inr u)
      then have "admin_authorized tok (hdr_get ''Authorization'' (hr_headers req))"
        using g by (auto simp: admin_guard_def split: prod.splits sum.splits if_splits)
      moreover have "serve_admin x k mo h rid ep ws req (a\<lparr>ap_admin := Some (tok, l')\<rparr>) = Some (ans, a')" "job = None"
        using step assms(1) Some tl g Inr by (auto simp: map_option_case split: option.splits)
      ultimately show ?thesis using Some tl data by blast
    qed
  qed
qed

lemma handle_cases:
  assumes "handle x k mo req a = Some ((ans, job), a')"
  obtains (quiet) "same_data a a'" "job = None"
  | (auth) ep ws b au where "mux (ap_admin a \<noteq> None) (hr_method req) (hr_path req) = To ep ws"
      "ep = AuthRegister \<or> ep = AuthRefresh" "same_data a b" "a' = put_auth au b" "job = None"
      "auth_inv (lp_auth (live a)) \<longrightarrow> auth_inv au"
  | (token) h rid ep ws acc b started where "mux (ap_admin a \<noteq> None) (hr_method req) (hr_path req) = To ep ws"
      "ep \<in> set token_endpoints" "token_account x mo req a = Inr acc" "same_data a b"
      "serve_token x k mo h rid ep ws req acc b = ((ans, started), a')"
      "job = (if started then Some (acc, concat ws) else None)"
  | (admin) h rid ep ws tok l b where "mux (ap_admin a \<noteq> None) (hr_method req) (hr_path req) = To ep ws"
      "ep \<in> set admin_endpoints" "ap_admin a = Some (tok, l)"
      "admin_authorized tok (hdr_get ''Authorization'' (hr_headers req))" "same_data a b"
      "serve_admin x k mo h rid ep ws req b = Some (ans, a')" "job = None"
proof -
  let ?rid = "request_id (hdr_get ''X-Request-Id'' (hr_headers req)) (mo_fresh mo)"
  let ?mux = "mux (ap_admin a \<noteq> None) (hr_method req) (hr_path req)"
  consider (direct) "a' = a" "job = None" | (route) h ep ws where "?mux = To ep ws"
      "dispatch x k mo h ?rid ep ws req a = Some ((ans, job), a')"
    using assms by (auto simp: handle_def Let_def split: sum.splits route.splits)
  then show thesis
  proof cases
    case direct
    then show thesis using quiet by simp
  next
    case (route h ep ws)
    from mux_endpoints [OF route(1)] consider "ep = Healthz \<or> ep = StaticFile" | "ep = AuthRegister \<or> ep = AuthRefresh"
      | "ep \<in> set token_endpoints" | "ep \<in> set admin_endpoints" by auto
    then show thesis
    proof cases
      case 1
      with route(2) have "a' = a" "job = None" by (auto simp: dispatch_def)
      then show thesis using quiet by simp
    next
      case 2
      from dispatch_auth [OF route(2) 2] show thesis using quiet auth [OF route(1) 2] by blast
    next
      case 3
      from dispatch_token [OF route(2) 3] show thesis using quiet token [OF route(1) 3] by blast
    next
      case 4
      from dispatch_admin [OF route(2) 4] show thesis using quiet admin [OF route(1) 4] by blast
    qed
  qed
qed

end
