(* ===== verification/AppInv.thy ===== *)
theory AppInv
  imports AppFacts SourcesFacts
begin

text \<open>
  The invariants of the components hold together in every state of the running server: each request,
  each recovery job and each eviction keeps them.
\<close>

section \<open>The data of the server\<close>

definition from_env :: "parse_float \<Rightarrow> (string \<Rightarrow> setting_value option) \<Rightarrow> bool" where
  "from_env pf env \<longleftrightarrow> (\<exists>getenv. env = env_snapshot pf getenv)"

definition state_inv :: "parse_float \<Rightarrow> ('r, 'l) admin_state \<Rightarrow> bool" where
  "state_inv pf s \<longleftrightarrow>
     auth_inv (lp_auth (ad_live s)) \<and> cache_inv (lp_cache (ad_live s)) \<and> sync_inv (ad_sync s) \<and>
     tbl_unique row_key (all_recover s) \<and> tbl_unique sg_key (ad_settings s) \<and>
     from_env pf (ad_env s)"

lemma state_invD:
  assumes "state_inv pf s"
  shows "auth_inv (lp_auth (ad_live s))" "cache_inv (lp_cache (ad_live s))" "sync_inv (ad_sync s)"
    "tbl_unique row_key (rq_rows (lp_recover (ad_live s)))" "tbl_unique sg_key (ad_settings s)"
  using assms by (simp_all add: state_inv_def all_recover_def)

lemma same_data_inv: "same_data a b \<Longrightarrow> state_inv pf (ap_state a) \<Longrightarrow> state_inv pf (ap_state b)"
  by (simp add: same_data_def state_inv_def all_recover_def live_def)

section \<open>The administrator\<close>

lemma evict_cache_inv:
  assumes "evict_cache fail ef s = Some (r, s')" and "state_inv pf s"
  shows "state_inv pf s' \<and> lp_recover (ad_live s') = lp_recover (ad_live s)"
  using assms evict_inv
  by (auto simp: evict_cache_def state_inv_def all_recover_def Let_def split: sum.splits option.splits)

lemma put_settings_unique:
  "tbl_unique sg_key rows \<Longrightarrow> tbl_unique sg_key (fold (put_setting now) kvs rows)"
  by (induction kvs arbitrary: rows) (simp_all add: put_setting_def tbl_unique_upsert)

lemma apply_all_inv:
  assumes "apply_all pf ops rate_of now fail env rows p = Some p'"
  shows "cache_inv (lp_cache p) \<Longrightarrow> cache_inv (lp_cache p')"
    and "auth_inv (lp_auth p) \<Longrightarrow> auth_inv (lp_auth p')"
    and "rq_rows (lp_recover p') = rq_rows (lp_recover p)" and "rq_inflight (lp_recover p') = rq_inflight (lp_recover p)"
proof -
  obtain mx mark ttl neg codes where p': "lp_cache p' = set_limits mx mark (lp_cache p)"
    "lp_recover p' = set_ttl_days ttl neg (lp_recover p)" "lp_auth p' = set_invite_codes codes (lp_auth p)"
    using assms by (auto simp: apply_all_def apply_values_def split: option.splits)
  then show "cache_inv (lp_cache p) \<Longrightarrow> cache_inv (lp_cache p')" "auth_inv (lp_auth p) \<Longrightarrow> auth_inv (lp_auth p')"
    "rq_rows (lp_recover p') = rq_rows (lp_recover p)" "rq_inflight (lp_recover p') = rq_inflight (lp_recover p)"
    by (simp_all add: set_limits_inv set_ttl_days_def set_invite_codes_def auth_inv_def)
qed

lemma patch_settings_inv:
  assumes "patch_settings decode pf ops rate_of sfail rfail now body s = Some (r, s')" and "state_inv pf s"
  shows "state_inv pf s' \<and> rq_inflight (lp_recover (ad_live s')) = rq_inflight (lp_recover (ad_live s))"
proof -
  consider "s' = s" | kvs rows p where "persist_settings sfail now kvs (ad_settings s) = Inr rows"
      "apply_all pf ops rate_of (1000000 * now) rfail (ad_env s) rows (ad_live s) = Some p"
      "s' = s\<lparr>ad_settings := rows, ad_live := p\<rparr>"
  proof (cases "decode_json decode body")
    case (Inl e)
    with assms(1) that(1) show thesis by (simp add: patch_settings_def)
  next
    case obj: (Inr obj)
    show thesis
    proof (cases "patch_texts obj")
      case (Inl e)
      with assms(1) obj that(1) show thesis by (simp add: patch_settings_def)
    next
      case texts: (Inr texts)
      show thesis
      proof (cases "validate_patch pf texts")
        case (Inl e)
        with assms(1) obj texts that(1) show thesis by (simp add: patch_settings_def)
      next
        case kvs: (Inr kvs)
        show thesis
        proof (cases "persist_settings sfail now kvs (ad_settings s)")
          case (Inl e)
          with assms(1) obj texts kvs that(1) show thesis by (simp add: patch_settings_def)
        next
          case rows: (Inr rows)
          with assms(1) obj texts kvs that(2) show thesis by (auto simp: patch_settings_def)
        qed
      qed
    qed
  qed
  then show ?thesis
  proof cases
    case 1
    with assms(2) show ?thesis by simp
  next
    case 2
    have "rows = fold (put_setting now) kvs (ad_settings s)"
      using 2(1) by (auto simp: persist_settings_def split: if_splits)
    with assms(2) apply_all_inv [OF 2(2)] 2(3) show ?thesis
      by (simp add: state_inv_def put_settings_unique all_recover_def)
  qed
qed

lemma durable_delete:
  "a \<noteq> i \<Longrightarrow> durable_level (tbl_delete (\<lambda>d. dr_account d = i) ds) a d = durable_level ds a d"
proof -
  assume "a \<noteq> i"
  then have "tbl_find domain_key (a, d) (tbl_delete (\<lambda>d. dr_account d = i) ds) = tbl_find domain_key (a, d) ds"
    by (intro tbl_find_delete_other) (auto simp: domain_key_def)
  then show ?thesis by (simp add: durable_level_def)
qed

lemma erase_sync_inv:
  "sync_inv sy \<Longrightarrow> sync_inv (sy\<lparr>entries := tbl_delete (\<lambda>e. se_account e = i) (entries sy),
     domains := tbl_delete (\<lambda>d. dr_account d = i) (domains sy)\<rparr>)"
  by (auto simp: sync_inv_def tbl_unique_delete durable_delete)

lemma delete_account_inv:
  assumes "delete_account fail i s = (r, s')" and "state_inv pf s"
  shows "state_inv pf s' \<and> rq_inflight (lp_recover (ad_live s')) = rq_inflight (lp_recover (ad_live s))"
proof -
  have "state_inv pf (erase_account i s)"
    using assms(2) erase_account_inv [of s i] erase_sync_inv [of "ad_sync s" i]
    by (simp add: state_inv_def erase_account_parts tbl_unique_delete) (simp add: erase_account_def Let_def)
  moreover have "rq_inflight (lp_recover (ad_live (erase_account i s))) = rq_inflight (lp_recover (ad_live s))"
    by (simp add: erase_account_def Let_def)
  ultimately show ?thesis using delete_account_cases [OF assms(1)] assms(2) by auto
qed

lemma auth_inv_delete: "auth_inv au \<Longrightarrow> auth_inv (au\<lparr>devices := tbl_delete P (devices au)\<rparr>)"
  by (auto simp: auth_inv_def tbl_unique_delete)

lemma delete_device_inv:
  assumes "delete_device fail i s = (r, s')" and "state_inv pf s"
  shows "state_inv pf s' \<and> lp_recover (ad_live s') = lp_recover (ad_live s)"
  using assms
  by (auto simp: delete_device_def Let_def state_inv_def all_recover_def auth_inv_delete split: if_splits)

lemma delete_handlers_inv:
  assumes "delete_device_handler fail raw s = (r, s') \<or> delete_account_handler fail raw s = (r, s')" and "state_inv pf s"
  shows "state_inv pf s' \<and> rq_inflight (lp_recover (ad_live s')) = rq_inflight (lp_recover (ad_live s))"
proof -
  have "s' = s \<or> (\<exists>i u. delete_device fail i s = (u, s')) \<or> (\<exists>i u. delete_account fail i s = (u, s'))"
    using assms(1)
    by (auto simp: delete_device_handler_def delete_account_handler_def apfst_def map_prod_def split: sum.splits prod.splits)
  then show ?thesis using delete_device_inv [OF _ assms(2)] delete_account_inv [OF _ assms(2)] assms(2) by auto
qed

lemma serve_admin_inv:
  assumes "serve_admin x k mo h rid ep ws req a = Some (ans, a')" and "state_inv (x_float x) (ap_state a)"
  shows "state_inv (x_float x) (ap_state a') \<and> rq_inflight (lp_recover (live a')) = rq_inflight (lp_recover (live a))"
proof -
  let ?good = "\<lambda>s'. state_inv (x_float x) s' \<and> rq_inflight (lp_recover (ad_live s')) = rq_inflight (lp_recover (live a))"
  have "a' = a \<or> (\<exists>s'. a' = put_state s' a \<and> ?good s')"
  proof (cases "ep \<in> {AdminOverview, AdminGetSettings, AdminCacheStats, AdminAccounts, AdminDevices}")
    case True
    with assms(1) show ?thesis by (auto simp: serve_admin_def Let_def)
  next
    case False
    consider (patch) "ep = AdminPatchSettings" | (evict) "ep = AdminCacheEvict" | (device) "ep = AdminDeleteDevice"
      | (account) "ep \<noteq> AdminPatchSettings" "ep \<noteq> AdminCacheEvict" "ep \<noteq> AdminDeleteDevice" by blast
    then show ?thesis
    proof cases
      case patch
      with assms(1) obtain r s' where "patch_settings (k_patch k) (x_float x) (x_ops x) (\<lambda>n. x_rate x (float_of_int n)) (mo_setting mo)
          (\<lambda>key. mo_admin mo (ResolveKey key)) (mo_ms mo) (hr_body req) (ap_state a) = Some (r, s')" "a' = put_state s' a"
        by (auto simp: serve_admin_def Let_def)
      with patch_settings_inv [OF this(1) assms(2)] show ?thesis by (auto simp: live_def)
    next
      case evict
      with assms(1) obtain r s' where "evict_cache (mo_stats mo) (mo_evict mo) (ap_state a) = Some (r, s')" "a' = put_state s' a"
        by (auto simp: serve_admin_def Let_def)
      with evict_cache_inv [OF this(1) assms(2)] show ?thesis by (auto simp: live_def)
    next
      case device
      obtain r s' where d: "delete_device_handler (mo_admin mo) (concat ws) (ap_state a) = (r, s')" by fastforce
      with assms(1) device have "a' = put_state s' a" by (simp add: serve_admin_def Let_def)
      with delete_handlers_inv [OF disjI1 [OF d] assms(2)] show ?thesis by (auto simp: live_def)
    next
      case account
      obtain r s' where d: "delete_account_handler (mo_admin mo) (concat ws) (ap_state a) = (r, s')" by fastforce
      with assms(1) account False have "a' = put_state s' a" by (cases ep) (simp_all add: serve_admin_def Let_def)
      with delete_handlers_inv [OF disjI2 [OF d] assms(2)] show ?thesis by (auto simp: live_def)
    qed
  qed
  with assms(2) show ?thesis by auto
qed

section \<open>Handlers behind a token\<close>

lemma serve_hit_inv: "serve_hit fail now key inline s = (r, s') \<Longrightarrow> cache_inv s \<Longrightarrow> cache_inv s'"
  using cache_get_inv [of s fail now key]
  by (cases "cache_get fail now key s") (auto simp: serve_hit_def split: sum.splits option.splits)

lemma fetch_upstream_inv:
  assumes "fetch_upstream uo tr nw fail disk now url key inline s = (r, s')" and "cache_inv s" and "\<not> fail ReadOldSize"
  shows "cache_inv s'"
proof -
  have "s' = s \<or> (\<exists>ct ps. s' = snd (cache_put fail disk now key ct ps s))"
    using assms(1) by (cases "client_do uo tr (img_request url)")
      (auto simp: fetch_upstream_def Let_def split: option.splits if_splits)
  with cache_put_inv [where fail = fail and s = s] assms(2,3) show ?thesis by auto
qed

lemma img_handler_inv:
  assumes "img_handler sha uo ul hosts tr nw fail disk now q s = (r, s')" and "cache_inv s" and "\<not> fail ReadOldSize"
  shows "cache_inv s'"
proof -
  let ?url = "query_get ''url'' q" and ?inline = "query_get ''disposition'' q = ''inline''"
  obtain hit s1 where h: "serve_hit fail now (cache_key sha ?url) ?inline s = (hit, s1)" by fastforce
  then have s1: "cache_inv s1" by (rule serve_hit_inv [OF _ assms(2)])
  show ?thesis
  proof (cases "img_check uo ul hosts ?url")
    case (Inl e)
    with assms(1,2) show ?thesis by (simp add: img_handler_def img_fetch_def)
  next
    case (Inr host)
    show ?thesis
    proof (cases hit)
      case None
      with assms(1) Inr h have "fetch_upstream uo tr nw fail disk now ?url (cache_key sha ?url) ?inline s1 = (r, s')"
        by (simp add: img_handler_def img_fetch_def Let_def)
      then show ?thesis using s1 assms(3) by (rule fetch_upstream_inv)
    next
      case (Some p)
      with assms(1) Inr h s1 show ?thesis by (simp add: img_handler_def img_fetch_def Let_def)
    qed
  qed
qed

lemma push_handler_inv:
  assumes "push_handler dec unm ul fail c nonces r acc body now s = (res, s')" and "sync_inv s" and "is_int64 acc"
    and "\<forall>d. room (cursors s) acc d max_push_items now"
  shows "sync_inv s'"
proof -
  consider "s' = s" | req where "push unm ul fail c nonces r acc req now s = (res, s')"
    using assms(1) by (auto simp: push_handler_def split: sum.splits option.splits)
  then show ?thesis
  proof cases
    case (2 req)
    show ?thesis
    proof (cases "length (pr_items req) > max_push_items")
      case True
      then have "s' = s" using 2 by (auto simp: push_def push_check_def split: if_splits)
      with assms(2) show ?thesis by simp
    next
      case False
      then have "room (cursors s) acc (pr_domain req) (length (pr_items req)) now"
        using assms(4) by (meson not_less room_mono)
      with push_inv [OF assms(2,3) _ 2] show ?thesis by simp
    qed
  qed (use assms(2) in simp)
qed

text \<open>
  What the invariants need of a moment: the account ids are 64-bit integers, the numbers of the tokens and
  the clock leave room, and the old size of a cache entry can be read.
\<close>

definition sane ::
  "('r, 'l, 'ip, 'net) platform \<Rightarrow> moment \<Rightarrow> request \<Rightarrow> ('r, 'l, 'net) app \<Rightarrow> bool" where
  "sane x mo req a \<longleftrightarrow>
     \<not> mo_cache mo ReadOldSize \<and>
     (\<forall>acc. token_account x mo req a = Inr acc \<longrightarrow>
        is_int64 acc \<and> (\<forall>d. room (cursors (ad_sync (ap_state a))) acc d max_push_items (mo_ms mo)))"

lemma serve_token_inv:
  assumes "serve_token x k mo h rid ep ws req acc a = ((r, started), a')" and "state_inv pf (ap_state a)"
    and "\<not> mo_cache mo ReadOldSize" and "is_int64 acc"
    and "\<forall>d. room (cursors (ad_sync (ap_state a))) acc d max_push_items (mo_ms mo)"
  shows "state_inv pf (ap_state a') \<and>
     (\<not> started \<longrightarrow> rq_inflight (lp_recover (live a')) = rq_inflight (lp_recover (live a))) \<and>
     (started \<longrightarrow> \<not> job_busy (lp_recover (live a)) (job_key acc (concat ws)) \<and>
        rq_inflight (lp_recover (live a')) = job_key acc (concat ws) # rq_inflight (lp_recover (live a)))"
  using assms(1)
proof (cases rule: serve_token_cases)
  case same
  with assms(2) show ?thesis by simp
next
  case (cache q c)
  have "cache_inv (lp_cache (live a))" using assms(2) by (simp add: state_inv_def live_def)
  with img_handler_inv [OF cache(1)] assms(3) have "cache_inv c" by simp
  with cache assms(2) show ?thesis by (simp add: state_inv_def all_recover_def live_def)
next
  case (push res sy)
  have "sync_inv sy" by (rule push_handler_inv [OF push(1)]) (use assms in \<open>auto simp: state_inv_def\<close>)
  with push assms(2) show ?thesis by (simp add: state_inv_def all_recover_def live_def)
next
  case (query res rq)
  note eff = recover_query_effect [OF query(1)]
  have "tbl_unique row_key (rq_rows rq)"
    using eff(1) assms(2) by (simp add: edits_row_def state_inv_def all_recover_def live_def)
  with eff query(2) assms(2) show ?thesis by (simp add: state_inv_def all_recover_def live_def)
qed

section \<open>Recovery jobs\<close>

lemma store_image_inv:
  assumes "cache_inv (ft_cache s)" and "\<And>n. \<not> se_fail env n ReadOldSize"
  shows "cache_inv (ft_cache (snd (store_image env key p s)))"
proof -
  have put: "cache_inv c" if "cache_put (se_fail env t) disk now key ct ps (ft_cache s) = (r, c)" for t disk now ct ps r c
    using cache_put_inv [of "ft_cache s" "se_fail env t" disk now key ct ps] assms that by simp
  show ?thesis
    using assms(1) put by (auto simp: store_image_def Let_def split: option.split sum.split prod.split)
qed

lemma fetch_image_inv:
  assumes "cache_inv (ft_cache s)" and "\<And>n. \<not> se_fail env n ReadOldSize"
  shows "cache_inv (ft_cache (snd (fetch_image env b u s)))"
proof (rule fetch_image_cases [of env s u b])
  fix body m c
  assume "cache_get (se_fail env (ft_clock s)) (se_now env (ft_clock s)) (cache_key (se_sha env) u) (ft_cache s) = (Inr (Some (body, m)), c)"
    "fetch_image env b u s = (Inr (decode_dims env body), tick (s\<lparr>ft_cache := c\<rparr>))"
  then show ?thesis using cache_get_inv [OF assms(1)] by (metis snd_conv tick_simps(1) fetch_state.select_convs(1) fetch_state.simps(9) fetch_state.surjective fetch_state.update_convs(1))
next
  fix r c
  assume g: "cache_get (se_fail env (ft_clock s)) (se_now env (ft_clock s)) (cache_key (se_sha env) u) (ft_cache s) = (r, c)"
    and f: "fetch_image env b u s = download_image env b (cache_key (se_sha env) u) u (tick (s\<lparr>ft_cache := c\<rparr>))"
  let ?s1 = "tick (s\<lparr>ft_cache := c\<rparr>)"
  have "cache_inv c" using cache_get_inv [OF assms(1)] g by (metis snd_conv)
  then have s1: "cache_inv (ft_cache ?s1)" by simp
  obtain d s2 where d: "source_do env b ''GET'' u [] ?s1 = (d, s2)" by fastforce
  with s1 source_do_cache [of env b "''GET''" u "[]" ?s1] have s2: "cache_inv (ft_cache s2)" by simp
  show ?thesis
    unfolding f download_image_def d using s2 store_image_inv [OF s2 assms(2)] by (cases d) simp_all
qed

lemma mirror_pages_inv:
  assumes "\<And>n. \<not> se_fail env n ReadOldSize"
  shows "cache_inv (ft_cache s) \<Longrightarrow> cache_inv (ft_cache (snd (mirror_pages env b host pid n miss pages s)))"
  using assms
proof (induction env b host pid n miss pages s rule: mirror_pages.induct)
  case (1 env b host pid n miss pages s)
  obtain r s1 where f: "fetch_image env b (mirror_url host pid n) s = (r, s1)" by fastforce
  with fetch_image_inv [OF 1(3), of env b "mirror_url host pid n"] 1(4) have s1: "cache_inv (ft_cache s1)" by simp
  show ?case
  proof (cases "n < max_pages \<and> miss < 2")
    case False
    then have "mirror_pages env b host pid n miss pages s = (Inr pages, s)"
      by (subst mirror_pages.simps) (simp only: if_False)
    with 1(3) show ?thesis by simp
  next
    case True
    show ?thesis
    proof (cases r)
      case (Inl e)
      show ?thesis
        using 1(1) [OF True f [symmetric] Inl _ s1 1(4)] True f Inl s1
        by (subst mirror_pages.simps) simp
    next
      case (Inr wh)
      obtain w h where wh: "wh = (w, h)" by (cases wh)
      then show ?thesis
        using 1(2) [OF True f [symmetric] Inr wh [symmetric] s1 1(4)] True f Inr
        by (subst mirror_pages.simps) simp
    qed
  qed
qed

lemma snapshot_pages_inv:
  assumes "\<And>n. \<not> se_fail env n ReadOldSize"
  shows "cache_inv (ft_cache s) \<Longrightarrow> cache_inv (ft_cache (snd (snapshot_pages env b snap i us s)))"
proof (induction us arbitrary: i s)
  case Nil
  then show ?case by simp
next
  case (Cons u us)
  obtain alive s1 where p: "probe_alive env b u s = (alive, s1)" by fastforce
  with Cons.prems probe_alive_cache [of env b u s] have s1: "cache_inv (ft_cache s1)" by simp
  obtain r s2 where f: "fetch_image env b u s1 = (r, s2)" by fastforce
  with fetch_image_inv [OF s1 assms, of b u] have s2: "cache_inv (ft_cache s2)" by simp
  show ?case
    using Cons.IH [OF s1] Cons.IH [OF s2] p f by (cases alive; cases r) (simp_all add: prod.case_eq_if)
qed

lemma source_fetch_inv:
  assumes "\<And>n. \<not> se_fail env n ReadOldSize" and "cache_inv (ft_cache s)"
  shows "cache_inv (ft_cache (snd (source_fetch env src pid snap s)))"
proof (cases src)
  case (SnapshotSource b)
  have "cache_inv (ft_cache (snd (snapshot_fetch env b snap s)))"
    using snapshot_pages_inv [OF assms(1), of s b] assms(2)
    by (cases snap) (simp_all add: snapshot_fetch_def prod.case_eq_if)
  with SnapshotSource show ?thesis by simp
next
  case (Mirror b name host)
  obtain r s1 where f: "fetch_image env b (mirror_url host pid 0) s = (r, s1)" by fastforce
  with fetch_image_inv [OF assms(2,1), of b "mirror_url host pid 0"] have s1: "cache_inv (ft_cache s1)" by simp
  have "cache_inv (ft_cache (snd (mirror_fetch env b host pid s)))"
    using mirror_pages_inv [OF assms(1) s1] f s1 by (cases r) (auto simp: mirror_fetch_def)
  with Mirror show ?thesis by simp
qed

lemma try_sources_inv:
  assumes "\<And>n. \<not> se_fail env n ReadOldSize"
  shows "cache_inv (ft_cache s) \<Longrightarrow> cache_inv (ft_cache (snd (try_sources env srcs pid snap s)))"
proof (induction srcs arbitrary: s)
  case Nil
  then show ?case by simp
next
  case (Cons src srcs)
  obtain r s1 where f: "source_fetch env src pid snap s = (r, s1)" by fastforce
  with source_fetch_inv [OF assms Cons.prems, of src pid snap] have s1: "cache_inv (ft_cache s1)" by simp
  with Cons.IH [OF s1] f show ?case by (cases r) simp_all
qed

lemma work_effect:
  assumes "work fail c enc nonces now env srcs es acc pid (rq, f) = (rq', f')"
  shows "edits_row acc pid rq rq'" and "rq_inflight rq' = removeAll (job_key acc pid) (rq_inflight rq)"
    and "(\<And>n. \<not> se_fail env n ReadOldSize) \<Longrightarrow> cache_inv (ft_cache f) \<Longrightarrow> cache_inv (ft_cache f')"
proof -
  let ?snap = "load_snapshot fail c enc es acc pid"
  obtain found f1 where t: "try_sources env srcs pid ?snap f = (found, f1)" by fastforce
  with assms have *: "f' = f1" "rq' = job_finish fail c enc nonces now acc pid ?snap found rq"
    by (simp_all add: work_def Let_def)
  then show "edits_row acc pid rq rq'" "rq_inflight rq' = removeAll (job_key acc pid) (rq_inflight rq)"
    by (simp_all add: job_finish_edits)
  assume "\<And>n. \<not> se_fail env n ReadOldSize" "cache_inv (ft_cache f)"
  with try_sources_inv [of env f srcs pid ?snap] t * show "cache_inv (ft_cache f')" by simp
qed

end
