(* ===== verification/AppProps.thy ===== *)
theory AppProps
  imports AppInv StartupProps
begin

text \<open>The properties of the running server: its guards, its invariants and that it answers.\<close>

section \<open>The running server\<close>

text \<open>What the database guarantees of the stored data: its keys are unique, and the numbers of the entries fit the tokens.\<close>

definition stored_ok :: "stored \<Rightarrow> bool" where
  "stored_ok d \<longleftrightarrow>
     auth_inv (new_auth (so_accounts d) (so_devices d) []) \<and> tbl_unique cm_key (so_meta d) \<and>
     (\<exists>cur. sync_inv \<lparr>entries = so_entries d, domains = so_domains d, cursors = cur\<rparr>) \<and>
     tbl_unique row_key (so_rows d) \<and> tbl_unique sg_key (so_settings d)"

text \<open>
  The server with its running recovery jobs, one thing after the other: a request is served, a job runs to its end, or the
  goroutine that evicts runs, each as a whole. In the server they run at the same time; what that changes is in the step
  relations of the components (\<open>op_step\<close>, \<open>img_step\<close>, \<open>sync_step\<close> and the others), where some overlaps break the total
  of the cache. \<open>sane\<close> and \<open>ReadOldSize\<close>: the numbers of accounts and tokens fit 64 bits, and the size of a
  cache entry that is replaced can be read.
\<close>

inductive app_step ::
  "('r, 'l, 'ip, 'net) platform \<Rightarrow> codecs \<Rightarrow> ('r, 'l, 'net) app \<times> (int \<times> string) list
     \<Rightarrow> ('r, 'l, 'net) app \<times> (int \<times> string) list \<Rightarrow> bool"
  for x :: "('r, 'l, 'ip, 'net) platform" and k :: codecs where
  serve: "handle x k mo req a = Some ((ans, job), a') \<Longrightarrow> sane x mo req a \<Longrightarrow>
    app_step x k (a, js) (a', (case job of None \<Rightarrow> js | Some j \<Rightarrow> j # js))"
| recover: "List.member js (acc, pid) \<Longrightarrow> \<forall>n. \<not> se_fail env n ReadOldSize \<Longrightarrow> ft_cache f = lp_cache (live a) \<Longrightarrow>
    work fail (x_codec x) (ap_enc a) nonces now env (ap_sources a) (entries (ad_sync (ap_state a))) acc pid
      (lp_recover (live a), f) = (rq, f') \<Longrightarrow>
    app_step x k (a, js) (put_cache (ft_cache f') (put_recover rq a), remove1 (acc, pid) js)"
| evicted: "evict fail 0 (lp_cache (live a)) = Some c \<Longrightarrow> app_step x k (a, js) (put_cache c a, js)"

inductive app_reach ::
  "('r, 'l, 'ip, 'net) platform \<Rightarrow> codecs \<Rightarrow> ('r, 'l, 'net) app \<times> (int \<times> string) list \<Rightarrow> bool"
  for x :: "('r, 'l, 'ip, 'net) platform" and k :: codecs where
  app_start: "new_app x st env now cfg d = Some (Inr a) \<Longrightarrow> stored_ok d \<Longrightarrow> app_reach x k (a, [])"
| app_next: "app_reach x k y \<Longrightarrow> app_step x k y y' \<Longrightarrow> app_reach x k y'"

inductive_cases app_stepE: "app_step x k y y'"

text \<open>The jobs in flight are the ones that run.\<close>

definition jobs_match :: "recover_state \<Rightarrow> (int \<times> string) list \<Rightarrow> bool" where
  "jobs_match rq js \<longleftrightarrow> distinct js \<and> (\<forall>k. List.member (rq_inflight rq) k \<longleftrightarrow> k \<in> (\<lambda>(a, p). job_key a p) ` set js)"

definition app_inv :: "parse_float \<Rightarrow> ('r, 'l, 'net) app \<times> (int \<times> string) list \<Rightarrow> bool" where
  "app_inv pf y \<longleftrightarrow> state_inv pf (ap_state (fst y)) \<and> jobs_match (lp_recover (live (fst y))) (snd y)"

lemma ensure_static_inv: "ensure_static_account sha fail now s = (r, s') \<Longrightarrow> auth_inv s \<Longrightarrow> auth_inv s'"
proof -
  assume e: "ensure_static_account sha fail now s = (r, s')" and inv: "auth_inv s"
  have "s' = s \<or> (\<exists>i as. insert_account (hash_token sha static_plaintext) now (accounts s) = Some (i, as) \<and> s' = s\<lparr>accounts := as\<rparr>)"
    using e by (auto simp: ensure_static_account_def Let_def split: if_splits option.splits)
  then show ?thesis
  proof (elim disjE exE conjE)
    fix i as
    assume ins: "insert_account (hash_token sha static_plaintext) now (accounts s) = Some (i, as)" and s': "s' = s\<lparr>accounts := as\<rparr>"
    have "next_id (map ac_id (accounts s)) \<notin> ac_id ` set (accounts s)" using next_id_fresh [of "map ac_id (accounts s)"] by simp
    with insert_account_SomeD [OF ins] inv show ?thesis
      by (auto simp: s' auth_inv_def tbl_unique_snoc tbl_find_None_iff)
  qed (use inv in simp)
qed

lemma new_middleware_inv: "new_middleware sha fail now toks s = (r, s') \<Longrightarrow> auth_inv s \<Longrightarrow> auth_inv s'"
  using ensure_static_inv [of sha fail now s]
  by (cases "ensure_static_account sha fail now s") (auto simp: new_middleware_def split: if_splits sum.splits)

lemma from_env_none: "from_env pf (\<lambda>_. None)"
  unfolding from_env_def by (rule exI [of _ "\<lambda>_. None"]) (simp add: env_snapshot_def fun_eq_iff split: option.split)

lemma start_inv:
  assumes "new_app x st env now cfg d = Some (Inr a)" and "stored_ok d"
  shows "app_inv (x_float x) (a, [])"
proof (rule new_app_parts [OF assms(1)])
  fix enc mw au c sy rq srcs logged adm s
  assume mw: "new_middleware (x_sha x) (st_auth st) now (cf_static_tokens cfg)
       (new_auth (so_accounts d) (so_devices d) (cf_invite_codes cfg)) = (Inr mw, au)"
    and c: "open_cache (st_cache st) (st_evict st) (cache_config_of cfg) (so_meta d) (so_files d) = Some (Inr c)"
    and sy: "new_service (st_tokens_ok st) (so_entries d) (so_domains d) = Inr sy"
    and rq: "new_recover (x_ul x) (st_mkdir_ok st) (recover_config_of cfg) (so_rows d) = Inr (rq, srcs, logged)"
    and adm: "admin_part x st env now (cf_admin_token cfg)
       \<lparr>ad_settings = so_settings d, ad_env = (\<lambda>_. None),
        ad_live = \<lparr>lp_cache = c, lp_recover = rq, lp_write = new_limiter (x_rate x (cf_rate_write cfg)) 10,
                   lp_img = new_limiter (x_rate x (cf_rate_img cfg)) 30, lp_auth = au\<rparr>,
        ad_sync = sy\<rparr> = Some (adm, s)"
    and s: "ap_state a = s"
  let ?p = "\<lparr>lp_cache = c, lp_recover = rq, lp_write = new_limiter (x_rate x (cf_rate_write cfg)) 10,
    lp_img = new_limiter (x_rate x (cf_rate_img cfg)) 30, lp_auth = au\<rparr>"
  have "auth_inv (new_auth (so_accounts d) (so_devices d) (cf_invite_codes cfg))"
    using assms(2) by (simp add: stored_ok_def auth_inv_def new_auth_def)
  then have au: "auth_inv au" by (rule new_middleware_inv [OF mw])
  have c: "cache_inv c" using open_inv [OF c] assms(2) by (simp add: stored_ok_def)
  obtain cur where "sync_inv \<lparr>entries = so_entries d, domains = so_domains d, cursors = cur\<rparr>"
    using assms(2) by (auto simp: stored_ok_def)
  with new_service_inv [OF this] sy have sy: "sync_inv sy" by simp
  have rq: "rq_rows rq = so_rows d" "rq_inflight rq = []"
    using rq by (auto simp: new_recover_def Let_def split: prod.splits if_splits)
  consider "s = \<lparr>ad_settings = so_settings d, ad_env = (\<lambda>_. None), ad_live = ?p, ad_sync = sy\<rparr>"
    | fail p' where "apply_all (x_float x) (x_ops x) (\<lambda>n. x_rate x (float_of_int n)) (1000000 * now) fail
          (env_snapshot (x_float x) env) (so_settings d) ?p = Some p'"
        "s = \<lparr>ad_settings = so_settings d, ad_env = env_snapshot (x_float x) env, ad_live = p', ad_sync = sy\<rparr>"
    using adm by (auto simp: admin_part_def new_admin_def Let_def split: if_splits)
  then have "state_inv (x_float x) s \<and> rq_inflight (lp_recover (ad_live s)) = []"
  proof cases
    case 1
    with au c sy rq assms(2) from_env_none show ?thesis by (simp add: state_inv_def all_recover_def stored_ok_def)
  next
    case (2 fail p')
    have "from_env (x_float x) (env_snapshot (x_float x) env)" by (auto simp: from_env_def)
    with 2 apply_all_inv [OF 2(1)] au c sy rq assms(2) show ?thesis by (simp add: state_inv_def all_recover_def stored_ok_def)
  qed
  then show ?thesis by (simp add: app_inv_def jobs_match_def s live_def)
qed

section \<open>Every step keeps the invariant\<close>

lemma jobs_match_same: "jobs_match rq js \<Longrightarrow> rq_inflight rq' = rq_inflight rq \<Longrightarrow> jobs_match rq' js"
  by (simp add: jobs_match_def)

lemma jobs_match_busy: "jobs_match rq js \<Longrightarrow> job_busy rq (job_key a p) \<longleftrightarrow> (a, p) \<in> set js"
  by (force simp: jobs_match_def job_busy_def)

lemma jobs_match_add:
  assumes "jobs_match rq js" and "\<not> job_busy rq (job_key acc pid)"
    and "rq_inflight rq' = job_key acc pid # rq_inflight rq"
  shows "jobs_match rq' ((acc, pid) # js)"
  using assms jobs_match_busy [OF assms(1), of acc pid] by (auto simp: jobs_match_def)

lemma jobs_match_remove:
  assumes "jobs_match rq js" and "rq_inflight rq' = removeAll (job_key acc pid) (rq_inflight rq)"
  shows "jobs_match rq' (remove1 (acc, pid) js)"
proof -
  have "set (remove1 (acc, pid) js) = set js - {(acc, pid)}" "distinct (remove1 (acc, pid) js)"
    using assms(1) by (simp_all add: jobs_match_def)
  moreover have "inj (\<lambda>(a, p). job_key a p)" by (auto intro: injI)
  then have "(\<lambda>(a, p). job_key a p) ` (set js - {(acc, pid)}) = (\<lambda>(a, p). job_key a p) ` set js - {job_key acc pid}"
    by (simp add: image_set_diff)
  ultimately show ?thesis using assms by (auto simp only: jobs_match_def List.member_iff set_removeAll)
qed

lemma serve_keeps_inv:
  assumes "handle x k mo req a = Some ((ans, job), a')" and "sane x mo req a" and "app_inv (x_float x) (a, js)"
  shows "app_inv (x_float x) (a', case job of None \<Rightarrow> js | Some j \<Rightarrow> j # js)"
proof -
  have inv: "state_inv (x_float x) (ap_state a)" and m: "jobs_match (lp_recover (live a)) js"
    using assms(3) by (simp_all add: app_inv_def)
  have data: "state_inv (x_float x) (ap_state b) \<and> lp_recover (live b) = lp_recover (live a)"
    if "same_data a b" for b using same_data_inv [OF that inv] that by (simp add: same_data_def)
  from assms(1) show ?thesis
  proof (cases rule: handle_cases)
    case quiet
    with data [OF quiet(1)] m show ?thesis by (simp add: app_inv_def)
  next
    case (auth ep ws b au)
    have "auth_inv au" using auth(6) inv by (simp add: state_inv_def live_def)
    with conjunct1 [OF data [OF auth(3)]] auth(4) have "state_inv (x_float x) (ap_state a')"
      by (simp add: state_inv_def all_recover_def live_def)
    moreover have "lp_recover (live a') = lp_recover (live a)" using data [OF auth(3)] auth(4) by simp
    ultimately show ?thesis using m auth(5) by (simp add: app_inv_def)
  next
    case (token h rid ep ws acc b started)
    have b: "cursors (ad_sync (ap_state b)) = cursors (ad_sync (ap_state a))" using token(4) by (simp add: same_data_def)
    have s: "\<not> mo_cache mo ReadOldSize" "is_int64 acc" "\<forall>d. room (cursors (ad_sync (ap_state b))) acc d max_push_items (mo_ms mo)"
      using assms(2) token(3) by (simp_all add: sane_def b)
    note kept = serve_token_inv [OF token(5) conjunct1 [OF data [OF token(4)]] s]
    from kept data [OF token(4)] m token(6) show ?thesis
      by (cases started) (simp_all add: app_inv_def jobs_match_add jobs_match_same)
  next
    case (admin h rid ep ws tok l b)
    note kept = serve_admin_inv [OF admin(6) conjunct1 [OF data [OF admin(5)]]]
    from kept data [OF admin(5)] have "rq_inflight (lp_recover (live a')) = rq_inflight (lp_recover (live a))" by simp
    from jobs_match_same [OF m this] kept admin(7) show ?thesis by (simp add: app_inv_def)
  qed
qed

lemma app_step_inv: "app_step x k y y' \<Longrightarrow> app_inv (x_float x) y \<Longrightarrow> app_inv (x_float x) y'"
proof (induction rule: app_step.induct)
  case (serve mo req a ans job a' js)
  then show ?case by (rule serve_keeps_inv)
next
  case (recover js acc pid env f a fail nonces now rq f')
  note eff = work_effect [OF recover.hyps(4)]
  have "cache_inv (lp_cache (live a))" and m: "jobs_match (lp_recover (live a)) js"
    using recover.prems by (simp_all add: app_inv_def state_inv_def live_def)
  with eff(3) recover.hyps(2,3) have c: "cache_inv (ft_cache f')" by simp
  have r: "tbl_unique row_key (rq_rows rq)"
    using eff(1) recover.prems by (simp add: edits_row_def app_inv_def state_inv_def all_recover_def live_def)
  from c r jobs_match_remove [OF m eff(2)] recover.prems show ?case
    by (simp add: app_inv_def state_inv_def all_recover_def live_def)
next
  case (evicted fail a c js)
  then have "cache_inv c" by (intro evict_inv [OF evicted.hyps]) (simp add: app_inv_def state_inv_def live_def)
  with evicted.prems show ?case by (simp add: app_inv_def state_inv_def all_recover_def live_def)
qed

lemma app_reach_inv: "app_reach x k y \<Longrightarrow> app_inv (x_float x) y"
  by (induction rule: app_reach.induct) (auto intro: start_inv app_step_inv)

section \<open>Credentials\<close>

lemma mux_method: "mux on meth path = To ep ws \<Longrightarrow> meth \<noteq> ''OPTIONS''"
  by (auto simp: mux_def route_tables match_method_def
      split: if_splits option.splits)

lemma handle_routed:
  assumes "mux (ap_admin a \<noteq> None) (hr_method req) (hr_path req) = To ep ws"
  shows "\<exists>h rid. handle x k mo req a = dispatch x k mo h rid ep ws req a"
  using mux_method [OF assms] assms by (auto simp: handle_def cors_def Let_def)

lemma handle_reads:
  assumes "mux (ap_admin a \<noteq> None) (hr_method req) (hr_path req) = To ep ws" and "ep \<in> set token_endpoints"
    and "token_account x mo req a = Inr acc" and "own_agree acc sy rq a" and "\<not> ap_shared a"
  shows "map_option fst (handle x k mo req (put_others sy rq a)) = map_option fst (handle x k mo req a)"
  using assms(1) mux_method [OF assms(1)] dispatch_reads [OF assms(2-5)]
  by (simp add: handle_def cors_def Let_def)

lemma dispatch_no_token:
  assumes "ep \<in> set token_endpoints" and "token_account x mo req a = Inl e"
  shows "dispatch x k mo h rid ep ws req a = Some ((Refused (write_error h rid e), None), a)"
  using assms by (auto simp: dispatch_def token_endpoints_def token_guard_refuses)

lemma dispatch_no_admin:
  assumes "ep \<in> set admin_endpoints" and "ap_admin a = Some (tok, l)"
    and "\<not> admin_authorized tok (hdr_get ''Authorization'' (hr_headers req))"
  shows "\<exists>r l'. dispatch x k mo h rid ep ws req a = Some ((Refused r, None), a\<lparr>ap_admin := Some (tok, l')\<rparr>)"
proof -
  obtain g l' where g: "limit_request (x_ops x) (x_retry x) h rid (request_ip x req a) (mo_ns mo) l = (g, l')" by fastforce
  with assms show ?thesis
    by (cases g) (auto simp: dispatch_def admin_endpoints_def admin_guard_def)
qed

definition admin_asks :: "request \<Rightarrow> ('r, 'l, 'net) app \<Rightarrow> bool" where
  "admin_asks req a \<longleftrightarrow>
     (\<exists>tok l. ap_admin a = Some (tok, l) \<and> admin_authorized tok (hdr_get ''Authorization'' (hr_headers req)))"

text \<open>
  C30: Safety. What a request can do is decided by its route and its credentials. Behind a token route, a
  request without a valid token is answered with the error of the token and changes nothing. With one
  it changes data of the account of that token only, and starts recovery jobs for that account only; and without
  \<^verbatim>\<open>RECOVER_SHARED\<close> it reads only that: its answer is the same whatever is stored of the other accounts (the settings, the
  image cache and the limiters are common to all).
  Without the token of the administrator the routes under \<^verbatim>\<open>/admin\<close> refuse and change no data. The two
  routes of registration change the accounts and sessions only, and everything else changes no data.
\<close>

theorem requests_need_credentials:
  assumes "handle x k mo req a = Some ((ans, job), a')"
  shows "case mux (ap_admin a \<noteq> None) (hr_method req) (hr_path req) of
      To ep ws \<Rightarrow>
        if ep \<in> set token_endpoints then
          (case token_account x mo req a of
             Inl e \<Rightarrow> (\<exists>h rid. ans = Refused (write_error h rid e)) \<and> a' = a \<and> job = None
           | Inr acc \<Rightarrow> only_account acc a a' \<and> (job = None \<or> job = Some (acc, concat ws)) \<and>
               (\<not> ap_shared a \<longrightarrow> (\<forall>sy rq. own_agree acc sy rq a \<longrightarrow>
                  map_option fst (handle x k mo req (put_others sy rq a)) = Some (ans, job))))
        else if ep \<in> set admin_endpoints then
          job = None \<and> (admin_asks req a \<or> (\<exists>r. ans = Refused r) \<and> same_data a a')
        else if ep = AuthRegister \<or> ep = AuthRefresh then
          job = None \<and> (\<exists>au. same_data (put_auth au a) a')
        else job = None \<and> same_data a a'
    | _ \<Rightarrow> job = None \<and> a' = a"
proof (cases "mux (ap_admin a \<noteq> None) (hr_method req) (hr_path req)")
  case (To ep ws)
  from handle_routed [OF To] obtain h rid where d: "dispatch x k mo h rid ep ws req a = Some ((ans, job), a')"
    using assms by metis
  have parts: "set token_endpoints \<inter> set admin_endpoints = {}"
    "{Healthz, AuthRegister, AuthRefresh, StaticFile} \<inter> (set token_endpoints \<union> set admin_endpoints) = {}"
    by (auto simp: token_endpoints_def admin_endpoints_def)
  from mux_endpoints [OF To] consider (rest) "ep = Healthz \<or> ep = StaticFile" | (auth) "ep = AuthRegister \<or> ep = AuthRefresh"
    | (token) "ep \<in> set token_endpoints" | (admin) "ep \<in> set admin_endpoints" "ap_admin a \<noteq> None" by auto
  then show ?thesis
  proof cases
    case rest
    with d have "a' = a" "job = None" by (auto simp: dispatch_def)
    with rest To parts show ?thesis by auto
  next
    case auth
    from dispatch_auth [OF d auth] have "job = None" "\<exists>au. same_data (put_auth au a) a'"
      by (auto simp: same_data_def)
    with auth To parts show ?thesis by auto
  next
    case token
    show ?thesis
    proof (cases "token_account x mo req a")
      case (Inl e)
      with dispatch_no_token [OF token Inl, of k h rid ws] d token To show ?thesis by auto
    next
      case (Inr acc)
      from dispatch_token [OF d token] Inr consider "same_data a a'" "job = None"
        | b started where "same_data a b" "serve_token x k mo h rid ep ws req acc b = ((ans, started), a')"
            "job = (if started then Some (acc, concat ws) else None)" by auto
      then have "only_account acc a a' \<and> (job = None \<or> job = Some (acc, concat ws))"
        by cases (simp_all add: same_then_only serve_token_effect, simp add: same_data_def only_account_def)
      moreover have "map_option fst (handle x k mo req (put_others sy rq a)) = Some (ans, job)"
        if "\<not> ap_shared a" "own_agree acc sy rq a" for sy rq
        using handle_reads [OF To token Inr that(2,1), of k] assms by simp
      ultimately show ?thesis using token To Inr by simp
    qed
  next
    case admin
    then obtain tok l where on: "ap_admin a = Some (tok, l)" by auto
    have "job = None" using dispatch_admin [OF d admin(1)] by simp
    moreover have "admin_asks req a \<or> (\<exists>r. ans = Refused r) \<and> same_data a a'"
    proof (cases "admin_asks req a")
      case False
      with on have "\<not> admin_authorized tok (hdr_get ''Authorization'' (hr_headers req))" by (auto simp: admin_asks_def)
      from dispatch_no_admin [OF admin(1) on this, of x k mo h rid ws] d show ?thesis by (auto simp: same_data_def live_def)
    qed simp
    moreover have "ep \<notin> set token_endpoints" using admin(1) parts by auto
    ultimately show ?thesis using To admin(1) by simp
  qed
qed (use assms in \<open>auto simp: handle_def Let_def split: sum.splits\<close>)

section \<open>A request without a token\<close>

definition ex_codecs :: codecs where
  "ex_codecs = \<lparr>k_register = (\<lambda>_. None), k_refresh = (\<lambda>_. None), k_relay = (\<lambda>_. None), k_push = (\<lambda>_. None),
     k_patch = (\<lambda>_. None), k_unmarshal = (\<lambda>_. None)\<rparr>"

definition ex_moment :: moment where
  "ex_moment = \<lparr>mo_ms = 1000, mo_ns = 1000000000, mo_fresh = ''id'', mo_auth = (\<lambda>_. False), mo_keys = (None, None, None),
     mo_send = (\<lambda>_ _. None), mo_img = (\<lambda>_. None), mo_hangs = False, mo_net = \<lparr>nw_chunk = (\<lambda>b. [b]), nw_gone = None\<rparr>,
     mo_cache = (\<lambda>_. False), mo_disk = (\<lambda>_. None), mo_sql = (\<lambda>_. False), mo_nonces = (\<lambda>_. []), mo_rnd = (CHR ''a'', CHR ''b'', CHR ''c''),
     mo_pull_ok = True, mo_recover = (\<lambda>_. False), mo_admin = (\<lambda>_. False), mo_setting = (\<lambda>_. False),
     mo_stats = (\<lambda>_ _. False), mo_evict = (\<lambda>_ _. False)\<rparr>"

definition ex_http :: request where
  "ex_http = \<lparr>hr_method = ''GET'', hr_path = ''/sync/v1/pull'', hr_query = [], hr_headers = [], hr_body = [],
     hr_remote = [], hr_host = [], hr_tls = False\<rparr>"

lemma ex_route: "mux on (hr_method ex_http) (hr_path ex_http) = To SyncPull []"
proof -
  have "clean_path ''/sync/v1/pull'' = ''/sync/v1/pull''" "path_segments ''/sync/v1/pull'' = [''sync'', ''v1'', ''pull'']"
    by code_simp+
  then show ?thesis by (simp add: mux_def ex_http_def route_tables match_method_def)
qed

lemma ex_no_token: "token_account x mo ex_http a = Inl (unauthorized ''missing bearer token'')"
  by (simp add: token_account_def authenticate_def bearer_token_def ex_http_def hdr_get_def)

lemma ex_handled: "\<exists>ans job a'. handle x k mo ex_http a = Some ((ans, job), a')"
proof -
  obtain h rid where "handle x k mo ex_http a = dispatch x k mo h rid SyncPull [] ex_http a"
    using handle_routed [OF ex_route] by blast
  then show ?thesis by (simp add: dispatch_no_token [OF _ ex_no_token] token_endpoints_def)
qed

lemma ex_running: "\<exists>a. app_reach ex_platform ex_codecs (a, [])"
proof -
  have "stored_ok ex_stored"
    by (auto simp: stored_ok_def ex_stored_def new_auth_def auth_inv_def sync_inv_def tbl_unique_def)
  with ex_starts show ?thesis by (blast intro: app_start)
qed

theorem requests_need_credentials_witness:
  "\<exists>a h rid. app_reach ex_platform ex_codecs (a, []) \<and> handle ex_platform ex_codecs ex_moment ex_http a =
     Some ((Refused (write_error h rid (unauthorized ''missing bearer token'')), None), a)"
proof -
  obtain a where a: "app_reach ex_platform ex_codecs (a, [])" using ex_running by blast
  obtain ans job a' where h: "handle ex_platform ex_codecs ex_moment ex_http a = Some ((ans, job), a')"
    using ex_handled by blast
  from requests_need_credentials [OF h, unfolded ex_route ex_no_token] have
    "\<exists>h rid. ans = Refused (write_error h rid (unauthorized ''missing bearer token''))" "a' = a" "job = None"
    by (simp_all add: token_endpoints_def)
  with a h show ?thesis by blast
qed

section \<open>Consistency\<close>

text \<open>
  C31: Invariant. In every state the server reaches from consistent stored data through any sequence of requests, recovery
  jobs and evictions, one after the other (not at the same time, see \<open>app_step\<close>), while numbers stay within 64 bits and
  the size of a replaced cache entry can be read: account keys, account ids and both kinds of token are unique and every session belongs to
  an account; the cache has one row per key and its total is their size (modulo 2^64); an entry of the
  synchronisation is unique by key and by number, and its number is covered by the cursor and by the stored
  domain row; recovery rows and settings are unique; and the recovery jobs in flight are those that run.
\<close>

theorem server_consistent:
  assumes "app_reach x k (a, js)"
  shows "(let au = lp_auth (live a); c = lp_cache (live a); sy = ad_sync (ap_state a); rq = lp_recover (live a)
     in distinct (map ac_id (accounts au)) \<and> distinct (map ac_key_hash (accounts au)) \<and>
        distinct (map dv_access (devices au)) \<and> distinct (map dv_refresh (devices au)) \<and>
        dv_account ` set (devices au) \<subseteq> ac_id ` set (accounts au) \<and>
        distinct (map cm_key (cs_meta c)) \<and> cs_total c = wrap64 (total_size (cs_meta c)) \<and>
        distinct (map entry_key (entries sy)) \<and> distinct (map seq_key (entries sy)) \<and>
        (\<forall>e \<in> set (entries sy). se_seq e \<le> token_level (cursors sy) (se_account e) (se_domain e) \<and>
           se_seq e \<le> durable_level (domains sy) (se_account e) (se_domain e)) \<and>
        distinct (map row_key (rq_rows rq)) \<and> distinct (map sg_key (ad_settings (ap_state a))) \<and>
        distinct js \<and> (\<forall>acc pid. job_busy rq (job_key acc pid) = ((acc, pid) \<in> set js)))"
proof -
  have inv: "state_inv (x_float x) (ap_state a)" and m: "jobs_match (lp_recover (live a)) js"
    using app_reach_inv [OF assms] by (simp_all add: app_inv_def)
  note parts = state_invD [OF inv, folded live_def]
  from m jobs_match_busy [OF m] parts show ?thesis
    by (simp add: Let_def auth_inv_def cache_inv_def sync_inv_def tbl_unique_def jobs_match_def live_def)
qed

theorem server_consistent_witness: "\<exists>a. app_reach ex_platform ex_codecs (a, []) \<and> \<not> job_busy (lp_recover (live a)) (job_key 1 ''7'')"
proof -
  obtain a where "app_reach ex_platform ex_codecs (a, [])" using ex_running by blast
  with server_consistent [OF this] show ?thesis by (auto simp: Let_def)
qed

section \<open>Answers\<close>

lemma patch_settings_total:
  assumes "state_inv pf s"
  shows "patch_settings decode pf ops rate_of sfail rfail now body s \<noteq> None"
proof -
  obtain getenv where "ad_env s = env_snapshot pf getenv" using assms by (auto simp: state_inv_def from_env_def)
  from apply_all_total [OF this] show ?thesis by (auto simp: patch_settings_def split: sum.split)
qed

lemma evict_cache_total: "state_inv pf s \<Longrightarrow> no_failure ef \<Longrightarrow> evict_cache fail ef s \<noteq> None"
  using evict_rounds [of "lp_cache (ad_live s)" ef 0]
  by (auto simp: state_inv_def evict_cache_def Let_def split: sum.split)

lemma serve_admin_total:
  assumes "state_inv (x_float x) (ap_state a)" and "no_failure (mo_evict mo)"
  shows "serve_admin x k mo h rid ep ws req a \<noteq> None"
  using patch_settings_total [OF assms(1)] evict_cache_total [OF assms]
  by (cases ep) (simp_all add: serve_admin_def Let_def split: prod.split)

text \<open>
  Safety. A running server answers every request, in every state it can reach, as long as files can be
  removed while the cache is emptied: no handler panics, and no loop goes on for ever. The one exception are image requests
  with a valid token that go upstream while the server asked, or the request they wait for, never answers.
\<close>

lemma guard_img_waits: "token_guard x mo h rid ep req a = (g, b) \<Longrightarrow> img_waits x mo ep' req b = img_waits x mo ep' req a"
  using token_guard_keeps(3) token_guard_data by (fastforce simp: img_waits_def same_data_def)

theorem requests_answered:
  assumes "app_reach x k (a, js)" and "no_failure (mo_evict mo)" and "handle x k mo req a = None"
  shows "mo_hangs mo \<and> (\<exists>acc ws. mux (ap_admin a \<noteq> None) (hr_method req) (hr_path req) = To ImgFetch ws \<and>
     token_account x mo req a = Inr acc \<and> img_waits x mo ImgFetch req a)"
proof -
  have inv: "state_inv (x_float x) (ap_state a)" using app_reach_inv [OF assms(1)] by (simp add: app_inv_def)
  obtain h rid ep ws where route: "mux (ap_admin a \<noteq> None) (hr_method req) (hr_path req) = To ep ws"
    and none: "dispatch x k mo h rid ep ws req a = None"
    using assms(3) by (auto simp: handle_def Let_def split: sum.splits route.splits)
  have "dispatch x k mo h rid ep ws req a \<noteq> None" if "ep \<notin> set token_endpoints"
    using that serve_admin_total [of x "a\<lparr>ap_admin := z\<rparr>" mo k h rid ep ws req for z] inv assms(2)
    by (simp add: dispatch_def token_endpoints_def split: prod.split sum.split option.split)
  with none have tok: "ep \<in> set token_endpoints" by blast
  obtain g b where g: "token_guard x mo h rid ep req a = (g, b)" by fastforce
  with none obtain acc where "g = Inr acc" "img_waits x mo ep req b"
    by (auto simp: dispatch_behind_token [OF tok] split: sum.splits if_splits prod.splits)
  with g guard_img_waits [OF g] token_guard_account [of x mo h rid ep req a acc b] route show ?thesis
    by (auto simp: img_waits_def)
qed

theorem requests_answered_witness:
  "\<exists>a ans job a'. app_reach ex_platform ex_codecs (a, []) \<and> handle ex_platform ex_codecs ex_moment ex_http a = Some ((ans, job), a')"
proof -
  obtain a where a: "app_reach ex_platform ex_codecs (a, [])" using ex_running by blast
  have "no_failure (mo_evict ex_moment)" "\<not> mo_hangs ex_moment" by (simp_all add: no_failure_def ex_moment_def)
  with requests_answered [OF a, of ex_moment ex_http] have "handle ex_platform ex_codecs ex_moment ex_http a \<noteq> None" by blast
  with a show ?thesis by fastforce
qed

end
