(* ===== verification/Reply.thy ===== *)
theory Reply
  imports App
begin

text \<open>
  How an answer is printed: the payloads of the handlers, the envelope that \<^verbatim>\<open>WriteJSON\<close> and \<^verbatim>\<open>WriteError\<close> put
  around them, the status and headers of every kind of answer, and the line of the access log. \<open>serve\<close> is a
  request from the outermost middleware to the bytes. The text of a JSON value is that of \<^verbatim>\<open>encoding/json\<close>, and
  what \<^verbatim>\<open>net/http\<close> adds by itself (\<^verbatim>\<open>Date\<close>, \<^verbatim>\<open>Location\<close>, \<^verbatim>\<open>Allow\<close>, \<^verbatim>\<open>Last-Modified\<close>, \<^verbatim>\<open>Accept-Ranges\<close>,
  \<^verbatim>\<open>Content-Range\<close> and the texts that go with them) is left out.
\<close>

section \<open>What printing depends on\<close>

text \<open>
  \<open>wi_num\<close>: what decoding a number into a \<^verbatim>\<open>float64\<close> and encoding it again makes of its literal (see \<open>reencode\<close>);
  \<open>wi_float\<close>: the literal of a \<^verbatim>\<open>float64\<close>; \<open>wi_raw\<close>: the value of a \<^verbatim>\<open>json.RawMessage\<close>, if it is JSON at all;
  \<open>wi_uptime\<close> and \<open>wi_dur\<close>: the seconds since the start and the milliseconds since the request came in. \<open>wi_content\<close>:
  what \<^verbatim>\<open>http.ServeContent\<close> makes of the conditions and ranges of the request for a file: the whole file, a stretch of
  it (from an offset, of a length), several stretches (with the type and the bytes of the message they are put in), not
  modified, a condition that does not hold, ranges that cannot be served (with the text that says so), or a file that
  cannot be sought.
\<close>

datatype content_outcome =
    WholeFile
  | OneRange nat nat
  | Ranges string string
  | NotModified
  | FailedCondition
  | BadRange string
  | Unseekable

record wire =
  wi_num :: "string \<Rightarrow> string option"
  wi_float :: "rat \<Rightarrow> string"
  wi_raw :: unmarshal
  wi_uptime :: int
  wi_dur :: int
  wi_content :: "string \<Rightarrow> content_outcome"

text \<open>An answer as it leaves the server.\<close>

datatype body = JsonBody json | Bytes string | NoBody

record reply =
  re_status :: nat
  re_headers :: headers
  re_body :: body

section \<open>Payloads\<close>

text \<open>\<open>None\<close> where \<^verbatim>\<open>json.Marshal\<close> reports an error: a raw message that is no JSON, a float that is not finite.\<close>

definition jnum :: "int \<Rightarrow> json" where
  "jnum i = JNum (format_int i)"

definition text_map :: "(string \<times> string) list \<Rightarrow> json" where
  "text_map kvs = JObj (map (\<lambda>(k, v). (k, JStr v)) kvs)"

definition relay_json :: "relay_response \<Rightarrow> json" where
  "relay_json r =
     JObj [(''status'', jnum (int (rp_status r))), (''headers'', text_map (rp_headers r)), (''bodyBase64'', JStr (rp_body r))]"

definition push_json :: "push_response \<Rightarrow> json" where
  "push_json r =
     JObj [(''accepted'', jnum (int (ps_accepted r))), (''syncToken'', JStr (ps_token r)), (''conflicts'', JArr [])]"

definition item_json :: "unmarshal \<Rightarrow> pull_item \<Rightarrow> json option" where
  "item_json raw it =
     map_option (\<lambda>d. JObj [(''key'', JStr (li_key it)), (''data'', d), (''updatedAt'', jnum (li_updated it)),
                           (''deleted'', JBool (li_deleted it))]) (raw (li_data it))"

definition pull_json :: "unmarshal \<Rightarrow> pull_response \<Rightarrow> json option" where
  "pull_json raw r =
     map_option (\<lambda>its. JObj [(''items'', JArr its), (''syncToken'', JStr (ls_token r)), (''hasMore'', JBool (ls_more r))])
       (those (map (item_json raw) (ls_items r)))"

definition page_json :: "page \<Rightarrow> json" where
  "page_json p =
     JObj [(''page'', jnum (pg_page p)), (''url'', JStr (pg_url p)), (''width'', jnum (pg_width p)),
           (''height'', jnum (pg_height p))]"

definition ready_json :: "page list \<Rightarrow> string \<Rightarrow> json \<Rightarrow> json" where
  "ready_json pages src meta =
     JObj [(''status'', JStr ''ready''), (''pages'', JArr (map page_json pages)), (''source'', JStr src), (''meta'', meta)]"

fun float_json :: "(rat \<Rightarrow> string) \<Rightarrow> float64 \<Rightarrow> json option" where
  "float_json ft (Fin r) = Some (JNum (ft r))"
| "float_json ft _ = None"

fun value_json :: "(rat \<Rightarrow> string) \<Rightarrow> setting_value \<Rightarrow> json option" where
  "value_json ft (SInt i) = Some (jnum i)"
| "value_json ft (SFloat f) = float_json ft f"
| "value_json ft (SText t) = Some (JStr t)"

fun source_text :: "setting_source \<Rightarrow> string" where
  "source_text FromDb = ''db''"
| "source_text FromEnv = ''env''"
| "source_text FromDefault = ''default''"

definition settings_json :: "(rat \<Rightarrow> string) \<Rightarrow> (string \<times> setting_value \<times> setting_source) list \<Rightarrow> json option" where
  "settings_json ft xs =
     map_option JObj (those (map (\<lambda>(k, v, src).
       map_option (\<lambda>j. (k, JObj [(''value'', j), (''source'', JStr (source_text src))])) (value_json ft v)) xs))"

definition overview_json :: "wire \<Rightarrow> overview \<Rightarrow> json option" where
  "overview_json wi ov =
     map_option (\<lambda>st. JObj
       [(''serverVersion'', JStr admin_version), (''uptimeSec'', jnum (wi_uptime wi)),
        (''accounts'', jnum (int (ov_accounts ov))), (''devices'', jnum (int (ov_devices ov))),
        (''cache'', JObj [(''bytes'', jnum (fst (ov_cache ov))), (''entries'', jnum (snd (ov_cache ov)))]),
        (''recoverCache'', JObj (map (\<lambda>(s, n). (s, jnum (int n))) (ov_recover ov))), (''settings'', st)])
       (settings_json (wi_float wi) (ov_settings ov))"

definition cache_json :: "(rat \<Rightarrow> string) \<Rightarrow> cache_report \<Rightarrow> json option" where
  "cache_json ft r =
     map_option (\<lambda>mark. JObj
       [(''bytes'', jnum (cp_bytes r)), (''entries'', jnum (cp_entries r)), (''maxBytes'', jnum (cp_max r)),
        (''highWatermark'', mark), (''layout'', JStr (cp_layout r)), (''dir'', JStr (cp_dir r))])
       (float_json ft (cp_mark r))"

definition evict_json :: "evict_report \<Rightarrow> json" where
  "evict_json r =
     JObj [(''freedBytes'', jnum (er_freed_bytes r)), (''freedEntries'', jnum (er_freed_entries r)),
           (''bytes'', jnum (er_bytes r)), (''entries'', jnum (er_entries r))]"

definition account_json :: "account_item \<Rightarrow> json" where
  "account_json it =
     JObj [(''id'', jnum (ai_id it)), (''createdAt'', jnum (ai_created it)), (''deviceCount'', jnum (int (ai_devices it))),
           (''syncEntryCount'', jnum (int (ai_entries it)))]"

definition accounts_json :: "account_item list \<Rightarrow> string \<Rightarrow> json" where
  "accounts_json items next = JObj [(''items'', JArr (map account_json items)), (''nextCursor'', JStr next)]"

definition device_json :: "device_item \<Rightarrow> json" where
  "device_json it =
     JObj [(''id'', jnum (di_id it)), (''deviceName'', JStr (di_name it)), (''createdAt'', jnum (di_created it)),
           (''accessExpiresAt'', jnum (di_access_exp it)), (''refreshExpiresAt'', jnum (di_refresh_exp it))]"

definition devices_json :: "device_item list \<Rightarrow> json" where
  "devices_json items = JObj [(''items'', JArr (map device_json items))]"

section \<open>Answers\<close>

definition json_reply :: "json_response \<Rightarrow> reply" where
  "json_reply r = \<lparr>re_status = jr_status r, re_headers = jr_headers r, re_body = JsonBody (jr_body r)\<rparr>"

definition send :: "wire \<Rightarrow> headers \<Rightarrow> string \<Rightarrow> nat \<Rightarrow> json option \<Rightarrow> reply option" where
  "send wi h rid status payload = map_option json_reply (write_json (wi_num wi) h rid status payload)"

definition fail_with :: "headers \<Rightarrow> string \<Rightarrow> go_error \<Rightarrow> reply option" where
  "fail_with h rid e = Some (json_reply (write_error h rid e))"

definition healthz :: "wire \<Rightarrow> headers \<Rightarrow> string \<Rightarrow> reply option" where
  "healthz wi h rid = send wi h rid 200 (Some (text_map [(''status'', ''ok'')]))"

text \<open>The end of \<^verbatim>\<open>Query\<close>: one status for each state of the row.\<close>

fun recovery_reply :: "wire \<Rightarrow> headers \<Rightarrow> string \<Rightarrow> recover_answer \<Rightarrow> reply option" where
  "recovery_reply wi h rid (RecoverError e) = fail_with h rid e"
| "recovery_reply wi h rid RecoverNotFound = send wi h rid 404 (Some (text_map [(''status'', ''not_found'')]))"
| "recovery_reply wi h rid (RecoverReady pages src meta) = send wi h rid 200 (Some (ready_json pages src meta))"
| "recovery_reply wi h rid (RecoverFetching n) =
     send wi h rid 202 (Some (JObj [(''status'', JStr ''fetching''), (''retryAfterSec'', jnum n)]))"

text \<open>The headers a handler sets are added to those set before it.\<close>

definition put_headers :: "headers \<Rightarrow> headers \<Rightarrow> headers" where
  "put_headers new h = fold (\<lambda>(k, v). hdr_set k v) new h"

fun image_reply :: "headers \<Rightarrow> string \<Rightarrow> img_result \<Rightarrow> reply" where
  "image_reply h rid (ImgError hs e) = json_reply (write_error (put_headers hs h) rid e)"
| "image_reply h rid (Img r) =
     \<lparr>re_status = ir_status r, re_headers = put_headers (ir_headers r) h, re_body = Bytes (ir_body r)\<rparr>"

text \<open>\<^verbatim>\<open>http.Error\<close> ends its text with a line feed.\<close>

definition text_error :: "headers \<Rightarrow> nat \<Rightarrow> string \<Rightarrow> reply" where
  "text_error h st msg =
     \<lparr>re_status = st, re_headers = hdr_set ''Content-Type'' ''text/plain; charset=utf-8'' (hdr_set ''X-Content-Type-Options'' ''nosniff'' h),
      re_body = Bytes (msg @ [CHR 0x0A])\<rparr>"

definition hdr_del :: "string \<Rightarrow> headers \<Rightarrow> headers" where
  "hdr_del k h = filter (\<lambda>(k', v). k' \<noteq> k) h"

lemma hdr_get_del [simp]: "hdr_get k (hdr_del k' h) = (if k = k' then [] else hdr_get k h)"
  by (induction h) (auto simp: hdr_get_def hdr_del_def split: option.splits)

text \<open>
  \<^verbatim>\<open>http.ServeContent\<close> for a file, with the headers \<^verbatim>\<open>serveFile\<close> has set: an error drops the one about caching, 304 the
  one about the type.
\<close>

fun serve_content :: "headers \<Rightarrow> string \<Rightarrow> content_outcome \<Rightarrow> reply" where
  "serve_content h b WholeFile = \<lparr>re_status = 200, re_headers = h, re_body = Bytes b\<rparr>"
| "serve_content h b (OneRange from n) = \<lparr>re_status = 206, re_headers = h, re_body = Bytes (take n (drop from b))\<rparr>"
| "serve_content h b (Ranges ct parts) = \<lparr>re_status = 206, re_headers = hdr_set ''Content-Type'' ct h, re_body = Bytes parts\<rparr>"
| "serve_content h b NotModified = \<lparr>re_status = 304, re_headers = hdr_del ''Content-Type'' h, re_body = NoBody\<rparr>"
| "serve_content h b FailedCondition = \<lparr>re_status = 412, re_headers = h, re_body = NoBody\<rparr>"
| "serve_content h b (BadRange msg) = text_error (hdr_del ''Cache-Control'' h) 416 msg"
| "serve_content h b Unseekable = text_error (hdr_del ''Cache-Control'' h) 500 ''seeker can't seek''"

text \<open>The static handler: assets and the index go through \<^verbatim>\<open>http.ServeContent\<close>.\<close>

fun page_reply :: "wire \<Rightarrow> headers \<Rightarrow> spa_reply \<Rightarrow> reply" where
  "page_reply wi h (SpaError st msg) = text_error h st msg"
| "page_reply wi h (SpaFile name b ct cc) =
     serve_content (hdr_set ''Cache-Control'' cc (hdr_set ''Content-Type'' ct (hdr_set ''X-Content-Type-Options'' ''nosniff'' h))) b
       (wi_content wi name)"
| "page_reply wi h (SpaNoContent ct cc) =
     serve_content (hdr_set ''Cache-Control'' cc (hdr_set ''Content-Type'' ct (hdr_set ''X-Content-Type-Options'' ''nosniff'' h))) []
       (wi_content wi index_name)"

text \<open>\<open>None\<close> where \<^verbatim>\<open>WriteJSON\<close> would panic.\<close>

fun print_answer :: "wire \<Rightarrow> headers \<Rightarrow> string \<Rightarrow> answer \<Rightarrow> reply option" where
  "print_answer wi h rid (Refused r) = Some (json_reply r)"
| "print_answer wi h rid Health = healthz wi h rid"
| "print_answer wi h rid (Tokens j) = send wi h rid 200 (Some j)"
| "print_answer wi h rid (Relayed r) = send wi h rid 200 (Some (relay_json r))"
| "print_answer wi h rid (Image r) = Some (image_reply h rid r)"
| "print_answer wi h rid (Pushed r) = send wi h rid 200 (Some (push_json r))"
| "print_answer wi h rid (Pulled r) = send wi h rid 200 (pull_json (wi_raw wi) r)"
| "print_answer wi h rid (Recovery r) = recovery_reply wi h rid r"
| "print_answer wi h rid (OverviewInfo ov) = send wi h rid 200 (overview_json wi ov)"
| "print_answer wi h rid (SettingsInfo xs) =
     send wi h rid 200 (map_option (\<lambda>j. JObj [(''settings'', j)]) (settings_json (wi_float wi) xs))"
| "print_answer wi h rid (CacheInfo r) = send wi h rid 200 (cache_json (wi_float wi) r)"
| "print_answer wi h rid (Evicted r) = send wi h rid 200 (Some (evict_json r))"
| "print_answer wi h rid (AccountList items next) = send wi h rid 200 (Some (accounts_json items next))"
| "print_answer wi h rid (DeviceList items) = send wi h rid 200 (Some (devices_json items))"
| "print_answer wi h rid (Deleted j) = send wi h rid 200 (Some j)"
| "print_answer wi h rid (Page p) = Some (page_reply wi h p)"
| "print_answer wi h rid (Preflight h') = Some \<lparr>re_status = 204, re_headers = h', re_body = NoBody\<rparr>"
| "print_answer wi h rid (Moved p) = Some \<lparr>re_status = 301, re_headers = h, re_body = NoBody\<rparr>"
| "print_answer wi h rid MethodNotAllowed = Some \<lparr>re_status = 405, re_headers = h, re_body = NoBody\<rparr>"

section \<open>Handlers of the administrator (routes.go)\<close>

text \<open>
  The handlers as they are written, from the operation to the reply. \<open>serve_admin\<close> followed by \<open>print_answer\<close> is the
  same (\<open>handlers_printed\<close> in \<^verbatim>\<open>ReplyFacts\<close>).
\<close>

definition overview_handler ::
  "wire \<Rightarrow> parse_float \<Rightarrow> (admin_step \<Rightarrow> bool) \<Rightarrow> headers \<Rightarrow> string \<Rightarrow> ('r, 'l) admin_state \<Rightarrow> reply option" where
  "overview_handler wi pf fail h rid s =
     (case get_overview pf fail s of
        Inl e \<Rightarrow> fail_with h rid e
      | Inr ov \<Rightarrow> send wi h rid 200 (overview_json wi ov))"

definition get_settings_handler ::
  "wire \<Rightarrow> parse_float \<Rightarrow> (admin_step \<Rightarrow> bool) \<Rightarrow> headers \<Rightarrow> string \<Rightarrow> ('r, 'l) admin_state \<Rightarrow> reply option" where
  "get_settings_handler wi pf fail h rid s =
     send wi h rid 200 (map_option (\<lambda>j. JObj [(''settings'', j)])
       (settings_json (wi_float wi) (resolve_all pf (\<lambda>k. fail (ResolveKey k)) (ad_env s) (ad_settings s))))"

definition cache_stats_handler ::
  "wire \<Rightarrow> (admin_step \<Rightarrow> bool) \<Rightarrow> headers \<Rightarrow> string \<Rightarrow> ('r, 'l) admin_state \<Rightarrow> reply option" where
  "cache_stats_handler wi fail h rid s =
     (case get_cache_report fail s of
        Inl e \<Rightarrow> fail_with h rid e
      | Inr r \<Rightarrow> send wi h rid 200 (cache_json (wi_float wi) r))"

text \<open>\<open>None\<close> as well where the eviction does not end.\<close>

definition cache_evict_handler ::
  "wire \<Rightarrow> (bool \<Rightarrow> cache_step \<Rightarrow> bool) \<Rightarrow> (nat \<Rightarrow> cache_step \<Rightarrow> bool) \<Rightarrow> headers \<Rightarrow> string \<Rightarrow> ('r, 'l) admin_state
     \<Rightarrow> (reply \<times> ('r, 'l) admin_state) option" where
  "cache_evict_handler wi fail evict_fail h rid s =
     (case evict_cache fail evict_fail s of
        None \<Rightarrow> None
      | Some (Inl e, s') \<Rightarrow> map_option (\<lambda>rep. (rep, s')) (fail_with h rid e)
      | Some (Inr r, s') \<Rightarrow> map_option (\<lambda>rep. (rep, s')) (send wi h rid 200 (Some (evict_json r))))"

section \<open>The access log (middleware.go)\<close>

text \<open>\<^verbatim>\<open>statusWriter\<close> remembers the last status that was written, 200 before the first.\<close>

definition status_writer :: "nat list \<Rightarrow> nat" where
  "status_writer codes = fold (\<lambda>code _. code) codes 200"

definition access_line :: "wire \<Rightarrow> request \<Rightarrow> string \<Rightarrow> nat \<Rightarrow> attr list" where
  "access_line wi req rid status =
     [Plain ''method'' (hr_method req), Plain ''path'' (url_path req), Plain ''status'' (nat_str status),
      Plain ''durMs'' (format_int (wi_dur wi)), Plain ''requestId'' rid]"

section \<open>One request, from the outside\<close>

text \<open>
  \<^verbatim>\<open>RequestID(AccessLog(CORS(mux)))\<close>. The id and the cross-origin headers are those \<open>handle\<close> passes on. The line
  of the log goes through \<^verbatim>\<open>RedactHandler\<close>.
\<close>

definition request_rid :: "moment \<Rightarrow> request \<Rightarrow> string" where
  "request_rid mo req = request_id (hdr_get ''X-Request-Id'' (hr_headers req)) (mo_fresh mo)"

definition first_headers :: "moment \<Rightarrow> request \<Rightarrow> ('r, 'l, 'net) app \<Rightarrow> headers" where
  "first_headers mo req a =
     (case cors (ap_origins a) (hr_method req) (url_path req) (hr_headers req)
             (hdr_set ''X-Request-Id'' (request_rid mo req) []) of
        Inl h \<Rightarrow> h | Inr h \<Rightarrow> h)"

definition serve ::
  "('r, 'l, 'ip, 'net) platform \<Rightarrow> codecs \<Rightarrow> wire \<Rightarrow> moment \<Rightarrow> request \<Rightarrow> ('r, 'l, 'net) app
     \<Rightarrow> ((reply \<times> attr list \<times> (int \<times> string) option) \<times> ('r, 'l, 'net) app) option" where
  "serve x k wi mo req a =
     (case handle x k mo req a of
        None \<Rightarrow> None
      | Some ((ans, job), a') \<Rightarrow>
          map_option (\<lambda>rep. ((rep, redact_attrs (x_ul x)
                                (access_line wi req (request_rid mo req) (status_writer [re_status rep])), job), a'))
            (print_answer wi (first_headers mo req a) (request_rid mo req) ans))"

end
