(* ===== verification/ReplyFacts.thy ===== *)
theory ReplyFacts
  imports Reply AppProps
begin

text \<open>
  Which errors the operations report, what a kind of answer carries, and how it is printed.
\<close>

section \<open>Errors of the operations\<close>

text \<open>An error that is answered with one of the statuses of \<^verbatim>\<open>errors.go\<close>, with 409, or as an internal one.\<close>

definition plain_error :: "go_error \<Rightarrow> bool" where
  "plain_error e \<longleftrightarrow>
     (case e of Api ae \<Rightarrow> List.member [400, 401, 403, 404, 409, 429, 502] (ae_status ae) | Internal _ \<Rightarrow> True)"

lemma plain_error_simps [simp]:
  "plain_error (Internal m)" "plain_error (bad_request m)" "plain_error (unauthorized m)" "plain_error (forbidden m)"
  "plain_error (not_found m)" "plain_error rate_limited" "plain_error (bad_gateway m)" "plain_error (Api (new_error 409 c m))"
  "plain_error (Api (new_error 400 c m))"
  by (simp_all add: plain_error_def api_errors)

lemmas error_splits = if_splits option.splits sum.splits prod.splits

named_theorems errors "that an error of an operation is a plain one"

lemma decode_json_error [errors]: "decode_json d b = Inl e \<Longrightarrow> plain_error e"
  by (auto simp: decode_json_def split: option.splits)

lemma required_error [errors]: "required f v = Some e \<Longrightarrow> plain_error e"
  by (auto simp: required_def split: if_splits)

lemma token_error [errors]:
  "new_opaque_token p r = Inl e \<Longrightarrow> plain_error e" "new_account_key r = Inl e \<Longrightarrow> plain_error e"
  by (auto simp: new_opaque_token_def new_account_key_def split: option.splits)

lemma register_error [errors]: "register sha fail rk ra rr now name invite key s = (Inl e, s') \<Longrightarrow> plain_error e"
  by (auto simp: register_def issue_tokens_def register_account_def dest: errors split: error_splits)

lemma refresh_error [errors]: "refresh sha fail ra rr now tok s = (Inl e, s') \<Longrightarrow> plain_error e"
  by (auto simp: refresh_def dest: errors split: error_splits)

lemma token_handlers_error [errors]:
  "register_handler dec sha fail rk ra rr now b s = (Inl e, s') \<Longrightarrow> plain_error e"
  "refresh_handler dec2 sha fail ra rr now b s = (Inl e, s') \<Longrightarrow> plain_error e"
  by (auto simp: register_handler_def refresh_handler_def dest: errors split: error_splits)

lemma token_handlers_object:
  "register_handler dec sha fail rk ra rr now b s = (Inr j, s') \<Longrightarrow> j \<noteq> JNull"
  "refresh_handler dec2 sha fail ra rr now b s = (Inr j, s') \<Longrightarrow> j \<noteq> JNull"
  by (auto simp: register_handler_def refresh_handler_def token_response_def split: error_splits)

lemma token_account_error [errors]: "token_account x mo req a = Inl e \<Longrightarrow> plain_error e"
  by (cases "authenticate (x_sha x) (mo_auth mo) (ap_mw a) (mo_ms mo) (hdr_get ''Authorization'' (hr_headers req)) (lp_auth (live a))")
    (auto simp: token_account_def authenticate_def split: error_splits)

lemma check_url_error [errors]: "check_url uo ul hosts u = Inl e \<Longrightarrow> plain_error e"
  by (auto simp: check_url_def Let_def split: error_splits)

lemma relay_error [errors]:
  "relay_plan uo ul uu hosts req = Inl e \<Longrightarrow> plain_error e" "relay_finish r = Inl e \<Longrightarrow> plain_error e"
  by (auto simp: relay_plan_def relay_finish_def decode_body_def Let_def dest: errors split: error_splits)

lemma relay_handler_error [errors]: "relay_handler dec uo ul uu tr hosts b = (Inl e, qs) \<Longrightarrow> plain_error e"
  by (auto simp: relay_handler_def relay_do_def dest: errors split: error_splits)

lemma validate_error [errors]:
  "validate_item unm ul d it = Inl e \<Longrightarrow> plain_error e"
  "validate_items unm ul d its = Inl e \<Longrightarrow> plain_error e"
proof -
  show item: "validate_item unm ul d it = Inl e \<Longrightarrow> plain_error e" for it
    by (auto simp: validate_item_def Let_def split: error_splits json.splits)
  show "validate_items unm ul d its = Inl e \<Longrightarrow> plain_error e"
    by (induction its) (auto dest: item split: error_splits)
qed

lemma push_check_error [errors]: "push_check unm ul cur acc req now = Inl e \<Longrightarrow> plain_error e"
  by (auto simp: push_check_def dest: errors split: error_splits)

lemma loops_error [errors]:
  "lww_scan fail es acc d i mx its = Inl e \<Longrightarrow> plain_error e"
  "upsert_all fail c nonces acc d base i its es = Inl e \<Longrightarrow> plain_error e"
  "pull_items c es = Inl e \<Longrightarrow> plain_error e"
proof -
  show "lww_scan fail es acc d i mx its = Inl e \<Longrightarrow> plain_error e"
    by (induction fail es acc d i mx its arbitrary: e rule: lww_scan.induct) (auto simp: Let_def split: error_splits)
  show "upsert_all fail c nonces acc d base i its es = Inl e \<Longrightarrow> plain_error e"
    by (induction its arbitrary: i es) (auto split: if_splits)
  show "pull_items c es = Inl e \<Longrightarrow> plain_error e"
    by (induction es) (auto simp: pull_item_of_def split: error_splits)
qed

lemma push_handler_error [errors]:
  "push_handler dec unm ul fail c nonces r acc b now s = (Inl e, s') \<Longrightarrow> plain_error e"
  by (auto simp: push_handler_def push_def push_locked_def Let_def dest: errors split: error_splits)

lemma pull_handler_error [errors]: "pull_handler ok c r acc d since lm now s = Inl e \<Longrightarrow> plain_error e"
  by (auto simp: pull_handler_def pull_def pull_since_def pull_finish_def dest: errors split: error_splits)

lemma admin_error [errors]:
  "get_overview pf fail s = Inl e \<Longrightarrow> plain_error e"
  "get_cache_report fail s = Inl e \<Longrightarrow> plain_error e"
  "list_accounts_handler fail q s = Inl e \<Longrightarrow> plain_error e"
  "list_devices_handler fail w s = Inl e \<Longrightarrow> plain_error e"
  "delete_device_handler fail w s = (Inl e, s') \<Longrightarrow> plain_error e"
  "delete_account_handler fail w s = (Inl e, s') \<Longrightarrow> plain_error e"
  by (auto simp: get_overview_def get_cache_report_def cache_stats_def list_accounts_handler_def list_accounts_def
      cursor_place_def decode_cursor_def list_devices_handler_def list_devices_def path_id_def delete_device_handler_def
      delete_device_def delete_account_handler_def delete_account_def Let_def apfst_def map_prod_def split: error_splits)

lemma delete_object:
  "delete_device_handler fail w s = (Inr j, s') \<Longrightarrow> j \<noteq> JNull"
  "delete_account_handler fail w s = (Inr j, s') \<Longrightarrow> j \<noteq> JNull"
  by (auto simp: delete_device_handler_def delete_account_handler_def delete_device_def delete_account_def Let_def
      apfst_def map_prod_def split: error_splits)

lemma evict_cache_error [errors]: "evict_cache fail ef s = Some (Inl e, s') \<Longrightarrow> plain_error e"
  by (auto simp: evict_cache_def cache_stats_def Let_def split: error_splits)

lemma settings_error [errors]:
  "patch_texts obj = Inl e \<Longrightarrow> plain_error e"
  "validate_patch pf kvs = Inl e \<Longrightarrow> plain_error e"
  "persist_settings sf now kvs rows = Inl e \<Longrightarrow> plain_error e"
proof -
  show "patch_texts obj = Inl e \<Longrightarrow> plain_error e"
    by (induction obj rule: patch_texts.induct) (auto split: error_splits)
  show "validate_patch pf kvs = Inl e \<Longrightarrow> plain_error e"
    by (induction pf kvs rule: validate_patch.induct) (auto split: error_splits)
  show "persist_settings sf now kvs rows = Inl e \<Longrightarrow> plain_error e"
    by (auto simp: persist_settings_def split: if_splits)
qed

lemma patch_settings_error [errors]:
  "patch_settings dec pf ops rate_of sf rf now b s = Some (Inl e, s') \<Longrightarrow> plain_error e"
  by (auto simp: patch_settings_def dest: errors split: error_splits)

section \<open>What an answer carries\<close>

text \<open>
  A refusal is the envelope of a plain error with the id of the request; the headers and statuses of the other
  answers leave the id alone.
\<close>

abbreviation rid_header :: string where "rid_header \<equiv> ''X-Request-Id''"

definition refusal :: "string \<Rightarrow> json_response \<Rightarrow> bool" where
  "refusal rid r \<longleftrightarrow> (\<exists>h e. r = write_error h rid e \<and> hdr_get rid_header h = rid \<and> plain_error e)"

definition lacks :: "string \<Rightarrow> headers \<Rightarrow> bool" where
  "lacks k h \<longleftrightarrow> map_of h k = None"

fun good_image :: "img_result \<Rightarrow> bool" where
  "good_image (ImgError hs e) \<longleftrightarrow> lacks rid_header hs \<and> plain_error e"
| "good_image (Img r) \<longleftrightarrow> lacks rid_header (ir_headers r) \<and> ir_status r = 200"

fun good_page :: "spa_reply \<Rightarrow> bool" where
  "good_page (SpaError st msg) \<longleftrightarrow> st = 400 \<or> st = 404"
| "good_page _ \<longleftrightarrow> True"

definition good_answer :: "string \<Rightarrow> answer \<Rightarrow> bool" where
  "good_answer rid ans \<longleftrightarrow>
     (case ans of
        Refused r \<Rightarrow> refusal rid r
      | Tokens j \<Rightarrow> j \<noteq> JNull
      | Deleted j \<Rightarrow> j \<noteq> JNull
      | Image r \<Rightarrow> good_image r
      | Recovery (RecoverError e) \<Rightarrow> plain_error e
      | Page p \<Rightarrow> good_page p
      | Preflight h \<Rightarrow> hdr_get rid_header h = rid
      | _ \<Rightarrow> True)"

lemma good_answer_simps [simp]:
  "good_answer rid (Refused r) = refusal rid r" "good_answer rid Health" "good_answer rid (Tokens j) = (j \<noteq> JNull)"
  "good_answer rid (Relayed rr)" "good_answer rid (Image i) = good_image i" "good_answer rid (Pushed p)"
  "good_answer rid (Pulled q)" "good_answer rid (Deleted j) = (j \<noteq> JNull)" "good_answer rid (Page pg) = good_page pg"
  "good_answer rid (Preflight h) = (hdr_get rid_header h = rid)" "good_answer rid (Moved t)" "good_answer rid MethodNotAllowed"
  "good_answer rid (OverviewInfo ov)" "good_answer rid (SettingsInfo xs)" "good_answer rid (CacheInfo cr)"
  "good_answer rid (Evicted er)" "good_answer rid (AccountList its nx)" "good_answer rid (DeviceList ds)"
  by (simp_all add: good_answer_def)

lemma refusalI: "hdr_get rid_header h = rid \<Longrightarrow> plain_error e \<Longrightarrow> refusal rid (write_error h rid e)"
  by (auto simp: refusal_def)

lemma answer_sum_good:
  assumes "hdr_get rid_header h = rid" and "\<And>e. r = Inl e \<Longrightarrow> plain_error e" and "\<And>v. r = Inr v \<Longrightarrow> good_answer rid (f v)"
  shows "good_answer rid (answer_sum h rid f r)"
  using assms by (auto simp: answer_sum_def intro: refusalI split: sum.split)

section \<open>Guards\<close>

lemma limit_request_refusal:
  "limit_request ops retry h rid key now l = (Inl r, l') \<Longrightarrow> hdr_get rid_header h = rid \<Longrightarrow> refusal rid r"
  by (auto simp: limit_request_def intro!: refusalI split: prod.splits if_splits)

lemma token_guard_refusal:
  assumes "token_guard x mo h rid ep req a = (Inl r, a')" and "hdr_get rid_header h = rid"
  shows "refusal rid r"
  using assms
  by (auto simp: token_guard_def limit_write_def limit_img_def apsnd_def map_prod_def
      intro: refusalI limit_request_refusal dest: errors split: error_splits)

lemma limit_register_refusal:
  "limit_register x mo h rid ip a = (Inl r, a') \<Longrightarrow> hdr_get rid_header h = rid \<Longrightarrow> refusal rid r"
  by (auto simp: limit_register_def apsnd_def map_prod_def intro: limit_request_refusal split: prod.splits)

lemma admin_guard_refusal:
  "admin_guard ops retry token h rid ip auth now l = (Inl r, l') \<Longrightarrow> hdr_get rid_header h = rid \<Longrightarrow> refusal rid r"
  by (auto simp: admin_guard_def intro: refusalI limit_request_refusal split: error_splits)

section \<open>Handlers\<close>

lemma lacks_simps [simp]: "lacks k []" "lacks k (hdr_set n v h) \<longleftrightarrow> k \<noteq> n \<and> lacks k h"
  by (auto simp: lacks_def hdr_set_def tbl_replace_def map_of_filter_neq map_add_def split: option.splits)

lemma lacks_disposition [simp]: "lacks rid_header (disposition inline h) \<longleftrightarrow> lacks rid_header h"
  by (simp add: disposition_def)

lemma lacks_copy: "k \<notin> set ks \<Longrightarrow> lacks k h \<Longrightarrow> lacks k (copy_headers ks from_h h)"
  unfolding copy_headers_def by (induction ks arbitrary: h) simp_all

lemma serve_hit_good: "serve_hit fail now key inline s = (Some r, s') \<Longrightarrow> good_image (Img r)"
  by (auto simp: serve_hit_def split: error_splits)

lemma img_check_error [errors]: "img_check uo ul hosts u = Inl e \<Longrightarrow> plain_error e"
  by (auto simp: img_check_def dest: errors split: if_splits)

lemma fetch_upstream_good:
  assumes "fetch_upstream uo tr nw fail disk now url key inline s = ((r, qs), s')"
  shows "good_image r"
proof -
  have "lacks rid_header (copy_headers [''Content-Type'', ''Content-Length'', ''Cache-Control''] hs (hdr_set ''X-Upstream-Status'' v []))"
    for hs v
    by (rule lacks_copy) simp_all
  with assms show ?thesis by (auto simp: fetch_upstream_def Let_def split: prod.splits option.splits if_splits)
qed

lemma img_handler_good:
  assumes "img_handler sha uo ul hosts tr nw fail disk now q s = ((r, qs), s')"
  shows "good_image r"
proof (cases "img_check uo ul hosts (query_get ''url'' q)")
  case (Inl e)
  with assms img_check_error [OF Inl] show ?thesis by (auto simp: img_handler_def img_fetch_def)
next
  case (Inr host)
  with assms show ?thesis
    by (auto simp: img_handler_def img_fetch_def Let_def simp del: good_image.simps
        dest: serve_hit_good fetch_upstream_good split: prod.splits option.splits)
qed

lemma recover_query_good:
  assumes "recover_query fail c enc shared now acc pid base s = ((r, st), s')"
  shows "good_answer rid (Recovery r)"
proof -
  have look: "recover_lookup fail c enc shared now acc pid s = Inl e \<Longrightarrow> plain_error e" for e
    by (auto simp: recover_lookup_def read_row_def split: error_splits)
  have row: "answer_row base w \<noteq> RecoverError e" for w e by (simp add: answer_row_def)
  from assms look row show ?thesis
    by (auto simp: good_answer_def recover_query_def split: error_splits recover_answer.splits)
qed

lemma relay_handler_fst [errors]: "fst (relay_handler dec uo ul uu tr hosts b) = Inl e \<Longrightarrow> plain_error e"
  by (cases "relay_handler dec uo ul uu tr hosts b") (auto dest: errors)

lemma serve_token_good:
  assumes "serve_token x k mo h rid ep ws req acc a = ((ans, st), a')" and "hdr_get rid_header h = rid"
  shows "good_answer rid ans"
proof (cases ep)
  case RelayRequest
  with assms show ?thesis by (auto simp: serve_token_def intro!: answer_sum_good dest: errors)
next
  case ImgFetch
  with assms(1) show ?thesis by (auto simp: serve_token_def intro: img_handler_good split: prod.splits)
next
  case SyncPush
  with assms show ?thesis by (auto simp: serve_token_def intro!: answer_sum_good dest: errors split: prod.splits)
next
  case SyncPull
  with assms show ?thesis by (auto simp: serve_token_def intro!: answer_sum_good dest: errors)
qed (use assms(1) in \<open>auto simp: serve_token_def intro: recover_query_good split: prod.splits\<close>)

lemma serve_admin_good:
  assumes "serve_admin x k mo h rid ep ws req a = Some (ans, a')" and "hdr_get rid_header h = rid"
  shows "good_answer rid ans"
  using assms
  by (cases ep) (auto simp: serve_admin_def Let_def intro!: answer_sum_good dest: errors delete_object split: prod.splits)

text \<open>Answering and then printing is what the handlers of the administrator do.\<close>

lemma handlers_printed:
  "map_option (\<lambda>(ans, a'). print_answer wi h rid ans) (serve_admin x k mo h rid AdminOverview ws req a) =
     Some (overview_handler wi (x_float x) (mo_admin mo) h rid (ap_state a))"
  "map_option (\<lambda>(ans, a'). print_answer wi h rid ans) (serve_admin x k mo h rid AdminGetSettings ws req a) =
     Some (get_settings_handler wi (x_float x) (mo_admin mo) h rid (ap_state a))"
  "map_option (\<lambda>(ans, a'). print_answer wi h rid ans) (serve_admin x k mo h rid AdminCacheStats ws req a) =
     Some (cache_stats_handler wi (mo_admin mo) h rid (ap_state a))"
  "map_option (\<lambda>(ans, a'). (print_answer wi h rid ans, a')) (serve_admin x k mo h rid AdminCacheEvict ws req a) =
     map_option (\<lambda>(rep, s'). (Some rep, put_state s' a)) (cache_evict_handler wi (mo_stats mo) (mo_evict mo) h rid (ap_state a))"
proof -
  have sent: "\<exists>rep. send wi h rid 200 (Some (evict_json r)) = Some rep" for r
    by (simp add: send_def write_json_def evict_json_def Let_def)
  show "map_option (\<lambda>(ans, a'). (print_answer wi h rid ans, a')) (serve_admin x k mo h rid AdminCacheEvict ws req a) =
     map_option (\<lambda>(rep, s'). (Some rep, put_state s' a)) (cache_evict_handler wi (mo_stats mo) (mo_evict mo) h rid (ap_state a))"
  proof (cases "evict_cache (mo_stats mo) (mo_evict mo) (ap_state a)")
    case (Some p)
    obtain r s' where p: "p = (r, s')" by (cases p)
    show ?thesis
    proof (cases r)
      case (Inr v)
      obtain rep where "send wi h rid 200 (Some (evict_json v)) = Some rep" using sent by blast
      with Some p Inr show ?thesis by (simp add: serve_admin_def cache_evict_handler_def answer_sum_def)
    qed (use Some p in \<open>simp add: serve_admin_def cache_evict_handler_def answer_sum_def fail_with_def\<close>)
  qed (simp add: serve_admin_def cache_evict_handler_def)
qed (auto simp: serve_admin_def overview_handler_def get_settings_handler_def cache_stats_handler_def answer_sum_def fail_with_def Let_def
    split: sum.split)

section \<open>A request\<close>

lemma spa_serve_good: "good_page (spa_serve ul mime rt u)"
  by (auto simp: spa_serve_def serve_index_def Let_def split: option.splits fs_node.splits)

lemma dispatch_good:
  assumes "dispatch x k mo h rid ep ws req a = Some ((ans, job), a')" and "hdr_get rid_header h = rid"
  shows "good_answer rid ans"
proof -
  consider "ep = Healthz" | "ep = StaticFile" | "ep = AuthRegister" | "ep = AuthRefresh"
    | "ep \<in> set token_endpoints" | "ep \<notin> set token_endpoints \<union> {Healthz, StaticFile, AuthRegister, AuthRefresh}" by blast
  then show ?thesis
  proof cases
    case 3
    with assms show ?thesis
      by (auto simp: dispatch_def intro!: answer_sum_good dest: errors limit_register_refusal token_handlers_object split: error_splits)
  next
    case 4
    with assms show ?thesis
      by (auto simp: dispatch_def intro!: answer_sum_good dest: errors token_handlers_object split: error_splits)
  next
    case 5
    with assms show ?thesis
      by (auto simp: dispatch_def token_endpoints_def intro: token_guard_refusal serve_token_good split: error_splits)
  next
    case 6
    with assms show ?thesis
      by (auto simp: dispatch_def token_endpoints_def intro: admin_guard_refusal serve_admin_good split: error_splits)
  qed (use assms(1) in \<open>auto simp: dispatch_def spa_serve_good\<close>)
qed

lemma cors_rid:
  "hdr_get rid_header (case cors os m u req h of Inl h' \<Rightarrow> h' | Inr h' \<Rightarrow> h') = hdr_get rid_header h"
  by (simp add: cors_def Let_def)

lemma first_headers_rid: "hdr_get rid_header (first_headers mo req a) = request_rid mo req"
  by (simp add: first_headers_def cors_rid)

lemma handle_good:
  assumes "handle x k mo req a = Some ((ans, job), a')"
  shows "good_answer (request_rid mo req) ans"
proof -
  let ?cors = "cors (ap_origins a) (hr_method req) (url_path req) (hr_headers req) (hdr_set rid_header (request_rid mo req) [])"
  show ?thesis
  proof (cases ?cors)
    case (Inl h)
    with assms first_headers_rid [of mo req a] show ?thesis
      by (auto simp: handle_def request_rid_def [symmetric] first_headers_def Let_def)
  next
    case (Inr h)
    with assms first_headers_rid [of mo req a] show ?thesis
      by (auto simp: handle_def request_rid_def [symmetric] first_headers_def Let_def intro: dispatch_good split: route.splits)
  qed
qed

end
