(* ===== verification/SmallServer.thy ===== *)
theory SmallServer
  imports AppProps RecoverProps SyncProps
begin

text \<open>
  A concrete server for the examples: one account with a static token, one mirror, empty tables, limiters that let
  everything pass.
\<close>

definition ex_flow_platform :: "(float64, unit, unit, unit) platform" where
  "ex_flow_platform = ex_platform\<lparr>x_sha := se_sha ex_world, x_codec := ex_codec, x_uo := se_uo ex_world\<rparr>"

definition ex_flow_codecs :: codecs where
  "ex_flow_codecs = ex_codecs\<lparr>k_push := (\<lambda>_. Some (ex_request [ex_item ''k'' 5])), k_unmarshal := ex_unmarshal\<rparr>"

definition ex_app :: "(float64, unit, unit) app" where
  "ex_app = \<lparr>ap_enc = None, ap_mw = \<lparr>mw_static = [''tok''], mw_account = 1\<rparr>, ap_register = new_limiter (Fin 1) 3,
     ap_relay_hosts = [], ap_img_hosts = [''https://m/7.jpg''], ap_sources = [ex_mirror_source], ap_shared = False,
     ap_state = \<lparr>ad_settings = [], ad_env = (\<lambda>_. None),
       ad_live = \<lparr>lp_cache = ft_cache ex_start, lp_recover = ex_recover, lp_write = new_limiter (Fin 1) 10,
                  lp_img = new_limiter (Fin 1) 30, lp_auth = new_auth [] [] []\<rparr>,
       ad_sync = ex_empty\<rparr>,
     ap_admin = None, ap_root = \<lparr>wr_node = (\<lambda>_. None), wr_stat_ok = (\<lambda>_. True)\<rparr>, ap_origins = [], ap_proxies = []\<rparr>"

definition ex_call :: "string \<Rightarrow> string \<Rightarrow> string \<Rightarrow> request" where
  "ex_call meth path query = \<lparr>hr_method = meth, hr_path = path, hr_query = query,
     hr_headers = [(''Authorization'', ''Bearer tok'')], hr_body = [], hr_remote = [], hr_host = ''h'', hr_tls = True\<rparr>"

lemma ex_flow_routes:
  "mux on ''POST'' ''/sync/v1/push'' = To SyncPush []" "mux on ''GET'' ''/sync/v1/pull'' = To SyncPull []"
  "mux on ''GET'' ''/recover/v1/illust/7'' = To RecoverIllust [''7'']"
proof -
  have "clean_path ''/sync/v1/push'' = ''/sync/v1/push''" "path_segments ''/sync/v1/push'' = [''sync'', ''v1'', ''push'']"
    "clean_path ''/recover/v1/illust/7'' = ''/recover/v1/illust/7''"
    "path_segments ''/recover/v1/illust/7'' = [''recover'', ''v1'', ''illust'', ''7'']"
    by code_simp+
  then show "mux on ''POST'' ''/sync/v1/push'' = To SyncPush []" "mux on ''GET'' ''/recover/v1/illust/7'' = To RecoverIllust [''7'']"
    by (simp_all add: mux_def route_tables match_method_def)
  show "mux on ''GET'' ''/sync/v1/pull'' = To SyncPull []" using ex_route by (simp add: ex_http_def)
qed

lemma ex_flow_token: "ap_mw a = ap_mw ex_app \<Longrightarrow> token_account ex_flow_platform mo (ex_call meth path query) a = Inr 1"
proof -
  have "bearer_token ''Bearer tok'' = Some ''tok''" by code_simp
  then show "ap_mw a = ap_mw ex_app \<Longrightarrow> token_account ex_flow_platform mo (ex_call meth path query) a = Inr 1"
    by (simp add: token_account_def authenticate_def ex_call_def hdr_get_def ex_app_def)
qed

end
