(* ===== verification/ReplyProps.thy ===== *)
theory ReplyProps
  imports ReplyFacts SmallServer
begin

text \<open>
  What every answer has in common when it leaves the server: the request id, the headers of JSON bodies, the
  statuses, and what a client learns of an error inside the server.
\<close>

section \<open>Printing\<close>

text \<open>The id of the request is in the object, or in its \<^verbatim>\<open>error\<close> member.\<close>

definition json_carries :: "string \<Rightarrow> json \<Rightarrow> bool" where
  "json_carries rid j \<longleftrightarrow>
     (\<exists>kvs. j = JObj kvs \<and>
        (jget ''requestId'' kvs = Some (JStr rid) \<or>
         (\<exists>e. jget ''error'' kvs = Some (JObj e) \<and> jget ''requestId'' e = Some (JStr rid))))"

definition internal_body :: "string \<Rightarrow> json" where
  "internal_body rid =
     JObj [(''error'', JObj [(''code'', JStr ''INTERNAL''), (''message'', JStr ''internal error''), (''requestId'', JStr rid)])]"

definition reply_statuses :: "nat list" where
  "reply_statuses = [200, 202, 204, 206, 301, 304, 400, 401, 403, 404, 405, 409, 412, 416, 429, 500, 502]"

definition good_reply :: "wire \<Rightarrow> string \<Rightarrow> reply \<Rightarrow> bool" where
  "good_reply wi rid rep \<longleftrightarrow>
     hdr_get rid_header (re_headers rep) = rid \<and> re_status rep \<in> set reply_statuses \<and>
     (re_status rep = 500 \<longrightarrow> re_body rep = JsonBody (internal_body rid) \<or>
        (\<exists>name. wi_content wi name = Unseekable) \<and> re_body rep = Bytes (''seeker can't seek'' @ [CHR 0x0A])) \<and>
     (\<forall>j. re_body rep = JsonBody j \<longrightarrow>
        json_carries rid j \<and> hdr_get ''Cache-Control'' (re_headers rep) = ''no-store'' \<and>
        hdr_get ''X-Content-Type-Options'' (re_headers rep) = ''nosniff'')"

lemma good_error: "hdr_get rid_header h = rid \<Longrightarrow> plain_error e \<Longrightarrow> good_reply wi rid (json_reply (write_error h rid e))"
  by (cases e) (auto simp: good_reply_def json_reply_def write_error_def write_raw_def json_carries_def jget_def internal_body_def
      reply_statuses_def plain_error_def new_error_def Let_def)

lemma good_send:
  assumes "hdr_get rid_header h = rid" and "st = 200 \<or> st = 202 \<or> st = 404" and "payload \<noteq> Some JNull"
  shows "\<exists>rep. send wi h rid st payload = Some rep \<and> good_reply wi rid rep"
proof (cases payload)
  case None
  then show ?thesis using good_error [OF assms(1), of "Internal ''marshal''"] by (simp add: send_def write_json_def)
next
  case (Some p)
  with assms show ?thesis
    by (auto simp: send_def write_json_def good_reply_def json_reply_def write_raw_def json_carries_def reply_statuses_def Let_def)
qed

lemma good_plain:
  "hdr_get rid_header h = rid \<Longrightarrow> st = 204 \<or> st = 301 \<or> st = 405 \<Longrightarrow> good_reply wi rid \<lparr>re_status = st, re_headers = h, re_body = NoBody\<rparr>"
  by (auto simp: good_reply_def reply_statuses_def)

lemma map_option_object: "map_option (\<lambda>v. JObj (f v)) p \<noteq> Some JNull"
  by (cases p) simp_all

lemma payloads_object:
  "pull_json raw q \<noteq> Some JNull" "overview_json wi ov \<noteq> Some JNull" "cache_json ft cr \<noteq> Some JNull"
  by (auto simp: pull_json_def overview_json_def cache_json_def)

lemma put_headers_rid: "lacks rid_header hs \<Longrightarrow> hdr_get rid_header (put_headers hs h) = hdr_get rid_header h"
  unfolding put_headers_def by (induction hs arbitrary: h) (auto simp: lacks_def split: if_splits prod.splits)

lemma good_text:
  "hdr_get rid_header h = rid \<Longrightarrow> st = 400 \<or> st = 404 \<or> st = 416 \<Longrightarrow> good_reply wi rid (text_error h st msg)"
  by (auto simp: good_reply_def reply_statuses_def text_error_def)

lemma good_content:
  assumes "hdr_get rid_header h = rid"
  shows "good_reply wi rid (serve_content h b (wi_content wi name))"
  by (cases "wi_content wi name") (use assms in \<open>auto simp: good_reply_def reply_statuses_def text_error_def\<close>)

lemma print_good:
  assumes "good_answer rid ans" and "hdr_get rid_header h = rid"
  shows "\<exists>rep. print_answer wi h rid ans = Some rep \<and> good_reply wi rid rep"
proof (cases ans)
  case (Refused r)
  with assms(1) show ?thesis by (auto simp: refusal_def intro: good_error)
next
  case (Image r)
  show ?thesis
  proof (cases r)
    case (ImgError hs e)
    with Image assms show ?thesis by (auto simp: put_headers_rid intro: good_error)
  next
    case (Img i)
    with Image assms show ?thesis by (simp add: put_headers_rid good_reply_def reply_statuses_def)
  qed
next
  case (Recovery r)
  with assms show ?thesis
    by (cases r) (auto simp: good_answer_def fail_with_def text_map_def ready_json_def intro!: good_error good_send)
next
  case (Page p)
  with assms show ?thesis by (cases p) (auto simp: good_text intro!: good_content)
qed (use assms in \<open>auto simp: healthz_def text_map_def relay_json_def push_json_def evict_json_def
       accounts_json_def devices_json_def payloads_object map_option_object intro!: good_send good_plain\<close>)

text \<open>Nothing in the line of the access log has a sensitive name.\<close>

lemma access_line_public: "redact_attrs ul (access_line wi req rid st) = access_line wi req rid st"
proof -
  have "list_all (\<lambda>k. list_all is_ascii k \<and> \<not> List.member sensitive_keys (map lower_ascii k))
      [''method'', ''path'', ''status'', ''durMs'', ''requestId'']"
    by code_simp
  then show ?thesis by (simp add: access_line_def redact_attrs_def is_sensitive_def to_lower_def)
qed

lemma serve_good:
  assumes "handle x k mo req a = Some ((ans, job), a')"
  shows "\<exists>rep. serve x k wi mo req a = Some ((rep, access_line wi req (request_rid mo req) (re_status rep), job), a') \<and>
     good_reply wi (request_rid mo req) rep"
  using print_good [OF handle_good [OF assms] first_headers_rid, of wi a] assms
  by (auto simp: serve_def access_line_public status_writer_def)

section \<open>Properties\<close>

text \<open>
  C33: Safety. Every reply carries the id of its request: in the header, in the line of the access log, and in the JSON
  body, at its top or in its \<^verbatim>\<open>error\<close> member. JSON is never to be stored by a cache nor sniffed. The line of the log
  is the method, the path without the query, the status that was sent, the duration and the id, and nothing else.
\<close>

theorem replies_carry_request_id:
  assumes "serve x k wi mo req a = Some ((rep, line, job), a')"
  shows "hdr_get ''X-Request-Id'' (re_headers rep) = request_rid mo req \<and>
     line = [Plain ''method'' (hr_method req), Plain ''path'' (url_path req), Plain ''status'' (nat_str (re_status rep)),
             Plain ''durMs'' (format_int (wi_dur wi)), Plain ''requestId'' (request_rid mo req)] \<and>
     (\<forall>j. re_body rep = JsonBody j \<longrightarrow>
        json_carries (request_rid mo req) j \<and> hdr_get ''Cache-Control'' (re_headers rep) = ''no-store'' \<and>
        hdr_get ''X-Content-Type-Options'' (re_headers rep) = ''nosniff'')"
proof -
  from assms obtain ans where "handle x k mo req a = Some ((ans, job), a')" by (auto simp: serve_def split: option.splits)
  from serve_good [OF this, of wi] assms show ?thesis by (auto simp: good_reply_def access_line_def)
qed

text \<open>
  C34: Error. A client learns nothing of an error inside the server but that there was one: whatever statement,
  file or call fails in whatever handler, the reply with status 500 has the same body, or, for a static file that cannot be
  sought, the fixed text of the Go library. Every reply has one of seventeen statuses, those of ranges and conditions
  of static files among them.
\<close>

theorem internal_errors_hidden:
  assumes "serve x k wi mo req a = Some ((rep, line, job), a')"
  shows "List.member [200, 202, 204, 206, 301, 304, 400, 401, 403, 404, 405, 409, 412, 416, 429, 500, 502] (re_status rep) \<and>
     (re_status rep = 500 \<longrightarrow>
        re_body rep = JsonBody (JObj [(''error'', JObj
          [(''code'', JStr ''INTERNAL''), (''message'', JStr ''internal error''), (''requestId'', JStr (request_rid mo req))])]) \<or>
        (\<exists>name. wi_content wi name = Unseekable) \<and> re_body rep = Bytes (''seeker can't seek'' @ [CHR 0x0A]))"
proof -
  from assms obtain ans where "handle x k mo req a = Some ((ans, job), a')" by (auto simp: serve_def split: option.splits)
  from serve_good [OF this, of wi] assms show ?thesis
    by (auto simp: good_reply_def internal_body_def reply_statuses_def)
qed

text \<open>
  C35: Safety. In every state a server can reach, as long as files can be removed while the cache is emptied, a request
  that has been read is left without a reply only if it is an image request with a valid token that is not answered from
  the cache, while the image server, or the request it shares a download with, never answers (nothing limits that
  wait). In all other cases no handler panics, no loop goes on for ever, and the answer can be printed.
\<close>

theorem requests_replied:
  assumes "app_reach x k (a, js)" and "no_failure (mo_evict mo)" and "serve x k wi mo req a = None"
  shows "mo_hangs mo \<and> (\<exists>acc ws. mux (ap_admin a \<noteq> None) (hr_method req) (hr_path req) = To ImgFetch ws \<and>
     token_account x mo req a = Inr acc \<and> img_waits x mo ImgFetch req a)"
proof (rule requests_answered [OF assms(1,2)])
  show "handle x k mo req a = None"
  proof (rule ccontr)
    assume "handle x k mo req a \<noteq> None"
    then obtain ans job a' where "handle x k mo req a = Some ((ans, job), a')" by fastforce
    from serve_good [OF this, of wi] assms(3) show False by auto
  qed
qed

definition ex_wire :: wire where
  "ex_wire = \<lparr>wi_num = Some, wi_float = (\<lambda>_. ''0''), wi_raw = ex_unmarshal, wi_uptime = 0, wi_dur = 0, wi_content = (\<lambda>_. WholeFile)\<rparr>"

text \<open>A device token while the table of the devices cannot be read.\<close>

definition ex_broken :: moment where "ex_broken = ex_moment\<lparr>mo_auth := (\<lambda>st. st = LookupAccess)\<rparr>"

definition ex_device_call :: request where
  "ex_device_call = (ex_call ''GET'' ''/sync/v1/pull'' [])\<lparr>hr_headers := [(''Authorization'', ''Bearer at_1''), (''X-Request-Id'', ''r1'')]\<rparr>"

lemma ex_broken_500:
  "case serve ex_flow_platform ex_flow_codecs ex_wire ex_broken ex_device_call ex_app of
     Some ((rep, line, job), a') \<Rightarrow> re_status rep = 500 | None \<Rightarrow> False"
  by code_simp

theorem replies_carry_request_id_witness:
  "\<exists>rep line job a'. serve ex_flow_platform ex_flow_codecs ex_wire ex_broken ex_device_call ex_app = Some ((rep, line, job), a') \<and>
     hdr_get ''X-Request-Id'' (re_headers rep) = ''r1''"
proof -
  obtain rep line job a' where s: "serve ex_flow_platform ex_flow_codecs ex_wire ex_broken ex_device_call ex_app = Some ((rep, line, job), a')"
    using ex_broken_500 by (auto split: option.splits)
  have "request_rid ex_broken ex_device_call = ''r1''" by code_simp
  with s replies_carry_request_id [OF s] show ?thesis by auto
qed

theorem internal_errors_hidden_witness:
  "\<exists>rep line job a'. serve ex_flow_platform ex_flow_codecs ex_wire ex_broken ex_device_call ex_app = Some ((rep, line, job), a') \<and>
     re_status rep = 500 \<and> re_body rep = JsonBody (internal_body ''r1'')"
proof -
  obtain rep line job a' where s: "serve ex_flow_platform ex_flow_codecs ex_wire ex_broken ex_device_call ex_app = Some ((rep, line, job), a')"
      "re_status rep = 500"
    using ex_broken_500 by (auto split: option.splits)
  have "request_rid ex_broken ex_device_call = ''r1''" by code_simp
  with s internal_errors_hidden [OF s(1)] show ?thesis by (auto simp: internal_body_def ex_wire_def)
qed

theorem requests_replied_witness:
  "\<exists>a rep line job a'. app_reach ex_platform ex_codecs (a, []) \<and>
     serve ex_platform ex_codecs ex_wire ex_moment ex_http a = Some ((rep, line, job), a')"
proof -
  obtain a where a: "app_reach ex_platform ex_codecs (a, [])" using ex_running by blast
  have "no_failure (mo_evict ex_moment)" "\<not> mo_hangs ex_moment" by (simp_all add: no_failure_def ex_moment_def)
  with requests_replied [OF a, of ex_moment ex_wire ex_http]
  have "serve ex_platform ex_codecs ex_wire ex_moment ex_http a \<noteq> None" by blast
  with a show ?thesis by fastforce
qed

section \<open>A watermark that is not a number\<close>

text \<open>
  The administrator can store \<^verbatim>\<open>NaN\<close> as the watermark of the cache. It cannot be printed as JSON, so that the settings
  are answered with 500 from then on, the answer to the change that stored it included.
\<close>

lemma nan_watermark_hides_settings:
  assumes "resolve pf fail env rows key_cache_mark = Some (SFloat NaN, src)"
  shows "\<exists>rep. print_answer wi h rid (SettingsInfo (resolve_all pf fail env rows)) = Some rep \<and> re_status rep = 500"
proof -
  have mem: "(key_cache_mark, SFloat NaN, src) \<in> set (resolve_all pf fail env rows)"
    using assms by (force simp: resolve_all_def List.map_filter_def setting_defs_def)
  have "settings_json ft xs = None" if "(key, SFloat NaN, src) \<in> set xs" for key ft xs
    using that by (induction xs) (auto simp: settings_json_def split: option.split)
  from this [OF mem] show ?thesis
    by (simp add: send_def write_json_def json_reply_def write_error_def write_raw_def new_error_def)
qed

end
