(* ===== verification/SyncFlow.thy ===== *)
theory SyncFlow
  imports SyncPull
begin

text \<open>
  A push of one device and the pull of another: what the second one is given is what the first one
  has pushed, item by item, through encryption, storage and decryption.
\<close>

section \<open>Lists ordered by a number\<close>

lemma strict_map_unique:
  assumes "sorted_wrt (<) (map (f :: 'a \<Rightarrow> int) xs)" and "sorted_wrt (<) (map f ys)" and "set xs = set ys"
  shows "xs = ys"
proof -
  have "map f xs = map f ys"
    using assms by (intro sorted_distinct_set_unique) (simp_all add: strict_sorted_iff)
  moreover have "inj_on f (set xs \<union> set ys)" using assms(1,3) by (simp add: strict_sorted_iff distinct_map)
  ultimately show ?thesis by (rule map_inj_on)
qed

lemma new_rows_strict:
  assumes "\<And>j. i \<le> j \<Longrightarrow> j < i + length its \<Longrightarrow> is_int64 (base + int j)"
  shows "sorted_wrt (<) (map se_seq (new_rows c nonces a d base i its))"
  using assms
proof (induction its arbitrary: i)
  case Nil
  then show ?case by simp
next
  case (Cons it its)
  have "wrap64 (base + int i) < se_seq e" if "e \<in> set (new_rows c nonces a d base (Suc i) its)" for e
  proof -
    from in_new_rowsD [OF that] obtain j x where "Suc i \<le> j" "j < Suc i + length its"
      and "e = entry_of c (nonces j) a d (wrap64 (base + int j)) x" by blast
    with Cons.prems [of j] Cons.prems [of i] show ?thesis by simp
  qed
  moreover have "sorted_wrt (<) (map se_seq (new_rows c nonces a d base (Suc i) its))"
    by (rule Cons.IH) (use Cons.prems in auto)
  ultimately show ?case by auto
qed

section \<open>What a push leaves to be pulled\<close>

text \<open>A client is up to date at \<open>from\<close> when no entry of the domain has a greater number.\<close>

definition up_to_date :: "sync_state \<Rightarrow> int \<Rightarrow> string \<Rightarrow> int \<Rightarrow> bool" where
  "up_to_date s acc dmn from \<longleftrightarrow>
     from \<le> token_level (cursors s) acc dmn \<and> (\<forall>e \<in> set (entries s). in_domain acc dmn e \<longrightarrow> se_seq e \<le> from)"

lemma push_locked_rows:
  assumes inv: "sync_inv s" and acc: "is_int64 acc" and room: "room (cursors s) acc dmn (length items) now"
    and dist: "distinct (map pi_key items)" and seen: "up_to_date s acc dmn from"
    and step: "push_locked fail c nonces r acc dmn items now s = (Inr resp, s')"
  shows "\<exists>base. domain_rows acc dmn from (entries s') =
     new_rows c nonces acc dmn base 0 (filter (wins (entries s) acc dmn) items)"
proof -
  let ?its = "filter (wins (entries s) acc dmn) items"
  obtain base tok cur' where
    next_eq: "token_next (cursors s) acc dmn (length ?its) now r = ((base, tok), cur')"
    and es': "entries s' = prune_tombstones acc dmn (wrap64 (now - retention_ms))
         (fold (tbl_replace entry_key) (new_rows c nonces acc dmn base 0 ?its) (entries s))"
    by (rule push_locked_ok [OF step]) blast
  let ?rows = "new_rows c nonces acc dmn base 0 ?its"
  have rm: "room (cursors s) acc dmn (length ?its) now" by (rule room_mono [OF room]) simp
  note seq = new_rows_seq [OF rm next_eq _ refl]
  have fits: "is_int64 (base + int j)" if "j < length ?its" for j
    using tokens.alloc_fresh [OF rm next_eq that] token_level_range [of "cursors s" acc dmn] token_level_range [of cur' acc dmn]
    by (auto simp: is_int64_def)
  have old: "e \<in> set ?rows" if "e \<in> set (entries s')" "in_domain acc dmn e" "from < se_seq e" for e
  proof -
    from that(1) es' have "e \<in> set ?rows \<or> e \<in> set (entries s)"
      by (auto simp: prune_tombstones_def dest: set_fold_replace)
    with seen that(2,3) show ?thesis by (fastforce simp: up_to_date_def)
  qed
  have new: "e \<in> set (entries s') \<and> in_domain acc dmn e \<and> from < se_seq e" if e: "e \<in> set ?rows" for e
  proof -
    from in_new_rowsD [OF e] obtain j it where it: "j < length ?its" "it \<in> set ?its"
      and ej: "e = entry_of c (nonces j) acc dmn (wrap64 (base + int j)) it" by auto
    from find_new_row [OF distinct_map_filter [OF dist] it(2), of acc dmn c nonces base 0] obtain i where
      i: "List.find (\<lambda>e. entry_key e = (acc, dmn, pi_key it)) (rev ?rows) =
        Some (entry_of c (nonces i) acc dmn (wrap64 (base + int i)) it)" (is "_ = Some ?e") by auto
    then have "?e \<in> set ?rows" by (metis find_SomeD set_rev)
    moreover have "entry_key ?e = entry_key e" by (simp add: ej)
    moreover have "inj_on entry_key (set ?rows)"
    proof -
      have "distinct (map entry_key ?rows)"
        using distinct_map_filter [OF dist] by (simp add: distinct_map inj_on_def)
      then show ?thesis by (simp only: distinct_map)
    qed
    ultimately have same: "?e = e" using e by (meson inj_onD)
    have "tbl_find entry_key (acc, dmn, pi_key it) (entries s') = Some e"
      unfolding es' prune_tombstones_def cutoff_int64 [OF rm]
      using i same seq [OF e] by (simp add: tbl_find_delete tbl_unique_fold_replace sync_invD(1) [OF inv]
          tbl_find_fold_replace expired_tombstone_def retention_ms_def)
    then have "e \<in> set (entries s')" by (auto dest: tbl_find_SomeD)
    with seq [OF e] ej seen show ?thesis by (simp add: in_domain_def entry_of_def up_to_date_def)
  qed
  have "tbl_unique seq_key (entries s')"
    by (rule sync_invD(2) [OF push_locked_inv [OF inv acc room step]])
  have "domain_rows acc dmn from (entries s') = ?rows"
  proof (rule strict_map_unique)
    show "sorted_wrt (<) (map se_seq (domain_rows acc dmn from (entries s')))"
      by (rule domain_rows_strict) fact
    show "sorted_wrt (<) (map se_seq ?rows)" by (rule new_rows_strict) (use fits in simp)
    show "set (domain_rows acc dmn from (entries s')) = set ?rows" using old new by auto
  qed
  then show ?thesis ..
qed

text \<open>What a client makes of an item it has pushed, and of the row that stores it.\<close>

definition pulled_as :: "push_item \<Rightarrow> pull_item" where
  "pulled_as it = \<lparr>li_key = pi_key it, li_data = pi_data it, li_updated = pi_updated it, li_deleted = pi_deleted it\<rparr>"

lemma pull_new_rows:
  assumes "\<And>i. cipher_ok c (nonces i)" and "\<And>it. it \<in> set its \<Longrightarrow> storable c (pi_data it)"
  shows "pull_items c (new_rows c nonces a d base i its) = Inr (map pulled_as its)"
  using assms(2) by (induction its arbitrary: i) (simp_all add: pull_item_of_def decrypt_encrypt assms(1) pulled_as_def)

lemma token_next_current:
  "token_next cur acc dmn n now r = ((base, tok), cur') \<Longrightarrow> token_current cur' acc dmn = tok"
  by (auto simp: token_current_def token_next_def Let_def)

lemma push_locked_current:
  assumes "push_locked fail c nonces r acc dmn items now s = (Inr resp, s')"
  shows "token_current (cursors s') acc dmn = ps_token resp"
  by (rule push_locked_ok [OF assms]) (simp add: token_next_current)

lemma push_then_pull:
  assumes "sync_inv s" and "is_int64 acc"
    and "room (cursors s) acc (pr_domain req) (length (pr_items req)) now"
    and check: "push_check unm ul (cursors s) acc req now = Inr items"
    and "distinct (map pi_key items)" and "up_to_date s acc (pr_domain req) from"
    and push: "push unm ul fail c nonces r acc req now s = (Inr resp, s')"
    and "\<And>i. cipher_ok c (nonces i)" and "\<And>it. it \<in> set items \<Longrightarrow> storable c (pi_data it)"
    and since: "pull_since since now' = Inr from" and "length items \<le> limit"
  shows "pull True c r' acc (pr_domain req) since limit now' s' =
     Inr \<lparr>ls_items = map pulled_as (filter (wins (entries s) acc (pr_domain req)) items),
         ls_token = ps_token resp, ls_more = False\<rparr>"
proof -
  let ?its = "filter (wins (entries s) acc (pr_domain req)) items"
  have step: "push_locked fail c nonces r acc (pr_domain req) items now s = (Inr resp, s')"
    using push check by (simp add: push_def)
  have room: "room (cursors s) acc (pr_domain req) (length items) now"
    using assms(3) by (simp add: push_check_length [OF check])
  obtain base where rows: "domain_rows acc (pr_domain req) from (entries s') = new_rows c nonces acc (pr_domain req) base 0 ?its"
    using push_locked_rows [OF assms(1,2) room assms(5,6) step] by blast
  have pulled: "pull_items c (domain_rows acc (pr_domain req) from (entries s')) = Inr (map pulled_as ?its)"
    unfolding rows by (rule pull_new_rows) (use assms(8,9) in auto)
  have dom: "valid_domain (pr_domain req)" using check by (auto simp: push_check_def split: if_splits)
  have "length (domain_rows acc (pr_domain req) from (entries s')) \<le> limit"
    using pull_items_length [OF pulled] assms(11) length_filter_le [of "wins (entries s) acc (pr_domain req)" items] by simp
  from pull_last_page [OF dom since pulled this] show ?thesis by (simp add: push_locked_current [OF step])
qed

end
