(* ===== verification/Flow.thy ===== *)
theory Flow
  imports SyncFlow SmallServer ReplyProps
begin

text \<open>
  What passes from one component to another through the running server: the requests of two devices of an
  account, and the way of a recovered image from the job through the query to the image relay.
\<close>

section \<open>Requests behind a token\<close>

lemma put_live_live [simp]: "put_live (live a) a = a"
  by (simp add: put_live_def live_def)

lemma put_live_setup [simp]:
  "ap_enc (put_live p a) = ap_enc a" "ap_img_hosts (put_live p a) = ap_img_hosts a" "ap_shared (put_live p a) = ap_shared a"
  by (simp_all add: put_live_def)

lemma token_guard_put:
  assumes "token_guard x mo h rid ep req a = (r, b)"
  shows "\<exists>p. b = put_live p a"
proof (cases "token_account x mo req a")
  case (Inl e)
  with assms have "b = put_live (live a) a" by (simp add: token_guard_def)
  then show ?thesis ..
next
  case (Inr acc)
  obtain v c where v: "(if ep = ImgFetch then limit_img else limit_write) x mo h rid acc a = (v, c)" by fastforce
  show ?thesis
  proof (cases "ep = SyncPull")
    case True
    with Inr assms have "b = put_live (live a) a" by (simp add: token_guard_def)
    then show ?thesis ..
  next
    case False
    with Inr assms v have "b = c" by (auto simp: token_guard_def split: sum.splits)
    with v show ?thesis by (auto simp: limit_write_def limit_img_def apsnd_eq split: if_splits)
  qed
qed

text \<open>
  A request with a valid token is either refused, by the limiter, or served on a state that differs in the limiters only.
\<close>

lemma handle_token:
  assumes "mux (ap_admin a \<noteq> None) (hr_method req) (hr_path req) = To ep ws" and "ep \<in> set token_endpoints"
    and "token_account x mo req a = Inr acc" and "handle x k mo req a = Some ((ans, job), a')"
  shows "(\<exists>r. ans = Refused r) \<or>
     (\<exists>h rid p started. same_data a (put_live p a) \<and>
        serve_token x k mo h rid ep ws req acc (put_live p a) = ((ans, started), a'))"
proof -
  from handle_routed [OF assms(1)] obtain h rid where d: "dispatch x k mo h rid ep ws req a = Some ((ans, job), a')"
    using assms(4) by metis
  obtain g b where g: "token_guard x mo h rid ep req a = (g, b)" by fastforce
  from token_guard_put [OF g] obtain p where b: "b = put_live p a" ..
  note data = token_guard_data [OF g, unfolded b]
  note step = dispatch_behind_token [OF assms(2), of x k mo h rid ws req a, unfolded g]
  show ?thesis
  proof (cases g)
    case (Inl resp)
    with step d show ?thesis by simp
  next
    case (Inr i)
    then have "i = acc" using token_guard_account [OF g [unfolded Inr]] assms(3) by simp
    obtain r st c where s: "serve_token x k mo h rid ep ws req i b = ((r, st), c)" by (metis surj_pair)
    with step d Inr have "r = ans" "c = a'" by (simp_all split: if_splits)
    with s data \<open>i = acc\<close> b show ?thesis by blast
  qed
qed

section \<open>Two devices\<close>

lemma serve_push:
  assumes "serve_token x k mo h rid SyncPush ws req acc b = ((Pushed resp, started), a')"
  shows "\<exists>sy. push_handler (k_push k) (k_unmarshal k) (x_ul x) (mo_sql mo) (ap_enc b) (mo_nonces mo) (mo_rnd mo) acc
       (hr_body req) (mo_ms mo) (ad_sync (ap_state b)) = (Inr resp, sy) \<and> a' = put_sync sy b"
  using assms by (auto simp: serve_token_def answer_sum_def split: prod.splits sum.splits)

lemma serve_pull:
  assumes "serve_token x k mo h rid SyncPull ws req acc b = ((ans, started), a')"
  shows "a' = b \<and> ans = answer_sum h rid Pulled (pull_handler (mo_pull_ok mo) (ap_enc b) (mo_rnd mo) acc
     (query_get ''domain'' (hr_query req)) (query_get ''since'' (hr_query req)) (query_get ''limit'' (hr_query req))
     (mo_ms mo) (ad_sync (ap_state b)))"
  using assms by (auto simp: serve_token_def)

lemma pull_never_refused:
  assumes "mux (ap_admin a \<noteq> None) (hr_method req) (hr_path req) = To SyncPull ws" and "token_account x mo req a = Inr acc"
  shows "\<exists>h rid. handle x k mo req a = Some ((answer_sum h rid Pulled (pull_handler (mo_pull_ok mo) (ap_enc a) (mo_rnd mo) acc
     (query_get ''domain'' (hr_query req)) (query_get ''since'' (hr_query req)) (query_get ''limit'' (hr_query req))
     (mo_ms mo) (ad_sync (ap_state a))), None), a)"
proof -
  obtain h rid where "handle x k mo req a = dispatch x k mo h rid SyncPull ws req a" using handle_routed [OF assms(1)] by blast
  then show ?thesis using assms(2) by (auto simp: dispatch_def token_guard_def serve_token_def img_waits_def)
qed

lemma push_then_pull_answer:
  assumes "sync_inv (ad_sync (ap_state a))" and "sane x mo req a"
    and "mux (ap_admin a \<noteq> None) (hr_method req) (hr_path req) = To SyncPush ws" and "token_account x mo req a = Inr acc"
    and "handle x k mo req a = Some ((Pushed resp, job), a')"
    and "decode_json (k_push k) (hr_body req) = Inr pr"
    and "push_check (k_unmarshal k) (x_ul x) (cursors (ad_sync (ap_state a))) acc pr (mo_ms mo) = Inr items"
    and "distinct (map pi_key items)" and "\<forall>it \<in> set items. storable (ap_enc a) (pi_data it)"
    and "\<forall>i. cipher_ok (ap_enc a) (mo_nonces mo i)"
    and "mux (ap_admin a' \<noteq> None) (hr_method req') (hr_path req') = To SyncPull ws'" and "token_account x mo' req' a' = Inr acc"
    and "query_get ''domain'' (hr_query req') = pr_domain pr" and "mo_pull_ok mo'"
    and "pull_since (query_get ''since'' (hr_query req')) (mo_ms mo') = Inr from"
    and "up_to_date (ad_sync (ap_state a)) acc (pr_domain pr) from"
    and "int (length items) \<le> parse_limit (query_get ''limit'' (hr_query req'))"
  shows "handle x k mo' req' a' = Some ((Pulled
     \<lparr>ls_items = map pulled_as (filter (wins (entries (ad_sync (ap_state a))) acc (pr_domain pr)) items),
      ls_token = ps_token resp, ls_more = False\<rparr>, None), a')"
proof -
  let ?sy = "ad_sync (ap_state a)"
  obtain h rid p started where data: "same_data a (put_live p a)"
    and serve: "serve_token x k mo h rid SyncPush ws req acc (put_live p a) = ((Pushed resp, started), a')"
    using handle_token [OF assms(3) _ assms(4,5)] by (auto simp: token_endpoints_def)
  from serve_push [OF serve] obtain sy where
    pushed: "push_handler (k_push k) (k_unmarshal k) (x_ul x) (mo_sql mo) (ap_enc a) (mo_nonces mo) (mo_rnd mo) acc
       (hr_body req) (mo_ms mo) ?sy = (Inr resp, sy)" and a': "a' = put_sync sy (put_live p a)"
    by auto
  have dom: "required ''domain'' (pr_domain pr) = None" and pos: "pr_domain pr \<noteq> []" and few: "length (pr_items pr) \<le> max_push_items"
    using pushed assms(6,7) by (auto simp: push_handler_def push_check_def required_def split: option.splits if_splits)
  then have push: "push (k_unmarshal k) (x_ul x) (mo_sql mo) (ap_enc a) (mo_nonces mo) (mo_rnd mo) acc pr (mo_ms mo) ?sy = (Inr resp, sy)"
    using pushed assms(6) by (simp add: push_handler_def)
  have s: "is_int64 acc" "room (cursors ?sy) acc (pr_domain pr) (length (pr_items pr)) (mo_ms mo)"
    using assms(2,4) room_mono [OF _ few] by (auto simp: sane_def)
  have "length items \<le> nat (parse_limit (query_get ''limit'' (hr_query req')))" using assms(17) by simp
  note pull = push_then_pull [OF assms(1) s assms(7,8,16) push _ _ assms(15) this, of "mo_rnd mo'"]
  have "pull True (ap_enc a) (mo_rnd mo') acc (pr_domain pr) (query_get ''since'' (hr_query req'))
      (nat (parse_limit (query_get ''limit'' (hr_query req')))) (mo_ms mo') sy =
     Inr \<lparr>ls_items = map pulled_as (filter (wins (entries ?sy) acc (pr_domain pr)) items), ls_token = ps_token resp, ls_more = False\<rparr>"
    by (rule pull) (use assms(9,10) in auto)
  moreover have "ap_enc a' = ap_enc a" "ad_sync (ap_state a') = sy" by (simp_all add: a' put_sync_def)
  ultimately show ?thesis
    using pull_never_refused [OF assms(11,12), of k] assms(13,14) dom by (auto simp: pull_handler_def answer_sum_def)
qed

text \<open>
  A pulled item as JSON. Its data are the value that was pushed, with its numbers as \<^verbatim>\<open>float64\<close> (see \<open>reencode\<close>).
\<close>

definition item_on_wire :: "codecs \<Rightarrow> wire \<Rightarrow> push_item \<Rightarrow> json" where
  "item_on_wire k wi it =
     JObj [(''key'', JStr (pi_key it)), (''data'', the (reencode (wi_num wi) (the (k_unmarshal k (pi_data it))))),
           (''updatedAt'', the (reencode (wi_num wi) (jnum (pi_updated it)))), (''deleted'', JBool (pi_deleted it))]"

text \<open>
  What \<^verbatim>\<open>encoding/json\<close> promises: a text that decodes into \<^verbatim>\<open>any\<close> is a raw message, its numbers are in range, and so
  are the integers the server writes.
\<close>

definition wire_lawful :: "codecs \<Rightarrow> wire \<Rightarrow> bool" where
  "wire_lawful k wi \<longleftrightarrow>
     (\<forall>t v. k_unmarshal k t = Some v \<longrightarrow> wi_raw wi t = Some v \<and> reencode (wi_num wi) v \<noteq> None) \<and>
     (\<forall>i. wi_num wi (format_int i) \<noteq> None)"

lemma items_on_wire:
  assumes "wire_lawful k wi" and "\<forall>it \<in> set its. k_unmarshal k (pi_data it) \<noteq> None"
  shows "\<exists>js. those (map (item_json (wi_raw wi)) (map pulled_as its)) = Some js \<and>
     reencode_list (wi_num wi) js = Some (map (item_on_wire k wi) its)"
  using assms(2)
proof (induction its)
  case Nil
  then show ?case by simp
next
  case (Cons it its)
  then obtain v js where v: "k_unmarshal k (pi_data it) = Some v"
    and js: "those (map (item_json (wi_raw wi)) (map pulled_as its)) = Some js"
      "reencode_list (wi_num wi) js = Some (map (item_on_wire k wi) its)" by auto
  obtain v' where raw: "wi_raw wi (pi_data it) = Some v" "reencode (wi_num wi) v = Some v'"
    using assms(1) v unfolding wire_lawful_def by blast
  obtain n where n: "wi_num wi (format_int (pi_updated it)) = Some n"
    using assms(1) unfolding wire_lawful_def by blast
  obtain j where "item_json (wi_raw wi) (pulled_as it) = Some j" "reencode (wi_num wi) j = Some (item_on_wire k wi it)"
    using raw n v by (simp add: item_json_def pulled_as_def item_on_wire_def jnum_def)
  with js show ?case by simp
qed

text \<open>
  C36: Roundtrip. What one device pushes is what another device of the account pulls. When a push is accepted
  and the other device, which was up to date before, pulls next with its own token, it gets exactly the items
  that were not older than the stored ones, in the order of the push, with the keys, times, deletion
  marks and data that were pushed, through encryption at rest and back, up to the rounding of numbers to \<^verbatim>\<open>float64\<close>; and
  the token the push returned, with nothing more to come.
\<close>

theorem push_reaches_other_device:
  assumes "sync_inv (ad_sync (ap_state a))" and "sane x mo req a"
    and "mux (ap_admin a \<noteq> None) (hr_method req) (hr_path req) = To SyncPush ws" and "token_account x mo req a = Inr acc"
    and "handle x k mo req a = Some ((Pushed resp, job), a')"
    and "decode_json (k_push k) (hr_body req) = Inr pr"
    and "push_check (k_unmarshal k) (x_ul x) (cursors (ad_sync (ap_state a))) acc pr (mo_ms mo) = Inr items"
    and "distinct (map pi_key items)" and "\<forall>it \<in> set items. storable (ap_enc a) (pi_data it)"
    and "\<forall>i. cipher_ok (ap_enc a) (mo_nonces mo i)"
    and "mux (ap_admin a' \<noteq> None) (hr_method req') (hr_path req') = To SyncPull ws'" and "token_account x mo' req' a' = Inr acc"
    and "query_get ''domain'' (hr_query req') = pr_domain pr" and "mo_pull_ok mo'"
    and "pull_since (query_get ''since'' (hr_query req')) (mo_ms mo') = Inr from"
    and "up_to_date (ad_sync (ap_state a)) acc (pr_domain pr) from"
    and "int (length items) \<le> parse_limit (query_get ''limit'' (hr_query req'))"
    and "wire_lawful k wi"
  shows "\<exists>rep line. serve x k wi mo' req' a' = Some ((rep, line, None), a') \<and> re_status rep = 200 \<and>
     re_body rep = JsonBody (JObj
       [(''items'', JArr (map (item_on_wire k wi) (filter (wins (entries (ad_sync (ap_state a))) acc (pr_domain pr)) items))),
        (''syncToken'', JStr (ps_token resp)), (''hasMore'', JBool False), (''requestId'', JStr (request_rid mo' req'))])"
proof -
  let ?its = "filter (wins (entries (ad_sync (ap_state a))) acc (pr_domain pr)) items"
  have "\<forall>it \<in> set items. k_unmarshal k (pi_data it) \<noteq> None"
    using validated_item [OF push_check_validate [OF assms(7)]] by fastforce
  then obtain js where "those (map (item_json (wi_raw wi)) (map pulled_as ?its)) = Some js"
      "reencode_list (wi_num wi) js = Some (map (item_on_wire k wi) ?its)"
    using items_on_wire [OF assms(18), of ?its] by auto
  then show ?thesis
    using push_then_pull_answer [OF assms(1-17)]
    by (simp add: serve_def send_def pull_json_def write_json_def json_reply_def write_raw_def jset_def tbl_replace_def)
qed

section \<open>A recovered image\<close>

lemma img_request_route: "mux on ''GET'' ''/img/v1/fetch'' = To ImgFetch []"
proof -
  have "clean_path ''/img/v1/fetch'' = ''/img/v1/fetch''" "path_segments ''/img/v1/fetch'' = [''img'', ''v1'', ''fetch'']"
    by code_simp+
  then show ?thesis by (simp add: mux_def route_tables match_method_def)
qed

lemma img_query_url: "query_get ''url'' (img_query u) = u"
proof -
  have "list_all query_plain ''url''" by code_simp
  from query_get_single [OF _ this, of u] show ?thesis by (simp add: img_query_def)
qed

text \<open>What is in the cache is served from it, whatever the upstream server does.\<close>

lemma img_handler_hit:
  assumes "cache_lookup s (cache_key sha u) = Some (body, ct)" and "img_check uo ul hosts u = Inr host"
  shows "\<exists>r s'. img_handler sha uo ul hosts tr nw (\<lambda>_. False) disk now (img_query u) s = ((Img r, []), s') \<and>
     ir_status r = 200 \<and> ir_body r = body"
proof -
  let ?inline = "query_get ''disposition'' (img_query u) = ''inline''"
  from serve_hit_lookup [OF assms(1), of now ?inline] obtain r s' where
    "serve_hit (\<lambda>_. False) now (cache_key sha u) ?inline s = (Some r, s')" "ir_status r = 200" "ir_body r = body" by blast
  with assms(2) show ?thesis by (simp add: img_handler_def img_fetch_def img_query_url Let_def)
qed

lemma serve_img:
  assumes "serve_token x k mo h rid ImgFetch ws req acc b = ((ans, started), a')"
    and "img_handler (x_sha x) (x_uo x) (x_ul x) (ap_img_hosts b) (mo_img mo) (mo_net mo) (mo_cache mo)
           (mo_disk mo) (mo_ms mo) (hr_query req) (lp_cache (live b)) = ((r, qs), c)"
  shows "ans = Image r"
  using assms by (simp add: serve_token_def)

lemma serve_recover:
  assumes "serve_token x k mo h rid RecoverIllust ws req acc b = ((ans, started), a')"
    and "recover_query (mo_recover mo) (x_codec x) (ap_enc b) (ap_shared b) (mo_ms mo) acc (concat ws)
           (request_base (hr_tls req) (hr_host req)) (lp_recover (live b)) = ((r, st), rq)"
  shows "ans = Recovery r \<and> a' = put_recover rq b"
  using assms by (simp add: serve_token_def)

text \<open>
  Every request with a valid token for the address a recovered image is wrapped into is answered with 200 and
  \<open>body\<close>, if the host is allowed and no limiter refuses it. The network does not matter.
\<close>

definition image_served :: "('r, 'l, 'ip, 'net) platform \<Rightarrow> codecs \<Rightarrow> ('r, 'l, 'net) app \<Rightarrow> string \<Rightarrow> string \<Rightarrow> bool" where
  "image_served x k a u body \<longleftrightarrow>
     (\<forall>mo req acc host.
        hr_method req = ''GET'' \<and> hr_path req = ''/img/v1/fetch'' \<and> hr_query req = img_query u \<and>
        token_account x mo req a = Inr acc \<and> mo_cache mo = (\<lambda>_. False) \<and>
        img_check (x_uo x) (x_ul x) (ap_img_hosts a) u = Inr host \<longrightarrow>
        (\<exists>ans job a'. handle x k mo req a = Some ((ans, job), a') \<and>
           ((\<exists>r. ans = Refused r) \<or> (\<exists>r. ans = Image (Img r) \<and> ir_status r = 200 \<and> ir_body r = body))))"

lemma cached_image_served:
  assumes look: "cache_lookup (lp_cache (live a)) (cache_key (x_sha x) u) = Some (body, ct)"
  shows "image_served x k a u body"
  unfolding image_served_def
proof (intro allI impI, elim conjE)
  fix mo req acc host
  assume req: "hr_method req = ''GET''" "hr_path req = ''/img/v1/fetch''" "hr_query req = img_query u"
    and tok: "token_account x mo req a = Inr acc" and ok: "mo_cache mo = (\<lambda>_. False)"
    and chk: "img_check (x_uo x) (x_ul x) (ap_img_hosts a) u = Inr host"
  have route: "mux (ap_admin a \<noteq> None) (hr_method req) (hr_path req) = To ImgFetch []" by (simp add: req img_request_route)
  have hit: "\<exists>r c. img_handler (x_sha x) (x_uo x) (x_ul x) (ap_img_hosts (put_live p a)) (mo_img mo) (mo_net mo) (mo_cache mo)
      (mo_disk mo) (mo_ms mo) (hr_query req) (lp_cache (live (put_live p a))) = ((Img r, []), c) \<and> ir_status r = 200 \<and> ir_body r = body"
    if "same_data a (put_live p a)" for p
    using img_handler_hit [of "lp_cache (live (put_live p a))" "x_sha x" u body ct "x_uo x" "x_ul x" "ap_img_hosts a" host] that look chk
    by (simp add: same_data_def req(3) ok)
  have "handle x k mo req a \<noteq> None"
  proof -
    obtain h rid where h: "handle x k mo req a = dispatch x k mo h rid ImgFetch [] req a" using handle_routed [OF route] by blast
    obtain g b where g: "token_guard x mo h rid ImgFetch req a = (g, b)" by fastforce
    from token_guard_put [OF g] obtain p where b: "b = put_live p a" ..
    from hit [OF token_guard_data [OF g, unfolded b]] have "\<not> img_waits x mo ImgFetch req b" by (auto simp: img_waits_def b)
    then show ?thesis by (simp add: h dispatch_behind_token token_endpoints_def g case_prod_beta split: sum.split)
  qed
  then obtain ans job a' where h: "handle x k mo req a = Some ((ans, job), a')" by fastforce
  from handle_token [OF route _ tok h] consider "\<exists>r. ans = Refused r"
    | h rid p st where "same_data a (put_live p a)" "serve_token x k mo h rid ImgFetch [] req acc (put_live p a) = ((ans, st), a')"
    by (auto simp: token_endpoints_def)
  then have "(\<exists>r. ans = Refused r) \<or> (\<exists>r. ans = Image (Img r) \<and> ir_status r = 200 \<and> ir_body r = body)"
  proof cases
    case (2 h rid p st)
    from hit [OF 2(1)] serve_img [OF 2(2)] show ?thesis by blast
  qed simp
  with h show "\<exists>ans job a'. handle x k mo req a = Some ((ans, job), a') \<and>
      ((\<exists>r. ans = Refused r) \<or> (\<exists>r. ans = Image (Img r) \<and> ir_status r = 200 \<and> ir_body r = body))" by blast
qed

text \<open>
  C37: Functional. From the job to the browser, without \<^verbatim>\<open>RECOVER_SHARED\<close> and with statements and disk that work. When a recovery
  job has found pages, the next query of its account is answered with them before the result expires, each address
  wrapped into one of the image relay. For each page the cache has an image, which was there under its key before the
  job or is the whole body of a 200 answer with an image to the job's request for an address with this key; and every
  request with a valid token for the wrapped address is answered with these bytes, from the cache and whatever the
  network does, if the relay allows the host of the image (by default it does not allow the mirrors, see
  \<^verbatim>\<open>IMG_EXTRA_HOSTS\<close>) and no limiter refuses.
\<close>

theorem recovered_image_served:
  assumes "tbl_unique row_key (rq_rows (lp_recover (live a)))" and "cache_ready (lp_cache (live a))" and "\<not> ap_shared a"
    and "empties_ok (x_codec x)" and "is_numeric pid" and "\<forall>u. length (x_sha x u) = 32"
    and "disk_works env" and "se_sha env = x_sha x" and "ft_cache f = lp_cache (live a)"
    and "snap = load_snapshot (\<lambda>_. False) (x_codec x) (ap_enc a) (entries (ad_sync (ap_state a))) acc pid"
    and "try_sources env (ap_sources a) pid snap f = (Some (pages, src), f')"
    and "result_kept (x_codec x) (ap_enc a) nonces pages (snapshot_meta snap)"
    and "work (\<lambda>_. False) (x_codec x) (ap_enc a) nonces now env (ap_sources a) (entries (ad_sync (ap_state a))) acc pid
       (lp_recover (live a), f) = (rq, f')"
    and "a1 = put_cache (ft_cache f') (put_recover rq a)"
    and "mux (ap_admin a1 \<noteq> None) (hr_method req) (hr_path req) = To RecoverIllust [pid]" and "token_account x mo req a1 = Inr acc"
    and "mo_recover mo = (\<lambda>_. False)" and "mo_ms mo < wrap64 (now + rq_ttl (lp_recover (live a)))"
    and "handle x k mo req a1 = Some ((Recovery ans, job), a2)"
    and "is_int64 (cc_max_file (cs_cfg (lp_cache (live a))))"
  shows "ans = RecoverReady (map (wrap_page (request_base (hr_tls req) (hr_host req))) pages) src (JObj (snapshot_meta snap)) \<and>
     (\<forall>p \<in> set pages. \<exists>body ct. cache_lookup (ft_cache f') (cache_key (x_sha x) (pg_url p)) = Some (body, ct) \<and>
        (cache_lookup (lp_cache (live a)) (cache_key (x_sha x) (pg_url p)) = Some (body, ct) \<or>
         downloaded env (cache_key (x_sha x) (pg_url p)) body) \<and>
        image_served x k a2 (pg_url p) body)"
proof -
  have uniq: "tbl_unique row_key (rq_rows rq)"
  proof -
    have "rq = job_finish (\<lambda>_. False) (x_codec x) (ap_enc a) nonces now acc pid snap (Some (pages, src)) (lp_recover (live a))"
      using assms(13) unfolding work_def by (simp add: assms(10) [symmetric] assms(11))
    then show ?thesis using job_finish_edits assms(1) unfolding edits_row_def by metis
  qed
  have kept: "\<forall>ps sr. Some (pages, src) = Some (ps, sr) \<longrightarrow> result_kept (x_codec x) (ap_enc a) nonces ps (snapshot_meta snap)"
    using assms(12) by simp
  have told: "recover_query (\<lambda>_. False) (x_codec x) (ap_enc a) False (mo_ms mo) acc pid base rq =
      ((RecoverReady (map (wrap_page base) pages) src (JObj (snapshot_meta snap)), False), rq)" for base
    using work_then_query [OF assms(1,4,5,10,11) kept assms(13) refl uniq _ refl, of False "mo_ms mo" base] assms(18) by simp
  have stored: "\<exists>body ct. cache_lookup (ft_cache f') (cache_key (x_sha x) (pg_url p)) = Some (body, ct) \<and>
      (cache_lookup (lp_cache (live a)) (cache_key (x_sha x) (pg_url p)) = Some (body, ct) \<or>
       downloaded env (cache_key (x_sha x) (pg_url p)) body)" if "p \<in> set pages" for p
  proof -
    have "keeps_images env f f'" "has_image env f' (pg_url p)"
      using try_sources_effect [OF assms(11,7)] assms(2,6,8,9) that by (auto simp: sha_ok_def)
    moreover have "is_key (cache_key (x_sha x) (pg_url p))" using assms(6) by (simp add: cache_key_ok)
    ultimately show ?thesis using assms(8,9,20) by (fastforce simp: has_image_def keeps_images_def)
  qed
  obtain h rid p1 started where data: "same_data a1 (put_live p1 a1)"
    and serve: "serve_token x k mo h rid RecoverIllust [pid] req acc (put_live p1 a1) = ((Recovery ans, started), a2)"
    using handle_token [OF assms(15) _ assms(16,19)] by (auto simp: token_endpoints_def)
  let ?b = "put_live p1 a1"
  have b: "lp_recover (live ?b) = rq" "lp_cache (live ?b) = ft_cache f'" "ap_enc ?b = ap_enc a" "ap_shared ?b = False"
    using data assms(3) by (simp_all add: same_data_def assms(14) put_cache_def put_recover_def)
  have q: "recover_query (mo_recover mo) (x_codec x) (ap_enc ?b) (ap_shared ?b) (mo_ms mo) acc (concat [pid])
      (request_base (hr_tls req) (hr_host req)) (lp_recover (live ?b)) =
      ((RecoverReady (map (wrap_page (request_base (hr_tls req) (hr_host req))) pages) src (JObj (snapshot_meta snap)), False), rq)"
    unfolding b(1,3,4) assms(17) using told by simp
  note ans = serve_recover [OF serve q]
  have "lp_cache (live a2) = ft_cache f'" using ans b(2) by simp
  then have "\<exists>body ct. cache_lookup (ft_cache f') (cache_key (x_sha x) (pg_url p)) = Some (body, ct) \<and>
      (cache_lookup (lp_cache (live a)) (cache_key (x_sha x) (pg_url p)) = Some (body, ct) \<or>
       downloaded env (cache_key (x_sha x) (pg_url p)) body) \<and> image_served x k a2 (pg_url p) body"
    if "p \<in> set pages" for p
    using stored [OF that] cached_image_served [of a2 x "pg_url p" _ _ k] by fastforce
  with ans show ?thesis by simp
qed

lemma ex_flow_pushed:
  "\<exists>r job a'. handle ex_flow_platform ex_flow_codecs ex_moment (ex_call ''POST'' ''/sync/v1/push'' []) ex_app = Some ((Pushed r, job), a') \<and>
     ap_mw a' = ap_mw ex_app"
proof -
  have "case handle ex_flow_platform ex_flow_codecs ex_moment (ex_call ''POST'' ''/sync/v1/push'' []) ex_app of
      Some ((Pushed r, job), a') \<Rightarrow> ap_mw a' = ap_mw ex_app | _ \<Rightarrow> False"
    by code_simp
  then show ?thesis by (auto split: option.splits prod.splits answer.splits)
qed

lemma ex_flow_sane: "sane ex_flow_platform ex_moment (ex_call meth path query) ex_app"
  using ex_flow_token [of ex_app ex_moment meth path query]
  by (simp add: sane_def ex_moment_def) (simp add: ex_app_def ex_empty_def room_def token_level_def max_push_items_def
      is_int64_def min64_def max64_def)

lemma ex_wire_lawful: "wire_lawful ex_flow_codecs ex_wire"
  by (simp add: wire_lawful_def ex_wire_def ex_flow_codecs_def reencode_id)

theorem push_reaches_other_device_witness:
  "\<exists>r job a' rep line. handle ex_flow_platform ex_flow_codecs ex_moment (ex_call ''POST'' ''/sync/v1/push'' []) ex_app = Some ((Pushed r, job), a') \<and>
     serve ex_flow_platform ex_flow_codecs ex_wire ex_moment (ex_call ''GET'' ''/sync/v1/pull'' ''domain=mute'') a' = Some ((rep, line, None), a') \<and>
     re_body rep = JsonBody (JObj
       [(''items'', JArr [JObj [(''key'', JStr ''k''), (''data'', JObj []), (''updatedAt'', JNum ''5''), (''deleted'', JBool False)]]),
        (''syncToken'', JStr (ps_token r)), (''hasMore'', JBool False), (''requestId'', JStr ''id'')])"
proof -
  let ?push = "ex_call ''POST'' ''/sync/v1/push'' []" and ?pull = "ex_call ''GET'' ''/sync/v1/pull'' ''domain=mute''"
  let ?pr = "ex_request [ex_item ''k'' 5]"
  obtain r job a' where push: "handle ex_flow_platform ex_flow_codecs ex_moment ?push ex_app = Some ((Pushed r, job), a')"
    and mw: "ap_mw a' = ap_mw ex_app" using ex_flow_pushed by blast
  have sy: "ad_sync (ap_state ex_app) = ex_empty" by (simp add: ex_app_def)
  have inv: "sync_inv (ad_sync (ap_state ex_app))" using ex_empty_inv sy by simp
  have m1: "mux (ap_admin ex_app \<noteq> None) (hr_method ?push) (hr_path ?push) = To SyncPush []"
    by (simp add: ex_call_def ex_flow_routes)
  have dec: "decode_json (k_push ex_flow_codecs) (hr_body ?push) = Inr ?pr" by (simp add: decode_json_def ex_flow_codecs_def)
  have chk: "push_check (k_unmarshal ex_flow_codecs) (x_ul ex_flow_platform) (cursors (ad_sync (ap_state ex_app))) 1 ?pr (mo_ms ex_moment)
      = Inr [ex_item ''k'' 5]"
    using ex_check by (simp add: sy ex_flow_codecs_def ex_flow_platform_def ex_platform_def ex_moment_def)
  have keys: "distinct (map pi_key [ex_item ''k'' 5])" by simp
  have store: "\<forall>it \<in> set [ex_item ''k'' 5]. storable (ap_enc ex_app) (pi_data it)"
    by (simp add: storable_def ex_item_def has_prefix_def enc_prefix_def)
  have enc: "\<forall>i. cipher_ok (ap_enc ex_app) (mo_nonces ex_moment i)" by (simp add: cipher_ok_def ex_app_def)
  have m2: "mux (ap_admin a' \<noteq> None) (hr_method ?pull) (hr_path ?pull) = To SyncPull []"
    by (simp add: ex_call_def ex_flow_routes)
  have q: "query_get ''domain'' (hr_query ?pull) = pr_domain ?pr" "query_get ''since'' (hr_query ?pull) = []"
    "int (length [ex_item ''k'' 5]) \<le> parse_limit (query_get ''limit'' (hr_query ?pull))"
    by code_simp+
  have since: "pull_since (query_get ''since'' (hr_query ?pull)) (mo_ms ex_moment) = Inr (- 1)" by (simp add: q(2) pull_since_def)
  have up: "up_to_date (ad_sync (ap_state ex_app)) 1 (pr_domain ?pr) (- 1)"
    by (simp add: sy up_to_date_def ex_empty_def token_level_def)
  have ok: "mo_pull_ok ex_moment" by (simp add: ex_moment_def)
  have "filter (wins (entries (ad_sync (ap_state ex_app))) 1 (pr_domain ?pr)) [ex_item ''k'' 5] = [ex_item ''k'' 5]"
    by (simp add: sy wins_def ex_empty_def)
  moreover have "item_on_wire ex_flow_codecs ex_wire (ex_item ''k'' 5) =
      JObj [(''key'', JStr ''k''), (''data'', JObj []), (''updatedAt'', JNum ''5''), (''deleted'', JBool False)]"
    by code_simp
  moreover have "request_rid ex_moment ?pull = ''id''" by code_simp
  ultimately show ?thesis
    using push_reaches_other_device [OF inv ex_flow_sane m1 ex_flow_token [OF refl] push dec chk keys store enc m2
      ex_flow_token [OF mw] q(1) ok since up q(3) ex_wire_lawful] push
    by auto
qed


text \<open>The limiters of the small server let every request pass.\<close>

lemma ex_flow_answered:
  assumes "ap_mw a = ap_mw ex_app" and "ap_admin a = None"
    and route: "mux False meth path = To ep ws" "ep \<in> set token_endpoints" and "\<not> mo_hangs mo"
  shows "\<exists>h rid b ans st a'. same_data a b \<and> serve_token ex_flow_platform k mo h rid ep ws (ex_call meth path query) 1 b = ((ans, st), a') \<and>
     handle ex_flow_platform k mo (ex_call meth path query) a = Some ((ans, if st then Some (1, concat ws) else None), a')"
proof -
  let ?x = ex_flow_platform and ?req = "ex_call meth path query"
  have "mux (ap_admin a \<noteq> None) (hr_method ?req) (hr_path ?req) = To ep ws" using assms(2) route by (simp add: ex_call_def)
  from handle_routed [OF this] obtain h rid where h: "handle ?x k mo ?req a = dispatch ?x k mo h rid ep ws ?req a" by blast
  have "fst (limit_request (x_ops ?x) (x_retry ?x) h rid key now l) = Inr ()" for key now and l :: "(float64, unit) limiter"
    by (simp add: limit_request_def allow_def ex_flow_platform_def ex_platform_def Let_def)
  then have "\<exists>b. limit_write ?x mo h rid 1 a = (Inr (), b)" "\<exists>b. limit_img ?x mo h rid 1 a = (Inr (), b)"
    by (simp_all add: limit_write_def limit_img_def apsnd_eq)
  then obtain b where g: "token_guard ?x mo h rid ep ?req a = (Inr 1, b)"
    using ex_flow_token [OF assms(1), of mo meth path query] by (fastforce simp: token_guard_def)
  obtain ans st a' where s: "serve_token ?x k mo h rid ep ws ?req 1 b = ((ans, st), a')" by (metis surj_pair)
  have "dispatch ?x k mo h rid ep ws ?req a = Some ((ans, if st then Some (1, concat ws) else None), a')"
    using route(2) g s assms(5) by (simp add: dispatch_behind_token img_waits_def)
  with h s token_guard_data [OF g] show ?thesis by metis
qed

theorem recovered_image_served_witness:
  "\<exists>a1 a2 job body. handle ex_flow_platform ex_flow_codecs ex_moment (ex_call ''GET'' ''/recover/v1/illust/7'' []) a1 =
       Some ((Recovery (RecoverReady [wrap_page ''https://h'' ex_page] ''m'' (JObj [])), job), a2) \<and>
     image_served ex_flow_platform ex_flow_codecs a2 ''https://m/7.jpg'' body"
proof -
  let ?x = ex_flow_platform and ?k = ex_flow_codecs and ?req = "ex_call ''GET'' ''/recover/v1/illust/7'' []"
  have x: "x_codec ?x = ex_codec" "x_sha ?x = se_sha ex_world" by (simp_all add: ex_flow_platform_def)
  have a: "lp_recover (live ex_app) = ex_recover" "lp_cache (live ex_app) = ft_cache ex_start" "ap_enc ex_app = None"
      "ap_shared ex_app = False" "ap_sources ex_app = [ex_mirror_source]" "entries (ad_sync (ap_state ex_app)) = []"
    by (simp_all add: ex_app_def live_def ex_empty_def)
  obtain f' where f': "try_sources ex_world [ex_mirror_source] ''7'' None ex_start = (Some ([ex_page], ''m''), f')"
    using ex_found by (elim exE) (rule that)
  have snap: "None = load_snapshot (\<lambda>_. False) ex_codec None [] 1 ''7''" by (simp add: load_snapshot_def)
  obtain rq where w: "work (\<lambda>_. False) ex_codec None ([], []) 950 ex_world [ex_mirror_source] [] 1 ''7'' (ex_recover, ex_start) = (rq, f')"
    using f' by (simp add: work_def snap [symmetric])
  let ?a1 = "put_cache (ft_cache f') (put_recover rq ex_app)"
  have a1: "ap_mw ?a1 = ap_mw ex_app" "ap_admin ?a1 = None" "lp_recover (live ?a1) = rq" "ap_enc ?a1 = None" "ap_shared ?a1 = False"
    by (simp_all add: put_cache_def put_recover_def a put_live_def live_def) (simp add: ex_app_def)
  have route: "mux (ap_admin ?a1 \<noteq> None) (hr_method ?req) (hr_path ?req) = To RecoverIllust [''7'']"
    by (simp add: ex_call_def ex_flow_routes)
  obtain h rid b ans st a2 where data: "same_data ?a1 b"
    and s: "serve_token ?x ?k ex_moment h rid RecoverIllust [''7''] ?req 1 b = ((ans, st), a2)"
    and hd: "handle ?x ?k ex_moment ?req ?a1 = Some ((ans, if st then Some (1, concat [''7'']) else None), a2)"
    using ex_flow_answered [OF a1(1,2) ex_flow_routes(3), of ex_moment ?k "[]"] by (auto simp: token_endpoints_def ex_moment_def)
  obtain r where ans: "ans = Recovery r" using s by (auto simp: serve_token_def split: prod.splits)
  have uniq: "tbl_unique row_key (rq_rows (lp_recover (live ex_app)))" by (simp add: a ex_recover_def)
  have ready: "cache_ready (lp_cache (live ex_app))" using ex_world_ok(3) by (simp add: a)
  have sha: "\<forall>u. length (x_sha ?x u) = 32" by (simp add: x ex_world_def)
  have kept: "result_kept (x_codec ?x) (ap_enc ex_app) ([], []) [ex_page] (snapshot_meta None)"
    using ex_codec_ok(2) by (simp add: x a snapshot_meta_def)
  have mo: "mo_recover ex_moment = (\<lambda>_. False)" "mo_ms ex_moment < wrap64 (950 + rq_ttl (lp_recover (live ex_app)))"
    by (simp_all add: ex_moment_def a ex_recover_def is_int64_def min64_def max64_def)
  have mx: "is_int64 (cc_max_file (cs_cfg (lp_cache (live ex_app))))"
    by (simp add: a ex_start_def ex_cfg_def is_int64_def min64_def max64_def)
  have main: "r = RecoverReady (map (wrap_page (request_base (hr_tls ?req) (hr_host ?req))) [ex_page]) ''m'' (JObj (snapshot_meta None)) \<and>
     (\<forall>p \<in> set [ex_page]. \<exists>body ct. cache_lookup (ft_cache f') (cache_key (x_sha ?x) (pg_url p)) = Some (body, ct) \<and>
        (cache_lookup (lp_cache (live ex_app)) (cache_key (x_sha ?x) (pg_url p)) = Some (body, ct) \<or>
         downloaded ex_world (cache_key (x_sha ?x) (pg_url p)) body) \<and>
        image_served ?x ?k a2 (pg_url p) body)"
    by (rule recovered_image_served [OF uniq ready _ _ ex_numeric sha ex_world_ok(1) _ _ _ _ kept _ refl route ex_flow_token [OF a1(1)] mo _ mx])
      (use f' w hd ans snap ex_codec_ok(1) in \<open>simp_all add: a x\<close>)
  have "request_base (hr_tls ?req) (hr_host ?req) = ''https://h''" by (simp add: ex_call_def request_base_def)
  with main hd ans show ?thesis by (auto simp: snapshot_meta_def) (auto simp: ex_page_def)
qed

end
