(* ===== verification/LimitProps.thy ===== *)
theory LimitProps
  imports App
begin

text \<open>
  Limits by key: who shares a bucket with whom. The key of a limit is the account, or the address of the client.
\<close>

section \<open>Buckets\<close>

text \<open>A sequence of requests, each a key and a time, through one limiter.\<close>

definition allow_all ::
  "('r, 'l) rate_ops \<Rightarrow> ('r \<Rightarrow> int) \<Rightarrow> (string \<times> int) list \<Rightarrow> ('r, 'l) limiter \<Rightarrow> ('r, 'l) limiter" where
  "allow_all ops retry_of calls l = fold (\<lambda>(k, t) l. snd (allow ops retry_of k t l)) calls l"

lemma allow_config:
  "l_rate (snd (allow ops retry_of k t l)) = l_rate l" "l_burst (snd (allow ops retry_of k t l)) = l_burst l"
  "l_ttl (snd (allow ops retry_of k t l)) = l_ttl l"
  by (simp_all add: allow_def sweep_def Let_def split: prod.split)

lemma allow_other_bucket:
  assumes "tbl_find b_key k (l_buckets l) = Some b" and "k' \<noteq> k" and "t \<le> b_last b + l_ttl l" and "tbl_unique b_key (l_buckets l)"
  shows "tbl_find b_key k (l_buckets (snd (allow ops retry_of k' t l))) = Some b"
  using assms by (auto simp: allow_def sweep_def Let_def tbl_find_delete tbl_find_replace split: prod.split)

lemma allow_unique [keeps_inv]: "tbl_unique b_key (l_buckets l) \<Longrightarrow> tbl_unique b_key (l_buckets (snd (allow ops retry_of k t l)))"
  by (auto simp: allow_def sweep_def Let_def intro!: keeps_inv split: prod.split)

lemma allow_no_bucket:
  "tbl_find b_key k (l_buckets l) = None \<Longrightarrow> k' \<noteq> k \<Longrightarrow> tbl_find b_key k (l_buckets (snd (allow ops retry_of k' t l))) = None"
  by (auto simp: allow_def sweep_def Let_def tbl_find_replace tbl_find_None_iff tbl_delete_def tbl_replace_def split: prod.split)

text \<open>The bucket of a key is in use at \<open>t\<close>, or the key has none.\<close>

definition kept_until :: "string \<Rightarrow> int \<Rightarrow> ('r, 'l) limiter \<Rightarrow> bool" where
  "kept_until k t l \<longleftrightarrow> (case tbl_find b_key k (l_buckets l) of None \<Rightarrow> True | Some b \<Rightarrow> t \<le> b_last b + l_ttl l)"

lemma allow_all_keeps:
  assumes "tbl_unique b_key (l_buckets l)" and "\<forall>(k', t) \<in> set calls. k' \<noteq> k \<and> kept_until k t l"
  shows "tbl_find b_key k (l_buckets (allow_all ops retry_of calls l)) = tbl_find b_key k (l_buckets l) \<and>
     tbl_unique b_key (l_buckets (allow_all ops retry_of calls l)) \<and>
     l_rate (allow_all ops retry_of calls l) = l_rate l \<and> l_burst (allow_all ops retry_of calls l) = l_burst l \<and>
     l_ttl (allow_all ops retry_of calls l) = l_ttl l"
  using assms
proof (induction calls arbitrary: l)
  case Nil
  then show ?case by (simp add: allow_all_def)
next
  case (Cons call calls)
  obtain k' t where call: "call = (k', t)" by (cases call)
  let ?l = "snd (allow ops retry_of k' t l)"
  have find: "tbl_find b_key k (l_buckets ?l) = tbl_find b_key k (l_buckets l)"
    using Cons.prems call allow_other_bucket [of k l _ k' t] allow_no_bucket [of k l k']
    by (auto simp: kept_until_def split: option.splits)
  have "kept_until k t' ?l = kept_until k t' l" for t' by (simp add: kept_until_def find allow_config split: option.split)
  with Cons.prems have "\<forall>(k', t) \<in> set calls. k' \<noteq> k \<and> kept_until k t ?l" by simp
  from Cons.IH [OF allow_unique [OF Cons.prems(1)] this] show ?case
    by (simp add: call allow_all_def find allow_config)
qed

text \<open>The verdict depends on the bucket of the key and on the rate.\<close>

lemma fst_allow:
  "fst (allow ops retry_of k now l) =
     (let lim = (case tbl_find b_key k (l_buckets (if length (l_buckets l) > 1024 then sweep now l else l)) of
                   None \<Rightarrow> rl_new ops (l_rate l) (l_burst l) | Some b \<Rightarrow> b_lim b)
      in if fst (rl_allow ops now lim) then (True, 0) else (False, max 1 (retry_of (l_rate l))))"
  by (auto simp: allow_def sweep_def Let_def split: prod.split option.split)

lemma allow_verdict:
  assumes "tbl_find b_key k (l_buckets l') = tbl_find b_key k (l_buckets l)" and "kept_until k now l"
    and "tbl_unique b_key (l_buckets l)" and "tbl_unique b_key (l_buckets l')"
    and "l_rate l' = l_rate l" and "l_burst l' = l_burst l" and "l_ttl l' = l_ttl l"
  shows "fst (allow ops retry_of k now l') = fst (allow ops retry_of k now l)"
proof -
  have swept: "tbl_find b_key k (l_buckets (if length (l_buckets x) > 1024 then sweep now x else x)) = tbl_find b_key k (l_buckets l)"
    if "x = l \<or> x = l'" for x
    using that assms by (auto simp: sweep_def kept_until_def tbl_find_delete split: option.split)
  show ?thesis using swept [of l] swept [of l'] assms(5,6) by (simp only: fst_allow simp_thms)
qed

section \<open>Isolation\<close>

text \<open>
  Safety. One client cannot use up the limit of another. Whatever requests with other keys come in between, a request is
  let through or refused, with the same time to wait, as if they had not come, as long as the bucket of its key
  is not idle for ten minutes; a limiter with more than 1024 keys, which drops idle buckets, makes no difference.
\<close>

theorem limiter_isolated:
  assumes "tbl_unique b_key (l_buckets l)" and "\<forall>(k', t) \<in> set calls. k' \<noteq> k \<and> kept_until k t l" and "kept_until k now l"
  shows "fst (allow ops retry_of k now (allow_all ops retry_of calls l)) = fst (allow ops retry_of k now l)"
  using allow_all_keeps [OF assms(1,2), of ops retry_of] assms by (intro allow_verdict) simp_all

text \<open>A bucket with a counter, which is enough of a token bucket here: one token, never refilled.\<close>

definition ex_ops :: "(unit, nat) rate_ops" where
  "ex_ops = \<lparr>rl_new = (\<lambda>_ _. 1), rl_allow = (\<lambda>_ n. (n > 0, n - 1)), rl_set_limit = (\<lambda>_ _ n. n), rl_set_burst = (\<lambda>_ _ n. n)\<rparr>"

definition ex_limiter :: "(unit, nat) limiter" where
  "ex_limiter = (new_limiter () 1)\<lparr>l_buckets := [\<lparr>b_key = ''1'', b_lim = 0, b_last = 10\<rparr>, \<lparr>b_key = ''2'', b_lim = 1, b_last = 10\<rparr>]\<rparr>"

theorem limiter_isolated_witness:
  "fst (allow ex_ops (\<lambda>_. 6) ''2'' 20 (allow_all ex_ops (\<lambda>_. 6) [(''1'', 15), (''3'', 16), (''1'', 17)] ex_limiter)) = (True, 0)"
proof -
  have l: "l_buckets ex_limiter = [\<lparr>b_key = ''1'', b_lim = 0, b_last = 10\<rparr>, \<lparr>b_key = ''2'', b_lim = 1, b_last = 10\<rparr>]"
      "l_ttl ex_limiter = 600000000000" by (simp_all add: ex_limiter_def new_limiter_def)
  have "tbl_unique b_key (l_buckets ex_limiter)" by (simp add: l tbl_unique_def)
  moreover have "kept_until ''2'' t ex_limiter" if "t \<le> 20" for t
    using that by (simp add: kept_until_def l tbl_find_def)
  ultimately have "fst (allow ex_ops (\<lambda>_. 6) ''2'' 20 (allow_all ex_ops (\<lambda>_. 6) [(''1'', 15), (''3'', 16), (''1'', 17)] ex_limiter)) =
      fst (allow ex_ops (\<lambda>_. 6) ''2'' 20 ex_limiter)"
    by (intro limiter_isolated) simp_all
  then show ?thesis by (simp add: fst_allow l tbl_find_def ex_ops_def)
qed

section \<open>Idle buckets\<close>

text \<open>With more than 1024 keys a bucket that has been idle for ten minutes is dropped and comes back full.\<close>

lemma idle_bucket_refilled:
  assumes "length (l_buckets l) > 1024" and "tbl_unique b_key (l_buckets l)"
    and "tbl_find b_key k (l_buckets l) = Some b" and "b_last b < now - l_ttl l"
  shows "fst (fst (allow ops retry_of k now l)) = fst (rl_allow ops now (rl_new ops (l_rate l) (l_burst l)))"
  using assms by (simp add: fst_allow sweep_def tbl_find_delete Let_def)

section \<open>The address of the client\<close>

text \<open>A client that is not behind a trusted proxy cannot choose its address by headers.\<close>

lemma untrusted_address:
  assumes "\<And>ip. parse_ip ops (case split_host_port ops remote of None \<Rightarrow> remote | Some h \<Rightarrow> h) = Some ip \<Longrightarrow>
     \<not> is_trusted_proxy ops nets ip"
  shows "client_ip ops nets remote xff xri = client_ip ops nets remote [] []"
  using assms by (auto simp: client_ip_def Let_def split: option.splits)

text \<open>
  Behind one it can, when the proxy appends the real address to the header instead of replacing it: the first
  address is taken, and that is the one the client has sent.
\<close>

lemma forwarded_address_forged:
  assumes "parse_ip ops (case split_host_port ops remote of None \<Rightarrow> remote | Some h \<Rightarrow> h) = Some ip"
    and "is_trusted_proxy ops nets ip" and "CHR '','' \<notin> set forged" and "trim_space forged \<noteq> []"
  shows "client_ip ops nets remote (forged @ '', '' @ addr) xri = trim_space forged"
proof -
  have "before_comma (forged @ '', '' @ addr) = forged"
    using assms(3) by (simp add: before_comma_def str_cut_append)
  with assms show ?thesis by (simp add: client_ip_def Let_def)
qed

end
