(* ===== verification/LimitBound.thy ===== *)
theory LimitBound
  imports LimitProps
begin

text \<open>
  How many requests of one client a limiter lets through, the dropping of idle buckets included.
\<close>

section \<open>Token buckets\<close>

text \<open>
  What the documentation of \<^verbatim>\<open>golang.org/x/time/rate\<close> says of a limiter: a bucket of size \<open>burst\<close> is filled with \<open>rho\<close>
  tokens per nanosecond, and \<^verbatim>\<open>Allow\<close> takes a token if there is one. \<open>tok l t\<close> are the tokens in the bucket at the time \<open>t\<close>.
\<close>

definition token_bucket :: "('r, 'l) rate_ops \<Rightarrow> int \<Rightarrow> rat \<Rightarrow> ('l \<Rightarrow> int \<Rightarrow> rat) \<Rightarrow> bool" where
  "token_bucket ops burst rho tok \<longleftrightarrow> 0 \<le> rho \<and>
     (\<forall>l t. 0 \<le> tok l t \<and> tok l t \<le> of_int burst) \<and>
     (\<forall>l t t'. t \<le> t' \<longrightarrow> tok l t' \<le> tok l t + rho * of_int (t' - t)) \<and>
     (\<forall>l t. tok (snd (rl_allow ops t l)) t \<le> tok l t - (if fst (rl_allow ops t l) then 1 else 0))"

lemma token_bucketD:
  assumes "token_bucket ops burst rho tok"
  shows "0 \<le> rho" and "0 \<le> tok l t" and "tok l t \<le> of_int burst"
    and "t \<le> t' \<Longrightarrow> tok l t' \<le> tok l t + rho * of_int (t' - t)"
    and "tok (snd (rl_allow ops t l)) t \<le> tok l t - of_bool (fst (rl_allow ops t l))"
  using assms by (simp_all add: token_bucket_def of_bool_def)

section \<open>Requests of one key\<close>

text \<open>The requests with the key \<open>k\<close> that are let through, of a sequence of requests with any keys.\<close>

fun let_through ::
  "('r, 'l) rate_ops \<Rightarrow> ('r \<Rightarrow> int) \<Rightarrow> string \<Rightarrow> (string \<times> int) list \<Rightarrow> ('r, 'l) limiter \<Rightarrow> nat" where
  "let_through ops retry_of k [] l = 0"
| "let_through ops retry_of k ((k', t) # calls) l =
     of_bool (k' = k \<and> fst (fst (allow ops retry_of k' t l))) + let_through ops retry_of k calls (snd (allow ops retry_of k' t l))"

definition bucket_of :: "string \<Rightarrow> ('r, 'l) limiter \<Rightarrow> 'l bucket option" where
  "bucket_of k l = tbl_find b_key k (l_buckets l)"

text \<open>A request with the key uses its bucket, or a new one when there is none or it has been dropped.\<close>

lemma allow_bucket:
  assumes "tbl_unique b_key (l_buckets l)"
  obtains lim where "bucket_of k (snd (allow ops retry_of k t l)) = Some \<lparr>b_key = k, b_lim = snd (rl_allow ops t lim), b_last = t\<rparr>"
    and "fst (fst (allow ops retry_of k t l)) = fst (rl_allow ops t lim)"
    and "(\<exists>b. bucket_of k l = Some b \<and> lim = b_lim b) \<or>
      lim = rl_new ops (l_rate l) (l_burst l) \<and> (\<forall>b. bucket_of k l = Some b \<longrightarrow> b_last b < t - l_ttl l)"
proof -
  let ?l = "if length (l_buckets l) > 1024 then sweep t l else l"
  let ?lim = "case bucket_of k ?l of None \<Rightarrow> rl_new ops (l_rate l) (l_burst l) | Some b \<Rightarrow> b_lim b"
  have "bucket_of k (snd (allow ops retry_of k t l)) = Some \<lparr>b_key = k, b_lim = snd (rl_allow ops t ?lim), b_last = t\<rparr>"
    by (auto simp: bucket_of_def allow_def Let_def sweep_def tbl_find_replace split: prod.split option.split)
  moreover have "fst (fst (allow ops retry_of k t l)) = fst (rl_allow ops t ?lim)"
    by (simp add: fst_allow bucket_of_def Let_def)
  moreover have "(\<exists>b. bucket_of k l = Some b \<and> ?lim = b_lim b) \<or>
      ?lim = rl_new ops (l_rate l) (l_burst l) \<and> (\<forall>b. bucket_of k l = Some b \<longrightarrow> b_last b < t - l_ttl l)"
    using assms by (auto simp: bucket_of_def sweep_def tbl_find_delete split: option.splits)
  ultimately show ?thesis by (rule that)
qed

text \<open>A request with another key leaves the bucket alone or drops it.\<close>

lemma allow_other:
  assumes "tbl_unique b_key (l_buckets l)" and "k' \<noteq> k"
  shows "bucket_of k (snd (allow ops retry_of k' t l)) = bucket_of k l \<or>
     bucket_of k (snd (allow ops retry_of k' t l)) = None \<and> (\<forall>b. bucket_of k l = Some b \<longrightarrow> b_last b < t - l_ttl l)"
proof (cases "bucket_of k l")
  case None
  with assms allow_no_bucket [of k l k' ops retry_of t] show ?thesis by (simp add: bucket_of_def)
next
  case (Some b)
  show ?thesis
  proof (cases "t \<le> b_last b + l_ttl l")
    case True
    with assms Some allow_other_bucket [of k l b k' t ops retry_of] show ?thesis by (simp add: bucket_of_def)
  next
    case False
    have "bucket_of k (snd (allow ops retry_of k' t l)) = bucket_of k l \<or> bucket_of k (snd (allow ops retry_of k' t l)) = None"
      using assms Some by (auto simp: bucket_of_def allow_def sweep_def Let_def tbl_find_delete tbl_find_replace split: prod.split if_splits)
    with Some False show ?thesis by auto
  qed
qed

section \<open>The bound\<close>

text \<open>
  \<open>m\<close> times the bucket has been dropped, after \<open>ttl\<close> without use, and came back full. The first part is about a bucket
  that was last used at \<open>b_last b\<close>, the second about any state at the time \<open>t\<close>.
\<close>

definition let_through_bound ::
  "rat \<Rightarrow> int \<Rightarrow> int \<Rightarrow> nat \<Rightarrow> rat \<Rightarrow> int \<Rightarrow> bool" where
  "let_through_bound rho burst ttl n start dur \<longleftrightarrow>
     (\<exists>m::nat. int m * ttl \<le> dur \<and>
        of_nat n \<le> start + rho * of_int dur + of_nat m * (of_int burst - rho * of_int ttl))"

lemma let_through_boundI:
  "int m * ttl \<le> dur \<Longrightarrow> of_nat n \<le> start + rho * of_int dur + of_nat m * (of_int burst - rho * of_int ttl) \<Longrightarrow>
     let_through_bound rho burst ttl n start dur"
  by (auto simp: let_through_bound_def)

text \<open>Time that passes adds tokens, a request that is let through takes one, a bucket that is dropped comes back full.\<close>

lemma bound_later:
  assumes "let_through_bound rho burst ttl n start (t1 - t)" and "start \<le> start' + rho * of_int (t - t')" and "t' \<le> t"
  shows "let_through_bound rho burst ttl n start' (t1 - t')"
proof -
  from assms(1) obtain m :: nat where m: "int m * ttl \<le> t1 - t"
      "of_nat n \<le> start + rho * of_int (t1 - t) + of_nat m * (of_int burst - rho * of_int ttl)"
    by (auto simp: let_through_bound_def)
  have "rho * of_int (t1 - t') = rho * of_int (t1 - t) + rho * of_int (t - t')" by (simp add: algebra_simps)
  with m(2) assms(2) have "of_nat n \<le> start' + rho * of_int (t1 - t') + of_nat m * (of_int burst - rho * of_int ttl)" by linarith
  with m(1) assms(3) show ?thesis by (intro let_through_boundI) auto
qed

lemma bound_take:
  "let_through_bound rho burst ttl n start dur \<Longrightarrow> start \<le> start' - of_bool ok \<Longrightarrow>
     let_through_bound rho burst ttl (of_bool ok + n) start' dur"
  by (auto simp: let_through_bound_def intro!: exI)

lemma bound_dropped:
  assumes "let_through_bound rho burst ttl n (of_int burst) (t1 - t)" and "t' + ttl \<le> t" and "0 \<le> start" and "0 \<le> rho"
  shows "let_through_bound rho burst ttl n start (t1 - t')"
proof -
  from assms(1) obtain m :: nat where m: "int m * ttl \<le> t1 - t"
      "of_nat n \<le> of_int burst + rho * of_int (t1 - t) + of_nat m * (of_int burst - rho * of_int ttl)"
    by (auto simp: let_through_bound_def)
  have "rho * of_int (t' + ttl) \<le> rho * of_int t" by (intro mult_left_mono assms(4)) (use assms(2) in simp)
  with m(2) assms(3) have "of_nat n \<le> start + rho * of_int (t1 - t') + of_nat (Suc m) * (of_int burst - rho * of_int ttl)"
    by (simp add: algebra_simps)
  moreover have "int (Suc m) * ttl \<le> t1 - t'" using m(1) assms(2) by (simp add: algebra_simps)
  ultimately show ?thesis by (rule let_through_boundI [rotated])
qed

lemma let_through_bounded:
  assumes law: "token_bucket ops burst rho tok"
    and "tbl_unique b_key (l_buckets l)" and "l_burst l = burst" and "sorted (map snd calls)"
    and "\<forall>(k', t) \<in> set calls. t0 \<le> t \<and> t \<le> t1" and "t0 \<le> t1" and "0 \<le> l_ttl l"
  shows "let_through_bound rho burst (l_ttl l) (let_through ops retry_of k calls l) (of_int burst) (t1 - t0) \<and>
     (\<forall>b. bucket_of k l = Some b \<longrightarrow> b_last b \<le> t0 \<longrightarrow>
        let_through_bound rho burst (l_ttl l) (let_through ops retry_of k calls l) (tok (b_lim b) (b_last b)) (t1 - b_last b))"
  using assms(2-)
proof (induction calls arbitrary: l t0)
  case Nil
  note tb = token_bucketD [OF law]
  have "let_through_bound rho burst (l_ttl l) 0 start (t1 - t)" if "0 \<le> start" "t \<le> t1" for start t
    using that tb(1) by (intro let_through_boundI [of 0]) simp_all
  moreover have "0 \<le> (of_int burst :: rat)" using tb(2,3) order_trans by blast
  ultimately show ?case using Nil(5) tb(2) by fastforce
next
  case (Cons call calls)
  note tb = token_bucketD [OF law]
  obtain k' t where call: "call = (k', t)" by (cases call)
  let ?l = "snd (allow ops retry_of k' t l)"
  let ?n = "let_through ops retry_of k calls ?l"
  have t: "t0 \<le> t" "t \<le> t1" using Cons.prems(4) call by auto
  have later: "\<forall>(k', t') \<in> set calls. t \<le> t' \<and> t' \<le> t1" using Cons.prems(3,4) call by fastforce
  have IH: "let_through_bound rho burst (l_ttl l) ?n (of_int burst) (t1 - t)"
      "\<And>b. bucket_of k ?l = Some b \<Longrightarrow> b_last b \<le> t \<Longrightarrow>
        let_through_bound rho burst (l_ttl l) ?n (tok (b_lim b) (b_last b)) (t1 - b_last b)"
    using Cons.IH [of ?l t] Cons.prems later t call by (simp_all add: allow_config allow_unique)
  have burst: "0 \<le> (of_int burst :: rat)" using tb(2,3) order_trans by blast
  show ?case
  proof (cases "k' = k")
    case True
    from allow_bucket [OF Cons.prems(1), of k ops retry_of t] obtain lim where
      after: "bucket_of k ?l = Some \<lparr>b_key = k, b_lim = snd (rl_allow ops t lim), b_last = t\<rparr>"
      and ok: "fst (fst (allow ops retry_of k t l)) = fst (rl_allow ops t lim)"
      and lim: "(\<exists>b. bucket_of k l = Some b \<and> lim = b_lim b) \<or> (\<forall>b. bucket_of k l = Some b \<longrightarrow> b_last b < t - l_ttl l)"
      unfolding True by blast
    let ?ok = "fst (rl_allow ops t lim)"
    have n: "let_through ops retry_of k (call # calls) l = of_bool ?ok + ?n" using ok True call by simp
    have use: "let_through_bound rho burst (l_ttl l) (of_bool ?ok + ?n) (tok lim t) (t1 - t)"
      using IH(2) [OF after] tb(5) [of t lim] by (intro bound_take [of _ _ _ _ "tok (snd (rl_allow ops t lim)) t"]) simp_all
    have full: "let_through_bound rho burst (l_ttl l) (of_bool ?ok + ?n) (of_int burst) (t1 - t)"
      by (rule bound_take [OF IH(2) [OF after, simplified]]) (use tb(3) [of lim t] tb(5) [of t lim] in linarith)
    have "let_through_bound rho burst (l_ttl l) (of_bool ?ok + ?n) (tok (b_lim b) (b_last b)) (t1 - b_last b)"
      if b: "bucket_of k l = Some b" "b_last b \<le> t0" for b
      using lim
    proof
      assume "\<exists>b. bucket_of k l = Some b \<and> lim = b_lim b"
      with b have "lim = b_lim b" by simp
      with use b(2) t tb(4) [of "b_last b" t lim] show ?thesis by (intro bound_later [OF use]) simp_all
    next
      assume "\<forall>b. bucket_of k l = Some b \<longrightarrow> b_last b < t - l_ttl l"
      with b have "b_last b + l_ttl l \<le> t" by fastforce
      from bound_dropped [OF full this] show ?thesis using tb by blast
    qed
    moreover have "let_through_bound rho burst (l_ttl l) (of_bool ?ok + ?n) (of_int burst) (t1 - t0)"
      using t tb(1) by (intro bound_later [OF full]) simp_all
    ultimately show ?thesis unfolding n by blast
  next
    case False
    have n: "let_through ops retry_of k (call # calls) l = ?n" using False call by simp
    have "let_through_bound rho burst (l_ttl l) ?n (tok (b_lim b) (b_last b)) (t1 - b_last b)"
      if b: "bucket_of k l = Some b" "b_last b \<le> t0" for b
      using allow_other [OF Cons.prems(1) False, of ops retry_of t]
    proof
      assume "bucket_of k ?l = bucket_of k l"
      with b IH(2) t show ?thesis by auto
    next
      assume "bucket_of k ?l = None \<and> (\<forall>b. bucket_of k l = Some b \<longrightarrow> b_last b < t - l_ttl l)"
      with b have "b_last b + l_ttl l \<le> t" by fastforce
      from bound_dropped [OF IH(1) this] show ?thesis using tb by blast
    qed
    moreover have "let_through_bound rho burst (l_ttl l) ?n (of_int burst) (t1 - t0)"
      using t tb(1) by (intro bound_later [OF IH(1)]) simp_all
    ultimately show ?thesis unfolding n by blast
  qed
qed

section \<open>The property\<close>

text \<open>
  C39: Bounds. A limiter lets through at most the burst and what is filled in between of the requests with one key, in any
  stretch of time and among requests with any other keys, if a bucket is full again within the ten minutes after which an
  idle one is dropped; if it is not, each time the bucket is dropped adds at most what was missing.
\<close>

theorem limiter_bounds_requests:
  assumes "token_bucket ops (l_burst l) rho tok" and "tbl_unique b_key (l_buckets l)" and "0 \<le> l_ttl l"
    and "sorted (map snd calls)" and "\<forall>(k', t) \<in> set calls. t0 \<le> t \<and> t \<le> t1" and "t0 \<le> t1"
  shows "(\<exists>m::nat. int m * l_ttl l \<le> t1 - t0 \<and>
       of_nat (let_through ops retry_of k calls l) \<le>
         of_int (l_burst l) + rho * of_int (t1 - t0) + of_nat m * (of_int (l_burst l) - rho * of_int (l_ttl l))) \<and>
     (of_int (l_burst l) \<le> rho * of_int (l_ttl l) \<longrightarrow>
       of_nat (let_through ops retry_of k calls l) \<le> of_int (l_burst l) + rho * of_int (t1 - t0))"
proof -
  obtain m :: nat where m: "int m * l_ttl l \<le> t1 - t0"
      "of_nat (let_through ops retry_of k calls l) \<le>
         of_int (l_burst l) + rho * of_int (t1 - t0) + of_nat m * (of_int (l_burst l) - rho * of_int (l_ttl l))"
    using let_through_bounded [OF assms(1,2) refl assms(4-6,3), of retry_of k] unfolding let_through_bound_def by blast
  have "of_nat m * (of_int (l_burst l) - rho * of_int (l_ttl l)) \<le> 0" if "of_int (l_burst l) \<le> rho * of_int (l_ttl l)"
    using that by (intro mult_nonneg_nonpos) simp_all
  with m show ?thesis by fastforce
qed

text \<open>A bucket of two tokens, with one more every ten nanoseconds: three of the five requests are let through.\<close>

definition ex_tokens :: "rat \<times> int \<Rightarrow> int \<Rightarrow> rat" where
  "ex_tokens = (\<lambda>(n, u) t. max 0 (min 2 (n + of_int (t - u) / 10)))"

definition ex_bucket_ops :: "(unit, rat \<times> int) rate_ops" where
  "ex_bucket_ops =
     \<lparr>rl_new = (\<lambda>_ _. (2, 0)),
      rl_allow = (\<lambda>t l. if 1 \<le> ex_tokens l t then (True, (ex_tokens l t - 1, t)) else (False, (ex_tokens l t, t))),
      rl_set_limit = (\<lambda>_ _ l. l), rl_set_burst = (\<lambda>_ _ l. l)\<rparr>"

lemma ex_token_bucket: "token_bucket ex_bucket_ops 2 (1 / 10) ex_tokens"
proof -
  have "ex_tokens l t' \<le> ex_tokens l t + 1 / 10 * of_int (t' - t)" if "t \<le> t'" for l and t t' :: int
  proof -
    obtain n u where l: "l = (n, u)" by (cases l)
    define x where "x = n + (of_int (t - u) :: rat) / 10"
    define d where "d = (of_int (t' - t) :: rat) / 10"
    have "n + of_int (t' - u) / 10 = x + d" by (simp add: x_def d_def field_simps)
    then have "ex_tokens l t' = max 0 (min 2 (x + d))" "ex_tokens l t = max 0 (min 2 x)"
      by (simp_all only: l ex_tokens_def prod.case x_def)
    moreover have "0 \<le> d" using that by (simp add: d_def)
    then have "max 0 (min 2 (x + d)) \<le> max 0 (min 2 x) + d" by linarith
    ultimately show ?thesis by (simp add: d_def)
  qed
  moreover have "0 \<le> ex_tokens l t \<and> ex_tokens l t \<le> 2" for l t by (auto simp: ex_tokens_def split: prod.split)
  moreover have "ex_tokens (snd (rl_allow ex_bucket_ops t l)) t \<le> ex_tokens l t - (if fst (rl_allow ex_bucket_ops t l) then 1 else 0)"
    for l t
    using calculation(2) [of l t] by (auto simp: ex_bucket_ops_def) (auto simp: ex_tokens_def)
  ultimately show ?thesis by (simp add: token_bucket_def)
qed

abbreviation ex_calls :: "(string \<times> int) list" where
  "ex_calls \<equiv> [(''1'', 0), (''1'', 1), (''2'', 1), (''1'', 2), (''1'', 30)]"

theorem limiter_bounds_requests_witness:
  "let_through ex_bucket_ops (\<lambda>_. 1) ''1'' ex_calls (new_limiter () 2) = 3 \<and>
     of_nat (let_through ex_bucket_ops (\<lambda>_. 1) ''1'' ex_calls (new_limiter () 2)) \<le> (2 + 1 / 10 * 30 :: rat)"
proof
  show "let_through ex_bucket_ops (\<lambda>_. 1) ''1'' ex_calls (new_limiter () 2) = 3"
    by (simp add: new_limiter_def allow_def ex_bucket_ops_def ex_tokens_def tbl_find_def tbl_replace_def)
  have l: "l_burst (new_limiter () 2) = 2" "l_buckets (new_limiter () 2) = []" "l_ttl (new_limiter () 2) = 600000000000"
    by (simp_all add: new_limiter_def)
  show "of_nat (let_through ex_bucket_ops (\<lambda>_. 1) ''1'' ex_calls (new_limiter () 2)) \<le> (2 + 1 / 10 * 30 :: rat)"
    using limiter_bounds_requests [of ex_bucket_ops "new_limiter () 2" "1 / 10" ex_tokens ex_calls 0 30 "\<lambda>_. 1" "''1''"]
      ex_token_bucket by (simp add: l)
qed

end
