(* ===== verification/LogLines.thy ===== *)
theory LogLines
  imports RelayProps ImgProps Recover
begin

text \<open>
  The lines that relay, image relay and recovery write to the log, beside the access log of \<^verbatim>\<open>Reply\<close>. A line is its message
  and its attributes. Relay and image relay log the server they asked, never the address, the header fields or a body.
\<close>

section \<open>Lines\<close>

type_synonym log_line = "string \<times> attr list"

definition relay_log :: "string \<Rightarrow> string \<Rightarrow> nat \<Rightarrow> int \<Rightarrow> string \<Rightarrow> log_line" where
  "relay_log meth host status dur rid =
     (''relay'', [Plain ''method'' meth, Plain ''host'' host, Plain ''status'' (nat_str status),
        Plain ''durMs'' (format_int dur), Plain ''requestId'' rid])"

definition img_log :: "string \<Rightarrow> nat \<Rightarrow> string \<Rightarrow> int \<Rightarrow> string \<Rightarrow> log_line" where
  "img_log host status hit dur rid =
     (''img'', [Plain ''host'' host, Plain ''status'' (nat_str status), Plain ''cache'' hit,
        Plain ''durMs'' (format_int dur), Plain ''requestId'' rid])"

definition job_log :: "string \<Rightarrow> int \<Rightarrow> (page list \<times> string) option \<Rightarrow> log_line" where
  "job_log pid dur found =
     (case found of
        Some (pages, src) \<Rightarrow>
          (''recover ready'', [Plain ''pid'' pid, Plain ''source'' src, Plain ''pages'' (nat_str (length pages)),
             Plain ''durMs'' (format_int dur)])
      | None \<Rightarrow> (''recover not_found'', [Plain ''pid'' pid, Plain ''durMs'' (format_int dur)]))"

section \<open>What a request writes\<close>

text \<open>A relay request that is refused writes nothing; an answer that cannot be used counts as 502.\<close>

definition relay_status :: "http_response option \<Rightarrow> nat" where
  "relay_status r = (case relay_finish r of Inl e \<Rightarrow> 502 | Inr resp \<Rightarrow> rp_status resp)"

definition relay_lines ::
  "url_ops \<Rightarrow> (string \<Rightarrow> string) \<Rightarrow> (string \<Rightarrow> string) \<Rightarrow> (int \<Rightarrow> transport) \<Rightarrow> string list \<Rightarrow> int \<Rightarrow> string \<Rightarrow> relay_request
     \<Rightarrow> log_line list" where
  "relay_lines uo ul uu tr hosts dur rid req =
     (case (relay_plan uo ul uu hosts req, check_url uo ul hosts (rr_url req)) of
        (Inr (q, timeout), Inr host) \<Rightarrow>
          [relay_log (hq_method q) host (relay_status (fst (client_do uo (tr timeout) q))) dur rid]
      | _ \<Rightarrow> [])"

text \<open>The image relay: after a hit, and after the download or its failure.\<close>

definition img_status :: "http_response option \<Rightarrow> nat" where
  "img_status r = (case r of None \<Rightarrow> 502 | Some p \<Rightarrow> hp_status p)"

definition img_lines ::
  "(string \<Rightarrow> string) \<Rightarrow> url_ops \<Rightarrow> (string \<Rightarrow> string) \<Rightarrow> string list \<Rightarrow> transport \<Rightarrow> (cache_step \<Rightarrow> bool) \<Rightarrow> int \<Rightarrow> int
     \<Rightarrow> string \<Rightarrow> string \<Rightarrow> string \<Rightarrow> cache_state \<Rightarrow> log_line list" where
  "img_lines sha uo ul hosts tr fail now dur rid url disp s =
     (case img_check uo ul hosts url of
        Inl e \<Rightarrow> []
      | Inr host \<Rightarrow>
          (case serve_hit fail now (cache_key sha url) (disp = ''inline'') s of
             (Some resp, c) \<Rightarrow> [img_log host 200 ''HIT'' dur rid]
           | (None, c) \<Rightarrow> [img_log host (img_status (fst (client_do uo tr (img_request url)))) ''MISS'' dur rid]))"

section \<open>What the lines show\<close>

lemmas line_defs = relay_log_def img_log_def job_log_def

text \<open>A relay line depends on the method, the server asked, which are both on the white lists, and the status.\<close>

lemma check_url_listed: "check_url uo ul hosts url = Inr host \<Longrightarrow> List.member hosts host"
  by (auto simp: check_url_def Let_def simp del: equal_fold.simps split: option.splits if_splits)

lemma relay_lines_listed:
  assumes "line \<in> set (relay_lines uo ul uu tr hosts dur rid req)"
  shows "\<exists>m h n. List.member allowed_methods m \<and> List.member hosts h \<and> line = relay_log m h n dur rid"
proof (cases "relay_plan uo ul uu hosts req")
  case (Inr p)
  obtain q t where p: "p = (q, t)" by (cases p)
  show ?thesis
  proof (cases "check_url uo ul hosts (rr_url req)")
    case host: (Inr host)
    with assms Inr p have "line = relay_log (hq_method q) host (relay_status (fst (client_do uo (tr t) q))) dur rid"
      by (simp add: relay_lines_def)
    with relay_planD [OF Inr [unfolded p]] check_url_listed [OF host] show ?thesis by blast
  qed (use assms Inr p in \<open>simp add: relay_lines_def\<close>)
qed (use assms in \<open>simp add: relay_lines_def\<close>)

lemma img_lines_listed:
  assumes "line \<in> set (img_lines sha uo ul hosts tr fail now dur rid url disp s)"
  shows "\<exists>h n hit. List.member hosts h \<and> line = img_log h n hit dur rid"
proof (cases "img_check uo ul hosts url")
  case (Inr host)
  with assms have "\<exists>n hit. line = img_log host n hit dur rid"
    by (auto simp: img_lines_def split: prod.splits option.splits)
  moreover from Inr have "List.member hosts host" by (auto simp: img_check_def dest: check_url_listed split: if_splits)
  ultimately show ?thesis by blast
qed (use assms in \<open>simp add: img_lines_def\<close>)

text \<open>A request that answers or fails writes one line with the status of its reply, a refused one none.\<close>

lemma relay_lines_status:
  assumes "relay_do uo ul uu tr hosts req = (res, qs)" and "is_ok (relay_plan uo ul uu hosts req)"
  shows "\<exists>m h. relay_lines uo ul uu tr hosts dur rid req =
     [relay_log m h (case res of Inl e \<Rightarrow> 502 | Inr resp \<Rightarrow> rp_status resp) dur rid]"
proof -
  from assms(2) obtain q t where plan: "relay_plan uo ul uu hosts req = Inr (q, t)" by (cases "relay_plan uo ul uu hosts req") auto
  with relay_planD [OF plan] obtain host where "check_url uo ul hosts (rr_url req) = Inr host"
    by (cases "check_url uo ul hosts (rr_url req)") auto
  with plan assms(1) show ?thesis
    by (auto simp: relay_lines_def relay_do_def relay_status_def split: prod.splits)
qed

text \<open>None of the keys is one that is masked, so that \<^verbatim>\<open>RedactHandler\<close> leaves the lines as they are.\<close>

lemma lines_public:
  "redact_attrs ul (snd (relay_log m h n dur rid)) = snd (relay_log m h n dur rid)"
  "redact_attrs ul (snd (img_log h n hit dur rid)) = snd (img_log h n hit dur rid)"
  "redact_attrs ul (snd (job_log pid dur found)) = snd (job_log pid dur found)"
proof -
  have "list_all (\<lambda>k. list_all is_ascii k \<and> \<not> List.member sensitive_keys (map lower_ascii k))
      [''method'', ''host'', ''status'', ''durMs'', ''requestId'', ''cache'', ''pid'', ''source'', ''pages'']"
    by code_simp
  then show "redact_attrs ul (snd (relay_log m h n dur rid)) = snd (relay_log m h n dur rid)"
    "redact_attrs ul (snd (img_log h n hit dur rid)) = snd (img_log h n hit dur rid)"
    "redact_attrs ul (snd (job_log pid dur found)) = snd (job_log pid dur found)"
    by (simp_all add: line_defs redact_attrs_def is_sensitive_def to_lower_def split: option.split)
qed

end
