(* ===== verification/Spec2Isabelle.thy ===== *)
theory Spec2Isabelle
  imports Prelude Strconv Base64 Json Common Crypto Tokens Sync SyncFacts SyncPull SyncProps SyncPullProps SyncStep SyncStepProps
    Float64 Path Cache CacheFacts CacheEvict CacheProps CacheStep CacheStepProps Auth AuthFacts AuthProps AuthStep AuthStepProps
    Http Relay RelayProps Inflight Img ImgProps
    Sources SourcesFacts SourcesProps ImgStep Recover RecoverFacts RecoverProps RecoverPool RecoverPoolProps
    Settings Admin AdminFacts AdminProps Web WebProps Config Db Startup StartupFacts StartupProps
    App AppFacts AppInv AppProps Reply ReplyFacts ReplyProps SmallServer SyncFlow Flow LimitProps LimitBound LogLines
begin

text \<open>
  Verification of the relay server (\<^verbatim>\<open>src/\<close>), a Go program that forwards requests of an image-gallery client,
  caches images, keeps the client's bookmarks in step between devices and recovers the images of deleted works.

  \<^bold>\<open>The program.\<close> \<^verbatim>\<open>cmd/server/main.go\<close> reads the environment (\<^verbatim>\<open>internal/config\<close>), opens the SQLite database and
  brings its schema up to date (\<^verbatim>\<open>internal/db\<close>), and builds the handler (\<^verbatim>\<open>internal/app\<close>). A request gets an id,
  then the cross-origin headers (\<^verbatim>\<open>internal/web/cors.go\<close>), then the router picks one of: registration and
  rotation of tokens (\<^verbatim>\<open>internal/auth\<close>); behind a bearer token and a limiter per account, the network relay
  (\<^verbatim>\<open>internal/relay\<close>), the image relay (\<^verbatim>\<open>internal/img\<close>), synchronisation (\<^verbatim>\<open>internal/sync\<close>) and recovery
  (\<^verbatim>\<open>internal/recover\<close>); behind a token and a limiter of its own, the administrator's interface
  (\<^verbatim>\<open>internal/admin\<close>); else the static front end (\<^verbatim>\<open>internal/web/spa.go\<close>). Image relay and recovery share the disk
  cache (\<^verbatim>\<open>internal/cache\<close>); synchronisation and recovery share the cipher (\<^verbatim>\<open>internal/crypto\<close>) and the table of
  entries, from which a recovery job reads the snapshot of a work; the administrator changes the limits of the
  cache, the recovery, the limiters and the invitation codes while the server runs.

  \<^bold>\<open>Theories.\<close> Each component has a theory with its state, its operations and nothing else, one or more theories
  of facts (\<^verbatim>\<open>...Facts\<close>, \<^verbatim>\<open>CacheEvict\<close>, \<^verbatim>\<open>SyncPull\<close>, \<^verbatim>\<open>AppInv\<close>), and one of properties (\<^verbatim>\<open>...Props\<close>).
  \<^item> \<^verbatim>\<open>Prelude\<close>, \<^verbatim>\<open>Strconv\<close>, \<^verbatim>\<open>Base64\<close>, \<^verbatim>\<open>Json\<close>, \<^verbatim>\<open>Float64\<close>, \<^verbatim>\<open>Path\<close>, \<^verbatim>\<open>Http\<close>: what the code uses of the Go library, and the
    tables (lists of rows with a key: \<open>tbl_find\<close>, \<open>tbl_upsert\<close>, \<open>tbl_delete\<close>, \<open>tbl_unique\<close>) that stand for SQL.
  \<^item> \<^verbatim>\<open>Common\<close>: \<^verbatim>\<open>internal/common\<close> (errors and their envelope, request ids, JSON bodies, cursors and limits of lists,
    redaction of logs, the limiter by key, the address of the client).
  \<^item> \<^verbatim>\<open>Crypto\<close>: \<^verbatim>\<open>internal/crypto\<close>. AES-GCM is the record \<open>aead\<close>; its law is \<open>aead_lawful\<close>.
  \<^item> \<^verbatim>\<open>Tokens\<close>, \<^verbatim>\<open>Sync\<close>: \<^verbatim>\<open>internal/sync\<close>. \<open>token_store\<close> is the map of cursors of \<^verbatim>\<open>TokenStore\<close>; \<open>sync_state\<close> has the two
    tables and the cursors; \<open>push\<close> and \<open>pull\<close> are \<^verbatim>\<open>Service.Push\<close> and \<^verbatim>\<open>Service.Pull\<close>. \<^verbatim>\<open>SyncPull\<close> models the client that
    pages. The interface \<open>seq_allocator\<close> states what the allocation of numbers promises.
  \<^item> \<^verbatim>\<open>Cache\<close>: \<^verbatim>\<open>internal/cache\<close>. \<open>cache_state\<close> is \<^verbatim>\<open>DiskLRU\<close> with its table and files; \<open>cache_get\<close>, \<open>cache_put\<close>,
    \<open>set_limits\<close>, \<open>evict\<close>, \<open>open_cache\<close>. The interface \<open>image_cache\<close> states what its clients rely on. \<^verbatim>\<open>CacheStep\<close>: the same
    operations one statement or file operation a step (\<open>op_step\<close>: reads, puts from the first chunk of their writer to the
    commit, evictions), any number of them at the same time (\<open>cache_run\<close>).
  \<^item> \<^verbatim>\<open>Auth\<close>: \<^verbatim>\<open>internal/auth\<close>. \<open>auth_state\<close> has the accounts, devices and invitation codes; \<open>register\<close>, \<open>refresh\<close>,
    \<open>authenticate\<close>. The interface \<open>token_service\<close> states the contract of the two kinds of token. \<^verbatim>\<open>AuthStep\<close>: rotations at
    the same time, as transactions over versions of the tables (\<open>refresh_step\<close>, \<open>auth_run\<close>).
  \<^item> \<^verbatim>\<open>Relay\<close>, \<^verbatim>\<open>Img\<close>, \<^verbatim>\<open>Inflight\<close>: \<^verbatim>\<open>internal/relay\<close>, \<^verbatim>\<open>internal/img\<close>. \<open>relay_do\<close>, \<open>img_fetch\<close>; the requests that wait for the
    same image are the step relation \<open>flight_step\<close>, and with the cache and the eviction between them \<open>img_step\<close>
    (\<^verbatim>\<open>ImgStep\<close>). \<open>inflight_table\<close> is the interface of both tables of work in flight. \<^verbatim>\<open>LogLines\<close> has what relays and jobs log.
  \<^item> \<^verbatim>\<open>Sources\<close>, \<^verbatim>\<open>Recover\<close>: \<^verbatim>\<open>internal/recover\<close>. \<open>source_fetch\<close>, \<open>work\<close> (a job), \<open>recover_query\<close>; queries and jobs that run
    together are the step relation \<open>recover_step\<close>, whose writes may fail. \<^verbatim>\<open>RecoverPool\<close> has the slots of the queue and of the
    sources, and the jobs that wait for them (\<open>job_step\<close>); what a job does next is its task, which \<open>mirror_loop\<close> and
    \<open>snapshot_loop\<close> choose as the loops of the sources do.
  \<^item> \<^verbatim>\<open>Settings\<close>, \<^verbatim>\<open>Admin\<close>: \<^verbatim>\<open>internal/admin\<close>. \<open>live_parts\<close> are the parts that can be changed, \<open>resolve\<close> and \<open>apply_all\<close> the
    settings (table, environment, default), the rest the handlers.
  \<^item> \<^verbatim>\<open>Web\<close>, \<^verbatim>\<open>Config\<close>, \<^verbatim>\<open>Db\<close>, \<^verbatim>\<open>Startup\<close>: \<^verbatim>\<open>internal/web\<close>, \<^verbatim>\<open>internal/config\<close>, \<^verbatim>\<open>internal/db\<close>, \<^verbatim>\<open>NewWithClient\<close> and \<^verbatim>\<open>main\<close>. \<open>new_app\<close>
    builds the state \<open>app\<close> from the settings and the stored data.
  \<^item> \<^verbatim>\<open>App\<close>: one request without others beside it, \<open>handle\<close>, through \<open>cors\<close>, \<open>mux\<close>, the guards and the handlers; it has no
    answer when the image server never answers (\<open>mo_hangs\<close>). \<open>app_step\<close> (in \<^verbatim>\<open>AppProps\<close>) puts requests, recovery jobs and
    evictions one after the other.
  \<^item> \<^verbatim>\<open>Reply\<close>: how an answer of \<open>handle\<close> is printed (payloads, envelope, status, headers) and the line of the access log;
    what \<^verbatim>\<open>http.ServeContent\<close> makes of the conditions and ranges of a request is an argument (\<open>content_outcome\<close>).
    \<open>serve\<close> is a request from the bytes it brings to the reply. \<^verbatim>\<open>SmallServer\<close> is a server small enough for witnesses.
  \<^item> \<^verbatim>\<open>SyncFlow\<close>, \<^verbatim>\<open>Flow\<close>: components together, from the request of one to the reply of another. \<^verbatim>\<open>SyncStep\<close>: pushes and
    pulls that run at the same time, as the step relation \<open>sync_step\<close>. \<^verbatim>\<open>LimitProps\<close>, \<^verbatim>\<open>LimitBound\<close>: the limiter
    between its clients, and how many requests of each it lets through.

  \<^bold>\<open>What the lemmas show.\<close> Synchronisation: a push refines a last-writer-wins map, numbers only grow, pages are
  complete while nothing is older than 90 days, errors roll back, accounts and domains are isolated. Cache: the total is
  exact in every state reached by operations one after the other,
  a read returns what was written, eviction ends at the watermark and takes the least recently used. Authentication:
  refresh tokens work once, registration issues one session and is closed to those without a code. Relays: the white
  lists hold, bytes are unchanged, an image is fetched once and then served from the cache. Recovery: pages found are
  in the cache, a query sees what the job found as long as nothing else writes its row, a row marked as being fetched has a running
  job or is left over from an earlier run or a failed write. Administrator:
  settings are always of their kind, a change is all or nothing and in force when it returns, listing pages are complete,
  deletion is complete and leaves the other accounts alone.
  Server: credentials decide what a request can change, and without \<^verbatim>\<open>RECOVER_SHARED\<close> what is stored of other accounts has no
  effect on its answer (\<open>put_others\<close>); all invariants hold together in every state reached by requests, jobs and
  evictions one after the other; every request is answered but for those that wait for an image server; migrations can be repeated, static files stay inside their root; every reply carries the id of
  its request, and one about an internal error shows nothing of it. Together: what one device pushes another pulls, a
  recovered page is served by the image relay. At the same time: pushes come out as if run one after the other and pulls
  see a state between them, image requests share one download, recovery jobs keep to their slots and come to an end (bounded by what their loops still allow, \<open>pool_work\<close>),
  requests of one account do not use up the allowance of another, and a limiter lets through its burst and what is filled
  in, no more, if a bucket is full again before it is dropped; reads, commits and evictions of the cache keep the total exact as long as they are about different rows, and
  a hit is a whole image in any case; a refresh token buys one new pair however many clients present it. A few properties state
  where the code does not do what it means to, at concrete inputs; they say so in their text.

  \<^bold>\<open>Conventions.\<close> A Go string is a list of bytes (\<open>string\<close>). \<open>int64\<close> is \<open>int\<close> with \<open>wrap64\<close> written wherever the code can
  overflow; times are milliseconds, those of the limiters nanoseconds. Errors are the left side of a sum. A
  statement or call that can fail is a constructor of a type such as \<open>sql_step\<close>, and an argument \<open>fail\<close> says which do;
  clocks, random bytes, the network, SHA-256, the Unicode tables, \<^verbatim>\<open>encoding/json\<close> and \<^verbatim>\<open>golang.org/x/time/rate\<close> are
  arguments too.

  \<^bold>\<open>Loops.\<close> The eviction can run for ever when files cannot be removed; \<open>evict\<close> is a partial function, and a
  theorem shows that it ends when nothing fails. Paging has fuel: \<open>pull_pages\<close> one unit for each row and one more,
  \<open>account_pages\<close> one for each account and one more, and the theorems show that this is enough. A client follows
  at most nine redirects, after which \<^verbatim>\<open>net/http\<close> gives up. Mirrors are asked for fifty pages at most
  (\<open>max_pages\<close>), which the termination of \<open>mirror_pages\<close> rests on.

  \<^bold>\<open>Not modelled.\<close> The process around the handler (listening, signals, shutdown) and the log of the start, because they
  have no result the server uses; \<^verbatim>\<open>net/http\<close> on
  the server side (the headers and texts it adds by itself), which is library code; the parser of JSON, of URLs and of
  floats, the image decoder and SQLite, which are parameters (of its transactions \<open>snapshot_law\<close> says what is relied on); the length of the waits (100 ms between two batches of
  an eviction, the limiter of a source), of which only the outcome and the order have an effect. Goroutines
  interleave only where \<open>op_step\<close>, \<open>refresh_step\<close>, \<open>flight_step\<close>, \<open>img_step\<close>, \<open>recover_step\<close>, \<open>job_step\<close>, \<open>sync_step\<close> and the properties about
  races say so. A request is otherwise one step, and \<open>app_step\<close> takes such steps one after the other: at the same time
  some of them break the total of the cache (\<open>commit_commit_race\<close>, \<open>get_race_subtracts_twice\<close>).
\<close>

end
